(* ===== verification/Prelude.thy ===== *)
theory Prelude
  imports Main "HOL-Library.Word" "HOL-Library.Monad_Syntax"
begin

text \<open>
  Shared vocabulary of the development: the machine integers of the Rust sources, the vector
  operations that can panic, and the generic list and word lemmas the components use.

  Conventions.  The shipped binary is a release build (\<open>infra/docker\<close>, no \<open>overflow-checks\<close> in
  \<open>crates/Cargo.toml\<close>), so the plain operators of a primitive integer wrap.
  \<^item> \<open>u64\<close> is \<^typ>\<open>64 word\<close>; \<open>usize\<close> and \<open>u128\<close> are \<^typ>\<open>nat\<close>, \<open>i128\<close> is \<^typ>\<open>int\<close>; where a
    plain operator of a 128-bit type can leave its range the reduction is written out with
    \<open>wrap_u128\<close> or \<open>wrap_i128\<close>;
  \<^item> a cast \<open>x as u128\<close> of a \<open>u64\<close> is \<open>unat x\<close>, \<open>x as i128\<close> is \<open>int (unat x)\<close>, and a cast
    of a wider value down to \<open>u64\<close> is \<open>of_nat x\<close>, which truncates as Rust's \<open>as\<close> does;
  \<^item> a panic (an index out of range, an \<open>expect\<close> or \<open>unwrap\<close> that fails, a division by zero) is the
    value \<open>None\<close> of an \<open>option\<close>; a Rust \<open>Result\<close> is a sum with the error on the left.
\<close>

named_theorems machine_int
named_theorems vec_simps

unbundle bit_operations_syntax

declare Option.bind_cong [fundef_cong]

section \<open>Machine integers\<close>

type_synonym u64 = "64 word"

definition wrap_u128 :: "int \<Rightarrow> nat" where
  "wrap_u128 x = nat (x mod 2 ^ 128)"

definition wrap_i128 :: "int \<Rightarrow> int" where
  "wrap_i128 x = (x + 2 ^ 127) mod 2 ^ 128 - 2 ^ 127"

definition in_u128 :: "nat \<Rightarrow> bool" where
  "in_u128 x \<longleftrightarrow> x < 2 ^ 128"

definition in_i128 :: "int \<Rightarrow> bool" where
  "in_i128 x \<longleftrightarrow> - (2 ^ 127) \<le> x \<and> x < 2 ^ 127"

definition sat_i128 :: "int \<Rightarrow> int" where
  "sat_i128 x = max (- (2 ^ 127)) (min (2 ^ 127 - 1) x)"

definition sat_u128 :: "nat \<Rightarrow> nat" where
  "sat_u128 x = min (2 ^ 128 - 1) x"

definition saturating_add_u64 :: "u64 \<Rightarrow> u64 \<Rightarrow> u64" where
  "saturating_add_u64 a b = (if unat a + unat b < 2 ^ 64 then a + b else - 1)"

definition saturating_sub_u64 :: "u64 \<Rightarrow> u64 \<Rightarrow> u64" where
  "saturating_sub_u64 a b = (if b \<le> a then a - b else 0)"

text \<open>Rust's integer division truncates towards zero.\<close>

definition trunc_div :: "int \<Rightarrow> int \<Rightarrow> int" where
  "trunc_div a b = sgn a * sgn b * (\<bar>a\<bar> div \<bar>b\<bar>)"

definition div_ceil :: "nat \<Rightarrow> nat \<Rightarrow> nat" where
  "div_ceil a b = (if a mod b = 0 then a div b else a div b + 1)"

lemma wrap_u128_id [machine_int]: "in_u128 x \<Longrightarrow> wrap_u128 (int x) = x"
  by (simp add: wrap_u128_def in_u128_def nat_mod_distrib flip: zmod_int)

lemma wrap_u128_bound [machine_int]: "in_u128 (wrap_u128 x)"
  by (simp add: wrap_u128_def in_u128_def nat_less_iff)

lemma wrap_i128_id [machine_int]: "in_i128 x \<Longrightarrow> wrap_i128 x = x"
  by (simp add: wrap_i128_def in_i128_def)

lemma wrap_i128_bound [machine_int]: "in_i128 (wrap_i128 x)"
proof -
  have "(x + 2 ^ 127) mod 2 ^ 128 < 2 ^ 128" by simp
  then show ?thesis unfolding wrap_i128_def in_i128_def by simp
qed

lemma sat_i128_id [machine_int]: "in_i128 x \<Longrightarrow> sat_i128 x = x"
  by (auto simp: sat_i128_def in_i128_def)

lemma sat_i128_bound [machine_int]: "in_i128 (sat_i128 x)"
  by (auto simp: sat_i128_def in_i128_def)

lemma unat_saturating_add_u64 [machine_int]:
  "unat (saturating_add_u64 a b) = min (2 ^ 64 - 1) (unat a + unat b)"
proof (cases "unat a + unat b < 2 ^ 64")
  case True
  then have "unat (a + b) = unat a + unat b"
    by (simp add: unat_word_ariths)
  with True show ?thesis by (simp add: saturating_add_u64_def)
next
  case False
  have "unat (- 1 :: u64) = 2 ^ 64 - 1"
    by (simp add: unsigned_minus_1_eq_mask mask_eq_exp_minus_1)
  with False show ?thesis by (simp add: saturating_add_u64_def)
qed

lemma unat_saturating_sub_u64 [machine_int]:
  "unat (saturating_sub_u64 a b) = unat a - unat b"
  by (auto simp: saturating_sub_u64_def unat_sub word_le_nat_alt)

lemma trunc_div_nonneg: "0 \<le> a \<Longrightarrow> 0 < b \<Longrightarrow> trunc_div a b = a div b"
  by (cases "a = 0") (auto simp: trunc_div_def)

lemma abs_trunc_div_le: "\<bar>trunc_div a b\<bar> \<le> \<bar>a\<bar>"
proof -
  have "\<bar>trunc_div a b\<bar> \<le> \<bar>a\<bar> div \<bar>b\<bar>"
    by (simp add: trunc_div_def abs_mult pos_imp_zdiv_nonneg_iff abs_sgn_eq)
  also have "\<dots> = int (nat \<bar>a\<bar> div nat \<bar>b\<bar>)"
    by (simp add: zdiv_int)
  also have "\<dots> \<le> int (nat \<bar>a\<bar>)"
    by (rule of_nat_mono) (rule div_le_dividend)
  finally show ?thesis by simp
qed

lemma div_ceil_ge: "0 < b \<Longrightarrow> a \<le> b * div_ceil a b"
  by (metis div_ceil_def dividend_less_times_div less_imp_le mult.commute mult_Suc_right
      add.commute mult_div_mod_eq add_0_right order_refl Suc_eq_plus1)

lemma div_ceil_less: "0 < b \<Longrightarrow> b * div_ceil a b < a + b"
proof (cases "a mod b = 0")
  case False
  assume "0 < b"
  have "b * (a div b) + a mod b = a" by simp
  with False have "b * (a div b) < a" by linarith
  with False show ?thesis by (simp add: div_ceil_def)
qed (auto simp: div_ceil_def)

section \<open>Vectors\<close>

definition vec_get :: "'a list \<Rightarrow> nat \<Rightarrow> 'a option" where
  "vec_get xs i = (if i < length xs then Some (xs ! i) else None)"

definition vec_set :: "'a list \<Rightarrow> nat \<Rightarrow> 'a \<Rightarrow> 'a list option" where
  "vec_set xs i v = (if i < length xs then Some (xs[i := v]) else None)"

definition vec_resize :: "'a list \<Rightarrow> nat \<Rightarrow> 'a \<Rightarrow> 'a list" where
  "vec_resize xs n v = take n xs @ replicate (n - length xs) v"

lemma vec_get_Some [vec_simps]: "i < length xs \<Longrightarrow> vec_get xs i = Some (xs ! i)"
  by (simp add: vec_get_def)

lemma vec_set_Some [vec_simps]: "i < length xs \<Longrightarrow> vec_set xs i v = Some (xs[i := v])"
  by (simp add: vec_set_def)

lemma vec_get_eq_Some_iff: "vec_get xs i = Some v \<longleftrightarrow> i < length xs \<and> xs ! i = v"
  by (auto simp: vec_get_def)

lemma vec_set_eq_Some_iff: "vec_set xs i v = Some ys \<longleftrightarrow> i < length xs \<and> ys = xs[i := v]"
  by (auto simp: vec_set_def)

lemma length_vec_resize [simp]: "length (vec_resize xs n v) = n"
  by (simp add: vec_resize_def)

lemma nth_vec_resize [simp]:
  "i < n \<Longrightarrow> vec_resize xs n v ! i = (if i < length xs then xs ! i else v)"
  by (auto simp: vec_resize_def nth_append)

section \<open>Floored means\<close>

lemma sum_list_le: "\<forall>p \<in> set ps. p \<le> (k :: nat) \<Longrightarrow> sum_list ps \<le> length ps * k"
  by (induction ps) auto

lemma sum_list_ge: "\<forall>p \<in> set ps. (k :: nat) \<le> p \<Longrightarrow> length ps * k \<le> sum_list ps"
  by (induction ps) auto

lemma mean_between:
  fixes ps :: "nat list"
  assumes "ps \<noteq> []"
  shows "Min (set ps) \<le> sum_list ps div length ps" and "sum_list ps div length ps \<le> Max (set ps)"
proof -
  have len: "0 < length ps" using assms by simp
  have "length ps * Min (set ps) \<le> sum_list ps" using assms by (intro sum_list_ge) auto
  then show "Min (set ps) \<le> sum_list ps div length ps" using len
    by (metis div_le_mono nonzero_mult_div_cancel_left not_gr_zero)
  have "sum_list ps \<le> length ps * Max (set ps)" using assms by (intro sum_list_le) auto
  then show "sum_list ps div length ps \<le> Max (set ps)" using len
    by (metis div_le_mono nonzero_mult_div_cancel_left not_gr_zero)
qed

section \<open>Words\<close>

lemma unat_u64_less: "unat (w :: u64) < 2 ^ 64"
proof -
  have "unat w < 2 ^ LENGTH(64)" by (rule unsigned_less)
  then show ?thesis by simp
qed

lemma unat_of_nat_u64: "n < 2 ^ 64 \<Longrightarrow> unat (of_nat n :: u64) = n"
  by (simp add: unat_of_nat)

lemma word_eq_0_iff_no_bit: "(w :: u64) = 0 \<longleftrightarrow> (\<forall>i < 64. \<not> bit w i)"
  by (auto simp: bit_eq_iff)

lemma bit_u64_less: "bit (w :: u64) i \<Longrightarrow> i < 64"
  using bit_imp_le_length [of w i] by simp

definition trailing_zeros :: "u64 \<Rightarrow> nat" where
  "trailing_zeros w = length (takeWhile (\<lambda>i. \<not> bit w i) [0..<64])"

definition leading_zeros :: "u64 \<Rightarrow> nat" where
  "leading_zeros w = length (takeWhile (\<lambda>i. \<not> bit w (63 - i)) [0..<64])"

lemma first_index_upt:
  assumes "\<exists>i < n. Q i"
  defines "k \<equiv> length (takeWhile (\<lambda>i. \<not> Q i) [0..<n])"
  shows "k < n" and "Q k" and "\<And>i. i < k \<Longrightarrow> \<not> Q i"
proof -
  have "takeWhile (\<lambda>i. \<not> Q i) [0..<n] \<noteq> [0..<n]"
    using assms(1) by (auto simp: takeWhile_eq_all_conv)
  then have less: "k < length [0..<n]"
    unfolding k_def
    by (metis length_takeWhile_le linorder_neqE_nat not_less takeWhile_eq_take take_all order_refl)
  then show "k < n" by simp
  from nth_length_takeWhile [OF less [unfolded k_def]] show "Q k"
    using less by (simp add: k_def)
  fix i assume "i < k"
  then have "takeWhile (\<lambda>i. \<not> Q i) [0..<n] ! i \<in> set (takeWhile (\<lambda>i. \<not> Q i) [0..<n])"
    by (simp add: k_def)
  then have "\<not> Q (takeWhile (\<lambda>i. \<not> Q i) [0..<n] ! i)"
    by (blast dest: set_takeWhileD)
  then show "\<not> Q i"
    using \<open>i < k\<close> less by (simp add: takeWhile_nth k_def)
qed

lemma trailing_zeros_least:
  assumes "w \<noteq> 0"
  shows "trailing_zeros w < 64" and "bit w (trailing_zeros w)"
    and "\<And>i. i < trailing_zeros w \<Longrightarrow> \<not> bit w i"
proof -
  from assms have ex: "\<exists>i < 64. bit w i" by (simp add: word_eq_0_iff_no_bit)
  note first = first_index_upt [OF ex, folded trailing_zeros_def]
  show "trailing_zeros w < 64" "bit w (trailing_zeros w)"
    and "\<And>i. i < trailing_zeros w \<Longrightarrow> \<not> bit w i" by (fact first)+
qed

lemma leading_zeros_greatest:
  assumes "w \<noteq> 0"
  shows "leading_zeros w < 64" and "bit w (63 - leading_zeros w)"
    and "\<And>i. 63 - leading_zeros w < i \<Longrightarrow> \<not> bit w i"
proof -
  from assms obtain i where "i < 64" "bit w i" by (auto simp: word_eq_0_iff_no_bit)
  then have ex: "\<exists>i < 64. bit w (63 - i)"
    by (intro exI [of _ "63 - i"]) simp
  note first = first_index_upt [OF ex, folded leading_zeros_def]
  show "leading_zeros w < 64" "bit w (63 - leading_zeros w)" by (fact first)+
  fix i assume i: "63 - leading_zeros w < i"
  show "\<not> bit w i"
  proof (cases "i < 64")
    case True
    then have "63 - i < leading_zeros w" and "63 - (63 - i) = i" using i by auto
    with first(3) show ?thesis by metis
  qed (auto dest: bit_u64_less)
qed

end
