(* ===== verification/Occupancy.thy ===== *)
theory Occupancy
  imports Prelude
begin

text \<open>
  The two-tier occupancy bitmap of \<open>crates/cerdic-tee-matcher/src/book.rs\<close> (\<open>struct Occupancy\<close>):
  one bit per price level in \<open>words\<close>, one bit per word in \<open>summary\<close>.  The bitmap is modelled at
  word level.  \<open>next_set_from\<close> and \<open>prev_set_from\<close> are proved to find the least set bit at or
  after, and the greatest at or before, an index; the locale \<open>level_index\<close> states that contract
  for the price ladder, which uses the bitmap through it alone.
\<close>

section \<open>The bitmap\<close>

record Occupancy =
  words :: "u64 list"
  summary :: "u64 list"

definition occ_default :: Occupancy where
  "occ_default = \<lparr>words = [], summary = []\<rparr>"

definition ensure_len :: "Occupancy \<Rightarrow> nat \<Rightarrow> Occupancy" where
  "ensure_len oc level_count =
     (let word_count = div_ceil level_count 64 in
      if length (words oc) < word_count
      then oc\<lparr>words := vec_resize (words oc) word_count 0,
             summary := vec_resize (summary oc) (div_ceil word_count 64) 0\<rparr>
      else oc)"

definition is_set :: "Occupancy \<Rightarrow> nat \<Rightarrow> bool" where
  "is_set oc idx =
     (let word = idx div 64 in
      word < length (words oc) \<and> words oc ! word AND push_bit (idx mod 64) 1 \<noteq> 0)"

definition occ_set :: "Occupancy \<Rightarrow> nat \<Rightarrow> Occupancy option" where
  "occ_set oc0 idx = do {
     let oc = ensure_len oc0 (idx + 1);
     let word = idx div 64;
     w \<leftarrow> vec_get (words oc) word;
     ws \<leftarrow> vec_set (words oc) word (w OR push_bit (idx mod 64) 1);
     s \<leftarrow> vec_get (summary oc) (word div 64);
     ss \<leftarrow> vec_set (summary oc) (word div 64) (s OR push_bit (word mod 64) 1);
     Some (oc\<lparr>words := ws, summary := ss\<rparr>)
   }"

definition occ_clear :: "Occupancy \<Rightarrow> nat \<Rightarrow> Occupancy option" where
  "occ_clear oc idx =
     (let word = idx div 64 in
      if length (words oc) \<le> word then Some oc
      else do {
        let w = words oc ! word AND NOT (push_bit (idx mod 64) 1);
        let oc' = oc\<lparr>words := (words oc)[word := w]\<rparr>;
        if w = 0 then do {
          s \<leftarrow> vec_get (summary oc') (word div 64);
          ss \<leftarrow> vec_set (summary oc') (word div 64) (s AND NOT (push_bit (word mod 64) 1));
          Some (oc'\<lparr>summary := ss\<rparr>)
        } else Some oc'
      })"

fun shift_bits :: "Occupancy \<Rightarrow> nat \<Rightarrow> nat list \<Rightarrow> Occupancy \<Rightarrow> Occupancy option" where
  "shift_bits oc shift [] shifted = Some shifted"
| "shift_bits oc shift (i # is) shifted =
     (if is_set oc i
      then do { shifted' \<leftarrow> occ_set shifted (i + shift); shift_bits oc shift is shifted' }
      else shift_bits oc shift is shifted)"

definition shift_up :: "Occupancy \<Rightarrow> nat \<Rightarrow> nat \<Rightarrow> Occupancy option" where
  "shift_up oc shift new_level_count =
     shift_bits oc shift [0..<length (words oc) * 64] (ensure_len occ_default new_level_count)"

function next_scan :: "Occupancy \<Rightarrow> nat \<Rightarrow> nat \<Rightarrow> nat option" where
  "next_scan oc sw mask_from_bit =
     (if sw < length (summary oc) then
        let effective = (if 64 \<le> mask_from_bit then 0
                         else summary oc ! sw AND push_bit mask_from_bit (- 1)) in
        if effective \<noteq> 0 then
          let word = sw * 64 + trailing_zeros effective in
          if length (words oc) \<le> word then None
          else Some (word * 64 + trailing_zeros (words oc ! word))
        else next_scan oc (sw + 1) 0
      else None)"
  by pat_completeness auto
termination
  by (relation "measure (\<lambda>(oc, sw, _). length (summary oc) - sw)") auto

declare next_scan.simps [simp del]

definition next_set_from :: "Occupancy \<Rightarrow> nat \<Rightarrow> nat option" where
  "next_set_from oc idx =
     (let start_word = idx div 64 in
      if length (words oc) \<le> start_word then None
      else
        let masked = words oc ! start_word AND push_bit (idx mod 64) (- 1) in
        if masked \<noteq> 0 then Some (start_word * 64 + trailing_zeros masked)
        else next_scan oc (start_word div 64) (start_word mod 64 + 1))"

text \<open>The backward scan can index out of range on a corrupt bitmap, hence the outer \<open>option\<close>.\<close>

function prev_scan :: "Occupancy \<Rightarrow> nat \<Rightarrow> nat option option" where
  "prev_scan oc sw =
     (let summary_bit = sw mod 64; summary_word = sw div 64 in
      case vec_get (summary oc) summary_word of
        None \<Rightarrow> None
      | Some s \<Rightarrow>
          let effective = s AND drop_bit (63 - summary_bit) (- 1) in
          if effective \<noteq> 0 then
            let word = summary_word * 64 + (63 - leading_zeros effective) in
            case vec_get (words oc) word of
              None \<Rightarrow> None
            | Some w \<Rightarrow> Some (Some (word * 64 + (63 - leading_zeros w)))
          else if summary_word = 0 then Some None
          else prev_scan oc (summary_word * 64 - 1))"
  by pat_completeness auto
termination
proof (relation "measure (\<lambda>(oc, sw). sw)")
  fix sw summary_bit summary_word :: nat
  assume "summary_word = sw div 64" and "summary_word \<noteq> 0"
  moreover have "sw div 64 * 64 \<le> sw" by simp
  ultimately have "summary_word * 64 - 1 < sw" by (cases "summary_word * 64") auto
  then show "((oc, summary_word * 64 - 1), oc, sw) \<in> measure (\<lambda>(oc, sw). sw)" for oc :: Occupancy
    by simp
qed simp

declare prev_scan.simps [simp del]

definition prev_set_in :: "Occupancy \<Rightarrow> nat \<Rightarrow> nat option option" where
  "prev_set_in oc idx =
     (let start_word = idx div 64; b = idx mod 64;
          masked = words oc ! start_word AND drop_bit (63 - b) (- 1) in
      if masked \<noteq> 0 then Some (Some (start_word * 64 + (63 - leading_zeros masked)))
      else if start_word = 0 then Some None
      else prev_scan oc (start_word - 1))"

definition prev_set_from :: "Occupancy \<Rightarrow> nat \<Rightarrow> nat option option" where
  "prev_set_from oc idx =
     (if words oc = [] then Some None
      else if length (words oc) \<le> idx div 64
      then prev_set_in oc (length (words oc) * 64 - 1)
      else prev_set_in oc idx)"

section \<open>Well-formed bitmaps\<close>

definition occ_ok :: "Occupancy \<Rightarrow> bool" where
  "occ_ok oc \<longleftrightarrow>
     length (summary oc) = div_ceil (length (words oc)) 64 \<and>
     (\<forall>w < 64 * length (summary oc).
        bit (summary oc ! (w div 64)) (w mod 64) \<longleftrightarrow> w < length (words oc) \<and> words oc ! w \<noteq> 0)"

lemma is_set_iff:
  "is_set oc i \<longleftrightarrow> i div 64 < length (words oc) \<and> bit (words oc ! (i div 64)) (i mod 64)"
  by (auto simp: is_set_def Let_def word_eq_0_iff_no_bit bit_simps)

lemma is_set_split:
  "b < 64 \<Longrightarrow> is_set oc (w * 64 + b) \<longleftrightarrow> w < length (words oc) \<and> bit (words oc ! w) b"
  by (simp add: is_set_iff)

lemma is_set_zero_word:
  "length (words oc) \<le> i div 64 \<or> words oc ! (i div 64) = 0 \<Longrightarrow> \<not> is_set oc i"
  by (auto simp: is_set_iff)

lemma words_le_summary: "occ_ok oc \<Longrightarrow> length (words oc) \<le> 64 * length (summary oc)"
  by (simp add: occ_ok_def div_ceil_ge)

lemma summary_bit_iff:
  "occ_ok oc \<Longrightarrow> sw < length (summary oc) \<Longrightarrow> b < 64 \<Longrightarrow>
     bit (summary oc ! sw) b \<longleftrightarrow>
       sw * 64 + b < length (words oc) \<and> words oc ! (sw * 64 + b) \<noteq> 0"
proof -
  assume ok: "occ_ok oc" and sw: "sw < length (summary oc)" and b: "b < 64"
  have "sw * 64 + b < 64 * length (summary oc)" using sw b by linarith
  then have "bit (summary oc ! ((sw * 64 + b) div 64)) ((sw * 64 + b) mod 64) \<longleftrightarrow>
       sw * 64 + b < length (words oc) \<and> words oc ! (sw * 64 + b) \<noteq> 0"
    using ok by (auto simp: occ_ok_def)
  with b show ?thesis by simp
qed

section \<open>Least and greatest set bits\<close>

definition first_from :: "(nat \<Rightarrow> bool) \<Rightarrow> nat \<Rightarrow> nat option \<Rightarrow> bool" where
  "first_from P a r =
     (case r of None \<Rightarrow> \<forall>i. a \<le> i \<longrightarrow> \<not> P i
      | Some j \<Rightarrow> a \<le> j \<and> P j \<and> (\<forall>i. a \<le> i \<and> i < j \<longrightarrow> \<not> P i))"

definition last_upto :: "(nat \<Rightarrow> bool) \<Rightarrow> nat \<Rightarrow> nat option \<Rightarrow> bool" where
  "last_upto P a r =
     (case r of None \<Rightarrow> \<forall>i. i \<le> a \<longrightarrow> \<not> P i
      | Some j \<Rightarrow> j \<le> a \<and> P j \<and> (\<forall>i. j < i \<and> i \<le> a \<longrightarrow> \<not> P i))"

lemma first_from_extend:
  "a \<le> b \<Longrightarrow> (\<And>i. a \<le> i \<Longrightarrow> i < b \<Longrightarrow> \<not> P i) \<Longrightarrow> first_from P b r \<Longrightarrow> first_from P a r"
  unfolding first_from_def by (cases r) (simp_all, (meson linorder_not_le order_trans)+)

lemma last_upto_extend:
  "b \<le> a \<Longrightarrow> (\<And>i. b < i \<Longrightarrow> i \<le> a \<Longrightarrow> \<not> P i) \<Longrightarrow> last_upto P b r \<Longrightarrow> last_upto P a r"
  unfolding last_upto_def by (cases r) (simp_all, (meson linorder_not_le order_trans)+)

lemma first_from_unique: "first_from P a r \<Longrightarrow> first_from P a r' \<Longrightarrow> r = r'"
  unfolding first_from_def
  by (cases r; cases r') (simp_all, blast, blast, metis linorder_neqE_nat)

lemma last_upto_unique: "last_upto P a r \<Longrightarrow> last_upto P a r' \<Longrightarrow> r = r'"
  unfolding last_upto_def
  by (cases r; cases r') (simp_all, blast, blast, metis linorder_neqE_nat)

lemma first_in_word:
  assumes "w < length (words oc)" and "m = words oc ! w AND push_bit b (- 1)" and "m \<noteq> 0"
  shows "first_from (is_set oc) (w * 64 + b) (Some (w * 64 + trailing_zeros m))"
proof -
  note tz = trailing_zeros_least [OF assms(3)]
  have bits: "bit m i \<longleftrightarrow> bit (words oc ! w) i \<and> b \<le> i \<and> i < 64" for i
    by (auto simp: assms(2) bit_simps dest: bit_u64_less)
  have "\<not> is_set oc i" if "w * 64 + b \<le> i" "i < w * 64 + trailing_zeros m" for i
  proof -
    have "i div 64 = w" using that tz(1) by (intro div_nat_eqI) auto
    then have "i div 64 = w" and "i mod 64 = i - w * 64" by (auto simp: modulo_nat_def)
    moreover have "\<not> bit m (i - w * 64)" using that tz(3) by auto
    ultimately show ?thesis using that tz(1) by (auto simp: is_set_iff bits)
  qed
  then show ?thesis
    using tz(1,2) assms(1) by (auto simp: first_from_def is_set_split bits)
qed

lemma last_in_word:
  assumes "w < length (words oc)" and "m = words oc ! w AND drop_bit (63 - b) (- 1)" and "m \<noteq> 0"
    and "b < 64"
  shows "last_upto (is_set oc) (w * 64 + b) (Some (w * 64 + (63 - leading_zeros m)))"
proof -
  note lz = leading_zeros_greatest [OF assms(3)]
  have bits: "bit m i \<longleftrightarrow> bit (words oc ! w) i \<and> i \<le> b" for i
    using assms(4) by (auto simp: assms(2) bit_simps)
  have "\<not> is_set oc i" if "w * 64 + (63 - leading_zeros m) < i" "i \<le> w * 64 + b" for i
  proof -
    have "i div 64 = w" using that assms(4) by (intro div_nat_eqI) auto
    then have "i div 64 = w" and "i mod 64 = i - w * 64" by (auto simp: modulo_nat_def)
    moreover have "\<not> bit m (i - w * 64)" using that by (intro lz(3)) auto
    ultimately show ?thesis using that by (auto simp: is_set_iff bits)
  qed
  then show ?thesis
    using lz(2) assms(1) by (auto simp: last_upto_def is_set_split bits)
qed

lemma no_bit_in_empty_words:
  "(\<And>w. a \<le> w \<Longrightarrow> w < b \<Longrightarrow> length (words oc) \<le> w \<or> words oc ! w = 0) \<Longrightarrow>
     a * 64 \<le> i \<Longrightarrow> i < b * 64 \<Longrightarrow> \<not> is_set oc i"
proof (rule is_set_zero_word)
  assume empty: "\<And>w. a \<le> w \<Longrightarrow> w < b \<Longrightarrow> length (words oc) \<le> w \<or> words oc ! w = 0"
    and i: "a * 64 \<le> i" "i < b * 64"
  have "a \<le> i div 64" "i div 64 < b"
    using i by (simp_all add: less_eq_div_iff_mult_less_eq div_less_iff_less_mult)
  then show "length (words oc) \<le> i div 64 \<or> words oc ! (i div 64) = 0" by (rule empty)
qed

lemma next_scan_first:
  "occ_ok oc \<Longrightarrow> mb \<le> 64 \<Longrightarrow> first_from (is_set oc) ((sw * 64 + mb) * 64) (next_scan oc sw mb)"
proof (induction oc sw mb rule: next_scan.induct)
  case (1 oc sw mb)
  note ok = \<open>occ_ok oc\<close>
  define eff where "eff = (if 64 \<le> mb then 0 else summary oc ! sw AND push_bit mb (- 1))"
  have eff_bit: "bit eff i \<longleftrightarrow> bit (summary oc ! sw) i \<and> mb \<le> i" for i
    using bit_u64_less [of "summary oc ! sw" i] by (auto simp: eff_def bit_simps)
  have unfold: "next_scan oc sw mb =
      (if sw < length (summary oc) then
         if eff \<noteq> 0 then
           if length (words oc) \<le> sw * 64 + trailing_zeros eff then None
           else Some ((sw * 64 + trailing_zeros eff) * 64
                      + trailing_zeros (words oc ! (sw * 64 + trailing_zeros eff)))
         else next_scan oc (sw + 1) 0
       else None)"
    by (subst next_scan.simps) (simp only: Let_def eff_def)
  show ?case
  proof (cases "sw < length (summary oc)")
    case False
    then have "length (words oc) \<le> sw * 64 + mb"
      using words_le_summary [OF ok] by simp
    then have "\<not> is_set oc i" if "(sw * 64 + mb) * 64 \<le> i" for i
      using that by (intro is_set_zero_word) (simp add: less_eq_div_iff_mult_less_eq)
    with False show ?thesis by (simp add: unfold first_from_def)
  next
    case sw: True
    note sum_bit = summary_bit_iff [OF ok sw]
    show ?thesis
    proof (cases "eff = 0")
      case True
      have "length (words oc) \<le> w \<or> words oc ! w = 0" if "sw * 64 + mb \<le> w" "w < (sw + 1) * 64" for w
      proof -
        have "w - sw * 64 < 64" "mb \<le> w - sw * 64" "sw * 64 + (w - sw * 64) = w" using that by auto
        moreover have "\<not> bit eff (w - sw * 64)" by (simp add: True)
        ultimately show ?thesis using sum_bit [of "w - sw * 64"] by (auto simp: eff_bit)
      qed
      then have none: "\<not> is_set oc i" if "(sw * 64 + mb) * 64 \<le> i" "i < (sw + 1) * 64 * 64" for i
        using that no_bit_in_empty_words by blast
      have rest: "first_from (is_set oc) ((sw + 1) * 64 * 64) (next_scan oc (sw + 1) 0)"
        using "1.IH" [OF sw refl] True ok by (simp add: eff_def)
      have "first_from (is_set oc) ((sw * 64 + mb) * 64) (next_scan oc (sw + 1) 0)"
        by (rule first_from_extend [OF _ none rest]) (use \<open>mb \<le> 64\<close> in simp_all)
      with True sw show ?thesis by (simp only: unfold) simp
    next
      case False
      note tz = trailing_zeros_least [OF False]
      let ?w = "sw * 64 + trailing_zeros eff"
      have w: "?w < length (words oc)" "words oc ! ?w \<noteq> 0" "mb \<le> trailing_zeros eff"
        using tz(1,2) sum_bit by (auto simp: eff_bit)
      have "length (words oc) \<le> w \<or> words oc ! w = 0" if "sw * 64 + mb \<le> w" "w < ?w" for w
      proof -
        have "w - sw * 64 < 64" "mb \<le> w - sw * 64" "sw * 64 + (w - sw * 64) = w"
          "w - sw * 64 < trailing_zeros eff" using that tz(1) by auto
        moreover from this have "\<not> bit eff (w - sw * 64)" by (intro tz(3))
        ultimately show ?thesis using sum_bit [of "w - sw * 64"] by (auto simp: eff_bit)
      qed
      then have none: "\<not> is_set oc i" if "(sw * 64 + mb) * 64 \<le> i" "i < ?w * 64" for i
        using that no_bit_in_empty_words by blast
      have found: "first_from (is_set oc) (?w * 64) (Some (?w * 64 + trailing_zeros (words oc ! ?w)))"
        using first_in_word [of ?w oc "words oc ! ?w" 0] w by simp
      have "first_from (is_set oc) ((sw * 64 + mb) * 64)
          (Some (?w * 64 + trailing_zeros (words oc ! ?w)))"
        by (rule first_from_extend [OF _ none found]) (use w(3) in simp_all)
      with False sw w(1) show ?thesis by (simp only: unfold) simp
    qed
  qed
qed

lemma next_set_from_first:
  assumes "occ_ok oc"
  shows "first_from (is_set oc) idx (next_set_from oc idx)"
proof (cases "length (words oc) \<le> idx div 64")
  case True
  then have "\<not> is_set oc i" if "idx \<le> i" for i
    using div_le_mono [OF that, of 64] by (intro is_set_zero_word) simp
  with True show ?thesis by (simp add: next_set_from_def first_from_def)
next
  case False
  let ?w = "idx div 64"
  define masked where "masked = words oc ! ?w AND push_bit (idx mod 64) (- 1)"
  have bits: "bit masked i \<longleftrightarrow> bit (words oc ! ?w) i \<and> idx mod 64 \<le> i" for i
    using bit_u64_less [of "words oc ! ?w" i] by (auto simp: masked_def bit_simps)
  have idx: "?w * 64 + idx mod 64 = idx" by simp
  show ?thesis
  proof (cases "masked = 0")
    case True
    have none: "\<not> is_set oc i" if "idx \<le> i" "i < (?w + 1) * 64" for i
    proof -
      have "i div 64 = ?w" using that div_le_mono [of idx i 64]
        by (metis add.commute div_less_iff_less_mult less_Suc_eq_le order_antisym plus_1_eq_Suc zero_less_numeral)
      moreover from this have "idx mod 64 \<le> i mod 64" using that by (simp add: modulo_nat_def)
      moreover have "\<not> bit masked (i mod 64)" by (simp add: True)
      ultimately show ?thesis by (simp add: is_set_iff bits)
    qed
    have "?w div 64 * 64 + (?w mod 64 + 1) = ?w + 1" and "?w mod 64 + 1 \<le> 64" by simp_all
    with next_scan_first [OF assms, of "?w mod 64 + 1" "?w div 64"]
    have rest: "first_from (is_set oc) ((?w + 1) * 64) (next_scan oc (?w div 64) (?w mod 64 + 1))"
      by metis
    have "first_from (is_set oc) idx (next_scan oc (?w div 64) (?w mod 64 + 1))"
      by (rule first_from_extend [OF _ none rest]) simp_all
    with True False show ?thesis by (simp add: next_set_from_def masked_def Let_def)
  next
    case nz: False
    with first_in_word [of ?w oc masked "idx mod 64"] False idx show ?thesis
      by (simp add: next_set_from_def masked_def Let_def)
  qed
qed

lemma prev_scan_last:
  "occ_ok oc \<Longrightarrow> sw < length (words oc) \<Longrightarrow>
     \<exists>r. prev_scan oc sw = Some r \<and> last_upto (is_set oc) (sw * 64 + 63) r"
proof (induction oc sw rule: prev_scan.induct)
  case (1 oc sw)
  note ok = \<open>occ_ok oc\<close>
  let ?sb = "sw mod 64" and ?sW = "sw div 64"
  have "sw < 64 * length (summary oc)"
    using "1.prems" words_le_summary [OF ok] by linarith
  then have sW: "?sW < length (summary oc)" by (simp add: div_less_iff_less_mult mult.commute)
  note sum_bit = summary_bit_iff [OF ok sW]
  define eff where "eff = summary oc ! ?sW AND drop_bit (63 - ?sb) (- 1)"
  have eff_bit: "bit eff i \<longleftrightarrow> bit (summary oc ! ?sW) i \<and> i \<le> ?sb" for i
    by (auto simp: eff_def bit_simps)
  have unfold: "prev_scan oc sw =
      (if eff \<noteq> 0 then
         case vec_get (words oc) (?sW * 64 + (63 - leading_zeros eff)) of None \<Rightarrow> None
         | Some w \<Rightarrow> Some (Some ((?sW * 64 + (63 - leading_zeros eff)) * 64 + (63 - leading_zeros w)))
       else if ?sW = 0 then Some None else prev_scan oc (?sW * 64 - 1))"
    by (subst prev_scan.simps) (simp only: Let_def eff_def vec_get_Some [OF sW] option.case)
  have sw_eq: "?sW * 64 + ?sb = sw" by simp
  show ?case
  proof (cases "eff = 0")
    case True
    have "length (words oc) \<le> w \<or> words oc ! w = 0" if "?sW * 64 \<le> w" "w < sw + 1" for w
    proof -
      have "w - ?sW * 64 < 64" "w - ?sW * 64 \<le> ?sb" "?sW * 64 + (w - ?sW * 64) = w"
        using that sw_eq mod_less_divisor [of 64 sw] by linarith+
      moreover have "\<not> bit eff (w - ?sW * 64)" by (simp add: True)
      ultimately show ?thesis using sum_bit [of "w - ?sW * 64"] by (auto simp: eff_bit)
    qed
    then have none: "\<not> is_set oc i" if "?sW * 64 * 64 \<le> i" "i < (sw + 1) * 64" for i
      using that no_bit_in_empty_words by blast
    show ?thesis
    proof (cases "?sW = 0")
      case zero: True
      then have "last_upto (is_set oc) (sw * 64 + 63) None"
        using none by (simp add: last_upto_def)
      with True zero show ?thesis by (simp only: unfold) simp
    next
      case False
      let ?p = "?sW * 64 - 1"
      have "?p < length (words oc)" using "1.prems"(2) sw_eq by linarith
      then obtain r where r: "prev_scan oc ?p = Some r" "last_upto (is_set oc) (?p * 64 + 63) r"
        using "1.IH" [OF refl refl vec_get_Some [OF sW] refl] True False ok by (auto simp: eff_def)
      have "?p * 64 + 63 < ?sW * 64 * 64" "?sW * 64 * 64 \<le> Suc (?p * 64 + 63)" using False by auto
      then have "last_upto (is_set oc) (sw * 64 + 63) r"
        using none sw_eq by (intro last_upto_extend [OF _ _ r(2)]) (linarith, simp)
      with r(1) True False show ?thesis by (simp only: unfold) simp
    qed
  next
    case False
    note lz = leading_zeros_greatest [OF False]
    let ?b = "63 - leading_zeros eff"
    let ?w = "?sW * 64 + ?b"
    have b: "?b < 64" "?b \<le> ?sb" using lz(2) by (auto simp: eff_bit)
    have w: "?w < length (words oc)" "words oc ! ?w \<noteq> 0"
      using lz(2) sum_bit [OF b(1)] by (auto simp: eff_bit)
    have "length (words oc) \<le> w \<or> words oc ! w = 0" if "?w + 1 \<le> w" "w < sw + 1" for w
    proof -
      have "w - ?sW * 64 < 64" "w - ?sW * 64 \<le> ?sb" "?sW * 64 + (w - ?sW * 64) = w"
        "?b < w - ?sW * 64" using that sw_eq mod_less_divisor [of 64 sw] by linarith+
      moreover from this have "\<not> bit eff (w - ?sW * 64)" by (intro lz(3))
      ultimately show ?thesis using sum_bit [of "w - ?sW * 64"] by (auto simp: eff_bit)
    qed
    then have none: "\<not> is_set oc i" if "(?w + 1) * 64 \<le> i" "i < (sw + 1) * 64" for i
      using that no_bit_in_empty_words by blast
    have found: "last_upto (is_set oc) (?w * 64 + 63)
        (Some (?w * 64 + (63 - leading_zeros (words oc ! ?w))))"
      using last_in_word [of ?w oc "words oc ! ?w" 63] w by simp
    have "?w \<le> sw" using b(2) sw_eq by linarith
    then have "last_upto (is_set oc) (sw * 64 + 63)
        (Some (?w * 64 + (63 - leading_zeros (words oc ! ?w))))"
      using none by (intro last_upto_extend [OF _ _ found]) simp_all
    with False show ?thesis by (simp only: unfold vec_get_Some [OF w(1)]) simp
  qed
qed

lemma prev_set_in_last:
  assumes "occ_ok oc" and "idx div 64 < length (words oc)"
  shows "\<exists>r. prev_set_in oc idx = Some r \<and> last_upto (is_set oc) idx r"
proof -
  let ?w = "idx div 64" and ?b = "idx mod 64"
  define masked where "masked = words oc ! ?w AND drop_bit (63 - ?b) (- 1)"
  have bits: "bit masked i \<longleftrightarrow> bit (words oc ! ?w) i \<and> i \<le> ?b" for i
    by (auto simp: masked_def bit_simps)
  have unfold: "prev_set_in oc idx =
      (if masked \<noteq> 0 then Some (Some (?w * 64 + (63 - leading_zeros masked)))
       else if ?w = 0 then Some None else prev_scan oc (?w - 1))"
    by (simp only: prev_set_in_def masked_def Let_def)
  have idx: "?w * 64 + ?b = idx" by simp
  show ?thesis
  proof (cases "masked = 0")
    case True
    have none: "\<not> is_set oc i" if "?w * 64 \<le> i" "i \<le> idx" for i
    proof -
      have "i div 64 \<le> ?w" "?w \<le> i div 64"
        using that by (auto intro: div_le_mono simp: less_eq_div_iff_mult_less_eq)
      then have "i div 64 = ?w" by (rule order_antisym)
      moreover from this have "i mod 64 \<le> ?b" using that by (simp add: modulo_nat_def)
      moreover have "\<not> bit masked (i mod 64)" by (simp add: True)
      ultimately show ?thesis by (simp add: is_set_iff bits)
    qed
    show ?thesis
    proof (cases "?w = 0")
      case zero: True
      then have "last_upto (is_set oc) idx None" using none by (simp add: last_upto_def)
      with True zero show ?thesis by (simp only: unfold) simp
    next
      case False
      have "?w - 1 < length (words oc)" using assms(2) by linarith
      from prev_scan_last [OF assms(1) this] obtain r where r: "prev_scan oc (?w - 1) = Some r"
          "last_upto (is_set oc) ((?w - 1) * 64 + 63) r" by blast
      have "(?w - 1) * 64 + 63 \<le> idx" "\<And>i. (?w - 1) * 64 + 63 < i \<Longrightarrow> ?w * 64 \<le> i"
        using False idx by linarith+
      then have "last_upto (is_set oc) idx r"
        using none by (intro last_upto_extend [OF _ _ r(2)]) simp_all
      with r(1) True False show ?thesis by (simp only: unfold) simp
    qed
  next
    case False
    with last_in_word [OF assms(2) masked_def] idx show ?thesis by (simp only: unfold) simp
  qed
qed

lemma prev_set_from_last:
  assumes "occ_ok oc"
  shows "\<exists>r. prev_set_from oc idx = Some r \<and> last_upto (is_set oc) idx r"
proof (cases "words oc = []")
  case True
  then show ?thesis by (simp add: prev_set_from_def last_upto_def is_set_iff)
next
  case nonempty: False
  show ?thesis
  proof (cases "length (words oc) \<le> idx div 64")
    case True
    let ?top = "length (words oc) * 64 - 1"
    have "?top div 64 < length (words oc)" using nonempty by (simp add: div_less_iff_less_mult)
    then obtain r where r: "prev_set_in oc ?top = Some r" "last_upto (is_set oc) ?top r"
      using prev_set_in_last [OF assms] by blast
    have "\<not> is_set oc i" if "?top < i" for i
    proof (rule is_set_zero_word)
      have "length (words oc) * 64 \<le> i" using that by linarith
      then show "length (words oc) \<le> i div 64 \<or> words oc ! (i div 64) = 0"
        by (simp add: less_eq_div_iff_mult_less_eq)
    qed
    moreover have "?top \<le> idx" using True by (simp add: less_eq_div_iff_mult_less_eq)
    ultimately have "last_upto (is_set oc) idx r"
      by (intro last_upto_extend [OF _ _ r(2)]) simp_all
    with r(1) True nonempty show ?thesis by (simp add: prev_set_from_def)
  next
    case False
    with prev_set_in_last [OF assms, of idx] nonempty show ?thesis
      by (simp add: prev_set_from_def)
  qed
qed

section \<open>Mutation\<close>

lemma ensure_len_words [simp]:
  "length (words (ensure_len oc n)) = max (length (words oc)) (div_ceil n 64)"
  by (simp add: ensure_len_def Let_def)

lemma is_set_ensure_len [simp]: "is_set (ensure_len oc n) i = is_set oc i"
  by (auto simp: is_set_iff ensure_len_def Let_def split: if_splits)

lemma occ_ok_default [simp]: "occ_ok occ_default"
  by (simp add: occ_ok_def occ_default_def div_ceil_def)

lemma is_set_default [simp]: "\<not> is_set occ_default i"
  by (simp add: is_set_iff occ_default_def)

lemma occ_ok_ensure_len [simp]:
  assumes "occ_ok oc"
  shows "occ_ok (ensure_len oc n)"
proof (cases "length (words oc) < div_ceil n 64")
  case True
  let ?wc = "div_ceil n 64"
  have len: "length (words oc) \<le> 64 * length (summary oc)" by (rule words_le_summary [OF assms])
  have "bit ((vec_resize (summary oc) (div_ceil ?wc 64) 0) ! (w div 64)) (w mod 64) \<longleftrightarrow>
      w < ?wc \<and> vec_resize (words oc) ?wc 0 ! w \<noteq> 0" if "w < 64 * div_ceil ?wc 64" for w
  proof -
    have w: "w div 64 < div_ceil ?wc 64" using that by (simp add: div_less_iff_less_mult mult.commute)
    show ?thesis
    proof (cases "w div 64 < length (summary oc)")
      case old: True
      have "bit (summary oc ! (w div 64)) (w mod 64) \<longleftrightarrow> w < length (words oc) \<and> words oc ! w \<noteq> 0"
        using summary_bit_iff [OF assms old, of "w mod 64"] by simp
      with w old True show ?thesis by (auto split: if_splits)
    next
      case False
      then have "length (words oc) \<le> w" using len by (simp add: not_less less_eq_div_iff_mult_less_eq)
      with w False show ?thesis by auto
    qed
  qed
  with True show ?thesis by (simp add: occ_ok_def ensure_len_def Let_def)
qed (use assms in \<open>simp add: ensure_len_def Let_def\<close>)

lemma summary_word_in_range:
  "occ_ok oc \<Longrightarrow> v < length (words oc) \<Longrightarrow> v div 64 < length (summary oc)"
  using words_le_summary [of oc] by (simp add: div_less_iff_less_mult mult.commute)

lemma mod_eq_of_same_div: "w div 64 = v div 64 \<Longrightarrow> (w mod 64 = v mod 64) = (w = (v :: nat))"
  by (metis div_mult_mod_eq)

lemma or_single_nonzero: "n < 64 \<Longrightarrow> (x :: u64) OR push_bit n 1 \<noteq> 0"
  by (auto simp: word_eq_0_iff_no_bit bit_simps)

lemma occ_set_spec:
  assumes "occ_ok oc0"
  shows "\<exists>oc. occ_set oc0 idx = Some oc \<and> occ_ok oc \<and>
     (\<forall>i. is_set oc i \<longleftrightarrow> i = idx \<or> is_set oc0 i) \<and>
     length (words oc) = max (length (words oc0)) (div_ceil (idx + 1) 64)"
proof -
  define oc where "oc = ensure_len oc0 (idx + 1)"
  let ?v = "idx div 64"
  have ok: "occ_ok oc" using assms by (simp add: oc_def)
  have "idx < 64 * div_ceil (idx + 1) 64" using div_ceil_ge [of 64 "idx + 1"] by simp
  then have v: "?v < length (words oc)"
    by (simp add: oc_def div_less_iff_less_mult mult.commute less_max_iff_disj)
  note vs = summary_word_in_range [OF ok v]
  let ?ws = "(words oc)[?v := words oc ! ?v OR push_bit (idx mod 64) 1]"
  let ?s = "summary oc ! (?v div 64) OR push_bit (?v mod 64) 1"
  let ?oc = "oc\<lparr>words := ?ws, summary := (summary oc)[?v div 64 := ?s]\<rparr>"
  have run: "occ_set oc0 idx = Some ?oc"
    unfolding occ_set_def Let_def oc_def [symmetric] using v vs by (simp add: vec_simps)
  have "bit ((summary oc)[?v div 64 := ?s] ! (w div 64)) (w mod 64) \<longleftrightarrow>
      w < length ?ws \<and> ?ws ! w \<noteq> 0" if "w < 64 * length (summary oc)" for w
  proof (cases "w div 64 = ?v div 64")
    case True
    then have "?v div 64 * 64 + w mod 64 = w" by (metis div_mult_mod_eq)
    with summary_bit_iff [OF ok vs, of "w mod 64"]
    have "bit ?s (w mod 64) \<longleftrightarrow> w < length (words oc) \<and> words oc ! w \<noteq> 0 \<or> w = ?v"
      using mod_eq_of_same_div [OF True] by (auto simp: bit_simps)
    moreover have "bit ((summary oc)[?v div 64 := ?s] ! (w div 64)) (w mod 64) = bit ?s (w mod 64)"
      using True vs by simp
    ultimately show ?thesis
      using v or_single_nonzero [of "idx mod 64" "words oc ! ?v"] by (cases "w = ?v") simp_all
  next
    case False
    then have "w \<noteq> ?v" by auto
    moreover have "w div 64 < length (summary oc)"
      using that by (simp add: div_less_iff_less_mult mult.commute)
    ultimately show ?thesis
      using False summary_bit_iff [OF ok, of "w div 64" "w mod 64"] by simp
  qed
  then have "occ_ok ?oc" using ok by (simp add: occ_ok_def)
  moreover have "is_set ?oc i \<longleftrightarrow> i = idx \<or> is_set oc i" for i
    using v mod_eq_of_same_div [of i idx]
    by (cases "i div 64 = ?v") (auto simp: is_set_iff bit_simps)
  ultimately show ?thesis using run by (simp add: oc_def)
qed

lemma occ_clear_spec:
  assumes "occ_ok oc"
  shows "\<exists>oc'. occ_clear oc idx = Some oc' \<and> occ_ok oc' \<and>
     (\<forall>i. is_set oc' i \<longleftrightarrow> i \<noteq> idx \<and> is_set oc i) \<and> length (words oc') = length (words oc)"
proof (cases "length (words oc) \<le> idx div 64")
  case True
  then have "\<not> is_set oc idx" by (simp add: is_set_iff)
  with True assms show ?thesis by (auto simp: occ_clear_def)
next
  case False
  let ?v = "idx div 64"
  have v: "?v < length (words oc)" using False by simp
  note vs = summary_word_in_range [OF assms v]
  define w0 where "w0 = words oc ! ?v AND NOT (push_bit (idx mod 64) 1)"
  let ?ws = "(words oc)[?v := w0]"
  let ?s = "summary oc ! (?v div 64) AND NOT (push_bit (?v mod 64) 1)"
  let ?oc = "if w0 = 0 then oc\<lparr>words := ?ws, summary := (summary oc)[?v div 64 := ?s]\<rparr>
             else oc\<lparr>words := ?ws\<rparr>"
  have run: "occ_clear oc idx = Some ?oc"
    using v vs by (simp add: occ_clear_def Let_def vec_simps w0_def)
  have w0_bit: "bit w0 b \<longleftrightarrow> bit (words oc ! ?v) b \<and> b \<noteq> idx mod 64" for b
    by (auto simp: w0_def bit_simps dest: bit_u64_less)
  have ws: "words ?oc = ?ws" by simp
  have set: "is_set ?oc i \<longleftrightarrow> i \<noteq> idx \<and> is_set oc i" for i
    unfolding is_set_iff ws using v mod_eq_of_same_div [of i idx]
    by (cases "i div 64 = ?v") (auto simp: w0_bit)
  have bit0: "words oc ! ?v \<noteq> 0" if "w0 \<noteq> 0" using that by (auto simp: w0_def)
  have "bit (summary ?oc ! (w div 64)) (w mod 64) \<longleftrightarrow> w < length ?ws \<and> ?ws ! w \<noteq> 0"
    if that: "w < 64 * length (summary oc)" for w
  proof (cases "w0 = 0")
    case zero: True
    show ?thesis
    proof (cases "w div 64 = ?v div 64")
      case True
      then have "?v div 64 * 64 + w mod 64 = w" by (metis div_mult_mod_eq)
      with summary_bit_iff [OF assms vs, of "w mod 64"]
      have "bit ?s (w mod 64) \<longleftrightarrow> w < length (words oc) \<and> words oc ! w \<noteq> 0 \<and> w \<noteq> ?v"
        using mod_eq_of_same_div [OF True] by (auto simp: bit_simps)
      moreover have "bit ((summary oc)[?v div 64 := ?s] ! (w div 64)) (w mod 64) = bit ?s (w mod 64)"
        using True vs by simp
      ultimately show ?thesis using v zero by (cases "w = ?v") simp_all
    next
      case False
      then have "w \<noteq> ?v" by auto
      moreover have "w div 64 < length (summary oc)"
        using that by (simp add: div_less_iff_less_mult mult.commute)
      ultimately show ?thesis
        using False zero summary_bit_iff [OF assms, of "w div 64" "w mod 64"] by simp
    qed
  next
    case nz: False
    have "w div 64 < length (summary oc)" using that by (simp add: div_less_iff_less_mult mult.commute)
    with summary_bit_iff [OF assms this, of "w mod 64"] nz bit0 v show ?thesis
      by (cases "w = ?v") simp_all
  qed
  moreover have "length (summary ?oc) = length (summary oc)" by simp
  ultimately have "occ_ok ?oc"
    using assms unfolding occ_ok_def ws by (simp only: length_list_update) blast
  moreover have "length (words ?oc) = length (words oc)" by simp
  ultimately show ?thesis using run set by blast
qed

lemma shift_bits_spec:
  "occ_ok shifted \<Longrightarrow> \<exists>oc'. shift_bits oc shift is shifted = Some oc' \<and> occ_ok oc' \<and>
     (\<forall>j. is_set oc' j \<longleftrightarrow> is_set shifted j \<or> (\<exists>i \<in> set is. is_set oc i \<and> j = i + shift))"
proof (induction "is" arbitrary: shifted)
  case (Cons i "is")
  show ?case
  proof (cases "is_set oc i")
    case True
    from occ_set_spec [OF Cons.prems] obtain s1 where s1: "occ_set shifted (i + shift) = Some s1"
      "occ_ok s1" "\<And>j. is_set s1 j \<longleftrightarrow> j = i + shift \<or> is_set shifted j" by blast
    from Cons.IH [OF s1(2)] s1 True show ?thesis by auto
  next
    case False
    from Cons.IH [OF Cons.prems] False show ?thesis by auto
  qed
qed simp

lemma shift_up_spec:
  assumes "occ_ok oc"
  shows "\<exists>oc'. shift_up oc shift n = Some oc' \<and> occ_ok oc' \<and>
     (\<forall>j. is_set oc' j \<longleftrightarrow> shift \<le> j \<and> is_set oc (j - shift))"
proof -
  obtain oc' where oc': "shift_up oc shift n = Some oc'" "occ_ok oc'"
    "\<And>j. is_set oc' j \<longleftrightarrow> (\<exists>i \<in> {0..<length (words oc) * 64}. is_set oc i \<and> j = i + shift)"
    using shift_bits_spec [of "ensure_len occ_default n" oc shift "[0..<length (words oc) * 64]"]
    by (auto simp: shift_up_def)
  have "is_set oc i \<Longrightarrow> i < length (words oc) * 64" for i
    by (simp add: is_set_iff div_less_iff_less_mult)
  then have "is_set oc' j \<longleftrightarrow> shift \<le> j \<and> is_set oc (j - shift)" for j
    by (auto simp: oc'(3))
  with oc' show ?thesis by blast
qed

section \<open>The contract the price ladder relies on\<close>

text \<open>
  What the ladder is promised: an index set that can be grown, marked and unmarked, and whose
  neighbours of a position are found.  \<open>valid\<close> is the provider's invariant and \<open>mem\<close> the abstract
  set of marked indices.
\<close>

locale level_index =
  fixes valid :: "'o \<Rightarrow> bool"
    and mem :: "'o \<Rightarrow> nat \<Rightarrow> bool"
    and grow :: "'o \<Rightarrow> nat \<Rightarrow> 'o"
    and mark :: "'o \<Rightarrow> nat \<Rightarrow> 'o option"
    and unmark :: "'o \<Rightarrow> nat \<Rightarrow> 'o option"
    and rebase :: "'o \<Rightarrow> nat \<Rightarrow> nat \<Rightarrow> 'o option"
    and succ_mark :: "'o \<Rightarrow> nat \<Rightarrow> nat option"
    and pred_mark :: "'o \<Rightarrow> nat \<Rightarrow> nat option option"
  assumes grow_law: "valid x \<Longrightarrow> valid (grow x n) \<and> mem (grow x n) = mem x"
    and mark_law: "valid x \<Longrightarrow> \<exists>y. mark x i = Some y \<and> valid y \<and> mem y = (mem x)(i := True)"
    and unmark_law: "valid x \<Longrightarrow> \<exists>y. unmark x i = Some y \<and> valid y \<and> mem y = (mem x)(i := False)"
    and rebase_law: "valid x \<Longrightarrow>
      \<exists>y. rebase x k n = Some y \<and> valid y \<and> mem y = (\<lambda>j. k \<le> j \<and> mem x (j - k))"
    and succ_law: "valid x \<Longrightarrow> first_from (mem x) i (succ_mark x i)"
    and pred_law: "valid x \<Longrightarrow> \<exists>r. pred_mark x i = Some r \<and> last_upto (mem x) i r"
begin

lemma succ_mark_eqI: "valid x \<Longrightarrow> first_from (mem x) i r \<Longrightarrow> succ_mark x i = r"
  by (rule first_from_unique [OF succ_law])

lemma pred_mark_eqI: "valid x \<Longrightarrow> last_upto (mem x) i r \<Longrightarrow> pred_mark x i = Some r"
  using pred_law [of x i] by (auto dest: last_upto_unique)

lemma succ_mark_None_iff: "valid x \<Longrightarrow> succ_mark x i = None \<longleftrightarrow> (\<forall>j \<ge> i. \<not> mem x j)"
  using succ_law [of x i] by (auto simp: first_from_def split: option.splits)

lemma mark_then_found:
  assumes "valid x" and "mark x i = Some y"
  shows "succ_mark y i = Some i" and "pred_mark y i = Some (Some i)"
  using assms mark_law [OF assms(1), of i]
  by (auto intro!: succ_mark_eqI pred_mark_eqI simp: first_from_def last_upto_def)

end

interpretation bitmap: level_index occ_ok is_set ensure_len occ_set occ_clear shift_up
  next_set_from prev_set_from
proof unfold_locales
  fix x :: Occupancy and i k n :: nat
  assume ok: "occ_ok x"
  show "occ_ok (ensure_len x n) \<and> is_set (ensure_len x n) = is_set x"
    using ok by (simp add: fun_eq_iff)
  show "\<exists>y. occ_set x i = Some y \<and> occ_ok y \<and> is_set y = (is_set x)(i := True)"
    using occ_set_spec [OF ok, of i] by (auto simp: fun_eq_iff)
  show "\<exists>y. occ_clear x i = Some y \<and> occ_ok y \<and> is_set y = (is_set x)(i := False)"
    using occ_clear_spec [OF ok, of i] by (auto simp: fun_eq_iff)
  show "\<exists>y. shift_up x k n = Some y \<and> occ_ok y \<and> is_set y = (\<lambda>j. k \<le> j \<and> is_set x (j - k))"
    using shift_up_spec [OF ok, of k n] by (auto simp: fun_eq_iff)
  show "first_from (is_set x) i (next_set_from x i)" by (rule next_set_from_first [OF ok])
  show "\<exists>r. prev_set_from x i = Some r \<and> last_upto (is_set x) i r" by (rule prev_set_from_last [OF ok])
qed

section \<open>Equivalence with a linear scan\<close>

inductive occ_reachable :: "Occupancy \<Rightarrow> bool" where
  default: "occ_reachable occ_default"
| grown: "occ_reachable oc \<Longrightarrow> occ_reachable (ensure_len oc n)"
| set: "occ_reachable oc \<Longrightarrow> occ_set oc i = Some oc' \<Longrightarrow> occ_reachable oc'"
| cleared: "occ_reachable oc \<Longrightarrow> occ_clear oc i = Some oc' \<Longrightarrow> occ_reachable oc'"
| shifted: "occ_reachable oc \<Longrightarrow> shift_up oc k n = Some oc' \<Longrightarrow> occ_reachable oc'"

lemma occ_reachable_ok: "occ_reachable oc \<Longrightarrow> occ_ok oc"
proof (induction rule: occ_reachable.induct)
  case default
  then show ?case by (simp add: occ_ok_def occ_default_def div_ceil_def)
next
  case (grown oc n)
  then show ?case using bitmap.grow_law by blast
next
  case (set oc i oc')
  then show ?case using bitmap.mark_law [of oc i] by auto
next
  case (cleared oc i oc')
  then show ?case using bitmap.unmark_law [of oc i] by auto
next
  case (shifted oc k n oc')
  then show ?case using bitmap.rebase_law [of oc k n] by auto
qed

lemma first_from_find:
  assumes "\<And>j. n \<le> j \<Longrightarrow> \<not> P j"
  shows "first_from P i (find P [i..<n])"
proof (induction "n - i" arbitrary: i)
  case 0
  then show ?case using assms by (simp add: first_from_def)
next
  case (Suc d)
  then have less: "i < n" by simp
  show ?case
  proof (cases "P i")
    case True
    then show ?thesis using less by (auto simp: upt_conv_Cons first_from_def)
  next
    case False
    have "first_from P (Suc i) (find P [Suc i..<n])" using Suc by simp
    then have "first_from P i (find P [Suc i..<n])"
      by (rule first_from_extend [rotated 2]) (use False in \<open>auto simp: less_Suc_eq_le\<close>)
    then show ?thesis using less False by (simp add: upt_conv_Cons)
  qed
qed

lemma last_upto_find: "last_upto P i (find P (rev [0..<Suc i]))"
proof (induction i)
  case (Suc i)
  show ?case
  proof (cases "P (Suc i)")
    case False
    have "last_upto P (Suc i) (find P (rev [0..<Suc i]))"
      by (rule last_upto_extend [OF _ _ Suc]) (use False in \<open>auto simp: less_Suc_eq_le le_Suc_eq\<close>)
    then show ?thesis using False by simp
  qed (auto simp: last_upto_def)
qed (auto simp: last_upto_def)

lemma is_set_bound: "is_set oc j \<Longrightarrow> j < 64 * length (words oc)"
  by (simp add: is_set_iff div_less_iff_less_mult mult.commute)

text \<open>
  C30: On every bitmap built by the ladder's operations, the two-tier searches return what a plain
  linear scan of the bits returns: the first set bit at or after an index and the last one at or
  before it; the backward search never indexes out of range.
\<close>

theorem occupancy_search_is_linear_scan:
  assumes "occ_reachable oc"
  shows "next_set_from oc i = find (is_set oc) [i..<64 * length (words oc)] \<and>
     prev_set_from oc i = Some (find (is_set oc) (rev [0..<Suc i]))"
proof
  have ok: "occ_ok oc" by (rule occ_reachable_ok [OF assms])
  show "next_set_from oc i = find (is_set oc) [i..<64 * length (words oc)]"
    by (rule bitmap.succ_mark_eqI [OF ok first_from_find]) (use is_set_bound [of oc] in \<open>auto simp: not_le [symmetric]\<close>)
  show "prev_set_from oc i = Some (find (is_set oc) (rev [0..<Suc i]))"
    by (rule bitmap.pred_mark_eqI [OF ok last_upto_find])
qed

theorem occupancy_search_is_linear_scan_witness:
  "\<exists>oc. occ_set occ_default 3 = Some oc \<and> next_set_from oc 0 = Some 3 \<and> prev_set_from oc 200 = Some (Some 3)"
proof -
  have ok: "occ_ok occ_default" by (rule occ_reachable_ok [OF occ_reachable.default])
  from bitmap.mark_law [OF ok, of 3] obtain oc where oc: "occ_set occ_default 3 = Some oc" "occ_ok oc"
    "is_set oc = (is_set occ_default)(3 := True)" by blast
  have "occ_reachable oc" by (rule occ_reachable.set [OF occ_reachable.default oc(1)])
  from occupancy_search_is_linear_scan [OF this, of 0] occupancy_search_is_linear_scan [OF this, of 200]
  have scan: "next_set_from oc 0 = find (is_set oc) [0..<64 * length (words oc)]"
    "prev_set_from oc 200 = Some (find (is_set oc) (rev [0..<Suc 200]))" by simp_all
  have only: "is_set oc j \<longleftrightarrow> j = 3" for j by (simp add: oc(3) is_set_def occ_default_def)
  have ends: "first_from (is_set oc) 0 (Some 3)" "last_upto (is_set oc) 200 (Some 3)"
    by (auto simp: first_from_def last_upto_def only)
  have "find (is_set oc) [0..<64 * length (words oc)] = Some 3"
    by (rule first_from_unique [OF first_from_find ends(1)]) (use is_set_bound [of oc] in fastforce)
  moreover have "find (is_set oc) (rev [0..<Suc 200]) = Some 3"
    by (rule last_upto_unique [OF last_upto_find ends(2)])
  ultimately show ?thesis using scan oc(1) by simp
qed

end
