(* ===== verification/Common_Types.thy ===== *)
theory Common_Types
  imports Prelude
begin

text \<open>
  The shared types of \<open>crates/common/src/types.rs\<close>: the position side with its sign, the
  collateral tiers with their on-chain discriminants, and the canonical position record.
\<close>

type_synonym MarketId = string

datatype Side = Long | Short

definition sign_multiplier :: "Side \<Rightarrow> int" where
  "sign_multiplier s = (case s of Long \<Rightarrow> 1 | Short \<Rightarrow> - 1)"

datatype CollateralTier = Tier1 | Tier2 | Tier3 | Tier4

definition tier_discriminant :: "CollateralTier \<Rightarrow> nat" where
  "tier_discriminant t = (case t of Tier1 \<Rightarrow> 1 | Tier2 \<Rightarrow> 2 | Tier3 \<Rightarrow> 3 | Tier4 \<Rightarrow> 4)"

definition is_riskier_than :: "CollateralTier \<Rightarrow> CollateralTier \<Rightarrow> bool" where
  "is_riskier_than t u \<longleftrightarrow> tier_discriminant u < tier_discriminant t"

record MarketPosition =
  mp_market_id :: MarketId
  mp_size :: int
  mp_entry_price :: nat
  mp_margin :: nat
  mp_leverage :: nat

text \<open>The tiers are linearly ordered by their discriminant.\<close>

instantiation CollateralTier :: linorder
begin

definition less_eq_CollateralTier :: "CollateralTier \<Rightarrow> CollateralTier \<Rightarrow> bool" where
  "less_eq_CollateralTier t u \<longleftrightarrow> tier_discriminant t \<le> tier_discriminant u"

definition less_CollateralTier :: "CollateralTier \<Rightarrow> CollateralTier \<Rightarrow> bool" where
  "less_CollateralTier t u \<longleftrightarrow> tier_discriminant t < tier_discriminant u"

instance
proof
  fix t u :: CollateralTier
  show "t \<le> u \<Longrightarrow> u \<le> t \<Longrightarrow> t = u"
    by (cases t; cases u) (simp_all add: less_eq_CollateralTier_def tier_discriminant_def)
qed (auto simp: less_eq_CollateralTier_def less_CollateralTier_def)

end

lemma is_riskier_than_less: "is_riskier_than t u \<longleftrightarrow> u < t"
  by (simp add: is_riskier_than_def less_CollateralTier_def)

lemma sign_multiplier_simps [simp]: "sign_multiplier Long = 1" "sign_multiplier Short = - 1"
  by (simp_all add: sign_multiplier_def)

lemma abs_sign_multiplier [simp]: "\<bar>sign_multiplier s\<bar> = 1"
  by (cases s) simp_all

end
