(* ===== verification/Ladder.thy ===== *)
theory Ladder
  imports Occupancy Common_Types
begin

text \<open>
  The price ladder of \<open>crates/cerdic-tee-matcher/src/book.rs\<close> (\<open>struct Level\<close>, \<open>struct Ladder\<close>):
  the dense array of price levels of one side of a book, together with its occupancy bitmap.
  A level is addressed by tick through \<open>level_of\<close>; \<open>ensure\<close> (growth and re-basing) is proved to
  leave that view unchanged, and \<open>next_worse_level\<close> to return the neighbouring occupied tick.
\<close>

section \<open>Levels and ladders\<close>

definition NIL :: nat where
  "NIL = 2 ^ 32 - 1"

record Level =
  lvl_head :: nat
  lvl_tail :: nat
  lvl_qty :: u64

definition Level_EMPTY :: Level where
  "Level_EMPTY = \<lparr>lvl_head = NIL, lvl_tail = NIL, lvl_qty = 0\<rparr>"

definition level_is_empty :: "Level \<Rightarrow> bool" where
  "level_is_empty lv \<longleftrightarrow> lvl_head lv = NIL"

record Ladder =
  base_tick :: u64
  levels :: "Level list"
  occupancy :: Occupancy

definition ladder_new :: Ladder where
  "ladder_new = \<lparr>base_tick = 0, levels = [], occupancy = occ_default\<rparr>"

text \<open>
  A \<open>Vec\<close> of 16-byte levels panics with a capacity overflow once it would exceed
  \<open>isize::MAX\<close> bytes.
\<close>

definition levels_fit :: "nat \<Rightarrow> bool" where
  "levels_fit n \<longleftrightarrow> n * 16 < 2 ^ 63"

definition ensure :: "Ladder \<Rightarrow> u64 \<Rightarrow> (nat \<times> Ladder) option" where
  "ensure l tick =
     (if levels l = [] then
        Some (0, l\<lparr>base_tick := tick, levels := levels l @ [Level_EMPTY],
                  occupancy := ensure_len (occupancy l) 1\<rparr>)
      else if tick < base_tick l then
        let shift = unat (base_tick l - tick);
            grown = replicate shift Level_EMPTY @ levels l in
        if levels_fit (length grown) then do {
          oc \<leftarrow> shift_up (occupancy l) shift (length grown);
          Some (0, l\<lparr>base_tick := tick, levels := grown, occupancy := oc\<rparr>)
        } else None
      else
        let idx = unat (tick - base_tick l) in
        if length (levels l) \<le> idx then
          if levels_fit (idx + 1) then
            Some (idx, l\<lparr>levels := vec_resize (levels l) (idx + 1) Level_EMPTY,
                        occupancy := ensure_len (occupancy l) (idx + 1)\<rparr>)
          else None
        else Some (idx, l))"

definition mark_occupied :: "Ladder \<Rightarrow> nat \<Rightarrow> Ladder option" where
  "mark_occupied l idx = do { oc \<leftarrow> occ_set (occupancy l) idx; Some (l\<lparr>occupancy := oc\<rparr>) }"

definition mark_empty :: "Ladder \<Rightarrow> nat \<Rightarrow> Ladder option" where
  "mark_empty l idx = do { oc \<leftarrow> occ_clear (occupancy l) idx; Some (l\<lparr>occupancy := oc\<rparr>) }"

definition next_occupied_from :: "Ladder \<Rightarrow> nat \<Rightarrow> nat option" where
  "next_occupied_from l idx = next_set_from (occupancy l) idx"

definition prev_occupied_from :: "Ladder \<Rightarrow> nat \<Rightarrow> nat option option" where
  "prev_occupied_from l idx = prev_set_from (occupancy l) idx"

definition next_worse_level :: "Ladder \<Rightarrow> Side \<Rightarrow> nat \<Rightarrow> nat option option" where
  "next_worse_level l side from_idx =
     (case side of
        Long \<Rightarrow> if from_idx = 0 then Some None else prev_occupied_from l (from_idx - 1)
      | Short \<Rightarrow> Some (next_occupied_from l (from_idx + 1)))"

definition index_of :: "Ladder \<Rightarrow> u64 \<Rightarrow> nat option" where
  "index_of l tick =
     (if levels l = [] \<or> tick < base_tick l then None
      else let idx = unat (tick - base_tick l) in
        if idx < length (levels l) then Some idx else None)"

definition level_get :: "Ladder \<Rightarrow> nat \<Rightarrow> Level option" where
  "level_get l idx = vec_get (levels l) idx"

definition level_update :: "Ladder \<Rightarrow> nat \<Rightarrow> (Level \<Rightarrow> Level) \<Rightarrow> Ladder option" where
  "level_update l idx f = do {
     lv \<leftarrow> vec_get (levels l) idx;
     lvs \<leftarrow> vec_set (levels l) idx (f lv);
     Some (l\<lparr>levels := lvs\<rparr>)
   }"

definition tick_at :: "Ladder \<Rightarrow> nat \<Rightarrow> u64" where
  "tick_at l idx = base_tick l + of_nat idx"

section \<open>The tick-indexed view\<close>

text \<open>Ticks below this bound never make the level array exceed its capacity.\<close>

definition tick_limit :: nat where
  "tick_limit = 2 ^ 59 - 1"

definition level_of :: "Ladder \<Rightarrow> u64 \<Rightarrow> Level" where
  "level_of l t = (case index_of l t of None \<Rightarrow> Level_EMPTY | Some i \<Rightarrow> levels l ! i)"

definition ladder_range :: "Ladder \<Rightarrow> bool" where
  "ladder_range l \<longleftrightarrow> unat (base_tick l) + length (levels l) \<le> tick_limit"

text \<open>The bitmap agrees with the levels, except possibly at the indices in \<open>I\<close>.\<close>

definition ladder_sync :: "nat set \<Rightarrow> Ladder \<Rightarrow> bool" where
  "ladder_sync I l \<longleftrightarrow> occ_ok (occupancy l) \<and> ladder_range l \<and>
     (\<forall>i. i \<notin> I \<longrightarrow>
        (is_set (occupancy l) i \<longleftrightarrow> i < length (levels l) \<and> \<not> level_is_empty (levels l ! i)))"

abbreviation ladder_ok :: "Ladder \<Rightarrow> bool" where
  "ladder_ok \<equiv> ladder_sync {}"

abbreviation occupied :: "Ladder \<Rightarrow> u64 \<Rightarrow> bool" where
  "occupied l t \<equiv> \<not> level_is_empty (level_of l t)"

text \<open>\<open>better s u t\<close>: on side \<open>s\<close>, tick \<open>u\<close> has priority over tick \<open>t\<close>.\<close>

definition better :: "Side \<Rightarrow> u64 \<Rightarrow> u64 \<Rightarrow> bool" where
  "better s u t = (case s of Long \<Rightarrow> t < u | Short \<Rightarrow> u < t)"

definition is_best :: "Side \<Rightarrow> (u64 \<Rightarrow> bool) \<Rightarrow> u64 option \<Rightarrow> bool" where
  "is_best s P r =
     (case r of None \<Rightarrow> \<forall>t. \<not> P t | Some t \<Rightarrow> P t \<and> (\<forall>u. P u \<longrightarrow> \<not> better s u t))"

lemma level_is_empty_EMPTY [simp]: "level_is_empty Level_EMPTY"
  by (simp add: level_is_empty_def Level_EMPTY_def)

lemma index_of_eq_Some_iff:
  "index_of l t = Some i \<longleftrightarrow>
     base_tick l \<le> t \<and> i = unat t - unat (base_tick l) \<and> i < length (levels l)"
  by (auto simp: index_of_def Let_def unat_sub word_le_nat_alt word_less_nat_alt not_less)

lemma unat_tick_at:
  "ladder_range l \<Longrightarrow> i < length (levels l) \<Longrightarrow> unat (tick_at l i) = unat (base_tick l) + i"
  by (simp add: tick_at_def ladder_range_def tick_limit_def unat_word_ariths unat_of_nat)

lemma index_of_tick_at:
  "ladder_range l \<Longrightarrow> i < length (levels l) \<Longrightarrow> index_of l (tick_at l i) = Some i"
  by (simp add: index_of_eq_Some_iff unat_tick_at word_le_nat_alt)

lemma tick_at_index_of: "index_of l t = Some i \<Longrightarrow> tick_at l i = t"
  by (auto simp: index_of_eq_Some_iff tick_at_def word_le_nat_alt simp flip: unat_sub)

lemma level_of_index: "index_of l t = Some i \<Longrightarrow> level_of l t = levels l ! i"
  by (simp add: level_of_def)

lemma occupancy_view [simp]:
  "index_of (l\<lparr>occupancy := oc\<rparr>) = index_of l" "level_of (l\<lparr>occupancy := oc\<rparr>) = level_of l"
  "ladder_range (l\<lparr>occupancy := oc\<rparr>) = ladder_range l" "tick_at (l\<lparr>occupancy := oc\<rparr>) = tick_at l"
  by (simp_all add: fun_eq_iff index_of_def level_of_def ladder_range_def tick_at_def
      split: option.split)

lemma occupied_has_index: "occupied l t \<Longrightarrow> \<exists>i. index_of l t = Some i"
  by (cases "index_of l t") (auto simp: level_of_def)

lemma ladder_sync_is_set:
  assumes "ladder_sync I l" and "i \<notin> I"
  shows "is_set (occupancy l) i \<longleftrightarrow> i < length (levels l) \<and> occupied l (tick_at l i)"
  using assms index_of_tick_at [of l i] by (auto simp: ladder_sync_def level_of_def)

lemma ladder_new_ok [simp]: "ladder_ok ladder_new" "level_of ladder_new = (\<lambda>_. Level_EMPTY)"
  by (auto simp: ladder_sync_def ladder_new_def occ_ok_def occ_default_def is_set_def
      ladder_range_def tick_limit_def level_of_def index_of_def div_ceil_def fun_eq_iff)

section \<open>Growth and updates\<close>

lemma levels_fit_below: "n \<le> tick_limit \<Longrightarrow> levels_fit n"
  by (simp add: levels_fit_def tick_limit_def)

lemma level_of_nth:
  "level_of l t = (if base_tick l \<le> t \<and> unat t - unat (base_tick l) < length (levels l)
                   then levels l ! (unat t - unat (base_tick l)) else Level_EMPTY)"
  by (cases "index_of l t") (auto simp: level_of_def index_of_eq_Some_iff index_of_def Let_def
      unat_sub word_le_nat_alt word_less_nat_alt not_less split: if_splits)

lemma ensure_spec:
  assumes ok: "ladder_ok l" and t: "unat t < tick_limit"
  shows "\<exists>i l'. ensure l t = Some (i, l') \<and> ladder_ok l' \<and> index_of l' t = Some i \<and>
           level_of l' = level_of l"
proof -
  have occ: "occ_ok (occupancy l)" and range: "ladder_range l"
    and sync: "\<And>i. is_set (occupancy l) i \<longleftrightarrow> i < length (levels l) \<and> \<not> level_is_empty (levels l ! i)"
    using ok by (auto simp: ladder_sync_def)
  consider (empty) "levels l = []" | (below) "levels l \<noteq> []" "t < base_tick l"
    | (above) "levels l \<noteq> []" "base_tick l \<le> t" by fastforce
  then show ?thesis
  proof cases
    case empty
    let ?l = "l\<lparr>base_tick := t, levels := [Level_EMPTY], occupancy := ensure_len (occupancy l) 1\<rparr>"
    have "ladder_ok ?l" using bitmap.grow_law [OF occ, of 1] sync t empty
      by (auto simp: ladder_sync_def ladder_range_def nth_Cons split: nat.splits)
    moreover have "level_of ?l = level_of l" using empty by (auto simp: level_of_nth fun_eq_iff)
    ultimately show ?thesis using empty by (auto simp: ensure_def index_of_def)
  next
    case below
    let ?k = "unat (base_tick l - t)" and ?lv = "replicate (unat (base_tick l - t)) Level_EMPTY @ levels l"
    have k: "?k = unat (base_tick l) - unat t" "unat t < unat (base_tick l)"
      using below by (simp_all add: unat_sub word_less_nat_alt word_le_nat_alt)
    obtain oc where oc: "shift_up (occupancy l) ?k (length ?lv) = Some oc" "occ_ok oc"
      "is_set oc = (\<lambda>j. ?k \<le> j \<and> is_set (occupancy l) (j - ?k))"
      using bitmap.rebase_law [OF occ, of ?k "length ?lv"] by blast
    let ?l = "l\<lparr>base_tick := t, levels := ?lv, occupancy := oc\<rparr>"
    have r: "ladder_range ?l" using range k by (simp add: ladder_range_def)
    then have fit: "levels_fit (length ?lv)"
      by (intro levels_fit_below) (simp add: ladder_range_def)
    have "is_set oc j \<longleftrightarrow> j < length ?lv \<and> \<not> level_is_empty (?lv ! j)" for j
    proof (cases "?k \<le> j")
      case True
      then show ?thesis unfolding oc(3) sync by (simp add: nth_append) linarith
    qed (simp add: oc(3) nth_append)
    then have "ladder_ok ?l" using oc(2) r by (simp add: ladder_sync_def)
    moreover have "level_of ?l = level_of l"
      using k by (auto simp: level_of_nth fun_eq_iff nth_append word_le_nat_alt)
    moreover have "index_of ?l t = Some 0" using below by (simp add: index_of_def)
    ultimately show ?thesis using below fit oc(1) by (simp add: ensure_def Let_def)
  next
    case above
    let ?i = "unat (t - base_tick l)"
    have i: "?i = unat t - unat (base_tick l)" "unat (base_tick l) \<le> unat t"
      using above by (simp_all add: unat_sub word_le_nat_alt)
    show ?thesis
    proof (cases "length (levels l) \<le> ?i")
      case True
      let ?l = "l\<lparr>levels := vec_resize (levels l) (?i + 1) Level_EMPTY,
                  occupancy := ensure_len (occupancy l) (?i + 1)\<rparr>"
      have r: "ladder_range ?l" using t i by (simp add: ladder_range_def)
      then have fit: "levels_fit (?i + 1)" by (intro levels_fit_below) (simp add: ladder_range_def)
      have "is_set (occupancy l) j \<longleftrightarrow>
          j < ?i + 1 \<and> \<not> level_is_empty (vec_resize (levels l) (?i + 1) Level_EMPTY ! j)" for j
        unfolding sync using True by (cases "j < ?i + 1") simp_all
      then have "ladder_ok ?l" using bitmap.grow_law [OF occ, of "?i + 1"] r
        by (simp add: ladder_sync_def)
      moreover have "level_of ?l = level_of l"
        using True by (auto simp: level_of_nth fun_eq_iff)
      moreover have "index_of ?l t = Some ?i" using above i by (simp add: index_of_eq_Some_iff)
      ultimately show ?thesis using above True fit by (auto simp: ensure_def Let_def)
    next
      case False
      with above ok show ?thesis by (auto simp: ensure_def Let_def index_of_def)
    qed
  qed
qed

lemma level_update_spec:
  assumes "ladder_sync I l" and "index_of l t = Some i"
  shows "\<exists>l'. level_update l i f = Some l' \<and> ladder_sync (insert i I) l' \<and>
           level_of l' = (level_of l)(t := f (level_of l t)) \<and> index_of l' = index_of l \<and>
           occupancy l' = occupancy l \<and> tick_at l' = tick_at l"
proof -
  have i: "i < length (levels l)" "i = unat t - unat (base_tick l)" "base_tick l \<le> t"
    using assms(2) by (auto simp: index_of_eq_Some_iff)
  let ?l = "l\<lparr>levels := (levels l)[i := f (levels l ! i)]\<rparr>"
  have "level_of ?l u = ((level_of l)(t := f (level_of l t))) u" for u
    using i by (auto simp: level_of_nth word_le_nat_alt word_unat_eq_iff nth_list_update)
  moreover have "level_update l i f = Some ?l" using i by (simp add: level_update_def vec_simps)
  moreover have "ladder_sync (insert i I) ?l"
    using assms(1) by (auto simp: ladder_sync_def ladder_range_def)
  ultimately show ?thesis by (auto simp: fun_eq_iff index_of_def tick_at_def)
qed

lemma ladder_resync:
  assumes "ladder_sync {i} l" and "index_of l t = Some i"
    and "is_set (occupancy l) i \<longleftrightarrow> occupied l t"
  shows "ladder_ok l"
proof -
  have "i < length (levels l)" using assms(2) by (simp add: index_of_eq_Some_iff)
  with assms show ?thesis unfolding ladder_sync_def by (metis level_of_index singleton_iff)
qed

lemma mark_occupied_spec:
  assumes "ladder_sync {i} l" and "index_of l t = Some i" and "occupied l t"
  shows "\<exists>l'. mark_occupied l i = Some l' \<and> ladder_ok l' \<and> level_of l' = level_of l \<and>
           index_of l' = index_of l \<and> tick_at l' = tick_at l"
proof -
  from assms(1) have "occ_ok (occupancy l)" by (simp add: ladder_sync_def)
  from bitmap.mark_law [OF this, of i] obtain oc where oc: "occ_set (occupancy l) i = Some oc"
    "occ_ok oc" "is_set oc = (is_set (occupancy l))(i := True)" by blast
  have "ladder_ok (l\<lparr>occupancy := oc\<rparr>)"
    using assms oc by (auto simp: ladder_sync_def level_of_index index_of_eq_Some_iff ladder_range_def)
  with oc(1) show ?thesis by (simp add: mark_occupied_def)
qed

lemma mark_empty_spec:
  assumes "ladder_sync {i} l" and "index_of l t = Some i" and "\<not> occupied l t"
  shows "\<exists>l'. mark_empty l i = Some l' \<and> ladder_ok l' \<and> level_of l' = level_of l \<and>
           index_of l' = index_of l \<and> tick_at l' = tick_at l"
proof -
  from assms(1) have "occ_ok (occupancy l)" by (simp add: ladder_sync_def)
  from bitmap.unmark_law [OF this, of i] obtain oc where oc: "occ_clear (occupancy l) i = Some oc"
    "occ_ok oc" "is_set oc = (is_set (occupancy l))(i := False)" by blast
  have "ladder_ok (l\<lparr>occupancy := oc\<rparr>)"
    using assms oc by (auto simp: ladder_sync_def level_of_index index_of_eq_Some_iff ladder_range_def)
  with oc(1) show ?thesis by (simp add: mark_empty_def)
qed

section \<open>The next worse level\<close>

lemma next_worse_spec:
  assumes ok: "ladder_ok l" and t: "index_of l t = Some i"
  shows "\<exists>r. next_worse_level l s i = Some r \<and>
           is_best s (\<lambda>u. occupied l u \<and> better s t u) (map_option (tick_at l) r)"
proof -
  have range: "ladder_range l" and occ: "occ_ok (occupancy l)" using ok by (auto simp: ladder_sync_def)
  note idx = index_of_eq_Some_iff [THEN iffD1, OF t]
  have mem: "is_set (occupancy l) j \<longleftrightarrow> j < length (levels l) \<and> occupied l (tick_at l j)" for j
    using ladder_sync_is_set [OF ok] by simp
  have occ_iff: "occupied l u \<longleftrightarrow> (\<exists>j. is_set (occupancy l) j \<and> u = tick_at l j)" for u
    using mem occupied_has_index [of l u] tick_at_index_of [of l u]
    by (metis index_of_eq_Some_iff)
  have unat_at: "unat (tick_at l j) = unat (base_tick l) + j" if "is_set (occupancy l) j" for j
    using that mem unat_tick_at [OF range] by blast
  have ut: "unat t = unat (base_tick l) + i" using idx by (simp add: word_le_nat_alt)
  show ?thesis
  proof (cases s)
    case Short
    have "first_from (is_set (occupancy l)) (i + 1) (next_set_from (occupancy l) (i + 1))"
      by (rule bitmap.succ_law [OF occ])
    then have "is_best Short (\<lambda>u. occupied l u \<and> better Short t u)
        (map_option (tick_at l) (next_set_from (occupancy l) (i + 1)))"
      by (cases "next_set_from (occupancy l) (i + 1)")
        (auto simp: first_from_def is_best_def better_def word_less_nat_alt ut unat_at occ_iff)
    then show ?thesis using Short by (simp add: next_worse_level_def next_occupied_from_def)
  next
    case Long
    show ?thesis
    proof (cases "i = 0")
      case True
      then show ?thesis using Long ut
        by (auto simp: next_worse_level_def is_best_def better_def word_less_nat_alt unat_at occ_iff)
    next
      case False
      obtain r where r: "prev_set_from (occupancy l) (i - 1) = Some r"
        "last_upto (is_set (occupancy l)) (i - 1) r" using bitmap.pred_law [OF occ] by blast
      have "is_best Long (\<lambda>u. occupied l u \<and> better Long t u) (map_option (tick_at l) r)"
        using r(2) False
        by (cases r) (auto simp: last_upto_def is_best_def better_def word_less_nat_alt ut unat_at
            occ_iff)
      then show ?thesis using Long False r(1)
        by (simp add: next_worse_level_def prev_occupied_from_def)
    qed
  qed
qed

end
