(* ===== verification/Book.thy ===== *)
theory Book
  imports Ladder
begin

text \<open>
  The matching engine's order book, \<open>crates/cerdic-tee-matcher/src/book.rs\<close> (\<open>struct OrderBook\<close>):
  a slab arena of order nodes threaded into one doubly linked FIFO queue per price level, two price
  ladders, and the cached best prices.  Every operation of the source is a function here.  An id is
  a 32-bit arena slot, written as \<^typ>\<open>nat\<close> with the reduction of \<open>as u32\<close> in \<open>alloc\<close>.
  A panic is \<open>None\<close>.  The loops of \<open>prune_expired_head\<close> and \<open>submit\<close> end on every book, because
  each round frees an arena slot or exhausts the incoming quantity; the read-only walk of
  \<open>available_to_match\<close> follows raw links and is a partial function.
\<close>

section \<open>Orders, fills and results\<close>

type_synonym OrderId = nat
type_synonym Tick = u64
type_synonym Qty = u64
type_synonym OwnerId = u64
type_synonym Timestamp = u64

definition opposite_side :: "Side \<Rightarrow> Side" where
  "opposite_side side = (case side of Long \<Rightarrow> Short | Short \<Rightarrow> Long)"

datatype TimeInForce = GoodTilCancel | GoodTilTime Timestamp | ImmediateOrCancel | FillOrKill

record NewOrder =
  no_side :: Side
  no_tick :: Tick
  no_qty :: Qty
  no_owner :: OwnerId
  no_tif :: TimeInForce
  no_post_only :: bool

record OrderNode =
  node_tick :: Tick
  node_qty :: Qty
  node_side :: Side
  node_owner :: OwnerId
  node_expiry :: "Timestamp option"
  node_prev :: nat
  node_next :: nat

record PriceLevel =
  pl_tick :: Tick
  pl_qty :: Qty
  pl_cumulative :: Qty

record BookSnapshot =
  bs_best_bid :: "Tick option"
  bs_best_ask :: "Tick option"
  bs_bids :: "PriceLevel list"
  bs_asks :: "PriceLevel list"

record Fill =
  fill_maker_id :: OrderId
  fill_maker_owner :: OwnerId
  fill_tick :: Tick
  fill_qty :: Qty
  fill_maker_filled :: bool
  fill_maker_size_before :: Qty
  fill_taker_size_before :: Qty

record SubmitResult =
  sr_fills :: "Fill list"
  sr_resting_id :: "OrderId option"
  sr_resting_qty :: Qty
  sr_expired :: "OrderId list"
  sr_self_trade_cancelled :: "OrderId list"
  sr_post_only_rejected :: bool
  sr_fill_or_kill_failed :: bool

definition SubmitResult_default :: SubmitResult where
  "SubmitResult_default =
     \<lparr>sr_fills = [], sr_resting_id = None, sr_resting_qty = 0, sr_expired = [],
      sr_self_trade_cancelled = [], sr_post_only_rejected = False,
      sr_fill_or_kill_failed = False\<rparr>"

section \<open>The book\<close>

record OrderBook =
  bids :: Ladder
  asks :: Ladder
  arena :: "OrderNode option list"
  free :: "nat list"
  best_bid :: "Tick option"
  best_ask :: "Tick option"

definition book_new :: OrderBook where
  "book_new = \<lparr>bids = ladder_new, asks = ladder_new, arena = [], free = [],
     best_bid = None, best_ask = None\<rparr>"

definition ladder :: "OrderBook \<Rightarrow> Side \<Rightarrow> Ladder" where
  "ladder b side = (case side of Long \<Rightarrow> bids b | Short \<Rightarrow> asks b)"

definition ladder_put :: "OrderBook \<Rightarrow> Side \<Rightarrow> Ladder \<Rightarrow> OrderBook" where
  "ladder_put b side l = (case side of Long \<Rightarrow> b\<lparr>bids := l\<rparr> | Short \<Rightarrow> b\<lparr>asks := l\<rparr>)"

definition best :: "OrderBook \<Rightarrow> Side \<Rightarrow> Tick option" where
  "best b side = (case side of Long \<Rightarrow> best_bid b | Short \<Rightarrow> best_ask b)"

definition best_put :: "OrderBook \<Rightarrow> Side \<Rightarrow> Tick option \<Rightarrow> OrderBook" where
  "best_put b side t = (case side of Long \<Rightarrow> b\<lparr>best_bid := t\<rparr> | Short \<Rightarrow> b\<lparr>best_ask := t\<rparr>)"

definition depth_at :: "OrderBook \<Rightarrow> Side \<Rightarrow> Tick \<Rightarrow> Qty option" where
  "depth_at b side tick =
     (case index_of (ladder b side) tick of
        None \<Rightarrow> Some 0
      | Some i \<Rightarrow> do { lv \<leftarrow> level_get (ladder b side) i; Some (lvl_qty lv) })"

fun depth_walk :: "OrderBook \<Rightarrow> Side \<Rightarrow> nat \<Rightarrow> Tick option \<Rightarrow> Qty \<Rightarrow> PriceLevel list option" where
  "depth_walk b side 0 cursor cumulative = Some []"
| "depth_walk b side (Suc n) None cumulative = Some []"
| "depth_walk b side (Suc n) (Some tick) cumulative =
     (case index_of (ladder b side) tick of
        None \<Rightarrow> Some []
      | Some idx \<Rightarrow> do {
          lv \<leftarrow> level_get (ladder b side) idx;
          let cumulative' = cumulative + lvl_qty lv;
          next \<leftarrow> next_worse_level (ladder b side) side idx;
          rest \<leftarrow> depth_walk b side n (map_option (tick_at (ladder b side)) next) cumulative';
          Some (\<lparr>pl_tick = tick, pl_qty = lvl_qty lv, pl_cumulative = cumulative'\<rparr> # rest)
        })"

definition depth :: "OrderBook \<Rightarrow> Side \<Rightarrow> nat \<Rightarrow> PriceLevel list option" where
  "depth b side max_levels = depth_walk b side max_levels (best b side) 0"

definition snapshot :: "OrderBook \<Rightarrow> nat \<Rightarrow> BookSnapshot option" where
  "snapshot b max_levels = do {
     bs \<leftarrow> depth b Long max_levels;
     as \<leftarrow> depth b Short max_levels;
     Some \<lparr>bs_best_bid = best_bid b, bs_best_ask = best_ask b, bs_bids = bs, bs_asks = as\<rparr>
   }"

section \<open>The arena and the level queues\<close>

definition alloc :: "OrderBook \<Rightarrow> OrderNode \<Rightarrow> (nat \<times> OrderBook) option" where
  "alloc b node =
     (if free b \<noteq> [] then do {
        let idx = last (free b);
        a \<leftarrow> vec_set (arena b) idx (Some node);
        Some (idx, b\<lparr>free := butlast (free b), arena := a\<rparr>)
      } else
        Some (length (arena b) mod 2 ^ 32, b\<lparr>arena := arena b @ [Some node]\<rparr>))"

definition slot :: "OrderBook \<Rightarrow> nat \<Rightarrow> OrderNode option" where
  "slot b idx = do { x \<leftarrow> vec_get (arena b) idx; x }"

definition slot_update :: "OrderBook \<Rightarrow> nat \<Rightarrow> (OrderNode \<Rightarrow> OrderNode) \<Rightarrow> OrderBook option" where
  "slot_update b idx f = do {
     n \<leftarrow> slot b idx;
     a \<leftarrow> vec_set (arena b) idx (Some (f n));
     Some (b\<lparr>arena := a\<rparr>)
   }"

definition take_slot :: "OrderBook \<Rightarrow> nat \<Rightarrow> (OrderNode \<times> OrderBook) option" where
  "take_slot b idx = do {
     n \<leftarrow> slot b idx;
     a \<leftarrow> vec_set (arena b) idx None;
     Some (n, b\<lparr>arena := a\<rparr>)
   }"

definition level_mut :: "OrderBook \<Rightarrow> Side \<Rightarrow> nat \<Rightarrow> (Level \<Rightarrow> Level) \<Rightarrow> OrderBook option" where
  "level_mut b side idx f = do {
     l \<leftarrow> level_update (ladder b side) idx f;
     Some (ladder_put b side l)
   }"

definition raise_best :: "OrderBook \<Rightarrow> Side \<Rightarrow> Tick \<Rightarrow> OrderBook" where
  "raise_best b side tick =
     (case side of
        Long \<Rightarrow> (case best_bid b of
                   None \<Rightarrow> b\<lparr>best_bid := Some tick\<rparr>
                 | Some p \<Rightarrow> if p < tick then b\<lparr>best_bid := Some tick\<rparr> else b)
      | Short \<Rightarrow> (case best_ask b of
                   None \<Rightarrow> b\<lparr>best_ask := Some tick\<rparr>
                 | Some p \<Rightarrow> if tick < p then b\<lparr>best_ask := Some tick\<rparr> else b))"

definition push_back :: "OrderBook \<Rightarrow> Side \<Rightarrow> Tick \<Rightarrow> nat \<Rightarrow> OrderBook option" where
  "push_back b0 side tick idx = do {
     (level_idx, l) \<leftarrow> ensure (ladder b0 side) tick;
     let b1 = ladder_put b0 side l;
     lv \<leftarrow> level_get l level_idx;
     b2 \<leftarrow> (if lvl_tail lv = NIL then do {
              b \<leftarrow> level_mut b1 side level_idx (\<lambda>lv. lv\<lparr>lvl_head := idx, lvl_tail := idx\<rparr>);
              l \<leftarrow> mark_occupied (ladder b side) level_idx;
              Some (ladder_put b side l)
            } else do {
              b \<leftarrow> slot_update b1 (lvl_tail lv) (\<lambda>n. n\<lparr>node_next := idx\<rparr>);
              b \<leftarrow> slot_update b idx (\<lambda>n. n\<lparr>node_prev := lvl_tail lv\<rparr>);
              level_mut b side level_idx (\<lambda>lv. lv\<lparr>lvl_tail := idx\<rparr>)
            });
     n \<leftarrow> slot b2 idx;
     b3 \<leftarrow> level_mut b2 side level_idx (\<lambda>lv. lv\<lparr>lvl_qty := lvl_qty lv + node_qty n\<rparr>);
     Some (raise_best b3 side tick)
   }"

definition advance_best_from :: "OrderBook \<Rightarrow> Side \<Rightarrow> Tick \<Rightarrow> OrderBook option" where
  "advance_best_from b side emptied_tick =
     (case index_of (ladder b side) emptied_tick of
        None \<Rightarrow> Some b
      | Some start \<Rightarrow> do {
          next \<leftarrow> next_worse_level (ladder b side) side start;
          Some (best_put b side (map_option (tick_at (ladder b side)) next))
        })"

definition unlink :: "OrderBook \<Rightarrow> nat \<Rightarrow> (OrderNode \<times> OrderBook) option" where
  "unlink b0 idx = do {
     (node, b) \<leftarrow> take_slot b0 idx;
     let b1 = b\<lparr>free := free b @ [idx]\<rparr>;
     let side = node_side node;
     case index_of (ladder b1 side) (node_tick node) of
       None \<Rightarrow> Some (node, b1)
     | Some level_idx \<Rightarrow> do {
         b2 \<leftarrow> (if node_prev node \<noteq> NIL
                then slot_update b1 (node_prev node) (\<lambda>n. n\<lparr>node_next := node_next node\<rparr>)
                else level_mut b1 side level_idx (\<lambda>lv. lv\<lparr>lvl_head := node_next node\<rparr>));
         b3 \<leftarrow> (if node_next node \<noteq> NIL
                then slot_update b2 (node_next node) (\<lambda>n. n\<lparr>node_prev := node_prev node\<rparr>)
                else level_mut b2 side level_idx (\<lambda>lv. lv\<lparr>lvl_tail := node_prev node\<rparr>));
         b4 \<leftarrow> level_mut b3 side level_idx (\<lambda>lv. lv\<lparr>lvl_qty := lvl_qty lv - node_qty node\<rparr>);
         lv \<leftarrow> level_get (ladder b4 side) level_idx;
         b5 \<leftarrow> (if level_is_empty lv then do {
                  l \<leftarrow> mark_empty (ladder b4 side) level_idx;
                  Some (ladder_put b4 side l)
                } else Some b4);
         Some (node, b5)
       }
   }"

text \<open>The step every caller of \<open>unlink\<close> takes next: move the cached best off an emptied level.\<close>

definition advance_if_empty :: "OrderBook \<Rightarrow> Side \<Rightarrow> nat \<Rightarrow> Tick \<Rightarrow> OrderBook option" where
  "advance_if_empty b side level_idx level_tick = do {
     lv \<leftarrow> level_get (ladder b side) level_idx;
     if level_is_empty lv then advance_best_from b side level_tick else Some b
   }"

definition is_expired :: "Timestamp option \<Rightarrow> Timestamp \<Rightarrow> bool" where
  "is_expired expiry now = (case expiry of None \<Rightarrow> False | Some e \<Rightarrow> e \<le> now)"

definition owner_of :: "OrderBook \<Rightarrow> OrderId \<Rightarrow> OwnerId option" where
  "owner_of b oid =
     (if length (arena b) \<le> oid then None else map_option node_owner (arena b ! oid))"

definition cancel :: "OrderBook \<Rightarrow> OrderId \<Rightarrow> ((Tick \<times> Qty) option \<times> OrderBook) option" where
  "cancel b oid =
     (if length (arena b) \<le> oid \<or> arena b ! oid = None then Some (None, b)
      else do {
        n \<leftarrow> slot b oid;
        let side = node_side n;
        let tick = node_tick n;
        (node, b1) \<leftarrow> unlink b oid;
        now_empty \<leftarrow> (case index_of (ladder b1 side) tick of
                        None \<Rightarrow> Some True
                      | Some i \<Rightarrow> do { lv \<leftarrow> level_get (ladder b1 side) i; Some (level_is_empty lv) });
        b2 \<leftarrow> (if now_empty \<and> best b1 side = Some tick
               then advance_best_from b1 side tick else Some b1);
        Some (Some (tick, node_qty node), b2)
      })"

section \<open>Walking and matching\<close>

definition crosses :: "Side \<Rightarrow> Tick \<Rightarrow> Tick \<Rightarrow> bool" where
  "crosses side tick level_tick = (case side of Long \<Rightarrow> level_tick \<le> tick | Short \<Rightarrow> tick \<le> level_tick)"

text \<open>
  The two nested loops of \<open>available_to_match\<close>.  The first component of the inner walk's result
  says that it returned early with the needed quantity.
\<close>

partial_function (option) level_walk ::
  "OrderBook \<Rightarrow> OwnerId \<Rightarrow> Timestamp \<Rightarrow> Qty \<Rightarrow> nat \<Rightarrow> Qty \<Rightarrow> (bool \<times> Qty) option" where
  "level_walk b owner now needed cur acc =
     (if cur = NIL then Some (False, acc)
      else do {
        node \<leftarrow> slot b cur;
        if \<not> is_expired (node_expiry node) now \<and> node_owner node \<noteq> owner then
          if needed \<le> saturating_add_u64 acc (node_qty node)
          then Some (True, saturating_add_u64 acc (node_qty node))
          else level_walk b owner now needed (node_next node)
                 (saturating_add_u64 acc (node_qty node))
        else level_walk b owner now needed (node_next node) acc
      })"

partial_function (option) available_walk ::
  "OrderBook \<Rightarrow> Side \<Rightarrow> Tick \<Rightarrow> Qty \<Rightarrow> OwnerId \<Rightarrow> Timestamp \<Rightarrow> Tick option \<Rightarrow> Qty \<Rightarrow> Qty option"
where
  "available_walk b side tick needed owner now level_tick acc =
     (case level_tick of
        None \<Rightarrow> Some acc
      | Some lt \<Rightarrow>
          if \<not> crosses side tick lt then Some acc
          else (case index_of (ladder b (opposite_side side)) lt of
            None \<Rightarrow> Some acc
          | Some level_idx \<Rightarrow> do {
              lv \<leftarrow> level_get (ladder b (opposite_side side)) level_idx;
              (enough, acc') \<leftarrow> level_walk b owner now needed (lvl_head lv) acc;
              if enough then Some acc'
              else do {
                next \<leftarrow> next_worse_level (ladder b (opposite_side side)) (opposite_side side) level_idx;
                available_walk b side tick needed owner now
                  (map_option (tick_at (ladder b (opposite_side side))) next) acc'
              }
            }))"

definition available_to_match ::
  "OrderBook \<Rightarrow> Side \<Rightarrow> Tick \<Rightarrow> Qty \<Rightarrow> OwnerId \<Rightarrow> Timestamp \<Rightarrow> Qty option" where
  "available_to_match b side tick needed owner now =
     available_walk b side tick needed owner now (best b (opposite_side side)) 0"

text \<open>The number of live arena slots, which every round of the two mutating loops lowers.\<close>

definition live_slots :: "OrderBook \<Rightarrow> nat" where
  "live_slots b = length (filter (\<lambda>x. x \<noteq> None) (arena b))"

lemma ladder_put_arena [simp]:
  "arena (ladder_put b s l) = arena b" "free (ladder_put b s l) = free b"
  "best (ladder_put b s l) = best b"
  by (cases s; simp add: ladder_put_def best_def fun_eq_iff split: Side.split)+

lemma best_put_arena [simp]:
  "arena (best_put b s t) = arena b" "free (best_put b s t) = free b"
  "ladder (best_put b s t) = ladder b"
  by (cases s; simp add: best_put_def ladder_def fun_eq_iff split: Side.split)+

lemma live_count_update:
  assumes "i < length xs" and "xs ! i = Some n"
  shows "length (filter (\<lambda>x. x \<noteq> None) (xs[i := Some m])) = length (filter (\<lambda>x. x \<noteq> None) xs)"
    and "Suc (length (filter (\<lambda>x. x \<noteq> None) (xs[i := None]))) = length (filter (\<lambda>x. x \<noteq> None) xs)"
proof -
  have xs: "xs = take i xs @ Some n # drop (Suc i) xs" using assms by (metis id_take_nth_drop)
  have "xs[i := x] = take i xs @ x # drop (Suc i) xs" for x
    using assms(1) by (rule upd_conv_take_nth_drop)
  with arg_cong [OF xs, of "\<lambda>x. length (filter (\<lambda>x. x \<noteq> None) x)"]
  show "length (filter (\<lambda>x. x \<noteq> None) (xs[i := Some m])) = length (filter (\<lambda>x. x \<noteq> None) xs)"
    and "Suc (length (filter (\<lambda>x. x \<noteq> None) (xs[i := None]))) = length (filter (\<lambda>x. x \<noteq> None) xs)"
    by simp_all
qed

lemma slot_eq_Some_iff: "slot b i = Some n \<longleftrightarrow> i < length (arena b) \<and> arena b ! i = Some n"
  by (auto simp: slot_def vec_get_def)

lemma live_slots_slot_update: "slot_update b i f = Some b' \<Longrightarrow> live_slots b' = live_slots b"
  by (auto simp: slot_update_def live_slots_def slot_eq_Some_iff vec_set_eq_Some_iff
      bind_eq_Some_conv live_count_update simp del: not_None_eq)

lemma live_slots_take_slot: "take_slot b i = Some (n, b') \<Longrightarrow> Suc (live_slots b') = live_slots b"
  by (auto simp: take_slot_def live_slots_def slot_eq_Some_iff vec_set_eq_Some_iff
      bind_eq_Some_conv live_count_update simp del: not_None_eq)

lemma live_slots_level_mut: "level_mut b s i f = Some b' \<Longrightarrow> live_slots b' = live_slots b"
  by (auto simp: level_mut_def live_slots_def bind_eq_Some_conv)

lemma live_slots_advance_if_empty:
  "advance_if_empty b s i t = Some b' \<Longrightarrow> live_slots b' = live_slots b"
  by (auto simp: advance_if_empty_def advance_best_from_def live_slots_def bind_eq_Some_conv
      split: if_splits option.splits)

lemma live_slots_unlink: "unlink b i = Some (n, b') \<Longrightarrow> live_slots b' < live_slots b"
proof -
  assume run: "unlink b i = Some (n, b')"
  then obtain node b0 where t: "take_slot b i = Some (node, b0)"
    by (auto simp: unlink_def bind_eq_Some_conv)
  have "live_slots b' = live_slots (b0\<lparr>free := free b0 @ [i]\<rparr>)"
    using run t
    by (auto simp: unlink_def Let_def bind_eq_Some_conv split: option.splits if_splits
        dest!: live_slots_slot_update live_slots_level_mut)
      (auto simp: live_slots_def)
  with live_slots_take_slot [OF t] show ?thesis by (simp add: live_slots_def)
qed

function prune_expired_head ::
  "OrderBook \<Rightarrow> Side \<Rightarrow> Timestamp \<Rightarrow> OrderId list \<Rightarrow> (OrderBook \<times> OrderId list) option" where
  "prune_expired_head b side now expired_out =
     (case best b side of
        None \<Rightarrow> Some (b, expired_out)
      | Some level_tick \<Rightarrow>
          (case index_of (ladder b side) level_tick of
            None \<Rightarrow> None
          | Some level_idx \<Rightarrow> do {
              lv \<leftarrow> level_get (ladder b side) level_idx;
              head_node \<leftarrow> slot b (lvl_head lv);
              if \<not> is_expired (node_expiry head_node) now then Some (b, expired_out)
              else do {
                (_, b1) \<leftarrow> unlink b (lvl_head lv);
                b2 \<leftarrow> advance_if_empty b1 side level_idx level_tick;
                prune_expired_head b2 side now (expired_out @ [lvl_head lv])
              }
            }))"
  by pat_completeness auto
termination
  by (relation "measure (\<lambda>(b, _). live_slots b)")
    (auto dest!: live_slots_unlink live_slots_advance_if_empty)

declare prune_expired_head.simps [simp del]

text \<open>One round of the matching loop of \<open>submit\<close> against the head of the crossed level.\<close>

definition match_step ::
  "NewOrder \<Rightarrow> Timestamp \<Rightarrow> OrderBook \<Rightarrow> Qty \<Rightarrow> SubmitResult \<Rightarrow> Tick \<Rightarrow>
     (OrderBook \<times> Qty \<times> SubmitResult) option" where
  "match_step order now b qty result level_tick =
     (let opposite = opposite_side (no_side order) in
      case index_of (ladder b opposite) level_tick of
        None \<Rightarrow> None
      | Some level_idx \<Rightarrow> do {
          lv \<leftarrow> level_get (ladder b opposite) level_idx;
          let head = lvl_head lv;
          head_node \<leftarrow> slot b head;
          let expired = is_expired (node_expiry head_node) now;
          let self_trade = (node_owner head_node = no_owner order);
          if expired \<or> self_trade then do {
            (_, b1) \<leftarrow> unlink b head;
            let result1 =
              (if expired then result\<lparr>sr_expired := sr_expired result @ [head]\<rparr>
               else result\<lparr>sr_self_trade_cancelled := sr_self_trade_cancelled result @ [head]\<rparr>);
            b2 \<leftarrow> advance_if_empty b1 opposite level_idx level_tick;
            Some (b2, qty, result1)
          } else do {
            let maker_qty = node_qty head_node;
            let traded = min qty maker_qty;
            let maker_filled = (traded = maker_qty);
            b1 \<leftarrow> (if maker_filled then do { (_, b1) \<leftarrow> unlink b head; Some b1 }
                   else do {
                     b1 \<leftarrow> slot_update b head (\<lambda>n. n\<lparr>node_qty := node_qty n - traded\<rparr>);
                     level_mut b1 opposite level_idx (\<lambda>lv. lv\<lparr>lvl_qty := lvl_qty lv - traded\<rparr>)
                   });
            let result1 = result\<lparr>sr_fills := sr_fills result @
              [\<lparr>fill_maker_id = head, fill_maker_owner = node_owner head_node,
                fill_tick = level_tick, fill_qty = traded, fill_maker_filled = maker_filled,
                fill_maker_size_before = maker_qty, fill_taker_size_before = qty\<rparr>]\<rparr>;
            b2 \<leftarrow> advance_if_empty b1 opposite level_idx level_tick;
            Some (b2, qty - traded, result1)
          }
        })"

lemma match_step_decreases:
  "match_step order now b qty result t = Some (b', qty', result') \<Longrightarrow> qty \<noteq> 0 \<Longrightarrow>
     live_slots b' + (if qty' = 0 then 0 else 1) < live_slots b + 1"
  by (auto simp: match_step_def Let_def bind_eq_Some_conv min_def split: option.splits if_splits
      dest!: live_slots_unlink live_slots_advance_if_empty live_slots_slot_update
        live_slots_level_mut)

function match_loop ::
  "NewOrder \<Rightarrow> Timestamp \<Rightarrow> OrderBook \<Rightarrow> Qty \<Rightarrow> SubmitResult \<Rightarrow>
     (OrderBook \<times> Qty \<times> SubmitResult) option" where
  "match_loop order now b qty result =
     (if qty = 0 then Some (b, qty, result)
      else case best b (opposite_side (no_side order)) of
        None \<Rightarrow> Some (b, qty, result)
      | Some level_tick \<Rightarrow>
          if \<not> crosses (no_side order) (no_tick order) level_tick then Some (b, qty, result)
          else do {
            (b', qty', result') \<leftarrow> match_step order now b qty result level_tick;
            match_loop order now b' qty' result'
          })"
  by pat_completeness auto
termination
  by (relation "measure (\<lambda>(_, _, b, qty, _). live_slots b + (if qty = 0 then 0 else 1))")
    (auto dest!: match_step_decreases)

declare match_loop.simps [simp del]

definition rest_remainder ::
  "NewOrder \<Rightarrow> OrderBook \<Rightarrow> Qty \<Rightarrow> SubmitResult \<Rightarrow> (SubmitResult \<times> OrderBook) option" where
  "rest_remainder order b qty result =
     (if 0 < qty \<and> no_tif order \<notin> {ImmediateOrCancel, FillOrKill} then do {
        let expiry = (case no_tif order of GoodTilTime t \<Rightarrow> Some t | _ \<Rightarrow> None);
        (idx, b1) \<leftarrow> alloc b \<lparr>node_tick = no_tick order, node_qty = qty, node_side = no_side order,
          node_owner = no_owner order, node_expiry = expiry, node_prev = NIL, node_next = NIL\<rparr>;
        b2 \<leftarrow> push_back b1 (no_side order) (no_tick order) idx;
        Some (result\<lparr>sr_resting_id := Some idx, sr_resting_qty := qty\<rparr>, b2)
      } else Some (result, b))"

definition would_cross :: "OrderBook \<Rightarrow> NewOrder \<Rightarrow> bool" where
  "would_cross b order =
     (case opposite_side (no_side order) of
        Long \<Rightarrow> (case best_bid b of None \<Rightarrow> False | Some bid \<Rightarrow> no_tick order \<le> bid)
      | Short \<Rightarrow> (case best_ask b of None \<Rightarrow> False | Some ask \<Rightarrow> ask \<le> no_tick order))"

definition submit_after_guard ::
  "OrderBook \<Rightarrow> NewOrder \<Rightarrow> Timestamp \<Rightarrow> SubmitResult \<Rightarrow> (SubmitResult \<times> OrderBook) option" where
  "submit_after_guard b order now result = do {
     killed \<leftarrow> (if no_tif order = FillOrKill then do {
                  available \<leftarrow> available_to_match b (no_side order) (no_tick order) (no_qty order)
                                (no_owner order) now;
                  Some (available < no_qty order)
                } else Some False);
     if killed then Some (result\<lparr>sr_fill_or_kill_failed := True\<rparr>, b)
     else do {
       (b1, qty, result1) \<leftarrow> match_loop order now b (no_qty order) result;
       rest_remainder order b1 qty result1
     }
   }"

definition submit :: "OrderBook \<Rightarrow> NewOrder \<Rightarrow> Timestamp \<Rightarrow> (SubmitResult \<times> OrderBook) option" where
  "submit b order now =
     (if no_post_only order then do {
        (b1, pruned) \<leftarrow> prune_expired_head b (opposite_side (no_side order)) now [];
        let result = SubmitResult_default\<lparr>sr_expired := pruned\<rparr>;
        if would_cross b1 order then Some (result\<lparr>sr_post_only_rejected := True\<rparr>, b1)
        else submit_after_guard b1 order now result
      } else submit_after_guard b order now SubmitResult_default)"

end
