(* ===== verification/Book_Spec.thy ===== *)
theory Book_Spec
  imports Book "HOL-Library.Multiset"
begin

text \<open>
  The contract of the order book: a side is one list of resting orders in price-time priority.
  \<open>spec_submit\<close>, \<open>spec_cancel\<close> and \<open>spec_depth\<close> state on that list what \<open>submit\<close>, \<open>cancel\<close> and
  \<open>depth\<close> of \<open>crates/cerdic-tee-matcher/src/book.rs\<close> promise; ids come from the same free list.
  Nothing here mentions the arena, the links, the ladder or the bitmap.  The lemmas are about
  matching on the list itself: what is filled, pruned and kept.
\<close>

section \<open>Resting orders in priority order\<close>

record Resting =
  r_id :: OrderId
  r_tick :: Tick
  r_qty :: Qty
  r_owner :: OwnerId
  r_expiry :: "Timestamp option"

record SpecBook =
  sb_bids :: "Resting list"
  sb_asks :: "Resting list"
  sb_free :: "OrderId list"
  sb_next :: OrderId

definition spec_new :: SpecBook where
  "spec_new = \<lparr>sb_bids = [], sb_asks = [], sb_free = [], sb_next = 0\<rparr>"

definition queue :: "SpecBook \<Rightarrow> Side \<Rightarrow> Resting list" where
  "queue S s = (case s of Long \<Rightarrow> sb_bids S | Short \<Rightarrow> sb_asks S)"

definition queue_put :: "SpecBook \<Rightarrow> Side \<Rightarrow> Resting list \<Rightarrow> SpecBook" where
  "queue_put S s q = (case s of Long \<Rightarrow> S\<lparr>sb_bids := q\<rparr> | Short \<Rightarrow> S\<lparr>sb_asks := q\<rparr>)"

definition spec_best :: "Resting list \<Rightarrow> Tick option" where
  "spec_best q = (case q of [] \<Rightarrow> None | r # _ \<Rightarrow> Some (r_tick r))"

definition spec_insert :: "Side \<Rightarrow> Resting \<Rightarrow> Resting list \<Rightarrow> Resting list" where
  "spec_insert s r q =
     takeWhile (\<lambda>x. \<not> better s (r_tick r) (r_tick x)) q @
     r # dropWhile (\<lambda>x. \<not> better s (r_tick r) (r_tick x)) q"

text \<open>Replacing one side's queue after the orders \<open>ids\<close> left it, freed in that order.\<close>

definition spec_take :: "SpecBook \<Rightarrow> Side \<Rightarrow> Resting list \<Rightarrow> OrderId list \<Rightarrow> SpecBook" where
  "spec_take S s q ids = (queue_put S s q)\<lparr>sb_free := sb_free S @ ids\<rparr>"

definition spec_remove :: "SpecBook \<Rightarrow> Side \<Rightarrow> OrderId \<Rightarrow> SpecBook" where
  "spec_remove S s i =
     spec_take S s (filter (\<lambda>x. r_id x \<noteq> i) (queue S s)) [i]"

definition spec_alloc :: "SpecBook \<Rightarrow> OrderId \<times> SpecBook" where
  "spec_alloc S =
     (if sb_free S \<noteq> [] then (last (sb_free S), S\<lparr>sb_free := butlast (sb_free S)\<rparr>)
      else (sb_next S, S\<lparr>sb_next := sb_next S + 1\<rparr>))"

fun spec_prune :: "Timestamp \<Rightarrow> Resting list \<Rightarrow> Resting list \<times> OrderId list" where
  "spec_prune now [] = ([], [])"
| "spec_prune now (r # rs) =
     (if is_expired (r_expiry r) now
      then let (q, ids) = spec_prune now rs in (q, r_id r # ids)
      else (r # rs, []))"

fun spec_available :: "NewOrder \<Rightarrow> Timestamp \<Rightarrow> Resting list \<Rightarrow> Qty \<Rightarrow> Qty" where
  "spec_available order now [] acc = acc"
| "spec_available order now (r # rs) acc =
     (if \<not> crosses (no_side order) (no_tick order) (r_tick r) then acc
      else if \<not> is_expired (r_expiry r) now \<and> r_owner r \<noteq> no_owner order then
        let acc' = saturating_add_u64 acc (r_qty r) in
        if no_qty order \<le> acc' then acc' else spec_available order now rs acc'
      else spec_available order now rs acc)"

definition spec_fill :: "Resting \<Rightarrow> Qty \<Rightarrow> Fill" where
  "spec_fill r qty =
     \<lparr>fill_maker_id = r_id r, fill_maker_owner = r_owner r, fill_tick = r_tick r,
      fill_qty = min qty (r_qty r), fill_maker_filled = (min qty (r_qty r) = r_qty r),
      fill_maker_size_before = r_qty r, fill_taker_size_before = qty\<rparr>"

text \<open>Matching: the queue left over, the ids freed in order, the quantity left, the result.\<close>

fun spec_match :: "NewOrder \<Rightarrow> Timestamp \<Rightarrow> Resting list \<Rightarrow> Qty \<Rightarrow> SubmitResult \<Rightarrow>
    Resting list \<times> OrderId list \<times> Qty \<times> SubmitResult" where
  "spec_match order now [] qty res = ([], [], qty, res)"
| "spec_match order now (r # rs) qty res =
     (if qty = 0 \<or> \<not> crosses (no_side order) (no_tick order) (r_tick r) then (r # rs, [], qty, res)
      else if is_expired (r_expiry r) now then
        let (q, ids, rest) =
          spec_match order now rs qty (res\<lparr>sr_expired := sr_expired res @ [r_id r]\<rparr>)
        in (q, r_id r # ids, rest)
      else if r_owner r = no_owner order then
        let (q, ids, rest) = spec_match order now rs qty
          (res\<lparr>sr_self_trade_cancelled := sr_self_trade_cancelled res @ [r_id r]\<rparr>)
        in (q, r_id r # ids, rest)
      else
        let res' = res\<lparr>sr_fills := sr_fills res @ [spec_fill r qty]\<rparr> in
        if r_qty r \<le> qty then
          let (q, ids, rest) = spec_match order now rs (qty - r_qty r) res'
          in (q, r_id r # ids, rest)
        else (r\<lparr>r_qty := r_qty r - qty\<rparr> # rs, [], 0, res'))"

definition expiry_of :: "TimeInForce \<Rightarrow> Timestamp option" where
  "expiry_of tif = (case tif of GoodTilTime t \<Rightarrow> Some t | _ \<Rightarrow> None)"

definition spec_rest :: "NewOrder \<Rightarrow> SpecBook \<Rightarrow> Qty \<Rightarrow> SubmitResult \<Rightarrow> SubmitResult \<times> SpecBook" where
  "spec_rest order S qty res =
     (if 0 < qty \<and> no_tif order \<notin> {ImmediateOrCancel, FillOrKill} then
        let (i, S') = spec_alloc S;
            r = \<lparr>r_id = i, r_tick = no_tick order, r_qty = qty, r_owner = no_owner order,
                 r_expiry = expiry_of (no_tif order)\<rparr> in
        (res\<lparr>sr_resting_id := Some i, sr_resting_qty := qty\<rparr>,
         queue_put S' (no_side order) (spec_insert (no_side order) r (queue S' (no_side order))))
      else (res, S))"

definition spec_submit_after_guard ::
  "SpecBook \<Rightarrow> NewOrder \<Rightarrow> Timestamp \<Rightarrow> SubmitResult \<Rightarrow> SubmitResult \<times> SpecBook" where
  "spec_submit_after_guard S order now res =
     (let opp = opposite_side (no_side order) in
      if no_tif order = FillOrKill \<and> spec_available order now (queue S opp) 0 < no_qty order
      then (res\<lparr>sr_fill_or_kill_failed := True\<rparr>, S)
      else
        let (q, ids, qty, res') = spec_match order now (queue S opp) (no_qty order) res in
        spec_rest order (spec_take S opp q ids) qty res')"

definition spec_submit :: "SpecBook \<Rightarrow> NewOrder \<Rightarrow> Timestamp \<Rightarrow> SubmitResult \<times> SpecBook" where
  "spec_submit S order now =
     (if no_post_only order then
        let opp = opposite_side (no_side order);
            (q, pruned) = spec_prune now (queue S opp);
            S' = spec_take S opp q pruned;
            res = SubmitResult_default\<lparr>sr_expired := pruned\<rparr> in
        case spec_best q of
          Some t \<Rightarrow> if crosses (no_side order) (no_tick order) t
                    then (res\<lparr>sr_post_only_rejected := True\<rparr>, S')
                    else spec_submit_after_guard S' order now res
        | None \<Rightarrow> spec_submit_after_guard S' order now res
      else spec_submit_after_guard S order now SubmitResult_default)"

definition spec_cancel :: "SpecBook \<Rightarrow> OrderId \<Rightarrow> (Tick \<times> Qty) option \<times> SpecBook" where
  "spec_cancel S i =
     (case find (\<lambda>r. r_id r = i) (sb_bids S) of
        Some r \<Rightarrow> (Some (r_tick r, r_qty r), spec_remove S Long i)
      | None \<Rightarrow>
          (case find (\<lambda>r. r_id r = i) (sb_asks S) of
            Some r \<Rightarrow> (Some (r_tick r, r_qty r), spec_remove S Short i)
          | None \<Rightarrow> (None, S)))"

function spec_depth :: "nat \<Rightarrow> Resting list \<Rightarrow> Qty \<Rightarrow> PriceLevel list" where
  "spec_depth 0 q cumulative = []"
| "spec_depth (Suc n) [] cumulative = []"
| "spec_depth (Suc n) (r # rs) cumulative =
     (let qty = sum_list (map r_qty (filter (\<lambda>x. r_tick x = r_tick r) (r # rs))) in
      \<lparr>pl_tick = r_tick r, pl_qty = qty, pl_cumulative = cumulative + qty\<rparr> #
      spec_depth n (filter (\<lambda>x. r_tick x \<noteq> r_tick r) (r # rs)) (cumulative + qty))"
  by pat_completeness auto
termination
  by (relation "measure (\<lambda>(n, _). n)") auto

section \<open>Priority order\<close>

definition in_priority :: "Side \<Rightarrow> Resting list \<Rightarrow> bool" where
  "in_priority s q \<longleftrightarrow> sorted_wrt (\<lambda>x y. \<not> better s (r_tick y) (r_tick x)) q"

lemma better_trans_neg: "\<not> better s u t \<Longrightarrow> \<not> better s v u \<Longrightarrow> \<not> better s v t"
  by (cases s) (auto simp: better_def)

lemma better_asym: "better s u t \<Longrightarrow> \<not> better s t u"
  by (cases s) (auto simp: better_def)

lemma better_antisym: "\<not> better s u t \<Longrightarrow> \<not> better s t u \<Longrightarrow> u = t"
  by (cases s) (auto simp: better_def)

lemma better_irrefl [simp]: "\<not> better s t t"
  by (cases s) (auto simp: better_def)

lemma better_opposite: "better (opposite_side s) u t \<longleftrightarrow> better s t u"
  by (cases s) (auto simp: better_def opposite_side_def)

lemma crosses_iff: "crosses s t u \<longleftrightarrow> \<not> better s u t"
  by (cases s) (auto simp: crosses_def better_def)

lemma in_priority_Cons [simp]:
  "in_priority s (r # rs) \<longleftrightarrow> (\<forall>x \<in> set rs. \<not> better s (r_tick x) (r_tick r)) \<and> in_priority s rs"
  by (simp add: in_priority_def)

lemma in_priority_Nil [simp]: "in_priority s []"
  by (simp add: in_priority_def)

lemma in_priority_append:
  "in_priority s (xs @ ys) \<longleftrightarrow> in_priority s xs \<and> in_priority s ys \<and>
     (\<forall>x \<in> set xs. \<forall>y \<in> set ys. \<not> better s (r_tick y) (r_tick x))"
  by (simp add: in_priority_def sorted_wrt_append)

lemma in_priority_filter: "in_priority s q \<Longrightarrow> in_priority s (filter P q)"
  by (simp add: in_priority_def sorted_wrt_filter)

lemma dropWhile_better:
  assumes "in_priority s q" and "x \<in> set (dropWhile (\<lambda>x. \<not> better s t (r_tick x)) q)"
  shows "better s t (r_tick x)"
  using assms by (induction q) (auto split: if_splits dest: better_trans_neg)

lemma spec_insert_priority: "in_priority s q \<Longrightarrow> in_priority s (spec_insert s r q)"
proof -
  let ?P = "\<lambda>x. \<not> better s (r_tick r) (r_tick x)"
  assume q: "in_priority s q"
  then have "in_priority s (takeWhile ?P q @ dropWhile ?P q)" by (simp only: takeWhile_dropWhile_id)
  moreover have "\<forall>y \<in> set (dropWhile ?P q). \<not> better s (r_tick y) (r_tick r)"
    using dropWhile_better [OF q] better_asym by blast
  moreover have "\<forall>x \<in> set (takeWhile ?P q). \<not> better s (r_tick r) (r_tick x)"
    using set_takeWhileD by fastforce
  ultimately show ?thesis 
    unfolding spec_insert_def in_priority_append in_priority_Cons set_simps by blast
qed

lemma mset_spec_insert: "mset (spec_insert s r q) = add_mset r (mset q)"
proof -
  let ?P = "\<lambda>x. \<not> better s (r_tick r) (r_tick x)"
  have "mset q = mset (takeWhile ?P q) + mset (dropWhile ?P q)"
    by (metis mset_append takeWhile_dropWhile_id)
  then show ?thesis by (simp add: spec_insert_def)
qed

lemma set_spec_insert [simp]: "set (spec_insert s r q) = insert r (set q)"
  using arg_cong [OF mset_spec_insert [of s r q], of set_mset]
  by (simp only: set_mset_mset set_mset_add_mset_insert)

lemma distinct_spec_insert:
  "distinct (map r_id (spec_insert s r q)) \<longleftrightarrow> r_id r \<notin> r_id ` set q \<and> distinct (map r_id q)"
proof -
  have "mset (map r_id (spec_insert s r q)) = mset (map r_id (r # q))"
    by (simp only: mset_map mset_spec_insert mset.simps)
  from mset_eq_imp_distinct_iff [OF this] show ?thesis by simp
qed

lemma filter_spec_insert:
  assumes "in_priority s q"
  shows "filter (\<lambda>x. r_tick x = t) (spec_insert s r q) =
     filter (\<lambda>x. r_tick x = t) q @ (if r_tick r = t then [r] else [])"
proof -
  define tw where "tw = takeWhile (\<lambda>x. \<not> better s (r_tick r) (r_tick x)) q"
  define dw where "dw = dropWhile (\<lambda>x. \<not> better s (r_tick r) (r_tick x)) q"
  have q: "q = tw @ dw" by (simp add: tw_def dw_def)
  have "better s (r_tick r) (r_tick x)" if "x \<in> set dw" for x
    using dropWhile_better [OF assms] that unfolding dw_def by blast
  then have "\<forall>x \<in> set dw. r_tick x \<noteq> r_tick r" by (metis better_irrefl)
  then have "filter (\<lambda>x. r_tick x = t) (tw @ r # dw) =
     filter (\<lambda>x. r_tick x = t) (tw @ dw) @ (if r_tick r = t then [r] else [])" by auto
  then show ?thesis unfolding spec_insert_def tw_def [symmetric] dw_def [symmetric] q [symmetric] .
qed

end
