(* ===== verification/Book_Refinement.thy ===== *)
theory Book_Refinement
  imports Book_Spec
begin

text \<open>
  The arena book implements the list book of \<open>Book_Spec\<close>.  \<open>dlseg\<close> describes the doubly linked
  queue of a level, \<open>book_core\<close> and \<open>book_rel\<close> relate a book to a list book, and every operation of
  \<open>crates/cerdic-tee-matcher/src/book.rs\<close> is shown to run without a panic on a related book, to give
  the list book's result and to stay related.
\<close>

section \<open>Doubly linked segments\<close>

text \<open>
  \<open>dlseg a p h k m is\<close>: following \<open>next\<close> from \<open>h\<close> visits exactly \<open>is\<close> and ends at \<open>m\<close>; the
  \<open>prev\<close> links lead back from the last node \<open>k\<close> to \<open>p\<close>.
\<close>

fun dlseg :: "OrderNode option list \<Rightarrow> nat \<Rightarrow> nat \<Rightarrow> nat \<Rightarrow> nat \<Rightarrow> nat list \<Rightarrow> bool" where
  "dlseg a p h k m [] \<longleftrightarrow> h = m \<and> k = p"
| "dlseg a p h k m (i # is) \<longleftrightarrow> h = i \<and> i < length a \<and>
     (\<exists>n. a ! i = Some n \<and> node_prev n = p \<and> dlseg a i (node_next n) k m is)"

lemma dlseg_append:
  "dlseg a p h k m (xs @ ys) \<longleftrightarrow> (\<exists>k' m'. dlseg a p h k' m' xs \<and> dlseg a k' m' k m ys)"
  by (induction xs arbitrary: p h) auto

lemma dlseg_frame: "j \<notin> set is \<Longrightarrow> dlseg (a[j := x]) p h k m is = dlseg a p h k m is"
  by (induction "is" arbitrary: p h) auto

lemma dlseg_frame_append: "dlseg a p h k m is \<Longrightarrow> dlseg (a @ xs) p h k m is"
  by (induction "is" arbitrary: p h) (auto simp: nth_append)

lemma dlseg_ends: "dlseg a p h k m is \<Longrightarrow> k = last (p # is) \<and> h = hd (is @ [m])"
  by (induction "is" arbitrary: p h) auto

lemma dlseg_cong:
  assumes "\<And>i. i \<in> set is \<Longrightarrow> i < length a \<Longrightarrow> i < length a' \<and>
     map_option (\<lambda>n. (node_prev n, node_next n)) (a' ! i) =
     map_option (\<lambda>n. (node_prev n, node_next n)) (a ! i)"
    and "dlseg a p h k m is"
  shows "dlseg a' p h k m is"
  using assms
proof (induction "is" arbitrary: p h)
  case (Cons i "is")
  then obtain n where n: "h = i" "i < length a" "a ! i = Some n" "node_prev n = p"
    "dlseg a i (node_next n) k m is" by auto
  with Cons.prems(1) [of i] obtain n' where "i < length a'" "a' ! i = Some n'" "node_prev n' = p"
    "node_next n' = node_next n" by auto
  with n Cons show ?case by auto
qed simp

text \<open>Redirecting the last \<open>next\<close> link, or the first \<open>prev\<close> link, of a nonempty segment.\<close>

lemma dlseg_set_next:
  assumes "dlseg a p h k m is" and "is \<noteq> []" and "distinct is"
  shows "\<exists>n. k < length a \<and> a ! k = Some n \<and> k \<in> set is \<and>
     dlseg (a[k := Some (n\<lparr>node_next := m'\<rparr>)]) p h k m' is"
  using assms
proof (induction "is" arbitrary: p h)
  case (Cons i "is")
  then obtain n where n: "h = i" "i < length a" "a ! i = Some n" "node_prev n = p"
    "dlseg a i (node_next n) k m is" by auto
  show ?case
  proof (cases "is = []")
    case True
    with n show ?thesis by auto
  next
    case False
    from Cons.IH [OF n(5) False] Cons.prems(3) obtain n' where
      "k < length a" "a ! k = Some n'" "k \<in> set is"
      "dlseg (a[k := Some (n'\<lparr>node_next := m'\<rparr>)]) i (node_next n) k m' is" by auto
    moreover have "k \<noteq> i" using Cons.prems(3) \<open>k \<in> set is\<close> by auto
    ultimately show ?thesis using n by auto
  qed
qed simp

lemma dlseg_set_prev:
  assumes "dlseg a p h k m (i # is)" and "distinct (i # is)"
  shows "\<exists>n. i < length a \<and> a ! i = Some n \<and>
     dlseg (a[i := Some (n\<lparr>node_prev := p'\<rparr>)]) p' h k m (i # is)"
  using assms by (auto simp: dlseg_frame)

text \<open>Unlinking a node from the middle of a level's queue.\<close>

definition relink :: "OrderNode option list \<Rightarrow> nat \<Rightarrow> (OrderNode \<Rightarrow> OrderNode) \<Rightarrow> OrderNode option list" where
  "relink a i f = (if i = NIL then a else a[i := map_option f (a ! i)])"

lemma dlseg_unlink:
  assumes seg: "dlseg a NIL h k NIL (xs @ i # ys)" and dist: "distinct (xs @ i # ys)"
    and nil: "NIL \<notin> set (xs @ i # ys)" and n: "a ! i = Some n"
  defines "a1 \<equiv> relink (a[i := None]) (node_prev n) (\<lambda>p. p\<lparr>node_next := node_next n\<rparr>)"
  defines "a2 \<equiv> relink a1 (node_next n) (\<lambda>q. q\<lparr>node_prev := node_prev n\<rparr>)"
  shows "node_prev n = last (NIL # xs)" and "node_next n = hd (ys @ [NIL])"
    and "xs \<noteq> [] \<Longrightarrow> \<exists>p. node_prev n < length a \<and> a[i := None] ! node_prev n = Some p"
    and "ys \<noteq> [] \<Longrightarrow> \<exists>q. node_next n < length a \<and> a1 ! node_next n = Some q"
    and "dlseg a2 NIL (if xs = [] then node_next n else h) (if ys = [] then node_prev n else k) NIL
           (xs @ ys)"
proof -
  from seg n obtain k1 where sx: "dlseg a NIL h k1 i xs" and pk: "node_prev n = k1"
    and sy: "dlseg a i (node_next n) k NIL ys" and i: "i < length a"
    by (auto simp: dlseg_append)
  from dlseg_ends [OF sx] pk show prev: "node_prev n = last (NIL # xs)" by simp
  from dlseg_ends [OF sy] show "next": "node_next n = hd (ys @ [NIL])" by simp
  have sx0: "dlseg (a[i := None]) NIL h k1 i xs" and sy0: "dlseg (a[i := None]) i (node_next n) k NIL ys"
    using sx sy dist by (simp_all add: dlseg_frame)
  have in_xs: "xs \<noteq> [] \<Longrightarrow> node_prev n \<in> set xs \<and> node_prev n \<noteq> NIL"
    using prev nil last_in_set [of xs] by (cases "last xs = NIL") auto
  have in_ys: "ys \<noteq> [] \<Longrightarrow> node_next n \<in> set ys \<and> node_next n \<noteq> NIL"
    using "next" nil by (cases ys) auto
  have left: "(xs \<noteq> [] \<longrightarrow> (\<exists>p. node_prev n < length a \<and> a[i := None] ! node_prev n = Some p)) \<and>
      dlseg a1 NIL (if xs = [] then node_next n else h) k1 (node_next n) xs \<and>
      dlseg a1 i (node_next n) k NIL ys"
  proof (cases "xs = []")
    case True
    then show ?thesis using prev sx0 sy0 by (simp add: a1_def relink_def)
  next
    case False
    from dlseg_set_next [OF sx0 False, of "node_next n"] dist obtain p where p: "k1 < length a"
      "a[i := None] ! k1 = Some p" "k1 \<in> set xs"
      "dlseg (a[i := None, k1 := Some (p\<lparr>node_next := node_next n\<rparr>)]) NIL h k1 (node_next n) xs"
      by auto
    have "a1 = a[i := None, k1 := Some (p\<lparr>node_next := node_next n\<rparr>)]"
      using in_xs [OF False] p pk by (simp add: a1_def relink_def)
    moreover have "k1 \<notin> set ys" using p(3) dist by auto
    ultimately show ?thesis using p pk False sy0 by (simp add: dlseg_frame)
  qed
  then show "xs \<noteq> [] \<Longrightarrow> \<exists>p. node_prev n < length a \<and> a[i := None] ! node_prev n = Some p" by simp
  have len: "length a1 = length a" by (simp add: a1_def relink_def)
  have right: "(ys \<noteq> [] \<longrightarrow> (\<exists>q. node_next n < length a \<and> a1 ! node_next n = Some q)) \<and>
      dlseg a2 NIL (if xs = [] then node_next n else h) k1 (node_next n) xs \<and>
      dlseg a2 k1 (node_next n) (if ys = [] then node_prev n else k) NIL ys"
  proof (cases ys)
    case Nil
    then show ?thesis using "next" left pk by (simp add: a2_def relink_def)
  next
    case (Cons y zs)
    then have y: "node_next n = y" using "next" by simp
    have "dlseg a1 i (node_next n) k NIL (y # zs)" using left Cons by simp
    moreover have "distinct (y # zs)" using dist Cons by simp
    ultimately obtain q where q: "y < length a1" "a1 ! y = Some q"
      "dlseg (a1[y := Some (q\<lparr>node_prev := k1\<rparr>)]) k1 (node_next n) k NIL (y # zs)"
      using dlseg_set_prev [of a1 i "node_next n" k NIL y zs k1] by blast
    have "a2 = a1[y := Some (q\<lparr>node_prev := k1\<rparr>)]"
      using in_ys Cons q pk y by (simp add: a2_def relink_def)
    moreover have "y \<notin> set xs" using dist Cons by auto
    ultimately show ?thesis using q left Cons y len by (simp add: dlseg_frame del: dlseg.simps)
  qed
  then show "ys \<noteq> [] \<Longrightarrow> \<exists>q. node_next n < length a \<and> a1 ! node_next n = Some q" by simp
  from right show "dlseg a2 NIL (if xs = [] then node_next n else h)
      (if ys = [] then node_prev n else k) NIL (xs @ ys)" unfolding dlseg_append by blast
qed

section \<open>Updates of one level\<close>

lemma ladder_ladder_put [simp]:
  "ladder (ladder_put b s l) = (ladder b)(s := l)"
  by (cases s) (auto simp: ladder_def ladder_put_def fun_eq_iff split: Side.split)

lemma ladder_update_other [simp]:
  "ladder (b\<lparr>arena := a\<rparr>) = ladder b" "ladder (b\<lparr>free := fr\<rparr>) = ladder b"
  "best (b\<lparr>arena := a\<rparr>) = best b" "best (b\<lparr>free := fr\<rparr>) = best b"
  by (auto simp: ladder_def best_def fun_eq_iff split: Side.split)

lemma best_best_put [simp]: "best (best_put b s t) = (best b)(s := t)"
  by (cases s) (auto simp: best_def best_put_def fun_eq_iff split: Side.split)

lemma ladder_sync_mono: "ladder_sync I l \<Longrightarrow> I \<subseteq> J \<Longrightarrow> ladder_sync J l"
  by (auto simp: ladder_sync_def)

lemma slot_update_run:
  "i < length (arena b) \<Longrightarrow> arena b ! i = Some n \<Longrightarrow>
     slot_update b i f = Some (b\<lparr>arena := (arena b)[i := Some (f n)]\<rparr>)"
  by (simp add: slot_update_def slot_def vec_simps)

text \<open>
  \<open>level_edit b s i t f a b'\<close>: \<open>b'\<close> is \<open>b\<close> with the level of tick \<open>t\<close> on side \<open>s\<close> (index \<open>i\<close>) changed
  by \<open>f\<close> and the arena replaced by \<open>a\<close>; the bitmap bit of that level may be stale.
\<close>

definition level_edit where
  "level_edit b s i t f a b' \<longleftrightarrow>
     arena b' = a \<and> free b' = free b \<and> best b' = best b \<and>
     (\<forall>s'. s' \<noteq> s \<longrightarrow> ladder b' s' = ladder b s') \<and>
     ladder_sync {i} (ladder b' s) \<and> index_of (ladder b' s) = index_of (ladder b s) \<and>
     occupancy (ladder b' s) = occupancy (ladder b s) \<and>
     level_of (ladder b' s) = (level_of (ladder b s))(t := f (level_of (ladder b s) t))"

lemma level_edit_trans:
  "level_edit b s i t f a b1 \<Longrightarrow> level_edit b1 s i t g a' b2 \<Longrightarrow>
     level_edit b s i t (\<lambda>lv. g (f lv)) a' b2"
  by (simp add: level_edit_def)

lemma level_mut_run:
  assumes "ladder_sync {i} (ladder b s)" and "index_of (ladder b s) t = Some i"
  shows "\<exists>b'. level_mut b s i f = Some b' \<and> level_edit b s i t f (arena b) b'"
  using level_update_spec [OF assms, of f] by (auto simp: level_mut_def level_edit_def)

lemma link_step:
  assumes "ladder_sync {i} (ladder b s)" and "index_of (ladder b s) t = Some i"
    and "p \<noteq> NIL \<Longrightarrow> \<exists>m. p < length (arena b) \<and> arena b ! p = Some m"
  shows "\<exists>b'. (if p \<noteq> NIL then slot_update b p f else level_mut b s i g) = Some b' \<and>
     level_edit b s i t (\<lambda>lv. if p \<noteq> NIL then lv else g lv) (relink (arena b) p f) b'"
proof (cases "p = NIL")
  case True
  with level_mut_run [OF assms(1,2), of g] show ?thesis by (simp add: relink_def)
next
  case False
  with assms(3) obtain m where "p < length (arena b)" "arena b ! p = Some m" by blast
  with False assms show ?thesis
    by (simp add: slot_update_run level_edit_def relink_def)
qed

lemma level_get_at: "index_of l t = Some i \<Longrightarrow> level_get l i = Some (level_of l t)"
  by (auto simp: level_get_def level_of_index index_of_eq_Some_iff vec_simps)

lemma unlink_run:
  fixes b idx n
  defines "s \<equiv> node_side n" and "t \<equiv> node_tick n"
  defines "a1 \<equiv> relink ((arena b)[idx := None]) (node_prev n) (\<lambda>p. p\<lparr>node_next := node_next n\<rparr>)"
  defines "a2 \<equiv> relink a1 (node_next n) (\<lambda>q. q\<lparr>node_prev := node_prev n\<rparr>)"
  assumes idx: "idx < length (arena b)" "arena b ! idx = Some n"
    and ok: "ladder_ok (ladder b s)" and occ: "occupied (ladder b s) t"
    and prev: "node_prev n \<noteq> NIL \<Longrightarrow>
      \<exists>p. node_prev n < length (arena b) \<and> (arena b)[idx := None] ! node_prev n = Some p"
    and "next": "node_next n \<noteq> NIL \<Longrightarrow> \<exists>q. node_next n < length (arena b) \<and> a1 ! node_next n = Some q"
  shows "\<exists>b'. unlink b idx = Some (n, b') \<and> arena b' = a2 \<and> free b' = free b @ [idx] \<and>
     best b' = best b \<and> (\<forall>s'. s' \<noteq> s \<longrightarrow> ladder b' s' = ladder b s') \<and> ladder_ok (ladder b' s) \<and>
     index_of (ladder b' s) = index_of (ladder b s) \<and>
     level_of (ladder b' s) = (level_of (ladder b s))(t :=
       \<lparr>lvl_head = (if node_prev n \<noteq> NIL then lvl_head (level_of (ladder b s) t) else node_next n),
        lvl_tail = (if node_next n \<noteq> NIL then lvl_tail (level_of (ladder b s) t) else node_prev n),
        lvl_qty = lvl_qty (level_of (ladder b s) t) - node_qty n\<rparr>)"
proof -
  obtain i where i: "index_of (ladder b s) t = Some i" using occupied_has_index [OF occ] by blast
  define b1 where "b1 = b\<lparr>arena := (arena b)[idx := None], free := free b @ [idx]\<rparr>"
  have take: "take_slot b idx = Some (n, b\<lparr>arena := (arena b)[idx := None]\<rparr>)"
    using idx by (simp add: take_slot_def slot_def vec_simps)
  have free1: "b\<lparr>arena := (arena b)[idx := None],
      free := free (b\<lparr>arena := (arena b)[idx := None]\<rparr>) @ [idx]\<rparr> = b1"
    by (simp add: b1_def)
  have b1: "ladder b1 = ladder b" "arena b1 = (arena b)[idx := None]" "best b1 = best b"
    by (simp_all add: b1_def)
  have sync: "ladder_sync {i} (ladder b1 s)" using ladder_sync_mono [OF ok] b1 by simp
  from link_step [OF sync, of t "node_prev n" "\<lambda>p. p\<lparr>node_next := node_next n\<rparr>"
      "\<lambda>lv. lv\<lparr>lvl_head := node_next n\<rparr>"] prev i b1
  obtain b2 where b2: "(if node_prev n \<noteq> NIL
      then slot_update b1 (node_prev n) (\<lambda>p. p\<lparr>node_next := node_next n\<rparr>)
      else level_mut b1 s i (\<lambda>lv. lv\<lparr>lvl_head := node_next n\<rparr>)) = Some b2"
    "level_edit b1 s i t (\<lambda>lv. if node_prev n \<noteq> NIL then lv else lv\<lparr>lvl_head := node_next n\<rparr>) a1 b2"
    by (auto simp: a1_def)
  have len: "length a1 = length (arena b)" by (simp add: a1_def relink_def)
  from b2(2) link_step [of i b2 s t "node_next n" "\<lambda>q. q\<lparr>node_prev := node_prev n\<rparr>"
      "\<lambda>lv. lv\<lparr>lvl_tail := node_prev n\<rparr>"] "next" i b1 len
  obtain b3 where b3: "(if node_next n \<noteq> NIL
      then slot_update b2 (node_next n) (\<lambda>q. q\<lparr>node_prev := node_prev n\<rparr>)
      else level_mut b2 s i (\<lambda>lv. lv\<lparr>lvl_tail := node_prev n\<rparr>)) = Some b3"
    "level_edit b2 s i t (\<lambda>lv. if node_next n \<noteq> NIL then lv else lv\<lparr>lvl_tail := node_prev n\<rparr>) a2 b3"
    by (auto simp: level_edit_def a2_def)
  from level_edit_trans [OF b2(2) b3(2)] level_mut_run [of i b3 s t
      "\<lambda>lv. lv\<lparr>lvl_qty := lvl_qty lv - node_qty n\<rparr>"] i b1
  obtain b4 where b4: "level_mut b3 s i (\<lambda>lv. lv\<lparr>lvl_qty := lvl_qty lv - node_qty n\<rparr>) = Some b4"
    "level_edit b3 s i t (\<lambda>lv. lv\<lparr>lvl_qty := lvl_qty lv - node_qty n\<rparr>) a2 b4"
    by (auto simp: level_edit_def)
  let ?lv = "\<lparr>lvl_head = (if node_prev n \<noteq> NIL then lvl_head (level_of (ladder b s) t) else node_next n),
        lvl_tail = (if node_next n \<noteq> NIL then lvl_tail (level_of (ladder b s) t) else node_prev n),
        lvl_qty = lvl_qty (level_of (ladder b s) t) - node_qty n\<rparr>"
  have e4: "level_edit b1 s i t (\<lambda>_. ?lv) a2 b4"
    using level_edit_trans [OF level_edit_trans [OF b2(2) b3(2)] b4(2)] b1
    by (cases "level_of (ladder b s) t") (auto simp: level_edit_def)
  have at4: "index_of (ladder b4 s) t = Some i" "level_of (ladder b4 s) t = ?lv"
    "ladder_sync {i} (ladder b4 s)" "occupancy (ladder b4 s) = occupancy (ladder b s)"
    using e4 i b1 by (simp_all add: level_edit_def)
  have run: "unlink b idx = (do {
      b5 \<leftarrow> (if level_is_empty ?lv then do {
               l \<leftarrow> mark_empty (ladder b4 s) i; Some (ladder_put b4 s l)
             } else Some b4);
      Some (n, b5) })"
    by (simp only: unlink_def take Let_def bind.bind_lunit prod.case free1 s_def [symmetric]
        t_def [symmetric] b1(1) i option.case b2(1) b3(1) b4(1) level_get_at [OF at4(1)] at4(2))
  show ?thesis
  proof (cases "level_is_empty ?lv")
    case True
    with mark_empty_spec [OF at4(3,1)] at4(2) obtain l where l: "mark_empty (ladder b4 s) i = Some l"
      "ladder_ok l" "level_of l = level_of (ladder b4 s)" "index_of l = index_of (ladder b4 s)" by auto
    with True run e4 b1 show ?thesis by (auto simp: level_edit_def b1_def)
  next
    case False
    have "is_set (occupancy (ladder b4 s)) i"
      using ladder_sync_is_set [OF ok, of i] occ i tick_at_index_of [OF i] at4(4)
      by (auto simp: index_of_eq_Some_iff)
    then have "ladder_ok (ladder b4 s)" using ladder_resync [OF at4(3,1)] False at4(2) by simp
    with False run e4 b1 show ?thesis by (auto simp: level_edit_def b1_def)
  qed
qed

section \<open>The simulation relation\<close>

definition node_is :: "Side \<Rightarrow> Resting \<Rightarrow> OrderNode \<Rightarrow> bool" where
  "node_is s r n \<longleftrightarrow> node_side n = s \<and> node_tick n = r_tick r \<and> node_qty n = r_qty r \<and>
     node_owner n = r_owner r \<and> node_expiry n = r_expiry r"

definition at_tick :: "Resting list \<Rightarrow> Tick \<Rightarrow> Resting list" where
  "at_tick q t = filter (\<lambda>r. r_tick r = t) q"

definition level_rel :: "OrderNode option list \<Rightarrow> Level \<Rightarrow> Resting list \<Rightarrow> bool" where
  "level_rel a lv rs \<longleftrightarrow> dlseg a NIL (lvl_head lv) (lvl_tail lv) NIL (map r_id rs) \<and>
     lvl_qty lv = sum_list (map r_qty rs)"

definition live_as :: "OrderNode option list \<Rightarrow> Side \<Rightarrow> Resting \<Rightarrow> bool" where
  "live_as a s r \<longleftrightarrow> (\<exists>n. r_id r < length a \<and> a ! r_id r = Some n \<and> node_is s r n)"

definition side_core :: "OrderNode option list \<Rightarrow> Ladder \<Rightarrow> Side \<Rightarrow> Resting list \<Rightarrow> bool" where
  "side_core a l s q \<longleftrightarrow> ladder_ok l \<and> in_priority s q \<and> distinct (map r_id q) \<and>
     (\<forall>r \<in> set q. live_as a s r) \<and> (\<forall>t. level_rel a (level_of l t) (at_tick q t))"

definition arena_core :: "OrderNode option list \<Rightarrow> nat list \<Rightarrow> (Side \<Rightarrow> Resting list) \<Rightarrow> bool" where
  "arena_core a fr q \<longleftrightarrow> length a \<le> NIL \<and> distinct fr \<and>
     set fr = {i. i < length a \<and> a ! i = None} \<and>
     (\<forall>i n. i < length a \<longrightarrow> a ! i = Some n \<longrightarrow> i \<in> r_id ` set (q (node_side n)))"

definition book_core :: "OrderBook \<Rightarrow> SpecBook \<Rightarrow> bool" where
  "book_core b S \<longleftrightarrow> (\<forall>s. side_core (arena b) (ladder b s) s (queue S s)) \<and>
     arena_core (arena b) (free b) (queue S) \<and> free b = sb_free S \<and> length (arena b) = sb_next S"

definition book_rel :: "OrderBook \<Rightarrow> SpecBook \<Rightarrow> bool" where
  "book_rel b S \<longleftrightarrow> book_core b S \<and> (\<forall>s. best b s = spec_best (queue S s))"

lemma queue_queue_put [simp]: "queue (queue_put S s q) = (queue S)(s := q)"
  by (cases s) (auto simp: queue_def queue_put_def fun_eq_iff split: Side.split)

lemma queue_other [simp]:
  "queue (S\<lparr>sb_free := f\<rparr>) = queue S" "queue (S\<lparr>sb_next := n\<rparr>) = queue S"
  "sb_free (queue_put S s q) = sb_free S" "sb_next (queue_put S s q) = sb_next S"
  by (auto simp: queue_def queue_put_def fun_eq_iff split: Side.split)

lemma live_as_bound: "live_as a s r \<Longrightarrow> length a \<le> NIL \<Longrightarrow> r_id r < length a \<and> r_id r \<noteq> NIL"
  by (auto simp: live_as_def)

lemma side_core_frame:
  assumes "side_core a l s q"
    and "\<And>r. r \<in> set q \<Longrightarrow> r_id r < length a' \<and> a' ! r_id r = a ! r_id r"
  shows "side_core a' l s q"
proof -
  have "level_rel a' lv (at_tick q t)" if "level_rel a lv (at_tick q t)" for lv t
    unfolding level_rel_def
  proof
    show "dlseg a' NIL (lvl_head lv) (lvl_tail lv) NIL (map r_id (at_tick q t))"
      by (rule dlseg_cong [of _ a]) (use assms(2) that in \<open>auto simp: at_tick_def level_rel_def\<close>)
  qed (use that in \<open>simp add: level_rel_def\<close>)
  moreover have "live_as a' s r" if "r \<in> set q" for r
    using assms that by (fastforce simp: side_core_def live_as_def)
  ultimately show ?thesis using assms(1) by (simp add: side_core_def)
qed

lemma other_side_ids:
  assumes "book_core b S" and "r \<in> set (queue S s)" and "x \<in> set (queue S s')" and "s \<noteq> s'"
  shows "r_id x \<noteq> r_id r"
  using assms unfolding book_core_def side_core_def live_as_def node_is_def
  by (metis option.inject)

lemma other_tick_ids:
  "live_as a s r \<Longrightarrow> live_as a s x \<Longrightarrow> r_id x = r_id r \<Longrightarrow> r_tick x = r_tick r"
  by (auto simp: live_as_def node_is_def)

lemma level_empty_iff:
  assumes "side_core a l s q" and "length a \<le> NIL"
  shows "level_is_empty (level_of l t) \<longleftrightarrow> (\<forall>r \<in> set q. r_tick r \<noteq> t)"
proof -
  have rel: "level_rel a (level_of l t) (at_tick q t)" using assms(1) by (simp add: side_core_def)
  show ?thesis
  proof (cases "at_tick q t")
    case Nil
    with rel show ?thesis by (auto simp: level_rel_def level_is_empty_def at_tick_def filter_empty_conv)
  next
    case (Cons r rs)
    then have r: "r \<in> set q" "r_tick r = t" by (auto simp: at_tick_def filter_eq_Cons_iff)
    then have "r_id r \<noteq> NIL" using assms live_as_bound by (auto simp: side_core_def)
    with rel Cons r show ?thesis by (auto simp: level_rel_def level_is_empty_def)
  qed
qed

lemma book_coreD:
  assumes "book_core b S"
  shows "side_core (arena b) (ladder b s) s (queue S s)" and "length (arena b) \<le> NIL"
    and "r \<in> set (queue S s) \<Longrightarrow> live_as (arena b) s r"
    and "ladder_ok (ladder b s)" and "in_priority s (queue S s)"
    and "level_rel (arena b) (level_of (ladder b s) t) (at_tick (queue S s) t)"
    and "occupied (ladder b s) t \<longleftrightarrow> (\<exists>r \<in> set (queue S s). r_tick r = t)"
  using assms level_empty_iff [of "arena b" "ladder b s" s "queue S s" t]
  by (auto simp: book_core_def side_core_def arena_core_def)

lemma book_rel_new: "book_rel book_new spec_new"
proof -
  have "side_core [] ladder_new s []" for s
    by (simp add: side_core_def level_rel_def at_tick_def Level_EMPTY_def)
  moreover have "ladder book_new s = ladder_new" "queue spec_new s = []" "best book_new s = None" for s
    by (cases s; simp add: ladder_def book_new_def queue_def spec_new_def best_def)+
  ultimately show ?thesis
    by (simp add: book_rel_def book_core_def arena_core_def book_new_def spec_new_def spec_best_def)
qed

section \<open>Removing an order\<close>

definition node_data :: "OrderNode \<Rightarrow> Side \<times> Tick \<times> Qty \<times> OwnerId \<times> Timestamp option" where
  "node_data n = (node_side n, node_tick n, node_qty n, node_owner n, node_expiry n)"

lemma live_as_data:
  "live_as a s r \<longleftrightarrow> r_id r < length a \<and>
     map_option node_data (a ! r_id r) = Some (s, r_tick r, r_qty r, r_owner r, r_expiry r)"
  by (auto simp: live_as_def node_is_def node_data_def)

text \<open>The arena conditions only depend on the data of the nodes, not on their links.\<close>

lemma arena_core_data:
  "arena_core a fr q \<longleftrightarrow> length a \<le> NIL \<and> distinct fr \<and>
     set fr = {i. i < length a \<and> map_option node_data (a ! i) = None} \<and>
     (\<forall>i d. i < length a \<longrightarrow> map_option node_data (a ! i) = Some d \<longrightarrow> i \<in> r_id ` set (q (fst d)))"
  unfolding arena_core_def by (auto simp: node_data_def)

definition unlinked :: "OrderNode option list \<Rightarrow> nat \<Rightarrow> OrderNode \<Rightarrow> OrderNode option list" where
  "unlinked a idx n =
     relink (relink (a[idx := None]) (node_prev n) (\<lambda>p. p\<lparr>node_next := node_next n\<rparr>))
       (node_next n) (\<lambda>q. q\<lparr>node_prev := node_prev n\<rparr>)"

lemma length_relink [simp]: "length (relink a i f) = length a"
  by (simp add: relink_def)

lemma relink_data:
  assumes "\<And>n. node_data (f n) = node_data n" and "j < length a"
  shows "map_option node_data (relink a i f ! j) = map_option node_data (a ! j)"
  using assms by (cases "i = j"; cases "a ! j") (auto simp: relink_def)

lemma length_unlinked [simp]: "length (unlinked a idx n) = length a"
  by (simp add: unlinked_def)

lemma unlinked_data:
  "j < length a \<Longrightarrow> map_option node_data (unlinked a idx n ! j) =
     (if j = idx then None else map_option node_data (a ! j))"
  unfolding unlinked_def
  by (subst relink_data, simp add: node_data_def, simp, subst relink_data, simp add: node_data_def,
      simp, simp add: nth_list_update)

lemma unlinked_frame:
  "j \<noteq> idx \<Longrightarrow> j \<noteq> node_prev n \<Longrightarrow> j \<noteq> node_next n \<Longrightarrow> unlinked a idx n ! j = a ! j"
  by (simp add: unlinked_def relink_def)

lemma queue_spec_remove [simp]:
  "queue (spec_remove S s i) = (queue S)(s := filter (\<lambda>x. r_id x \<noteq> i) (queue S s))"
  "sb_free (spec_remove S s i) = sb_free S @ [i]" "sb_next (spec_remove S s i) = sb_next S"
  by (simp_all add: spec_remove_def spec_take_def)

lemma arena_core_unlinked:
  assumes "arena_core a fr q" and "idx < length a" and "a ! idx = Some n"
    and "\<And>r s'. r \<in> set (q s') \<Longrightarrow> r_id r \<noteq> idx \<Longrightarrow> r \<in> set (q' s')"
  shows "arena_core (unlinked a idx n) (fr @ [idx]) q'"
proof -
  let ?d = "\<lambda>j. map_option node_data (a ! j)" and ?d' = "\<lambda>j. map_option node_data (unlinked a idx n ! j)"
  have d: "?d' j = (if j = idx then None else ?d j)" if "j < length a" for j
    using unlinked_data [OF that] .
  have old: "length a \<le> NIL" "distinct fr" "set fr = {i. i < length a \<and> ?d i = None}"
    "\<And>i x. i < length a \<Longrightarrow> ?d i = Some x \<Longrightarrow> i \<in> r_id ` set (q (fst x))"
    using assms(1) unfolding arena_core_data by blast+
  have "idx \<notin> set fr" using assms(3) old(3) by simp
  moreover have "set (fr @ [idx]) = {i. i < length a \<and> ?d' i = None}"
  proof -
    have "unlinked a idx n ! j = None \<longleftrightarrow> j = idx \<or> a ! j = None" if "j < length a" for j
      using arg_cong [OF d [OF that], of "\<lambda>x. x = None"] by (simp split: if_splits)
    with assms(2) show ?thesis unfolding set_append old(3) by auto
  qed
  moreover have "i \<in> r_id ` set (q' (fst x))" if "i < length a" "?d' i = Some x" for i x
    using that old(4) [of i x] d [of i] assms(4) by (auto split: if_splits)
  ultimately show ?thesis using old(1,2) unfolding arena_core_data by simp
qed

text \<open>The level record that \<open>unlink\<close> leaves behind.\<close>

definition unlinked_level :: "Level \<Rightarrow> OrderNode \<Rightarrow> Level" where
  "unlinked_level lv n =
     \<lparr>lvl_head = (if node_prev n \<noteq> NIL then lvl_head lv else node_next n),
      lvl_tail = (if node_next n \<noteq> NIL then lvl_tail lv else node_prev n),
      lvl_qty = lvl_qty lv - node_qty n\<rparr>"

lemma side_coreD:
  assumes "side_core a l s q"
  shows "ladder_ok l" and "in_priority s q" and "distinct (map r_id q)"
    and "r \<in> set q \<Longrightarrow> live_as a s r" and "level_rel a (level_of l t) (at_tick q t)"
  using assms by (auto simp: side_core_def)

lemma NIL_notin_side: "side_core a l s q \<Longrightarrow> length a \<le> NIL \<Longrightarrow> NIL \<notin> r_id ` set q"
  using side_coreD(4) live_as_bound by fastforce

lemma set_at_tick [simp]: "set (at_tick q t) = {r \<in> set q. r_tick r = t}"
  by (auto simp: at_tick_def)

lemma at_tick_filter: "at_tick (filter P q) t = filter P (at_tick q t)"
  by (simp add: at_tick_def conj_commute)

lemma filter_absent_id: "i \<notin> r_id ` set rs \<Longrightarrow> filter (\<lambda>x. r_id x \<noteq> i) rs = rs"
  by (metis (mono_tags, lifting) filter_True image_eqI)

lemma level_split:
  assumes side: "side_core a l s q" and len: "length a \<le> NIL" and r: "r \<in> set q"
  obtains xs ys where "at_tick q (r_tick r) = xs @ r # ys"
    and "distinct (map r_id xs @ r_id r # map r_id ys)"
    and "NIL \<notin> set (map r_id xs @ r_id r # map r_id ys)"
    and "filter (\<lambda>x. r_id x \<noteq> r_id r) (at_tick q (r_tick r)) = xs @ ys"
proof -
  have "r \<in> set (at_tick q (r_tick r))" using r by simp
  then obtain xs ys where split: "at_tick q (r_tick r) = xs @ r # ys" by (meson split_list)
  have dist: "distinct (map r_id xs @ r_id r # map r_id ys)"
    using side_coreD(3) [OF side] split [symmetric] unfolding at_tick_def
    by (metis distinct_map_filter list.simps(9) map_append)
  have "set (xs @ r # ys) \<subseteq> set q" unfolding split [symmetric] by auto
  then have "NIL \<notin> set (map r_id xs @ r_id r # map r_id ys)"
    using NIL_notin_side [OF side len] by auto
  moreover have "filter (\<lambda>x. r_id x \<noteq> r_id r) (at_tick q (r_tick r)) = xs @ ys"
    using dist unfolding split by (simp add: filter_absent_id)
  ultimately show thesis using that split dist by blast
qed

lemma unlinked_links:
  assumes side: "side_core a l s q" and len: "length a \<le> NIL" and r: "r \<in> set q"
    and n: "a ! r_id r = Some n"
  shows "node_prev n \<in> insert NIL (r_id ` set (at_tick q (r_tick r)))"
    and "node_next n \<in> insert NIL (r_id ` set (at_tick q (r_tick r)))"
    and "node_prev n \<noteq> NIL \<Longrightarrow> \<exists>p. node_prev n < length a \<and> a[r_id r := None] ! node_prev n = Some p"
    and "node_next n \<noteq> NIL \<Longrightarrow> \<exists>p. node_next n < length a \<and>
      relink (a[r_id r := None]) (node_prev n) (\<lambda>p. p\<lparr>node_next := node_next n\<rparr>) ! node_next n = Some p"
    and "level_rel (unlinked a (r_id r) n) (unlinked_level (level_of l (r_tick r)) n)
      (filter (\<lambda>x. r_id x \<noteq> r_id r) (at_tick q (r_tick r)))"
proof -
  obtain xs ys where split: "at_tick q (r_tick r) = xs @ r # ys"
    and dist: "distinct (map r_id xs @ r_id r # map r_id ys)"
    and nil: "NIL \<notin> set (map r_id xs @ r_id r # map r_id ys)"
    and flt: "filter (\<lambda>x. r_id x \<noteq> r_id r) (at_tick q (r_tick r)) = xs @ ys"
    using level_split [OF side len r] .
  let ?lv = "level_of l (r_tick r)"
  have seg: "dlseg a NIL (lvl_head ?lv) (lvl_tail ?lv) NIL (map r_id xs @ r_id r # map r_id ys)"
    and qty: "lvl_qty ?lv = sum_list (map r_qty (xs @ r # ys))"
    using side_coreD(5) [OF side, of "r_tick r"] split by (simp_all add: level_rel_def)
  note unl = dlseg_unlink [OF seg dist nil n]
  have iff: "node_prev n \<noteq> NIL \<longleftrightarrow> xs \<noteq> []" "node_next n \<noteq> NIL \<longleftrightarrow> ys \<noteq> []"
    using unl(1,2) nil by (cases xs rule: rev_cases; cases ys; auto)+
  show "node_prev n \<in> insert NIL (r_id ` set (at_tick q (r_tick r)))"
    and "node_next n \<in> insert NIL (r_id ` set (at_tick q (r_tick r)))"
    using unl(1,2) unfolding split by (cases xs rule: rev_cases; cases ys; auto)+
  show "node_prev n \<noteq> NIL \<Longrightarrow> \<exists>p. node_prev n < length a \<and> a[r_id r := None] ! node_prev n = Some p"
    and "node_next n \<noteq> NIL \<Longrightarrow> \<exists>p. node_next n < length a \<and>
      relink (a[r_id r := None]) (node_prev n) (\<lambda>p. p\<lparr>node_next := node_next n\<rparr>) ! node_next n = Some p"
    using unl(3,4) iff by auto
  have "node_qty n = r_qty r" using side_coreD(4) [OF side r] n by (simp add: live_as_def node_is_def)
  then show "level_rel (unlinked a (r_id r) n) (unlinked_level ?lv n)
      (filter (\<lambda>x. r_id x \<noteq> r_id r) (at_tick q (r_tick r)))"
    unfolding flt using unl(5) qty iff
    by (cases "xs = []"; cases "ys = []")
      (simp_all add: level_rel_def unlinked_def unlinked_level_def algebra_simps)
qed

lemma unlinked_elsewhere:
  assumes side: "side_core a l s q" and len: "length a \<le> NIL" and r: "r \<in> set q"
    and n: "a ! r_id r = Some n" and j: "j \<noteq> NIL" "j \<notin> r_id ` set (at_tick q (r_tick r))"
  shows "unlinked a (r_id r) n ! j = a ! j"
proof (rule unlinked_frame)
  have "r_id r \<in> r_id ` set (at_tick q (r_tick r))" using r by simp
  then show "j \<noteq> r_id r" using j by metis
  show "j \<noteq> node_prev n" "j \<noteq> node_next n"
    using unlinked_links(1,2) [OF side len r n] j by auto
qed

lemma other_tick_untouched:
  assumes side: "side_core a l s q" and x: "x \<in> set (at_tick q u)" and "u \<noteq> t"
  shows "r_id x \<notin> r_id ` set (at_tick q t)"
proof
  assume "r_id x \<in> r_id ` set (at_tick q t)"
  then obtain y where y: "y \<in> set q" "r_tick y = t" "r_id x = r_id y" by auto
  have "x \<in> set q" "r_tick x = u" using x by simp_all
  with other_tick_ids [OF side_coreD(4) [OF side y(1)] side_coreD(4) [OF side] y(3)] y assms(3)
  show False by simp
qed

lemma side_core_unlinked:
  assumes side: "side_core a l s q" and len: "length a \<le> NIL" and r: "r \<in> set q"
    and n: "a ! r_id r = Some n" and l': "ladder_ok l'"
    and lv: "level_of l' = (level_of l)(r_tick r := unlinked_level (level_of l (r_tick r)) n)"
  shows "side_core (unlinked a (r_id r) n) l' s (filter (\<lambda>x. r_id x \<noteq> r_id r) q)"
proof -
  let ?a = "unlinked a (r_id r) n"
  have "level_rel ?a (level_of l' u) (filter (\<lambda>x. r_id x \<noteq> r_id r) (at_tick q u))" for u
  proof (cases "u = r_tick r")
    case True
    then show ?thesis using unlinked_links(5) [OF side len r n] lv by simp
  next
    case False
    have same: "?a ! r_id x = a ! r_id x" "r_id x \<noteq> r_id r" if x: "x \<in> set (at_tick q u)" for x
    proof -
      have "r_id x \<noteq> NIL" using NIL_notin_side [OF side len] x by (auto simp: image_iff)
      from unlinked_elsewhere [OF side len r n this other_tick_untouched [OF side x False]]
      show "?a ! r_id x = a ! r_id x" .
      have "r_id r \<in> r_id ` set (at_tick q (r_tick r))" using r by simp
      then show "r_id x \<noteq> r_id r" using other_tick_untouched [OF side x False] by metis
    qed
    then have "filter (\<lambda>x. r_id x \<noteq> r_id r) (at_tick q u) = at_tick q u" by (simp add: filter_id_conv)
    moreover have "dlseg ?a NIL (lvl_head (level_of l u)) (lvl_tail (level_of l u)) NIL
        (map r_id (at_tick q u))"
    proof (rule dlseg_cong [of _ a])
      show "dlseg a NIL (lvl_head (level_of l u)) (lvl_tail (level_of l u)) NIL (map r_id (at_tick q u))"
        using side_coreD(5) [OF side, of u] by (simp add: level_rel_def)
      fix i assume "i \<in> set (map r_id (at_tick q u))" "i < length a"
      then have "?a ! i = a ! i" using same(1) by (auto simp del: set_at_tick)
      with \<open>i < length a\<close> show "i < length ?a \<and> map_option (\<lambda>n. (node_prev n, node_next n)) (?a ! i) =
          map_option (\<lambda>n. (node_prev n, node_next n)) (a ! i)" by simp
    qed
    ultimately show ?thesis using side_coreD(5) [OF side, of u] lv False by (simp add: level_rel_def)
  qed
  moreover have "live_as ?a s x" if "x \<in> set q" "r_id x \<noteq> r_id r" for x
    using side_coreD(4) [OF side that(1)] that(2) by (simp add: live_as_data unlinked_data)
  ultimately show ?thesis
    using side_coreD(2,3) [OF side] l' unfolding side_core_def at_tick_filter
    by (auto simp: in_priority_filter distinct_map_filter)
qed

lemma unlink_sim:
  assumes core: "book_core b S" and r: "r \<in> set (queue S s)"
  shows "\<exists>n b'. slot b (r_id r) = Some n \<and> node_is s r n \<and> unlink b (r_id r) = Some (n, b') \<and>
     book_core b' (spec_remove S s (r_id r)) \<and> best b' = best b \<and>
     (\<forall>s'. index_of (ladder b' s') = index_of (ladder b s'))"
proof -
  let ?a = "arena b" and ?l = "ladder b s" and ?i = "r_id r"
  note side = book_coreD(1) [OF core, of s] and len = book_coreD(2) [OF core]
  from book_coreD(3) [OF core r] obtain n where n: "?i < length ?a" "?a ! ?i = Some n" "node_is s r n"
    by (auto simp: live_as_def)
  have occ: "occupied ?l (r_tick r)" using book_coreD(7) [OF core] r by blast
  have nd: "node_side n = s" "node_tick n = r_tick r" using n(3) by (simp_all add: node_is_def)
  obtain b' where b': "unlink b ?i = Some (n, b')" "arena b' = unlinked ?a ?i n"
    "free b' = free b @ [?i]" "best b' = best b" "\<And>s'. s' \<noteq> s \<Longrightarrow> ladder b' s' = ladder b s'"
    "ladder_ok (ladder b' s)" "index_of (ladder b' s) = index_of ?l"
    "level_of (ladder b' s) = (level_of ?l)(r_tick r := unlinked_level (level_of ?l (r_tick r)) n)"
    using unlink_run [OF n(1,2)] book_coreD(4) [OF core, of s] occ unlinked_links [OF side len r n(2)]
    unfolding nd unlinked_def unlinked_level_def by auto
  have "side_core (arena b') (ladder b' s) s (filter (\<lambda>x. r_id x \<noteq> ?i) (queue S s))"
    unfolding b'(2) by (rule side_core_unlinked [OF side len r n(2) b'(6,8)])
  moreover have "side_core (arena b') (ladder b' s') s' (queue S s')" if "s' \<noteq> s" for s'
  proof -
    have "unlinked ?a ?i n ! r_id x = ?a ! r_id x \<and> r_id x < length ?a" if x: "x \<in> set (queue S s')" for x
    proof -
      have "r_id x \<notin> r_id ` set (at_tick (queue S s) (r_tick r))"
        using other_side_ids [OF core _ x] \<open>s' \<noteq> s\<close> by fastforce
      with unlinked_elsewhere [OF side len r n(2)] live_as_bound [OF book_coreD(3) [OF core x] len]
      show ?thesis by simp
    qed
    then have "side_core (unlinked ?a ?i n) (ladder b s') s' (queue S s')"
      by (intro side_core_frame [OF book_coreD(1) [OF core, of s']]) simp
    then show ?thesis using b'(2,5) that by simp
  qed
  moreover have "arena_core (arena b') (free b') (queue (spec_remove S s ?i))"
    unfolding b'(2,3)
    by (rule arena_core_unlinked [OF _ n(1,2), of _ "queue S"])
      (use core in \<open>auto simp: book_core_def\<close>)
  ultimately have "book_core b' (spec_remove S s ?i)"
    using core b'(2,3) by (simp add: book_core_def)
  moreover have "index_of (ladder b' s') = index_of (ladder b s')" for s'
    using b'(5,7) by (cases "s' = s") simp_all
  ultimately show ?thesis using n b' by (auto simp: slot_eq_Some_iff)
qed

end
