(* ===== verification/Book_Simulation.thy ===== *)
theory Book_Simulation
  imports Book_Refinement
begin

text \<open>
  Forward simulation of the operations of \<open>crates/cerdic-tee-matcher/src/book.rs\<close> by the list book:
  moving the cached best price, dropping and partially filling the head order, the matching and
  pruning loops, cancellation, resting a remainder, the liquidity walk and the depth view.
\<close>

section \<open>The cached best price\<close>

lemma is_best_unique: "is_best s P r \<Longrightarrow> is_best s P r' \<Longrightarrow> r = r'"
  by (cases r; cases r') (auto simp: is_best_def dest: better_antisym)

lemma spec_best_is_best:
  "in_priority s q \<Longrightarrow> is_best s (\<lambda>u. \<exists>r \<in> set q. r_tick r = u) (spec_best q)"
  by (cases q) (auto simp: spec_best_def is_best_def)

lemma advance_sim:
  assumes core: "book_core b S" and i: "index_of (ladder b s) t = Some i"
    and worse: "\<And>r. r \<in> set (queue S s) \<Longrightarrow> better s t (r_tick r)"
  shows "advance_best_from b s t = Some (best_put b s (spec_best (queue S s)))"
proof -
  from next_worse_spec [OF book_coreD(4) [OF core] i, of s] obtain r where
    r: "next_worse_level (ladder b s) s i = Some r"
    "is_best s (\<lambda>u. occupied (ladder b s) u \<and> better s t u) (map_option (tick_at (ladder b s)) r)"
    by blast
  have "(\<lambda>u. occupied (ladder b s) u \<and> better s t u) = (\<lambda>u. \<exists>r \<in> set (queue S s). r_tick r = u)"
    using book_coreD(7) [OF core] worse by auto
  note best = r(2) [unfolded this]
  have "map_option (tick_at (ladder b s)) r = spec_best (queue S s)"
    by (rule is_best_unique [OF best spec_best_is_best [OF book_coreD(5) [OF core]]])
  then show ?thesis using i r(1) by (simp add: advance_best_from_def)
qed

lemma spec_take_simps [simp]:
  "queue (spec_take S s q ids) = (queue S)(s := q)" "sb_free (spec_take S s q ids) = sb_free S @ ids"
  "sb_next (spec_take S s q ids) = sb_next S"
  by (simp_all add: spec_take_def)

lemma spec_take_take [simp]:
  "spec_take (spec_take S s q ids) s q' ids' = spec_take S s q' (ids @ ids')"
  by (cases s) (simp_all add: spec_take_def queue_put_def)

lemma spec_take_id [simp]: "spec_take S s (queue S s) [] = S"
  by (cases s) (simp_all add: spec_take_def queue_put_def queue_def)

lemma spec_take_Nil: "spec_take S s q [] = queue_put S s q"
  by (cases s) (simp_all add: spec_take_def queue_put_def)

section \<open>The head of a side\<close>

lemma head_of_side:
  assumes rel: "book_rel b S" and q: "queue S s = r # rs"
  shows "\<exists>i lv. best b s = Some (r_tick r) \<and> index_of (ladder b s) (r_tick r) = Some i \<and>
     level_get (ladder b s) i = Some lv \<and> lvl_head lv = r_id r"
proof -
  have core: "book_core b S" using rel by (simp add: book_rel_def)
  have "occupied (ladder b s) (r_tick r)" using book_coreD(7) [OF core] q by auto
  then obtain i where i: "index_of (ladder b s) (r_tick r) = Some i"
    using occupied_has_index by blast
  have "lvl_head (level_of (ladder b s) (r_tick r)) = r_id r"
    using book_coreD(6) [OF core, of s "r_tick r"] q by (simp add: level_rel_def at_tick_def)
  moreover have "best b s = Some (r_tick r)" using rel q by (simp add: book_rel_def spec_best_def)
  ultimately show ?thesis using i level_get_at [OF i] by blast
qed

lemma remove_head:
  assumes core: "book_core b S" and q: "queue S s = r # rs"
  shows "spec_remove S s (r_id r) = spec_take S s rs [r_id r]"
proof -
  have "distinct (map r_id (r # rs))" using side_coreD(3) [OF book_coreD(1) [OF core, of s]] q by simp
  then have "filter (\<lambda>x. r_id x \<noteq> r_id r) rs = rs" by (simp add: filter_absent_id)
  then show ?thesis by (simp add: spec_remove_def q)
qed

lemma head_level_kept:
  assumes "in_priority s (r # rs)" and "x \<in> set rs" and "r_tick x = r_tick r"
  shows "spec_best rs = Some (r_tick r)"
proof (cases rs)
  case (Cons y ys)
  then have "\<not> better s (r_tick y) (r_tick r)" and "\<not> better s (r_tick r) (r_tick y)"
    using assms by auto
  then show ?thesis using Cons by (simp add: spec_best_def better_antisym)
qed (use assms in simp)

lemma advance_if_empty_sim:
  assumes core: "book_core b S" and i: "index_of (ladder b s) (r_tick r) = Some i"
    and best: "\<And>s'. best b s' = (if s' = s then Some (r_tick r) else spec_best (queue S s'))"
    and prio: "in_priority s (r # queue S s)"
  shows "\<exists>b'. advance_if_empty b s i (r_tick r) = Some b' \<and> book_rel b' S"
proof (cases "\<exists>x \<in> set (queue S s). r_tick x = r_tick r")
  case True
  then have "spec_best (queue S s) = Some (r_tick r)" using head_level_kept [OF prio] by blast
  then have "book_rel b S" using core best by (simp add: book_rel_def)
  moreover have "\<not> level_is_empty (level_of (ladder b s) (r_tick r))"
    using book_coreD(7) [OF core] True by blast
  ultimately show ?thesis by (simp add: advance_if_empty_def level_get_at [OF i])
next
  case False
  have "better s (r_tick r) (r_tick x)" if "x \<in> set (queue S s)" for x
    using prio False that better_antisym by fastforce
  from advance_sim [OF core i this]
  have "advance_best_from b s (r_tick r) = Some (best_put b s (spec_best (queue S s)))" by simp
  moreover have "level_is_empty (level_of (ladder b s) (r_tick r))"
    using book_coreD(7) [OF core] False by blast
  moreover have "book_rel (best_put b s (spec_best (queue S s))) S"
    using core best by (auto simp: book_rel_def book_core_def)
  ultimately show ?thesis by (simp add: advance_if_empty_def level_get_at [OF i])
qed

lemma drop_head_sim:
  assumes rel: "book_rel b S" and q: "queue S s = r # rs"
    and i: "index_of (ladder b s) (r_tick r) = Some i"
  shows "\<exists>n b1 b2. slot b (r_id r) = Some n \<and> node_is s r n \<and> unlink b (r_id r) = Some (n, b1) \<and>
     advance_if_empty b1 s i (r_tick r) = Some b2 \<and> book_rel b2 (spec_take S s rs [r_id r])"
proof -
  have core: "book_core b S" using rel by (simp add: book_rel_def)
  from unlink_sim [OF core, of r s] q obtain n b1 where b1: "slot b (r_id r) = Some n" "node_is s r n"
    "unlink b (r_id r) = Some (n, b1)" "book_core b1 (spec_take S s rs [r_id r])" "best b1 = best b"
    "\<And>s'. index_of (ladder b1 s') = index_of (ladder b s')"
    by (auto simp: remove_head [OF core q])
  have "in_priority s (r # rs)" using book_coreD(5) [OF core, of s] q by simp
  moreover have "best b1 s' = (if s' = s then Some (r_tick r) else spec_best (queue S s'))" for s'
    using rel q b1(5) by (simp add: book_rel_def spec_best_def)
  ultimately obtain b2 where "advance_if_empty b1 s i (r_tick r) = Some b2"
    "book_rel b2 (spec_take S s rs [r_id r])"
    using advance_if_empty_sim [OF b1(4), of s r i] i b1(6) by (metis fun_upd_apply spec_take_simps(1))
  with b1 show ?thesis by blast
qed

section \<open>Partial fills\<close>

lemma at_tick_Cons: "at_tick (r # rs) t = (if r_tick r = t then r # at_tick rs t else at_tick rs t)"
  by (simp add: at_tick_def)

lemma side_core_resize_head:
  assumes side: "side_core a l s (r # rs)" and n: "a ! r_id r = Some n"
    and l': "ladder_ok l'" and lv: "level_of l' = (level_of l)(r_tick r :=
      (level_of l (r_tick r))\<lparr>lvl_qty := lvl_qty (level_of l (r_tick r)) - k\<rparr>)"
  shows "side_core (a[r_id r := Some (n\<lparr>node_qty := node_qty n - k\<rparr>)]) l' s
     (r\<lparr>r_qty := r_qty r - k\<rparr> # rs)"
proof -
  let ?a = "a[r_id r := Some (n\<lparr>node_qty := node_qty n - k\<rparr>)]" and ?r = "r\<lparr>r_qty := r_qty r - k\<rparr>"
  have links: "i < length ?a \<and> map_option (\<lambda>n. (node_prev n, node_next n)) (?a ! i) =
      map_option (\<lambda>n. (node_prev n, node_next n)) (a ! i)" if "i < length a" for i
    using that n by (cases "i = r_id r") auto
  have "level_rel ?a (level_of l' u) (at_tick (?r # rs) u)" for u
  proof -
    have "map r_id (at_tick (?r # rs) u) = map r_id (at_tick (r # rs) u)" by (simp add: at_tick_Cons)
    moreover have "lvl_head (level_of l' u) = lvl_head (level_of l u)"
      "lvl_tail (level_of l' u) = lvl_tail (level_of l u)" using lv by simp_all
    moreover have "lvl_qty (level_of l' u) = sum_list (map r_qty (at_tick (?r # rs) u))"
      using side_coreD(5) [OF side, of u] lv by (auto simp: at_tick_Cons level_rel_def)
    ultimately show ?thesis
      using side_coreD(5) [OF side, of u] dlseg_cong [OF links] by (simp add: level_rel_def)
  qed
  moreover have "live_as ?a s x" if "x \<in> set (?r # rs)" for x
  proof (cases "x = ?r")
    case True
    have "live_as a s r" using side_coreD(4) [OF side] by simp
    with True n show ?thesis by (auto simp: live_as_def node_is_def)
  next
    case False
    then have "x \<in> set rs" using that by simp
    moreover have "r_id x \<noteq> r_id r" 
      using side_coreD(3) [OF side] imageI [OF calculation, of r_id] by auto
    ultimately show ?thesis using side_coreD(4) [OF side, of x] by (simp add: live_as_def)
  qed
  ultimately show ?thesis using side_coreD(2,3) [OF side] l' unfolding side_core_def by auto
qed

lemma partial_fill_sim:
  assumes rel: "book_rel b S" and q: "queue S s = r # rs"
    and i: "index_of (ladder b s) (r_tick r) = Some i"
  shows "\<exists>b1 b2. slot_update b (r_id r) (\<lambda>n. n\<lparr>node_qty := node_qty n - k\<rparr>) = Some b1 \<and>
     level_mut b1 s i (\<lambda>lv. lv\<lparr>lvl_qty := lvl_qty lv - k\<rparr>) = Some b2 \<and>
     advance_if_empty b2 s i (r_tick r) = Some b2 \<and>
     book_rel b2 (queue_put S s (r\<lparr>r_qty := r_qty r - k\<rparr> # rs))"
proof -
  have core: "book_core b S" using rel by (simp add: book_rel_def)
  let ?r = "r\<lparr>r_qty := r_qty r - k\<rparr>" and ?a = "arena b" and ?i = "r_id r"
  have side: "side_core ?a (ladder b s) s (r # rs)" using book_coreD(1) [OF core, of s] q by simp
  from book_coreD(3) [OF core, of r s] q obtain n where n: "?i < length ?a" "?a ! ?i = Some n"
    by (auto simp: live_as_def)
  let ?a' = "?a[?i := Some (n\<lparr>node_qty := node_qty n - k\<rparr>)]"
  define b1 where "b1 = b\<lparr>arena := ?a'\<rparr>"
  have run1: "slot_update b ?i (\<lambda>n. n\<lparr>node_qty := node_qty n - k\<rparr>) = Some b1"
    using slot_update_run [OF n] by (simp add: b1_def)
  from level_mut_run [of i b1 s "r_tick r" "\<lambda>lv. lv\<lparr>lvl_qty := lvl_qty lv - k\<rparr>"] i
    ladder_sync_mono [OF book_coreD(4) [OF core, of s]]
  obtain b2 where run2: "level_mut b1 s i (\<lambda>lv. lv\<lparr>lvl_qty := lvl_qty lv - k\<rparr>) = Some b2"
    and e: "level_edit b1 s i (r_tick r) (\<lambda>lv. lv\<lparr>lvl_qty := lvl_qty lv - k\<rparr>) ?a' b2"
    by (auto simp: b1_def)
  have i2: "index_of (ladder b2 s) (r_tick r) = Some i" using e i by (simp add: level_edit_def b1_def)
  have nonempty: "occupied (ladder b s) (r_tick r)" using book_coreD(7) [OF core] q by auto
  then have nonempty2: "occupied (ladder b2 s) (r_tick r)"
    using e by (simp add: level_edit_def b1_def level_is_empty_def)
  have ok2: "ladder_ok (ladder b2 s)"
  proof (rule ladder_resync [OF _ i2])
    show "ladder_sync {i} (ladder b2 s)" using e by (simp add: level_edit_def)
    have "is_set (occupancy (ladder b s)) i"
      using ladder_sync_is_set [OF book_coreD(4) [OF core], of i s] nonempty i tick_at_index_of [OF i]
      by (auto simp: index_of_eq_Some_iff)
    then show "is_set (occupancy (ladder b2 s)) i = occupied (ladder b2 s) (r_tick r)"
      using nonempty2 e by (simp add: level_edit_def b1_def)
  qed
  have "side_core (arena b2) (ladder b2 s) s (?r # rs)"
    using side_core_resize_head [OF side n(2) ok2] e by (simp add: level_edit_def b1_def)
  moreover have "side_core (arena b2) (ladder b2 s') s' (queue S s')" if "s' \<noteq> s" for s'
  proof -
    have "r_id x < length ?a' \<and> ?a' ! r_id x = ?a ! r_id x" if "x \<in> set (queue S s')" for x
      using other_side_ids [OF core _ that, of r s] \<open>s' \<noteq> s\<close> q
        live_as_bound [OF book_coreD(3) [OF core that] book_coreD(2) [OF core]] by simp
    from side_core_frame [OF book_coreD(1) [OF core, of s'] this] show ?thesis
      using e that by (simp add: level_edit_def b1_def)
  qed
  moreover have "arena_core ?a' (free b) (queue (queue_put S s (?r # rs)))"
    using core n q unfolding book_core_def arena_core_def
    by (auto simp: nth_list_update split: if_splits)
  ultimately have "book_core b2 (queue_put S s (?r # rs))"
    using core e by (auto simp: book_core_def level_edit_def b1_def)
  then have "book_rel b2 (queue_put S s (?r # rs))"
    using rel e q by (auto simp: book_rel_def level_edit_def b1_def spec_best_def)
  then show ?thesis using run1 run2 nonempty2 by (auto simp: advance_if_empty_def level_get_at [OF i2])
qed

section \<open>The matching loop\<close>

lemma spec_match_stop:
  "qty = 0 \<Longrightarrow> spec_match order now q qty res = (q, [], qty, res)"
  by (cases q) simp_all

lemma match_step_drop:
  assumes rel: "book_rel b S" and q: "queue S (opposite_side (no_side order)) = r # rs"
    and "is_expired (r_expiry r) now \<or> r_owner r = no_owner order"
  shows "\<exists>b'. match_step order now b qty res (r_tick r) =
      Some (b', qty, if is_expired (r_expiry r) now
        then res\<lparr>sr_expired := sr_expired res @ [r_id r]\<rparr>
        else res\<lparr>sr_self_trade_cancelled := sr_self_trade_cancelled res @ [r_id r]\<rparr>) \<and>
     book_rel b' (spec_take S (opposite_side (no_side order)) rs [r_id r])"
proof -
  from head_of_side [OF rel q] obtain i lv where
    i: "index_of (ladder b (opposite_side (no_side order))) (r_tick r) = Some i"
    and lv: "level_get (ladder b (opposite_side (no_side order))) i = Some lv" "lvl_head lv = r_id r"
    by blast
  from drop_head_sim [OF rel q i] obtain n b1 b2 where "slot b (r_id r) = Some n"
    "node_is (opposite_side (no_side order)) r n" "unlink b (r_id r) = Some (n, b1)"
    "advance_if_empty b1 (opposite_side (no_side order)) i (r_tick r) = Some b2"
    "book_rel b2 (spec_take S (opposite_side (no_side order)) rs [r_id r])" by blast
  with i lv assms(3) show ?thesis by (auto simp: match_step_def Let_def node_is_def)
qed

lemma match_step_full:
  assumes rel: "book_rel b S" and q: "queue S (opposite_side (no_side order)) = r # rs"
    and "\<not> is_expired (r_expiry r) now" "r_owner r \<noteq> no_owner order" and full: "r_qty r \<le> qty"
  shows "\<exists>b'. match_step order now b qty res (r_tick r) =
      Some (b', qty - r_qty r, res\<lparr>sr_fills := sr_fills res @ [spec_fill r qty]\<rparr>) \<and>
     book_rel b' (spec_take S (opposite_side (no_side order)) rs [r_id r])"
proof -
  from head_of_side [OF rel q] obtain i lv where
    i: "index_of (ladder b (opposite_side (no_side order))) (r_tick r) = Some i"
    and lv: "level_get (ladder b (opposite_side (no_side order))) i = Some lv" "lvl_head lv = r_id r"
    by blast
  from drop_head_sim [OF rel q i] obtain n b1 b2 where "slot b (r_id r) = Some n"
    "node_is (opposite_side (no_side order)) r n" "unlink b (r_id r) = Some (n, b1)"
    "advance_if_empty b1 (opposite_side (no_side order)) i (r_tick r) = Some b2"
    "book_rel b2 (spec_take S (opposite_side (no_side order)) rs [r_id r])" by blast
  moreover have "min qty (r_qty r) = r_qty r" using full by simp
  ultimately show ?thesis using i lv assms(3,4)
    by (auto simp: match_step_def Let_def node_is_def spec_fill_def)
qed

lemma match_step_partial:
  assumes rel: "book_rel b S" and q: "queue S (opposite_side (no_side order)) = r # rs"
    and "\<not> is_expired (r_expiry r) now" "r_owner r \<noteq> no_owner order" and part: "\<not> r_qty r \<le> qty"
  shows "\<exists>b'. match_step order now b qty res (r_tick r) =
      Some (b', 0, res\<lparr>sr_fills := sr_fills res @ [spec_fill r qty]\<rparr>) \<and>
     book_rel b' (queue_put S (opposite_side (no_side order)) (r\<lparr>r_qty := r_qty r - qty\<rparr> # rs))"
proof -
  from head_of_side [OF rel q] obtain i lv where
    i: "index_of (ladder b (opposite_side (no_side order))) (r_tick r) = Some i"
    and lv: "level_get (ladder b (opposite_side (no_side order))) i = Some lv" "lvl_head lv = r_id r"
    by blast
  have n: "\<exists>n. slot b (r_id r) = Some n \<and> node_is (opposite_side (no_side order)) r n"
    using drop_head_sim [OF rel q i] by blast
  have min: "min qty (r_qty r) = qty" "qty \<noteq> r_qty r" using part by auto
  from n partial_fill_sim [OF rel q i, of qty] i lv assms(3,4) min show ?thesis
    by (auto simp: match_step_def Let_def node_is_def spec_fill_def)
qed

lemma match_loop_sim:
  assumes "book_rel b S" and "queue S (opposite_side (no_side order)) = q"
    and "spec_match order now q qty res = (q', ids, qty', res')"
  shows "\<exists>b'. match_loop order now b qty res = Some (b', qty', res') \<and>
     book_rel b' (spec_take S (opposite_side (no_side order)) q' ids)"
  using assms
proof (induction q arbitrary: b S qty res ids)
  case Nil
  then have "best b (opposite_side (no_side order)) = None"
    by (simp add: book_rel_def spec_best_def)
  with Nil spec_take_id [of S "opposite_side (no_side order)"] show ?case
    by (auto simp: match_loop.simps [of order now b])
next
  case (Cons r rs)
  let ?opp = "opposite_side (no_side order)"
  have best: "best b ?opp = Some (r_tick r)" using head_of_side [OF Cons.prems(1,2)] by blast
  have go: "match_loop order now b qty res = (do {
      (b', qty', res') \<leftarrow> match_step order now b qty res (r_tick r);
      match_loop order now b' qty' res' })"
    if "qty \<noteq> 0" "crosses (no_side order) (no_tick order) (r_tick r)"
    using that best by (simp add: match_loop.simps [of order now b])
  show ?case
  proof (cases "qty = 0 \<or> \<not> crosses (no_side order) (no_tick order) (r_tick r)")
    case True
    then have "q' = r # rs" "ids = []" "qty' = qty" "res' = res" using Cons.prems(3) by auto
    with Cons.prems(1,2) spec_take_id [of S ?opp] True best show ?thesis
      by (auto simp: match_loop.simps [of order now b])
  next
    case run: False
    consider (drop) "is_expired (r_expiry r) now \<or> r_owner r = no_owner order"
      | (full) "\<not> is_expired (r_expiry r) now" "r_owner r \<noteq> no_owner order" "r_qty r \<le> qty"
      | (part) "\<not> is_expired (r_expiry r) now" "r_owner r \<noteq> no_owner order" "\<not> r_qty r \<le> qty"
      by blast
    then show ?thesis
    proof cases
      case drop
      from match_step_drop [OF Cons.prems(1,2) this, of qty res] obtain b1 where
        b1: "match_step order now b qty res (r_tick r) = Some (b1, qty, if is_expired (r_expiry r) now
           then res\<lparr>sr_expired := sr_expired res @ [r_id r]\<rparr>
           else res\<lparr>sr_self_trade_cancelled := sr_self_trade_cancelled res @ [r_id r]\<rparr>)"
        "book_rel b1 (spec_take S ?opp rs [r_id r])" by blast
      from Cons.IH [OF b1(2)] drop run Cons.prems(3) go b1(1) show ?thesis
        by (auto split: prod.splits if_splits)
    next
      case full
      from match_step_full [OF Cons.prems(1,2) this, of res] obtain b1 where
        b1: "match_step order now b qty res (r_tick r) =
           Some (b1, qty - r_qty r, res\<lparr>sr_fills := sr_fills res @ [spec_fill r qty]\<rparr>)"
        "book_rel b1 (spec_take S ?opp rs [r_id r])" by blast
      from Cons.IH [OF b1(2)] full run Cons.prems(3) go b1(1) show ?thesis
        by (auto simp: Let_def split: prod.splits)
    next
      case part
      from match_step_partial [OF Cons.prems(1,2) this, of res] obtain b1 where
        b1: "match_step order now b qty res (r_tick r) =
           Some (b1, 0, res\<lparr>sr_fills := sr_fills res @ [spec_fill r qty]\<rparr>)"
        "book_rel b1 (queue_put S ?opp (r\<lparr>r_qty := r_qty r - qty\<rparr> # rs))" by blast
      then show ?thesis using part run Cons.prems(3) go
        by (auto simp: Let_def match_loop.simps [of order now b1] spec_take_Nil)
    qed
  qed
qed

lemma prune_sim:
  assumes "book_rel b S" and "queue S s = q" and "spec_prune now q = (q', ids)"
  shows "\<exists>b'. prune_expired_head b s now out = Some (b', out @ ids) \<and>
     book_rel b' (spec_take S s q' ids)"
  using assms
proof (induction q arbitrary: b S out ids)
  case Nil
  then have "best b s = None" by (simp add: book_rel_def spec_best_def)
  with Nil spec_take_id [of S s] show ?case by (auto simp: prune_expired_head.simps [of b])
next
  case (Cons r rs)
  from head_of_side [OF Cons.prems(1,2)] obtain i lv where best: "best b s = Some (r_tick r)"
    and i: "index_of (ladder b s) (r_tick r) = Some i"
    and lv: "level_get (ladder b s) i = Some lv" "lvl_head lv = r_id r" by blast
  from drop_head_sim [OF Cons.prems(1,2) i] obtain n b1 b2 where b2: "slot b (r_id r) = Some n"
    "node_is s r n" "unlink b (r_id r) = Some (n, b1)" "advance_if_empty b1 s i (r_tick r) = Some b2"
    "book_rel b2 (spec_take S s rs [r_id r])" by blast
  show ?case
  proof (cases "is_expired (r_expiry r) now")
    case True
    with Cons.IH [OF b2(5), of _ "out @ [r_id r]"] Cons.prems(3) best i lv b2 show ?thesis
      by (auto simp: prune_expired_head.simps [of b] node_is_def split: prod.splits)
  next
    case False
    with Cons.prems best i lv b2 spec_take_id [of S s] show ?thesis
      by (auto simp: prune_expired_head.simps [of b] node_is_def)
  qed
qed

section \<open>Cancellation\<close>

lemma find_eq_Some_distinct:
  "distinct (map r_id q) \<Longrightarrow> r \<in> set q \<Longrightarrow> find (\<lambda>x. r_id x = r_id r) q = Some r"
  by (induction q) (auto simp: image_iff)

lemma find_absent: "i \<notin> r_id ` set q \<Longrightarrow> find (\<lambda>x. r_id x = i) q = None"
  by (auto simp: find_None_iff)

lemma spec_cancel_live:
  assumes core: "book_core b S" and r: "r \<in> set (queue S s)"
  shows "spec_cancel S (r_id r) = (Some (r_tick r, r_qty r), spec_remove S s (r_id r))"
proof (cases s)
  case Long
  then show ?thesis using r find_eq_Some_distinct [OF side_coreD(3) [OF book_coreD(1) [OF core, of Long]]]
    by (simp add: spec_cancel_def queue_def)
next
  case Short
  have "r_id r \<notin> r_id ` set (queue S Long)" using other_side_ids [OF core _ r, of _ Long] Short by auto
  then have "find (\<lambda>x. r_id x = r_id r) (sb_bids S) = None" using find_absent by (simp add: queue_def)
  then show ?thesis using r Short
      find_eq_Some_distinct [OF side_coreD(3) [OF book_coreD(1) [OF core, of Short]]]
    by (simp add: spec_cancel_def queue_def)
qed

lemma live_slot_queued:
  assumes core: "book_core b S" and "slot b i = Some n"
  obtains r where "r \<in> set (queue S (node_side n))" and "r_id r = i" and "node_is (node_side n) r n"
proof -
  from assms have "i \<in> r_id ` set (queue S (node_side n))"
    by (simp add: book_core_def arena_core_def slot_eq_Some_iff)
  then obtain r where r: "r \<in> set (queue S (node_side n))" "r_id r = i" by blast
  moreover have "node_is (node_side n) r n"
    using book_coreD(3) [OF core r(1)] assms(2) r(2) by (simp add: live_as_def slot_eq_Some_iff)
  ultimately show thesis using that by blast
qed

lemma not_head_best:
  assumes "in_priority s (y # ys)" and "distinct (map r_id (y # ys))" and "r \<in> set (y # ys)"
    and "r_tick r \<noteq> r_tick y \<or> (\<exists>x \<in> set (y # ys). r_id x \<noteq> r_id r \<and> r_tick x = r_tick r)"
  shows "spec_best (filter (\<lambda>x. r_id x \<noteq> r_id r) (y # ys)) = Some (r_tick y)"
proof (cases "r_id y = r_id r")
  case False
  then show ?thesis by (simp add: spec_best_def)
next
  case True
  then have "r = y" using assms(2,3) by (metis distinct_map inj_onD list.set_intros(1))
  with assms(4) obtain x where "x \<in> set ys" "r_tick x = r_tick y" by auto
  moreover have "filter (\<lambda>x. r_id x \<noteq> r_id y) ys = ys" using assms(2) by (simp add: filter_absent_id)
  ultimately show ?thesis using head_level_kept [OF assms(1)] \<open>r = y\<close> by simp
qed

lemma cancel_dead:
  assumes core: "book_core b S" and "slot b i = None"
  shows "cancel b i = Some (None, b)" and "spec_cancel S i = (None, S)"
proof -
  from assms(2) have dead: "length (arena b) \<le> i \<or> arena b ! i = None"
    by (auto simp: slot_def vec_get_def split: if_splits)
  then show "cancel b i = Some (None, b)" by (simp add: cancel_def)
  have "i \<notin> r_id ` set (queue S s)" for s
    using dead book_coreD(3) [OF core, of _ s] unfolding live_as_def by fastforce
  from this [of Long] this [of Short] show "spec_cancel S i = (None, S)"
    by (simp add: spec_cancel_def queue_def find_absent)
qed

lemma cancel_settle:
  assumes rel: "book_rel b S" and r: "r \<in> set (queue S s)"
    and b1: "book_core b1 (spec_remove S s (r_id r))" "best b1 = best b"
    and k: "index_of (ladder b1 s) (r_tick r) = Some k"
  shows "\<exists>b2. (if level_is_empty (level_of (ladder b1 s) (r_tick r)) \<and> best b1 s = Some (r_tick r)
      then advance_best_from b1 s (r_tick r) else Some b1) = Some b2 \<and>
     book_rel b2 (spec_remove S s (r_id r))"
proof -
  let ?S = "spec_remove S s (r_id r)"
  have core: "book_core b S" and best: "\<And>s'. best b s' = spec_best (queue S s')"
    using rel by (simp_all add: book_rel_def)
  obtain y ys where y: "queue S s = y # ys" using r by (cases "queue S s") auto
  have prio: "in_priority s (y # ys)" and dist: "distinct (map r_id (y # ys))"
    using side_coreD(2,3) [OF book_coreD(1) [OF core, of s]] y by simp_all
  have empty: "level_is_empty (level_of (ladder b1 s) (r_tick r)) \<longleftrightarrow>
      (\<forall>x \<in> set (y # ys). r_id x \<noteq> r_id r \<longrightarrow> r_tick x \<noteq> r_tick r)"
    using book_coreD(7) [OF b1(1), of s "r_tick r"] y by (auto split: if_splits)
  have other: "best b1 s' = spec_best (queue ?S s')" if "s' \<noteq> s" for s' using that best b1(2) by simp
  show ?thesis
  proof (cases "level_is_empty (level_of (ladder b1 s) (r_tick r)) \<and> best b1 s = Some (r_tick r)")
    case True
    then have "r_tick y = r_tick r" using best b1(2) y by (simp add: spec_best_def)
    then have "better s (r_tick r) (r_tick x)" if "x \<in> set (queue ?S s)" for x
      using True empty prio that y better_antisym by fastforce
    from advance_sim [OF b1(1) k this] True b1(1) other show ?thesis
      by (auto simp: book_rel_def book_core_def)
  next
    case False
    have "best b1 s = Some (r_tick y)" using best b1(2) y by (simp add: spec_best_def)
    then have "r_tick r \<noteq> r_tick y \<or> (\<exists>x \<in> set (y # ys). r_id x \<noteq> r_id r \<and> r_tick x = r_tick r)"
      using False empty by auto
    from not_head_best [OF prio dist _ this] r y
    have "spec_best (queue ?S s) = Some (r_tick y)" by (simp del: filter.simps)
    then have "best b1 s' = spec_best (queue ?S s')" for s'
      using best b1(2) other y by (cases "s' = s") (simp_all add: spec_best_def)
    then show ?thesis using False b1(1) by (auto simp: book_rel_def)
  qed
qed

lemma cancel_sim:
  assumes rel: "book_rel b S"
  shows "\<exists>b'. cancel b i = Some (fst (spec_cancel S i), b') \<and> book_rel b' (snd (spec_cancel S i))"
proof -
  have core: "book_core b S" using rel by (simp add: book_rel_def)
  show ?thesis
  proof (cases "slot b i")
    case None
    with cancel_dead [OF core] rel show ?thesis by simp
  next
    case (Some n)
    then obtain r where r: "r \<in> set (queue S (node_side n))" "r_id r = i" "node_is (node_side n) r n"
      by (rule live_slot_queued [OF core])
    let ?s = "node_side n"
    from unlink_sim [OF core r(1)] r(2) Some obtain b1 where b1: "unlink b i = Some (n, b1)"
      "book_core b1 (spec_remove S ?s (r_id r))" "best b1 = best b"
      "\<And>s'. index_of (ladder b1 s') = index_of (ladder b s')" by auto
    have "occupied (ladder b ?s) (r_tick r)" using book_coreD(7) [OF core] r(1) by blast
    then obtain k where k: "index_of (ladder b1 ?s) (r_tick r) = Some k"
      using occupied_has_index b1(4) by fastforce
    have "cancel b i = (do {
        b2 \<leftarrow> (if level_is_empty (level_of (ladder b1 ?s) (r_tick r)) \<and> best b1 ?s = Some (r_tick r)
               then advance_best_from b1 ?s (r_tick r) else Some b1);
        Some (Some (r_tick r, r_qty r), b2) })"
      using Some Some [unfolded slot_eq_Some_iff] b1(1) k r(3) level_get_at [OF k]
      by (simp add: cancel_def node_is_def Let_def)
    moreover have "spec_cancel S i = (Some (r_tick r, r_qty r), spec_remove S ?s (r_id r))"
      using spec_cancel_live [OF core r(1)] r(2) by simp
    ultimately show ?thesis using cancel_settle [OF rel r(1) b1(2,3) k] by auto
  qed
qed

section \<open>Resting a remainder\<close>

definition pushed :: "OrderNode option list \<Rightarrow> nat \<Rightarrow> nat \<Rightarrow> OrderNode option list" where
  "pushed a k i =
     (if k = NIL then a
      else a[k := map_option (\<lambda>n. n\<lparr>node_next := i\<rparr>) (a ! k),
             i := map_option (\<lambda>n. n\<lparr>node_prev := k\<rparr>) (a ! i)])"

definition pushed_level :: "Level \<Rightarrow> nat \<Rightarrow> Qty \<Rightarrow> Level" where
  "pushed_level lv i qty =
     \<lparr>lvl_head = (if lvl_tail lv = NIL then i else lvl_head lv), lvl_tail = i, lvl_qty = lvl_qty lv + qty\<rparr>"

lemma length_pushed [simp]: "length (pushed a k i) = length a"
  by (simp add: pushed_def)

lemma pushed_data:
  "j < length a \<Longrightarrow> map_option node_data (pushed a k i ! j) = map_option node_data (a ! j)"
  by (cases "j = i"; cases "j = k"; cases "a ! j") (auto simp: pushed_def node_data_def)

lemma pushed_frame: "j \<noteq> i \<Longrightarrow> j \<noteq> k \<Longrightarrow> pushed a k i ! j = a ! j"
  by (simp add: pushed_def)

lemma dlseg_push:
  assumes seg: "dlseg a NIL h k NIL is" and "distinct is" and "i \<notin> set is" and "NIL \<notin> set is"
    and n: "i < length a" "a ! i = Some n" "node_prev n = NIL" "node_next n = NIL"
  shows "k = NIL \<longleftrightarrow> is = []" and "is \<noteq> [] \<Longrightarrow> k \<in> set is \<and> k < length a \<and> (\<exists>m. a ! k = Some m)"
    and "dlseg (pushed a k i) NIL (if k = NIL then i else h) i NIL (is @ [i])"
proof -
  have k: "k = last (NIL # is)" using dlseg_ends [OF seg] by simp
  then show iff: "k = NIL \<longleftrightarrow> is = []"
    using assms(4) by (metis last_ConsL last_ConsR last_in_set)
  have next_set: "\<exists>m. k < length a \<and> a ! k = Some m \<and> k \<in> set is \<and>
      dlseg (a[k := Some (m\<lparr>node_next := i\<rparr>)]) NIL h k i is" if "is \<noteq> []"
    using dlseg_set_next [OF seg that assms(2)] .
  then show "is \<noteq> [] \<Longrightarrow> k \<in> set is \<and> k < length a \<and> (\<exists>m. a ! k = Some m)" by blast
  show "dlseg (pushed a k i) NIL (if k = NIL then i else h) i NIL (is @ [i])"
  proof (cases "is = []")
    case True
    with iff n show ?thesis by (simp add: pushed_def)
  next
    case False
    with next_set obtain m where m: "a ! k = Some m" "k < length a" "k \<in> set is"
      "dlseg (a[k := Some (m\<lparr>node_next := i\<rparr>)]) NIL h k i is" by blast
    have "k \<noteq> i" using m(3) assms(3) by auto
    with m n False iff assms(3) show ?thesis
      by (auto simp: pushed_def dlseg_append dlseg_frame)
  qed
qed

lemma raise_best_eq:
  "raise_best b s t = best_put b s (case best b s of None \<Rightarrow> Some t
     | Some p \<Rightarrow> if better s t p then Some t else Some p)"
  by (cases s) (auto simp: raise_best_def best_put_def best_def better_def split: option.splits)

lemma spec_best_insert:
  "spec_best (spec_insert s r q) = (case spec_best q of None \<Rightarrow> Some (r_tick r)
     | Some p \<Rightarrow> if better s (r_tick r) p then Some (r_tick r) else Some p)"
  by (cases q) (auto simp: spec_best_def spec_insert_def)

lemma push_qty_run:
  assumes b2: "ladder_ok (ladder b2 s)" "index_of (ladder b2 s) t = Some k" "occupied (ladder b2 s) t"
    and n: "\<exists>m. slot b2 i = Some m \<and> node_qty m = qty"
  shows "\<exists>b'. (do { n \<leftarrow> slot b2 i;
        b3 \<leftarrow> level_mut b2 s k (\<lambda>lv. lv\<lparr>lvl_qty := lvl_qty lv + node_qty n\<rparr>);
        Some (raise_best b3 s t) }) = Some (raise_best b' s t) \<and> level_edit b2 s k t
        (\<lambda>lv. lv\<lparr>lvl_qty := lvl_qty lv + qty\<rparr>) (arena b2) b' \<and> ladder_ok (ladder b' s)"
proof -
  from level_mut_run [OF ladder_sync_mono [OF b2(1)] b2(2)] obtain b' where
    b': "level_mut b2 s k (\<lambda>lv. lv\<lparr>lvl_qty := lvl_qty lv + qty\<rparr>) = Some b'"
    "level_edit b2 s k t (\<lambda>lv. lv\<lparr>lvl_qty := lvl_qty lv + qty\<rparr>) (arena b2) b'" by blast
  have "is_set (occupancy (ladder b2 s)) k"
    using ladder_sync_is_set [OF b2(1), of k] b2(2,3) tick_at_index_of [OF b2(2)]
    by (auto simp: index_of_eq_Some_iff)
  then have "ladder_ok (ladder b' s)"
    using b'(2) b2(2,3) ladder_resync [of k "ladder b' s" t] by (simp add: level_edit_def level_is_empty_def)
  with b' n show ?thesis by auto
qed

lemma push_back_run:
  fixes b s t i n
  defines "lv \<equiv> level_of (ladder b s) t"
  assumes ok: "ladder_ok (ladder b s)" and t: "unat t < tick_limit"
    and n: "i < length (arena b)" "arena b ! i = Some n" "i \<noteq> NIL"
    and tail: "lvl_tail lv \<noteq> NIL \<Longrightarrow> lvl_tail lv < length (arena b) \<and> lvl_tail lv \<noteq> i \<and>
      (\<exists>m. arena b ! lvl_tail lv = Some m) \<and> occupied (ladder b s) t"
  shows "\<exists>b'. push_back b s t i = Some (raise_best b' s t) \<and>
     arena b' = pushed (arena b) (lvl_tail lv) i \<and>
     free b' = free b \<and> best b' = best b \<and> (\<forall>s'. s' \<noteq> s \<longrightarrow> ladder b' s' = ladder b s') \<and>
     ladder_ok (ladder b' s) \<and>
     level_of (ladder b' s) = (level_of (ladder b s))(t := pushed_level lv i (node_qty n))"
proof -
  from ensure_spec [OF ok t] obtain k l where l: "ensure (ladder b s) t = Some (k, l)" "ladder_ok l"
    "index_of l t = Some k" "level_of l = level_of (ladder b s)" by blast
  let ?b1 = "ladder_put b s l"
  have b1: "index_of (ladder ?b1 s) t = Some k" "ladder_sync {k} (ladder ?b1 s)" "arena ?b1 = arena b"
    using l(2,3) ladder_sync_mono by auto
  have get: "level_get l k = Some lv" using level_get_at [OF l(3)] l(4) by (simp add: lv_def)
  show ?thesis
  proof (cases "lvl_tail lv = NIL")
    case True
    from level_mut_run [OF b1(2,1), of "\<lambda>lv. lv\<lparr>lvl_head := i, lvl_tail := i\<rparr>"] obtain b2 where
      b2: "level_mut ?b1 s k (\<lambda>lv. lv\<lparr>lvl_head := i, lvl_tail := i\<rparr>) = Some b2"
      "level_edit ?b1 s k t (\<lambda>lv. lv\<lparr>lvl_head := i, lvl_tail := i\<rparr>) (arena b) b2" using b1(3) by auto
    have "occupied (ladder b2 s) t" using b2(2) n(3) by (simp add: level_edit_def level_is_empty_def)
    with mark_occupied_spec [of k "ladder b2 s" t] b2(2) b1(1) obtain l2 where
      l2: "mark_occupied (ladder b2 s) k = Some l2" "ladder_ok l2" "level_of l2 = level_of (ladder b2 s)"
      "index_of l2 = index_of (ladder b2 s)" by (auto simp: level_edit_def)
    from push_qty_run [of "ladder_put b2 s l2" s t k i "node_qty n"] l2 b2(2) b1(1) n \<open>occupied (ladder b2 s) t\<close> obtain b' where
      "push_back b s t i = Some (raise_best b' s t)" "level_edit (ladder_put b2 s l2) s k t
        (\<lambda>lv. lv\<lparr>lvl_qty := lvl_qty lv + node_qty n\<rparr>) (arena b) b'" "ladder_ok (ladder b' s)"
      by (auto simp: push_back_def l(1) get True b2(1) level_edit_def slot_eq_Some_iff)
    then show ?thesis using l2(3) b2(2) l(4) True
      by (cases "level_of (ladder b s) t")
        (auto simp: level_edit_def pushed_def pushed_level_def lv_def)
  next
    case False
    then obtain m where m: "lvl_tail lv < length (arena b)" "arena b ! lvl_tail lv = Some m"
      "lvl_tail lv \<noteq> i" "occupied (ladder b s) t" using tail by blast
    let ?k = "lvl_tail lv"
    let ?b3 = "?b1\<lparr>arena := (arena b)[?k := Some (m\<lparr>node_next := i\<rparr>), i := Some (n\<lparr>node_prev := ?k\<rparr>)]\<rparr>"
    have s: "slot_update ?b1 ?k (\<lambda>n. n\<lparr>node_next := i\<rparr>) =
        Some (?b1\<lparr>arena := (arena b)[?k := Some (m\<lparr>node_next := i\<rparr>)]\<rparr>)"
      "slot_update (?b1\<lparr>arena := (arena b)[?k := Some (m\<lparr>node_next := i\<rparr>)]\<rparr>) i
        (\<lambda>n. n\<lparr>node_prev := ?k\<rparr>) = Some ?b3"
      using m n by (simp_all add: slot_update_run)
    from level_mut_run [of k ?b3 s t "\<lambda>lv. lv\<lparr>lvl_tail := i\<rparr>"] b1 obtain b4 where
      b4: "level_mut ?b3 s k (\<lambda>lv. lv\<lparr>lvl_tail := i\<rparr>) = Some b4"
      "level_edit ?b3 s k t (\<lambda>lv. lv\<lparr>lvl_tail := i\<rparr>) (arena ?b3) b4" by auto
    have occ4: "occupied (ladder b4 s) t" "index_of (ladder b4 s) t = Some k"
      using b4(2) m(4) l(3,4) by (auto simp: level_edit_def level_is_empty_def)
    have "is_set (occupancy l) k"
      using ladder_sync_is_set [OF l(2), of k] l(3,4) m(4) tick_at_index_of [OF l(3)]
      by (auto simp: index_of_eq_Some_iff)
    then have "ladder_ok (ladder b4 s)"
      using ladder_resync [of k "ladder b4 s" t] b4(2) occ4 by (simp add: level_edit_def)
    from push_qty_run [OF this occ4(2,1), of i "node_qty n"] b4(2) n(1,2) obtain b' where
      "push_back b s t i = Some (raise_best b' s t)" "level_edit b4 s k t
        (\<lambda>lv. lv\<lparr>lvl_qty := lvl_qty lv + node_qty n\<rparr>) (arena ?b3) b'" "ladder_ok (ladder b' s)"
      by (auto simp: push_back_def l(1) get False s b4(1) level_edit_def slot_eq_Some_iff)
    then show ?thesis using b4(2) l(4) False m n
      by (cases "level_of (ladder b s) t")
        (auto simp: level_edit_def pushed_def pushed_level_def lv_def)
  qed
qed

text \<open>A freshly allocated order: live in the arena, unlinked and not queued anywhere.\<close>

definition fresh_node :: "OrderBook \<Rightarrow> SpecBook \<Rightarrow> Side \<Rightarrow> Resting \<Rightarrow> bool" where
  "fresh_node b S s r \<longleftrightarrow> length (arena b) \<le> NIL \<and>
     (\<exists>n. r_id r < length (arena b) \<and> arena b ! r_id r = Some n \<and> node_is s r n \<and>
        node_prev n = NIL \<and> node_next n = NIL) \<and>
     (\<forall>s'. r_id r \<notin> r_id ` set (queue S s')) \<and>
     (\<forall>s'. side_core (arena b) (ladder b s') s' (queue S s')) \<and>
     (\<forall>Q. (\<forall>s'. set (queue S s') \<subseteq> set (Q s')) \<longrightarrow> r \<in> set (Q s) \<longrightarrow> arena_core (arena b) (free b) Q)"

lemma arena_core_alloc:
  assumes old: "arena_core a fr Q0" and room: "length a < NIL"
    and i: "if fr \<noteq> [] then i < length a \<and> a ! i = None \<and> i = last fr else i = length a"
    and a1: "a1 = (if fr \<noteq> [] then a[i := Some node] else a @ [Some node])"
    and sub: "\<And>s. set (Q0 s) \<subseteq> set (Q s)" and new: "i \<in> r_id ` set (Q (node_side node))"
  shows "arena_core a1 (butlast fr) Q"
proof -
  have ar: "length a \<le> NIL" "distinct fr" "set fr = {i. i < length a \<and> a ! i = None}"
    "\<And>i n. i < length a \<Longrightarrow> a ! i = Some n \<Longrightarrow> i \<in> r_id ` set (Q0 (node_side n))"
    using old unfolding arena_core_def by blast+
  have arr: "length a1 \<le> NIL" "i < length a1" "a1 ! i = Some node"
    "\<And>j. j \<noteq> i \<Longrightarrow> j < length a1 \<longleftrightarrow> j < length a" "\<And>j. j \<noteq> i \<Longrightarrow> j < length a \<Longrightarrow> a1 ! j = a ! j"
    using i room by (auto simp: a1 nth_append split: if_splits)
  have fr: "set (butlast fr) = set fr - {i}"
  proof (cases fr rule: rev_cases)
    case Nil
    then show ?thesis by simp
  next
    case (snoc xs x)
    then show ?thesis using i ar(2) by auto
  qed
  have "{j. j < length a1 \<and> a1 ! j = None} = {j. j < length a \<and> a ! j = None} - {i}"
  proof -
    have "j < length a1 \<and> a1 ! j = None \<longleftrightarrow> j < length a \<and> a ! j = None \<and> j \<noteq> i" for j
      using arr by (cases "j = i") auto
    then show ?thesis by auto
  qed
  moreover have "j \<in> r_id ` set (Q (node_side n))" if "j < length a1" "a1 ! j = Some n" for j n
  proof (cases "j = i")
    case False
    then have "j \<in> r_id ` set (Q0 (node_side n))" using that ar(4) arr(4,5) by simp
    then show ?thesis using sub [of "node_side n"] by blast
  qed (use that arr(3) new in auto)
  ultimately show ?thesis using arr(1) fr ar(2,3) unfolding arena_core_def
    by (simp add: distinct_butlast)
qed

lemma alloc_sim:
  assumes rel: "book_rel b S" and room: "sb_next S < NIL" and al: "spec_alloc S = (i, S')"
    and r: "r_id r = i" "node_is s r node" "node_prev node = NIL" "node_next node = NIL"
  shows "\<exists>b1. alloc b node = Some (i, b1) \<and> best b1 = best b \<and> fresh_node b1 S' s r \<and>
     queue S' = queue S \<and> free b1 = sb_free S' \<and> length (arena b1) = sb_next S'"
proof -
  have core: "book_core b S" using rel by (simp add: book_rel_def)
  let ?a = "arena b"
  have ar: "arena_core ?a (free b) (queue S)" and eqs: "free b = sb_free S" "length ?a = sb_next S"
    using core unfolding book_core_def by blast+
  define b1 where "b1 = (if free b \<noteq> [] then b\<lparr>free := butlast (free b), arena := ?a[i := Some node]\<rparr>
    else b\<lparr>arena := ?a @ [Some node]\<rparr>)"
  have i: "if free b \<noteq> [] then i < length ?a \<and> ?a ! i = None \<and> i = last (free b) else i = length ?a"
    using al ar eqs last_in_set [of "free b"] by (auto simp: spec_alloc_def arena_core_def split: if_splits)
  then have fresh: "i \<notin> r_id ` set (queue S s')" for s'
    using book_coreD(3) [OF core, of _ s'] unfolding live_as_def by (fastforce split: if_splits)
  have "length ?a < 2 ^ 32" using room eqs by (simp add: NIL_def)
  then have run: "alloc b node = Some (i, b1)"
    using i by (auto simp: alloc_def b1_def vec_simps Let_def split: if_splits)
  have a1: "arena b1 = (if free b \<noteq> [] then ?a[i := Some node] else ?a @ [Some node])"
    and fr1: "free b1 = butlast (free b)" and lad: "ladder b1 = ladder b" "best b1 = best b"
    by (simp_all add: b1_def)
  have at: "i < length (arena b1)" "arena b1 ! i = Some node" "length (arena b1) \<le> NIL"
    using i room eqs by (auto simp: a1 nth_append)
  have "side_core (arena b1) (ladder b1 s') s' (queue S s')" for s'
    unfolding lad
  proof (rule side_core_frame [OF book_coreD(1) [OF core]])
    fix x assume x: "x \<in> set (queue S s')"
    then have "r_id x \<noteq> i" using fresh [of s'] by (metis imageI)
    moreover have "r_id x < length ?a"
      using live_as_bound [OF book_coreD(3) [OF core x] book_coreD(2) [OF core]] by simp
    ultimately show "r_id x < length (arena b1) \<and> arena b1 ! r_id x = ?a ! r_id x"
      by (simp add: a1 nth_append)
  qed
  moreover have "arena_core (arena b1) (free b1) Q"
    if "\<forall>s'. set (queue S s') \<subseteq> set (Q s')" "r \<in> set (Q s)" for Q
    unfolding fr1
    by (rule arena_core_alloc [OF ar _ i a1]) (use that r room eqs in \<open>auto simp: node_is_def\<close>)
  moreover have "queue S' = queue S" "free b1 = sb_free S'" "length (arena b1) = sb_next S'"
    using al eqs by (auto simp: b1_def spec_alloc_def split: if_splits)
  ultimately show ?thesis using run lad at r fresh by (auto simp: fresh_node_def)
qed

lemma side_core_pushed:
  assumes side: "side_core a l s q" and len: "length a \<le> NIL" and fresh: "r_id r \<notin> r_id ` set q"
    and n: "r_id r < length a" "a ! r_id r = Some n" "node_is s r n" "node_prev n = NIL" "node_next n = NIL"
    and l': "ladder_ok l'" and lv: "level_of l' = (level_of l)(r_tick r :=
      pushed_level (level_of l (r_tick r)) (r_id r) (r_qty r))"
  shows "side_core (pushed a (lvl_tail (level_of l (r_tick r))) (r_id r)) l' s (spec_insert s r q)"
proof -
  let ?t = "r_tick r" and ?k = "lvl_tail (level_of l (r_tick r))" and ?i = "r_id r"
  let ?a = "pushed a ?k ?i" and ?ids = "map r_id (at_tick q (r_tick r))"
  have seg: "dlseg a NIL (lvl_head (level_of l ?t)) ?k NIL ?ids"
    and qty: "lvl_qty (level_of l ?t) = sum_list (map r_qty (at_tick q ?t))"
    using side_coreD(5) [OF side, of ?t] by (simp_all add: level_rel_def)
  have dist: "distinct ?ids" "?i \<notin> set ?ids" "NIL \<notin> set ?ids"
    using side_coreD(3) [OF side] fresh NIL_notin_side [OF side len]
    by (auto simp: at_tick_def distinct_map_filter)
  note push = dlseg_push [OF seg dist n(1,2,4,5)]
  have at: "at_tick (spec_insert s r q) u = at_tick q u @ (if ?t = u then [r] else [])" for u
    using filter_spec_insert [OF side_coreD(2) [OF side]] by (simp add: at_tick_def)
  have "level_rel ?a (level_of l' u) (at_tick (spec_insert s r q) u)" for u
  proof (cases "u = ?t")
    case True
    then show ?thesis using push(3) qty lv at by (simp add: level_rel_def pushed_level_def)
  next
    case False
    have "?a ! r_id x = a ! r_id x" if x: "x \<in> set (at_tick q u)" for x
    proof (rule pushed_frame)
      show "r_id x \<noteq> ?i" using fresh x by (metis (mono_tags, lifting) image_eqI mem_Collect_eq set_at_tick)
      have "r_id x \<noteq> NIL" using NIL_notin_side [OF side len] x by (auto simp: image_iff)
      then show "r_id x \<noteq> ?k"
        using push(1,2) other_tick_untouched [OF side x False] by (metis list.set_map)
    qed
    then have "dlseg ?a NIL (lvl_head (level_of l u)) (lvl_tail (level_of l u)) NIL (map r_id (at_tick q u))"
      using side_coreD(5) [OF side, of u]
      by (intro dlseg_cong [of _ a ?a]) (auto simp: level_rel_def simp del: set_at_tick)
    with False lv at side_coreD(5) [OF side, of u] show ?thesis by (simp add: level_rel_def)
  qed
  moreover have "live_as ?a s x" if "x \<in> set (spec_insert s r q)" for x
  proof -
    have "live_as a s x" using that side_coreD(4) [OF side, of x] n(1-3) by (auto simp: live_as_def)
    then show ?thesis by (simp add: live_as_data pushed_data)
  qed
  ultimately show ?thesis using l' fresh side_coreD(2,3) [OF side]
    by (auto simp: side_core_def spec_insert_priority distinct_spec_insert)
qed

lemma fresh_tail:
  assumes fr: "fresh_node b S s r"
  defines "k \<equiv> lvl_tail (level_of (ladder b s) (r_tick r))"
  shows "k \<noteq> NIL \<Longrightarrow> k \<in> r_id ` set (queue S s) \<and> k < length (arena b) \<and> k \<noteq> r_id r \<and>
     (\<exists>m. arena b ! k = Some m) \<and> occupied (ladder b s) (r_tick r)"
proof -
  assume nz: "k \<noteq> NIL"
  from fr obtain n where n: "r_id r < length (arena b)" "arena b ! r_id r = Some n"
    "node_prev n = NIL" "node_next n = NIL" and side: "side_core (arena b) (ladder b s) s (queue S s)"
    and len: "length (arena b) \<le> NIL" and fresh: "r_id r \<notin> r_id ` set (queue S s)"
    by (auto simp: fresh_node_def)
  let ?ids = "map r_id (at_tick (queue S s) (r_tick r))"
  have seg: "dlseg (arena b) NIL (lvl_head (level_of (ladder b s) (r_tick r))) k NIL ?ids"
    using side_coreD(5) [OF side] by (simp add: level_rel_def k_def)
  have ids: "distinct ?ids" "r_id r \<notin> set ?ids" "NIL \<notin> set ?ids"
    using side_coreD(3) [OF side] fresh NIL_notin_side [OF side len]
    by (auto simp: at_tick_def distinct_map_filter)
  have k: "k \<in> set ?ids" "k < length (arena b)" "\<exists>m. arena b ! k = Some m"
    using dlseg_push [OF seg ids n] nz by auto
  moreover have "occupied (ladder b s) (r_tick r)"
    using level_empty_iff [OF side len, of "r_tick r"] k(1) by auto
  moreover have "k \<noteq> r_id r" using k(1) ids(2) by metis
  ultimately show ?thesis by auto
qed

lemma side_ids_disjoint:
  "side_core a l s q \<Longrightarrow> side_core a l' s' q' \<Longrightarrow> s \<noteq> s' \<Longrightarrow> x \<in> set q \<Longrightarrow> y \<in> set q' \<Longrightarrow>
     r_id x \<noteq> r_id y"
  using side_coreD(4) unfolding live_as_def node_is_def by (metis option.inject)

lemma push_sim:
  assumes fr: "fresh_node b S s r" and t: "unat (r_tick r) < tick_limit"
    and eqs: "free b = sb_free S" "length (arena b) = sb_next S"
  shows "\<exists>b2. push_back b s (r_tick r) (r_id r) = Some (raise_best b2 s (r_tick r)) \<and> best b2 = best b \<and>
     book_core b2 (queue_put S s (spec_insert s r (queue S s)))"
proof -
  from fr obtain n where n: "r_id r < length (arena b)" "arena b ! r_id r = Some n" "node_is s r n"
    "node_prev n = NIL" "node_next n = NIL" and side: "\<And>s'. side_core (arena b) (ladder b s') s' (queue S s')"
    and len: "length (arena b) \<le> NIL" and fresh: "\<And>s'. r_id r \<notin> r_id ` set (queue S s')"
    by (auto simp: fresh_node_def)
  let ?k = "lvl_tail (level_of (ladder b s) (r_tick r))"
  have qty: "node_qty n = r_qty r" using n(3) by (simp add: node_is_def)
  have "r_id r \<noteq> NIL" using n(1) len by simp
  from push_back_run [OF side_coreD(1) [OF side] t n(1,2) this] fresh_tail [OF fr] obtain b2 where
    run: "push_back b s (r_tick r) (r_id r) = Some (raise_best b2 s (r_tick r))"
    and b2: "arena b2 = pushed (arena b) ?k (r_id r)" "free b2 = free b" "best b2 = best b"
      "\<And>s'. s' \<noteq> s \<Longrightarrow> ladder b2 s' = ladder b s'" "ladder_ok (ladder b2 s)"
      "level_of (ladder b2 s) = (level_of (ladder b s))(r_tick r :=
         pushed_level (level_of (ladder b s) (r_tick r)) (r_id r) (r_qty r))"
    unfolding qty by blast
  have own: "side_core (arena b2) (ladder b2 s) s (spec_insert s r (queue S s))"
    unfolding b2(1) by (rule side_core_pushed [OF side len fresh n b2(5,6)])
  have other: "side_core (arena b2) (ladder b2 s') s' (queue S s')" if "s' \<noteq> s" for s'
  proof -
    have "r_id x < length (arena b2) \<and> arena b2 ! r_id x = arena b ! r_id x" if x: "x \<in> set (queue S s')" for x
    proof -
      note bound = live_as_bound [OF side_coreD(4) [OF side x] len]
      have "r_id x \<noteq> ?k"
        using fresh_tail [OF fr] bound side_ids_disjoint [OF side side \<open>s' \<noteq> s\<close> x] by fastforce
      moreover have "r_id x \<noteq> r_id r" using fresh [of s'] x by (metis imageI)
      ultimately show ?thesis using bound by (simp add: b2(1) pushed_frame)
    qed
    from side_core_frame [OF side this] show ?thesis using b2(4) that by simp
  qed
  have "arena_core (arena b) (free b) ((queue S)(s := spec_insert s r (queue S s)))"
  proof -
    have "\<forall>s'. set (queue S s') \<subseteq> set (((queue S)(s := spec_insert s r (queue S s))) s')"
      and "r \<in> set (((queue S)(s := spec_insert s r (queue S s))) s)" by auto
    with fr show ?thesis unfolding fresh_node_def by blast
  qed
  then have "arena_core (arena b2) (free b2) ((queue S)(s := spec_insert s r (queue S s)))"
    unfolding arena_core_data b2(1,2) by (simp add: pushed_data cong: conj_cong)
  with own other have "book_core b2 (queue_put S s (spec_insert s r (queue S s)))"
    using eqs b2(1,2) by (simp add: book_core_def)
  then show ?thesis using run b2(3) by blast
qed

lemma rest_sim:
  assumes rel: "book_rel b S" and room: "sb_next S < NIL" and t: "unat (no_tick order) < tick_limit"
  shows "\<exists>b'. rest_remainder order b qty res = Some (fst (spec_rest order S qty res), b') \<and>
     book_rel b' (snd (spec_rest order S qty res))"
proof (cases "0 < qty \<and> no_tif order \<notin> {ImmediateOrCancel, FillOrKill}")
  case False
  then show ?thesis using rel by (auto simp: rest_remainder_def spec_rest_def)
next
  case True
  let ?s = "no_side order" and ?t = "no_tick order"
  define node where "node = \<lparr>node_tick = ?t, node_qty = qty, node_side = ?s,
    node_owner = no_owner order, node_expiry = expiry_of (no_tif order), node_prev = NIL, node_next = NIL\<rparr>"
  obtain i S' where al: "spec_alloc S = (i, S')" by (meson surj_pair)
  define r where "r = \<lparr>r_id = i, r_tick = ?t, r_qty = qty, r_owner = no_owner order,
    r_expiry = expiry_of (no_tif order)\<rparr>"
  have rn: "r_id r = i" "node_is ?s r node" "node_prev node = NIL" "node_next node = NIL" "r_tick r = ?t"
    by (simp_all add: r_def node_def node_is_def)
  from alloc_sim [OF rel room al rn(1-4)] obtain b1 where run1: "alloc b node = Some (i, b1)"
    and b1: "best b1 = best b" "fresh_node b1 S' ?s r" "queue S' = queue S" "free b1 = sb_free S'"
      "length (arena b1) = sb_next S'" by blast
  let ?S = "queue_put S' ?s (spec_insert ?s r (queue S' ?s))"
  from push_sim [OF b1(2) _ b1(4,5)] t rn(1,5) obtain b2 where
    run2: "push_back b1 ?s ?t i = Some (raise_best b2 ?s ?t)" and b2: "best b2 = best b1" "book_core b2 ?S"
    by auto
  have "best (raise_best b2 ?s ?t) s' = spec_best (queue ?S s')" for s'
    using rel b1(1,3) b2(1) 
    by (simp add: raise_best_eq book_rel_def spec_best_insert rn(5) split: option.split)
  then have "book_rel (raise_best b2 ?s ?t) ?S"
    using b2(2) by (auto simp: raise_best_eq book_rel_def book_core_def)
  moreover have "rest_remainder order b qty res = Some (res\<lparr>sr_resting_id := Some i,
      sr_resting_qty := qty\<rparr>, raise_best b2 ?s ?t)"
    using True run1 run2 by (simp add: rest_remainder_def node_def expiry_of_def Let_def)
  moreover have "spec_rest order S qty res = (res\<lparr>sr_resting_id := Some i, sr_resting_qty := qty\<rparr>, ?S)"
    using True al by (simp add: spec_rest_def r_def)
  ultimately show ?thesis by simp
qed

end
