(* ===== verification/Book_Match.thy ===== *)
theory Book_Match
  imports Book_Spec
begin

text \<open>
  Facts about matching on the list book of \<open>Book_Spec\<close>: every quantity is accounted for, fills only
  touch live orders of other owners at crossing prices, and the liquidity walk that guards a
  fill-or-kill order predicts the matching loop exactly.
\<close>

section \<open>What a match reports\<close>

definition sum_fills :: "Fill list \<Rightarrow> nat" where
  "sum_fills fs = sum_list (map (\<lambda>f. unat (fill_qty f)) fs)"

definition resting_sum :: "Resting list \<Rightarrow> nat" where
  "resting_sum q = sum_list (map (\<lambda>r. unat (r_qty r)) q)"

lemma resting_sum_simps [simp]:
  "resting_sum [] = 0" "resting_sum (r # q) = unat (r_qty r) + resting_sum q"
  "resting_sum (xs @ ys) = resting_sum xs + resting_sum ys"
  by (simp_all add: resting_sum_def)

lemma resting_sum_partition:
  "resting_sum q = resting_sum (filter P q) + resting_sum (filter (\<lambda>x. \<not> P x) q)"
  by (induction q) auto

definition good_fill :: "NewOrder \<Rightarrow> Timestamp \<Rightarrow> Resting \<Rightarrow> Fill \<Rightarrow> bool" where
  "good_fill order now r f \<longleftrightarrow>
     fill_maker_id f = r_id r \<and> fill_maker_owner f = r_owner r \<and> fill_tick f = r_tick r \<and>
     fill_maker_size_before f = r_qty r \<and>
     fill_qty f = min (fill_taker_size_before f) (r_qty r) \<and>
     (fill_maker_filled f \<longleftrightarrow> fill_qty f = r_qty r) \<and> fill_taker_size_before f \<noteq> 0 \<and>
     r_owner r \<noteq> no_owner order \<and> \<not> is_expired (r_expiry r) now \<and>
     crosses (no_side order) (no_tick order) (r_tick r)"

text \<open>The report of a match extends the result it started from.\<close>

definition extends :: "SubmitResult \<Rightarrow> SubmitResult \<Rightarrow> Fill list \<Rightarrow> OrderId list \<Rightarrow> OrderId list \<Rightarrow> bool" where
  "extends res res' fs ex st \<longleftrightarrow>
     res' = res\<lparr>sr_fills := sr_fills res @ fs, sr_expired := sr_expired res @ ex,
                sr_self_trade_cancelled := sr_self_trade_cancelled res @ st\<rparr>"

lemma extends_refl [simp]: "extends res res [] [] []"
  by (simp add: extends_def)

lemma extends_fill:
  "extends (res\<lparr>sr_fills := sr_fills res @ [f]\<rparr>) res' fs ex st \<Longrightarrow> extends res res' (f # fs) ex st"
  by (simp add: extends_def)

lemma extends_expired:
  "extends (res\<lparr>sr_expired := sr_expired res @ [i]\<rparr>) res' fs ex st \<Longrightarrow> extends res res' fs (i # ex) st"
  by (simp add: extends_def)

lemma extends_self:
  "extends (res\<lparr>sr_self_trade_cancelled := sr_self_trade_cancelled res @ [i]\<rparr>) res' fs ex st \<Longrightarrow>
     extends res res' fs ex (i # st)"
  by (simp add: extends_def)

lemma good_spec_fill:
  "qty \<noteq> 0 \<Longrightarrow> \<not> is_expired (r_expiry r) now \<Longrightarrow> r_owner r \<noteq> no_owner order \<Longrightarrow>
     crosses (no_side order) (no_tick order) (r_tick r) \<Longrightarrow> good_fill order now r (spec_fill r qty)"
  by (simp add: good_fill_def spec_fill_def)

abbreviation eligible :: "NewOrder \<Rightarrow> Timestamp \<Rightarrow> Resting \<Rightarrow> bool" where
  "eligible order now r \<equiv> \<not> is_expired (r_expiry r) now \<and> r_owner r \<noteq> no_owner order"

abbreviation reaches :: "NewOrder \<Rightarrow> Resting \<Rightarrow> bool" where
  "reaches order r \<equiv> crosses (no_side order) (no_tick order) (r_tick r)"

text \<open>
  \<open>matched order now ds makers fs ex st\<close>: the orders \<open>ds\<close> were taken off the queue; \<open>ex\<close> and \<open>st\<close>
  name those of them that were expired or the taker's own, and \<open>fs\<close> are the fills against \<open>makers\<close>,
  complete for every maker that left the queue.
\<close>

definition matched :: "NewOrder \<Rightarrow> Timestamp \<Rightarrow> Resting list \<Rightarrow> Resting list \<Rightarrow> Fill list \<Rightarrow>
    OrderId list \<Rightarrow> OrderId list \<Rightarrow> bool" where
  "matched order now ds makers fs ex st \<longleftrightarrow>
     (\<forall>r \<in> set ds. reaches order r) \<and> list_all2 (good_fill order now) makers fs \<and>
     list_all fill_maker_filled (take (length (filter (eligible order now) ds)) fs) \<and>
     ex = map r_id (filter (\<lambda>r. is_expired (r_expiry r) now) ds) \<and>
     st = map r_id (filter (\<lambda>r. \<not> is_expired (r_expiry r) now \<and> r_owner r = no_owner order) ds)"

text \<open>
  How a match ends: the rest of the queue is untouched and either nothing is left to fill or the next
  order is out of reach, or the last maker is partly filled and keeps its place.
\<close>

definition match_end :: "NewOrder \<Rightarrow> Timestamp \<Rightarrow> Resting list \<Rightarrow> Resting list \<Rightarrow> Resting list \<Rightarrow>
    Resting list \<Rightarrow> Qty \<Rightarrow> bool" where
  "match_end order now ds rs makers q' qty' \<longleftrightarrow>
     q' = rs \<and> makers = filter (eligible order now) ds \<and>
       (qty' = 0 \<or> rs = [] \<or> \<not> reaches order (hd rs)) \<or>
     (\<exists>r rs' k. rs = r # rs' \<and> k < r_qty r \<and> qty' = 0 \<and> reaches order r \<and>
        q' = r\<lparr>r_qty := r_qty r - k\<rparr> # rs' \<and> makers = filter (eligible order now) ds @ [r] \<and>
        eligible order now r)"

lemma match_end_skip:
  assumes "match_end order now ds rs makers q' qty'" and "\<not> eligible order now r"
  shows "match_end order now (r # ds) rs makers q' qty'"
proof -
  have "filter (eligible order now) (r # ds) = filter (eligible order now) ds" using assms(2) by auto
  with assms(1) show ?thesis by (simp only: match_end_def)
qed

lemma match_end_take:
  assumes "match_end order now ds rs makers q' qty'" and "eligible order now r"
  shows "match_end order now (r # ds) rs (r # makers) q' qty'"
proof -
  have "filter (eligible order now) (r # ds) = r # filter (eligible order now) ds" using assms(2) by auto
  with assms(1) show ?thesis by (simp only: match_end_def append_Cons list.inject simp_thms)
qed

lemma spec_match_report:
  assumes "spec_match order now q qty res = (q', ids, qty', res')"
  shows "\<exists>ds rs makers fs ex st. q = ds @ rs \<and> ids = map r_id ds \<and> extends res res' fs ex st \<and>
     sum_fills fs + unat qty' = unat qty \<and> matched order now ds makers fs ex st \<and>
     match_end order now ds rs makers q' qty' \<and>
     sum_fills fs + resting_sum q' = resting_sum (filter (eligible order now) ds) + resting_sum rs"
  using assms
proof (induction q arbitrary: qty res ids)
  case Nil
  then show ?case
    by (intro exI [of _ "[]"]) (auto simp: sum_fills_def matched_def match_end_def)
next
  case (Cons r rs)
  consider (stop) "qty = 0 \<or> \<not> reaches order r"
    | (skip) "qty \<noteq> 0" "reaches order r" "\<not> eligible order now r"
    | (full) "qty \<noteq> 0" "reaches order r" "\<not> is_expired (r_expiry r) now"
        "r_owner r \<noteq> no_owner order" "r_qty r \<le> qty"
    | (part) "qty \<noteq> 0" "reaches order r" "\<not> is_expired (r_expiry r) now"
        "r_owner r \<noteq> no_owner order" "\<not> r_qty r \<le> qty" by blast
  then show ?case
  proof cases
    case stop
    with Cons.prems have "q' = r # rs" "ids = []" "qty' = qty" "res' = res" by auto
    with stop show ?thesis
      by (intro exI [of _ "[]"] exI [of _ "r # rs"] conjI)
        (auto simp: sum_fills_def matched_def match_end_def)
  next
    case skip
    let ?res = "if is_expired (r_expiry r) now then res\<lparr>sr_expired := sr_expired res @ [r_id r]\<rparr>
      else res\<lparr>sr_self_trade_cancelled := sr_self_trade_cancelled res @ [r_id r]\<rparr>"
    from skip Cons.prems obtain ids' where m: "spec_match order now rs qty ?res = (q', ids', qty', res')"
      "ids = r_id r # ids'" by (auto split: prod.splits if_splits)
    from Cons.IH [OF m(1)] obtain ds rs' makers fs ex st where ih: "rs = ds @ rs'" "ids' = map r_id ds"
      "extends ?res res' fs ex st" "sum_fills fs + unat qty' = unat qty"
      "matched order now ds makers fs ex st" "match_end order now ds rs' makers q' qty'"
      "sum_fills fs + resting_sum q' = resting_sum (filter (eligible order now) ds) + resting_sum rs'"
      by blast
    let ?e = "is_expired (r_expiry r) now"
    have "extends res res' fs (if ?e then r_id r # ex else ex) (if ?e then st else r_id r # st)"
      using ih(3) extends_expired extends_self by (simp split: if_splits)
    moreover have "matched order now (r # ds) makers fs (if ?e then r_id r # ex else ex)
        (if ?e then st else r_id r # st)" using ih(5) skip by (auto simp: matched_def)
    moreover have "filter (eligible order now) (r # ds) = filter (eligible order now) ds"
      using skip(3) by auto
    ultimately show ?thesis using ih(1,2,4,7) m(2) match_end_skip [OF ih(6) skip(3)]
      by (intro exI [of _ "r # ds"] exI [of _ rs'] exI [of _ makers] exI [of _ fs]) auto
  next
    case full
    with Cons.prems obtain ids' where m: "spec_match order now rs (qty - r_qty r)
        (res\<lparr>sr_fills := sr_fills res @ [spec_fill r qty]\<rparr>) = (q', ids', qty', res')"
      "ids = r_id r # ids'" by (auto simp: Let_def split: prod.splits)
    from Cons.IH [OF m(1)] obtain ds rs' makers fs ex st where ih: "rs = ds @ rs'" "ids' = map r_id ds"
      "extends (res\<lparr>sr_fills := sr_fills res @ [spec_fill r qty]\<rparr>) res' fs ex st"
      "sum_fills fs + unat qty' = unat (qty - r_qty r)"
      "matched order now ds makers fs ex st" "match_end order now ds rs' makers q' qty'"
      "sum_fills fs + resting_sum q' = resting_sum (filter (eligible order now) ds) + resting_sum rs'"
      by blast
    have "sum_fills (spec_fill r qty # fs) + resting_sum q' =
        resting_sum (filter (eligible order now) (r # ds)) + resting_sum rs'"
      using ih(7) full by (simp add: sum_fills_def spec_fill_def min_absorb2)
    moreover have "sum_fills (spec_fill r qty # fs) + unat qty' = unat qty"
      using ih(4) full(5) by (simp add: sum_fills_def spec_fill_def unat_sub word_le_nat_alt min_absorb2)
    moreover have "matched order now (r # ds) (r # makers) (spec_fill r qty # fs) ex st"
      using ih(5) full good_spec_fill [OF full(1,3,4,2)]
      by (auto simp: matched_def spec_fill_def min_absorb2)
    moreover have "match_end order now (r # ds) rs' (r # makers) q' qty'"
      using match_end_take [OF ih(6)] full by blast
    ultimately show ?thesis using ih(1,2) m(2) extends_fill [OF ih(3)]
      by (intro exI [of _ "r # ds"] exI [of _ rs'] exI [of _ "r # makers"]
          exI [of _ "spec_fill r qty # fs"] exI [of _ ex] exI [of _ st]) auto
  next
    case part
    have "matched order now [] [r] [spec_fill r qty] [] []"
      using good_spec_fill [OF part(1,3,4,2)] by (simp add: matched_def)
    moreover have "match_end order now [] (r # rs) [r] (r\<lparr>r_qty := r_qty r - qty\<rparr> # rs) 0"
      using part by (auto simp: match_end_def not_le intro!: exI [of _ qty])
    moreover have "sum_fills [spec_fill r qty] + unat (0 :: Qty) = unat qty"
      using part(5) by (simp add: sum_fills_def spec_fill_def min_absorb1)
    moreover have "sum_fills [spec_fill r qty] + resting_sum (r\<lparr>r_qty := r_qty r - qty\<rparr> # rs) =
        resting_sum (r # rs)"
      using part(5) by (simp add: sum_fills_def spec_fill_def min_absorb1 unat_sub word_le_nat_alt)
    ultimately show ?thesis using part Cons.prems
      by (intro exI [of _ "[]"] exI [of _ "r # rs"] exI [of _ "[r]"] exI [of _ "[spec_fill r qty]"])
        (auto simp: Let_def extends_def)
  qed
qed

section \<open>Fill-or-kill\<close>

text \<open>The pre-check of a fill-or-kill order predicts the matching loop.\<close>

lemma spec_match_zero: "spec_match order now q 0 res = (q, [], 0, res)"
  by (cases q) simp_all

lemma available_predicts_match:
  assumes "acc < no_qty order" and "no_qty order \<le> spec_available order now q acc"
    and "spec_match order now q (no_qty order - acc) res = (q', ids, qty', res')"
  shows "qty' = 0"
  using assms
proof (induction q arbitrary: acc res ids)
  case (Cons r rs)
  have nz: "no_qty order - acc \<noteq> 0" using Cons.prems(1) by auto
  have cr: "reaches order r" using Cons.prems(1,2) by (auto split: if_splits)
  show ?case
  proof (cases "eligible order now r")
    case False
    with Cons.prems nz cr show ?thesis
      by (auto split: prod.splits if_splits intro: Cons.IH [OF Cons.prems(1)])
  next
    case True
    let ?acc = "saturating_add_u64 acc (r_qty r)"
    have bound: "unat (no_qty order) < 2 ^ 64" by (rule order_less_le_trans [OF unsigned_less]) simp
    have ge: "unat acc < unat (no_qty order)" using Cons.prems(1) by (simp add: word_less_nat_alt)
    have rem: "unat (no_qty order - acc) = unat (no_qty order) - unat acc"
      using ge by (simp add: unat_sub word_le_nat_alt)
    show ?thesis
    proof (cases "no_qty order \<le> ?acc")
      case enough: True
      then have "unat (no_qty order) \<le> unat acc + unat (r_qty r)"
        by (simp add: word_le_nat_alt unat_saturating_add_u64)
      then have "no_qty order - acc \<le> r_qty r" using rem by (simp add: word_le_nat_alt)
      then show ?thesis
        using Cons.prems(3) nz cr True by (auto simp: Let_def spec_match_zero split: if_splits prod.splits)
    next
      case more: False
      then have less: "unat acc + unat (r_qty r) < unat (no_qty order)"
        using bound by (simp add: word_le_nat_alt unat_saturating_add_u64)
      then have acc: "?acc = acc + r_qty r" using bound by (simp add: saturating_add_u64_def)
      have "\<not> no_qty order - acc \<le> r_qty r" "r_qty r \<le> no_qty order - acc"
        using less rem by (auto simp: word_le_nat_alt)
      then obtain ids' where "spec_match order now rs (no_qty order - acc - r_qty r)
          (res\<lparr>sr_fills := sr_fills res @ [spec_fill r (no_qty order - acc)]\<rparr>) = (q', ids', qty', res')"
        using Cons.prems(3) nz cr True by (auto simp: Let_def split: prod.splits)
      moreover have "no_qty order - acc - r_qty r = no_qty order - ?acc" using acc by simp
      moreover have "no_qty order \<le> spec_available order now rs ?acc" "?acc < no_qty order"
        using Cons.prems(2) cr True more by (simp_all add: Let_def)
      ultimately show ?thesis using Cons.IH by metis
    qed
  qed
qed simp

end
