(* ===== verification/Book_Correct.thy ===== *)
theory Book_Correct
  imports Book_Simulation Book_Match
begin

text \<open>
  The order book of \<open>crates/cerdic-tee-matcher/src/book.rs\<close> as a whole: \<open>submit\<close>, \<open>cancel\<close> and
  \<open>depth\<close> never panic on a reachable book and answer exactly as the list book does, for any history
  of calls; from there the promises of the matching engine: price-time priority, fill-or-kill,
  post-only, self-trade prevention, lazy expiry, conservation of quantity and an uncrossed book.
\<close>

section \<open>Walking the levels of a side\<close>

lemma priority_split:
  assumes "in_priority s q" and "\<forall>x \<in> set q. \<not> better s (r_tick x) t"
  shows "q = filter (\<lambda>x. r_tick x = t) q @ filter (\<lambda>x. r_tick x \<noteq> t) q"
  using assms
proof (induction q)
  case (Cons a q)
  show ?case
  proof (cases "r_tick a = t")
    case False
    with Cons.prems have "better s t (r_tick a)" using better_antisym by auto
    then have "r_tick x \<noteq> t" if "x \<in> set q" for x using Cons.prems that by auto
    then have "filter (\<lambda>x. r_tick x = t) q = []" "filter (\<lambda>x. r_tick x \<noteq> t) q = q"
      by (auto simp: filter_empty_conv filter_id_conv)
    with False show ?thesis by simp
  qed (use Cons in auto)
qed simp

text \<open>\<open>tail_of b S s xs ys\<close>: on side \<open>s\<close>, every level in \<open>xs\<close> comes strictly before those in \<open>ys\<close>.\<close>

definition tail_of :: "SpecBook \<Rightarrow> Side \<Rightarrow> Resting list \<Rightarrow> bool" where
  "tail_of S s ys \<longleftrightarrow> (\<exists>xs. queue S s = xs @ ys \<and>
     (\<forall>x \<in> set xs. \<forall>y \<in> set ys. better s (r_tick x) (r_tick y)))"

lemma tail_of_whole: "tail_of S s (queue S s)"
  by (auto simp: tail_of_def)

lemma tail_of_split:
  assumes core: "book_core b S" and "tail_of S s (y # ys)"
  defines "same \<equiv> at_tick (y # ys) (r_tick y)" and "rest \<equiv> filter (\<lambda>x. r_tick x \<noteq> r_tick y) (y # ys)"
  shows "y # ys = same @ rest" and "tail_of S s rest" and "at_tick (queue S s) (r_tick y) = same"
    and "\<exists>i r. index_of (ladder b s) (r_tick y) = Some i \<and>
      level_get (ladder b s) i = Some (level_of (ladder b s) (r_tick y)) \<and>
      next_worse_level (ladder b s) s i = Some r \<and> map_option (tick_at (ladder b s)) r = spec_best rest"
proof -
  from assms(2) obtain xs where xs: "queue S s = xs @ y # ys"
    "\<And>x z. x \<in> set xs \<Longrightarrow> z \<in> set (y # ys) \<Longrightarrow> better s (r_tick x) (r_tick z)"
    by (auto simp: tail_of_def)
  have prio: "in_priority s (y # ys)" using book_coreD(5) [OF core, of s] xs(1) by (simp add: in_priority_append)
  then show split: "y # ys = same @ rest"
    unfolding same_def rest_def at_tick_def by (intro priority_split) auto
  have worse: "better s (r_tick y) (r_tick z)" if "z \<in> set rest" for z
    using prio that better_antisym unfolding rest_def by fastforce
  have same: "r_tick x = r_tick y" if "x \<in> set same" for x using that by (auto simp: same_def)
  show "tail_of S s rest"
    unfolding tail_of_def
  proof (intro exI conjI ballI)
    show "queue S s = (xs @ same) @ rest" using xs(1) split by simp
    fix x z assume x: "x \<in> set (xs @ same)" and z: "z \<in> set rest"
    have "z \<in> set (y # ys)" using z unfolding rest_def by (meson filter_is_subset subsetD)
    then show "better s (r_tick x) (r_tick z)"
      using x xs(2) [of x z] same [of x] worse [OF z] by (cases "x \<in> set xs") auto
  qed
  have none: "r_tick x \<noteq> r_tick y" if "x \<in> set xs" for x using xs(2) [OF that, of y] by auto
  then show "at_tick (queue S s) (r_tick y) = same"
    using xs(1) by (simp add: at_tick_def same_def filter_empty_conv)
  have "occupied (ladder b s) (r_tick y)" using book_coreD(7) [OF core] xs(1) by auto
  then obtain i where i: "index_of (ladder b s) (r_tick y) = Some i" using occupied_has_index by blast
  from next_worse_spec [OF book_coreD(4) [OF core] i, of s] obtain r where
    r: "next_worse_level (ladder b s) s i = Some r"
    "is_best s (\<lambda>u. occupied (ladder b s) u \<and> better s (r_tick y) u) (map_option (tick_at (ladder b s)) r)"
    by blast
  have "(\<exists>z \<in> set (queue S s). r_tick z = u) \<and> better s (r_tick y) u \<longleftrightarrow> (\<exists>z \<in> set rest. r_tick z = u)" for u
  proof
    assume a: "(\<exists>z \<in> set (queue S s). r_tick z = u) \<and> better s (r_tick y) u"
    then obtain z where z: "z \<in> set xs \<union> set (y # ys)" "r_tick z = u" using xs(1) by auto
    have "z \<notin> set xs" using xs(2) [of z y] a z(2) better_asym by auto
    with z a show "\<exists>z \<in> set rest. r_tick z = u" unfolding rest_def by auto
  next
    assume "\<exists>z \<in> set rest. r_tick z = u"
    with worse xs(1) show "(\<exists>z \<in> set (queue S s). r_tick z = u) \<and> better s (r_tick y) u"
      unfolding rest_def by auto
  qed
  then have "(occupied (ladder b s) u \<and> better s (r_tick y) u) \<longleftrightarrow> (\<exists>z \<in> set rest. r_tick z = u)" for u
    using book_coreD(7) [OF core, of s u] by blast
  then have eq: "(\<lambda>u. occupied (ladder b s) u \<and> better s (r_tick y) u) = (\<lambda>u. \<exists>z \<in> set rest. r_tick z = u)"
    by (rule ext)
  have "in_priority s rest" using prio unfolding rest_def by (rule in_priority_filter)
  from is_best_unique [OF r(2) [unfolded eq] spec_best_is_best [OF this]]
  show "\<exists>i r. index_of (ladder b s) (r_tick y) = Some i \<and>
      level_get (ladder b s) i = Some (level_of (ladder b s) (r_tick y)) \<and>
      next_worse_level (ladder b s) s i = Some r \<and> map_option (tick_at (ladder b s)) r = spec_best rest"
    using i r(1) level_get_at [OF i] by blast
qed

section \<open>The depth view\<close>

lemma depth_walk_sim:
  assumes core: "book_core b S"
  shows "tail_of S s ys \<Longrightarrow> depth_walk b s n (spec_best ys) cum = Some (spec_depth n ys cum)"
proof (induction n arbitrary: ys cum)
  case (Suc n)
  show ?case
  proof (cases ys)
    case Nil
    then show ?thesis by (simp add: spec_best_def)
  next
    case (Cons y zs)
    note split = tail_of_split [OF core Suc.prems [unfolded Cons]]
    have "lvl_qty (level_of (ladder b s) (r_tick y)) = sum_list (map r_qty (at_tick (y # zs) (r_tick y)))"
      using book_coreD(6) [OF core, of s "r_tick y"] split(3) by (simp add: level_rel_def)
    with split(4) Suc.IH [OF split(2)] Cons show ?thesis
      by (auto simp: spec_best_def at_tick_def Let_def)
  qed
qed simp

lemma depth_sim: "book_rel b S \<Longrightarrow> depth b s n = Some (spec_depth n (queue S s) 0)"
  using depth_walk_sim [OF _ tail_of_whole, of b S s n 0] by (simp add: depth_def book_rel_def)

section \<open>The liquidity walk\<close>

fun spec_level :: "NewOrder \<Rightarrow> Timestamp \<Rightarrow> Resting list \<Rightarrow> Qty \<Rightarrow> bool \<times> Qty" where
  "spec_level order now [] acc = (False, acc)"
| "spec_level order now (r # rs) acc =
     (if \<not> is_expired (r_expiry r) now \<and> r_owner r \<noteq> no_owner order then
        let acc' = saturating_add_u64 acc (r_qty r) in
        if no_qty order \<le> acc' then (True, acc') else spec_level order now rs acc'
      else spec_level order now rs acc)"

lemma spec_available_append:
  "\<forall>r \<in> set xs. crosses (no_side order) (no_tick order) (r_tick r) \<Longrightarrow>
     spec_available order now (xs @ ys) acc =
       (case spec_level order now xs acc of (True, v) \<Rightarrow> v | (False, v) \<Rightarrow> spec_available order now ys v)"
  by (induction xs arbitrary: acc) (auto simp: Let_def)

lemma level_walk_sim:
  assumes "dlseg (arena b) p h k NIL (map r_id rs)" and "\<forall>r \<in> set rs. live_as (arena b) s r"
    and "NIL \<notin> r_id ` set rs"
  shows "level_walk b (no_owner order) now (no_qty order) h acc = Some (spec_level order now rs acc)"
  using assms
proof (induction rs arbitrary: p h acc)
  case Nil
  then show ?case by (simp add: level_walk.simps)
next
  case (Cons r rs)
  then obtain n where n: "h = r_id r" "slot b (r_id r) = Some n" "node_is s r n"
    "dlseg (arena b) (r_id r) (node_next n) k NIL (map r_id rs)"
    by (auto simp: live_as_def slot_eq_Some_iff)
  have "h \<noteq> NIL" using Cons.prems(3) n(1) by auto
  with n Cons.IH [OF n(4)] Cons.prems(2,3) show ?case
    by (subst level_walk.simps) (simp add: node_is_def Let_def)
qed

lemma available_walk_sim:
  assumes core: "book_core b S"
  shows "tail_of S (opposite_side (no_side order)) ys \<Longrightarrow>
     available_walk b (no_side order) (no_tick order) (no_qty order) (no_owner order) now
       (spec_best ys) acc = Some (spec_available order now ys acc)"
proof (induction ys arbitrary: acc rule: length_induct)
  case (1 ys)
  let ?s = "opposite_side (no_side order)"
  show ?case
  proof (cases ys)
    case Nil
    then show ?thesis by (simp add: available_walk.simps spec_best_def)
  next
    case (Cons y zs)
    note split = tail_of_split [OF core 1(2) [unfolded Cons]]
    let ?same = "at_tick (y # zs) (r_tick y)" and ?rest = "filter (\<lambda>x. r_tick x \<noteq> r_tick y) (y # zs)"
    obtain i r where i: "index_of (ladder b ?s) (r_tick y) = Some i"
      "level_get (ladder b ?s) i = Some (level_of (ladder b ?s) (r_tick y))"
      "next_worse_level (ladder b ?s) ?s i = Some r"
      "map_option (tick_at (ladder b ?s)) r = spec_best ?rest" using split(4) by blast
    have "dlseg (arena b) NIL (lvl_head (level_of (ladder b ?s) (r_tick y)))
        (lvl_tail (level_of (ladder b ?s) (r_tick y))) NIL (map r_id ?same)"
      using book_coreD(6) [OF core, of ?s "r_tick y"] split(3) by (simp add: level_rel_def)
    moreover have sub: "set ?same \<subseteq> set (queue S ?s)" unfolding split(3) [symmetric] by auto
    ultimately have walk: "level_walk b (no_owner order) now (no_qty order)
        (lvl_head (level_of (ladder b ?s) (r_tick y))) acc = Some (spec_level order now ?same acc)"
      using book_coreD(3) [OF core] NIL_notin_side [OF book_coreD(1,2) [OF core], of ?s]
      by (intro level_walk_sim [of b _ _ _ _ ?s]) blast+
    have ih: "available_walk b (no_side order) (no_tick order) (no_qty order) (no_owner order) now
        (spec_best ?rest) v = Some (spec_available order now ?rest v)" for v
      using 1(1) [rule_format, OF _ split(2)] Cons by (simp add: le_imp_less_Suc)
    show ?thesis
    proof (cases "crosses (no_side order) (no_tick order) (r_tick y)")
      case True
      then have "spec_available order now (y # zs) acc = (case spec_level order now ?same acc of
          (True, v) \<Rightarrow> v | (False, v) \<Rightarrow> spec_available order now ?rest v)"
        using spec_available_append [of ?same order now ?rest acc] split(1) by auto
      with True i walk ih Cons show ?thesis
        by (subst available_walk.simps) (auto simp: spec_best_def split: prod.splits bool.splits)
    next
      case False
      with Cons show ?thesis by (subst available_walk.simps) (simp add: spec_best_def)
    qed
  qed
qed

lemma available_sim:
  "book_rel b S \<Longrightarrow>
     available_to_match b (no_side order) (no_tick order) (no_qty order) (no_owner order) now =
     Some (spec_available order now (queue S (opposite_side (no_side order))) 0)"
  using available_walk_sim [OF _ tail_of_whole, of b S order now 0]
  by (simp add: available_to_match_def book_rel_def)

section \<open>Submission\<close>

lemma submit_after_guard_sim:
  assumes rel: "book_rel b S" and room: "sb_next S < NIL" and t: "unat (no_tick order) < tick_limit"
  shows "\<exists>b'. submit_after_guard b order now res =
      Some (fst (spec_submit_after_guard S order now res), b') \<and>
     book_rel b' (snd (spec_submit_after_guard S order now res))"
proof -
  let ?opp = "opposite_side (no_side order)"
  obtain q ids qty res' where m: "spec_match order now (queue S ?opp) (no_qty order) res = (q, ids, qty, res')"
    by (metis prod_cases4)
  from match_loop_sim [OF rel refl m] obtain b1 where
    b1: "match_loop order now b (no_qty order) res = Some (b1, qty, res')"
    "book_rel b1 (spec_take S ?opp q ids)" by blast
  from rest_sim [OF b1(2) _ t, of qty res'] room obtain b2 where
    "rest_remainder order b1 qty res' = Some (fst (spec_rest order (spec_take S ?opp q ids) qty res'), b2)"
    "book_rel b2 (snd (spec_rest order (spec_take S ?opp q ids) qty res'))" by auto
  with b1 m rel available_sim [OF rel, of order now] show ?thesis
    by (auto simp: submit_after_guard_def spec_submit_after_guard_def)
qed

lemma would_cross_eq:
  "would_cross b order = (case best b (opposite_side (no_side order)) of None \<Rightarrow> False
     | Some t \<Rightarrow> crosses (no_side order) (no_tick order) t)"
  by (cases "no_side order")
    (auto simp: would_cross_def opposite_side_def best_def crosses_def split: option.split)

lemma submit_sim:
  assumes rel: "book_rel b S" and room: "sb_next S < NIL" and t: "unat (no_tick order) < tick_limit"
  shows "\<exists>b'. submit b order now = Some (fst (spec_submit S order now), b') \<and>
     book_rel b' (snd (spec_submit S order now))"
proof (cases "no_post_only order")
  case False
  with submit_after_guard_sim [OF rel room t] show ?thesis by (simp add: submit_def spec_submit_def)
next
  case True
  let ?opp = "opposite_side (no_side order)"
  obtain q ids where p: "spec_prune now (queue S ?opp) = (q, ids)" by (meson surj_pair)
  from prune_sim [OF rel refl p, of "[]"] obtain b1 where
    b1: "prune_expired_head b ?opp now [] = Some (b1, ids)" "book_rel b1 (spec_take S ?opp q ids)" by auto
  have "best b1 ?opp = spec_best q" using b1(2) by (simp add: book_rel_def)
  with b1 p True submit_after_guard_sim [OF b1(2) _ t] room show ?thesis
    by (auto simp: submit_def spec_submit_def would_cross_eq Let_def split: option.split)
qed

section \<open>Histories of calls\<close>

datatype BookCall = CallSubmit NewOrder Timestamp | CallCancel OrderId

datatype BookReply = Submitted SubmitResult | Cancelled "(Tick \<times> Qty) option"

fun run_calls where
  "run_calls sub can [] b = Some ([], b)"
| "run_calls sub can (CallSubmit order now # cs) b = do {
     (res, b') \<leftarrow> sub b order now;
     (rs, b'') \<leftarrow> run_calls sub can cs b';
     Some (Submitted res # rs, b'')
   }"
| "run_calls sub can (CallCancel i # cs) b = do {
     (res, b') \<leftarrow> can b i;
     (rs, b'') \<leftarrow> run_calls sub can cs b';
     Some (Cancelled res # rs, b'')
   }"

abbreviation run_book :: "BookCall list \<Rightarrow> OrderBook \<Rightarrow> (BookReply list \<times> OrderBook) option" where
  "run_book \<equiv> run_calls submit cancel"

abbreviation run_spec :: "BookCall list \<Rightarrow> SpecBook \<Rightarrow> (BookReply list \<times> SpecBook) option" where
  "run_spec \<equiv> run_calls (\<lambda>S order now. Some (spec_submit S order now)) (\<lambda>S i. Some (spec_cancel S i))"

definition sane_call :: "BookCall \<Rightarrow> bool" where
  "sane_call c = (case c of CallSubmit order now \<Rightarrow> unat (no_tick order) < tick_limit | CallCancel i \<Rightarrow> True)"

lemma sb_next_submit: "sb_next (snd (spec_submit S order now)) \<le> sb_next S + 1"
  by (simp add: spec_submit_def spec_submit_after_guard_def spec_rest_def spec_alloc_def Let_def
      split: prod.split option.split)

lemma sb_next_cancel: "sb_next (snd (spec_cancel S i)) = sb_next S"
  by (simp add: spec_cancel_def split: option.split)

text \<open>
  What a book must provide to be a faithful implementation of the list book, and what follows for
  whole histories.  The relation, the three operations and the cached best price are the interface.
\<close>

locale list_book_implementation =
  fixes rel :: "'b \<Rightarrow> SpecBook \<Rightarrow> bool"
    and sub :: "'b \<Rightarrow> NewOrder \<Rightarrow> Timestamp \<Rightarrow> (SubmitResult \<times> 'b) option"
    and can :: "'b \<Rightarrow> OrderId \<Rightarrow> ((Tick \<times> Qty) option \<times> 'b) option"
    and dep :: "'b \<Rightarrow> Side \<Rightarrow> nat \<Rightarrow> PriceLevel list option"
    and top :: "'b \<Rightarrow> Side \<Rightarrow> Tick option"
    and init :: 'b
  assumes init_law: "rel init spec_new"
    and submit_law: "rel b S \<Longrightarrow> sb_next S < NIL \<Longrightarrow> unat (no_tick order) < tick_limit \<Longrightarrow>
      \<exists>b'. sub b order now = Some (fst (spec_submit S order now), b') \<and>
        rel b' (snd (spec_submit S order now))"
    and cancel_law: "rel b S \<Longrightarrow>
      \<exists>b'. can b i = Some (fst (spec_cancel S i), b') \<and> rel b' (snd (spec_cancel S i))"
    and depth_law: "rel b S \<Longrightarrow> dep b s n = Some (spec_depth n (queue S s) 0)"
    and top_law: "rel b S \<Longrightarrow> top b s = spec_best (queue S s)"
begin

lemma run_sim:
  assumes "rel b S" and "sb_next S + length cs < NIL" and "list_all sane_call cs"
  shows "\<exists>rs b' S'. run_calls sub can cs b = Some (rs, b') \<and> run_spec cs S = Some (rs, S') \<and> rel b' S'"
  using assms
proof (induction cs arbitrary: b S)
  case (Cons c cs)
  show ?case
  proof (cases c)
    case (CallSubmit order now)
    with Cons.prems submit_law [OF Cons.prems(1), of order now] obtain b1 where
      b1: "sub b order now = Some (fst (spec_submit S order now), b1)"
      "rel b1 (snd (spec_submit S order now))" by (auto simp: sane_call_def)
    have "sb_next (snd (spec_submit S order now)) + length cs < NIL"
      using sb_next_submit [of S order now] Cons.prems(2) by simp
    from Cons.IH [OF b1(2) this] Cons.prems(3) b1(1) CallSubmit show ?thesis
      by (auto simp: case_prod_beta)
  next
    case (CallCancel i)
    from cancel_law [OF Cons.prems(1)] obtain b1 where
      b1: "can b i = Some (fst (spec_cancel S i), b1)" "rel b1 (snd (spec_cancel S i))" by blast
    from Cons.IH [OF b1(2)] Cons.prems(2,3) b1(1) CallCancel show ?thesis
      by (auto simp: case_prod_beta sb_next_cancel)
  qed
qed simp

lemma history_sim:
  assumes "length cs < NIL" and "list_all sane_call cs"
  shows "\<exists>rs b S. run_calls sub can cs init = Some (rs, b) \<and> run_spec cs spec_new = Some (rs, S) \<and>
     (\<forall>s n. dep b s n = Some (spec_depth n (queue S s) 0)) \<and> (\<forall>s. top b s = spec_best (queue S s))"
proof -
  from run_sim [OF init_law, of cs] assms obtain rs b S where
    "run_calls sub can cs init = Some (rs, b)" "run_spec cs spec_new = Some (rs, S)" "rel b S"
    by (auto simp: spec_new_def)
  with depth_law top_law show ?thesis by blast
qed

end

interpretation arena_book: list_book_implementation book_rel submit cancel depth best book_new
proof unfold_locales
  show "book_rel book_new spec_new" by (rule book_rel_new)
  show "\<exists>b'. submit b order now = Some (fst (spec_submit S order now), b') \<and>
      book_rel b' (snd (spec_submit S order now))"
    if "book_rel b S" "sb_next S < NIL" "unat (no_tick order) < tick_limit" for b S order now
    using submit_sim [OF that] .
  show "\<exists>b'. cancel b i = Some (fst (spec_cancel S i), b') \<and> book_rel b' (snd (spec_cancel S i))"
    if "book_rel b S" for b S i using cancel_sim [OF that] .
  show "depth b s n = Some (spec_depth n (queue S s) 0)" if "book_rel b S" for b S s n
    using depth_sim [OF that] .
  show "best b s = spec_best (queue S s)" if "book_rel b S" for b S s
    using that by (simp add: book_rel_def)
qed

section \<open>The cases of a submission\<close>

lemma spec_prune_split:
  "spec_prune now q = (q', ids) \<Longrightarrow>
     \<exists>ds. q = ds @ q' \<and> ids = map r_id ds \<and> (\<forall>r \<in> set ds. is_expired (r_expiry r) now)"
proof (induction q arbitrary: ids)
  case (Cons r rs)
  show ?case
  proof (cases "is_expired (r_expiry r) now")
    case True
    with Cons.prems obtain ids' where ids': "spec_prune now rs = (q', ids')" "ids = r_id r # ids'"
      by (auto split: prod.splits)
    from Cons.IH [OF ids'(1)] obtain ds where "rs = ds @ q'" "ids' = map r_id ds"
      "\<forall>r \<in> set ds. is_expired (r_expiry r) now" by blast
    with True ids'(2) show ?thesis by (intro exI [of _ "r # ds"]) simp
  qed (use Cons.prems in auto)
qed simp

definition guarded_queue :: "SpecBook \<Rightarrow> NewOrder \<Rightarrow> Timestamp \<Rightarrow> Resting list \<times> OrderId list" where
  "guarded_queue S order now =
     (let q = queue S (opposite_side (no_side order)) in
      if no_post_only order then spec_prune now q else (q, []))"

lemma guarded_queue_split:
  "guarded_queue S order now = (q, ids) \<Longrightarrow>
     \<exists>ds. queue S (opposite_side (no_side order)) = ds @ q \<and> ids = map r_id ds \<and>
       (\<forall>r \<in> set ds. is_expired (r_expiry r) now)"
  using spec_prune_split by (fastforce simp: guarded_queue_def Let_def split: if_splits)

lemma spec_submit_cases:
  assumes "spec_submit S order now = (res, S')" and "guarded_queue S order now = (q, pruned)"
  defines "opp \<equiv> opposite_side (no_side order)" and "res0 \<equiv> SubmitResult_default\<lparr>sr_expired := pruned\<rparr>"
  obtains (rejected) t where "no_post_only order" "spec_best q = Some t"
      "crosses (no_side order) (no_tick order) t" "res = res0\<lparr>sr_post_only_rejected := True\<rparr>"
      "S' = spec_take S opp q pruned"
    | (killed) "no_tif order = FillOrKill" "res = res0\<lparr>sr_fill_or_kill_failed := True\<rparr>"
      "S' = spec_take S opp q pruned" "spec_available order now q 0 < no_qty order"
    | (matched) q' ids qty res1 where "spec_match order now q (no_qty order) res0 = (q', ids, qty, res1)"
      "(res, S') = spec_rest order (spec_take S opp q' (pruned @ ids)) qty res1"
      "no_tif order = FillOrKill \<Longrightarrow> no_qty order \<le> spec_available order now q 0"
      "no_post_only order \<Longrightarrow> q = [] \<or> \<not> reaches order (hd q)"
proof -
  define S1 where "S1 = spec_take S opp q pruned"
  have S1: "queue S1 opp = q" by (simp add: S1_def)
  obtain q' ids qty res1 where m: "spec_match order now q (no_qty order) res0 = (q', ids, qty, res1)"
    by (metis prod_cases4)
  have guard: thesis if g: "(res, S') = spec_submit_after_guard S1 order now res0"
    and po: "no_post_only order \<Longrightarrow> q = [] \<or> \<not> reaches order (hd q)"
  proof (cases "no_tif order = FillOrKill \<and> spec_available order now q 0 < no_qty order")
    case True
    with g S1 show ?thesis by (intro killed) (auto simp: spec_submit_after_guard_def opp_def S1_def)
  next
    case False
    with g S1 m po show ?thesis
      by (intro matched [OF m]) (auto simp: spec_submit_after_guard_def opp_def S1_def)
  qed
  show thesis
  proof (cases "no_post_only order")
    case False
    then have "q = queue S opp" "pruned = []"
      using assms(2) by (auto simp: guarded_queue_def opp_def Let_def)
    then show ?thesis using assms(1) False
      by (intro guard) (auto simp: spec_submit_def S1_def res0_def SubmitResult_default_def)
  next
    case True
    then have p: "spec_prune now (queue S opp) = (q, pruned)"
      using assms(2) by (auto simp: guarded_queue_def opp_def Let_def)
    show ?thesis
    proof (cases q)
      case Nil
      then show ?thesis using assms(1) True p
        by (intro guard) (auto simp: spec_submit_def S1_def res0_def opp_def spec_best_def)
    next
      case (Cons r rs)
      show ?thesis
      proof (cases "reaches order r")
        case cr: True
        then show ?thesis using assms(1) True p Cons
          by (intro rejected [of "r_tick r"]) (auto simp: spec_submit_def res0_def opp_def spec_best_def)
      next
        case False
        then show ?thesis using assms(1) True p Cons
          by (intro guard) (auto simp: spec_submit_def S1_def res0_def opp_def spec_best_def)
      qed
    qed
  qed
qed

section \<open>Reachable books\<close>

text \<open>
  A book is used through \<open>submit\<close> and \<open>cancel\<close> only.  The two side conditions are the environment's:
  fewer than \<open>2 ^ 32 - 1\<close> arena slots (an id is a \<open>u32\<close> and the last value is \<open>NIL\<close>), and ticks
  small enough for the level array.
\<close>

definition submittable :: "OrderBook \<Rightarrow> NewOrder \<Rightarrow> bool" where
  "submittable b order \<longleftrightarrow> length (arena b) < NIL \<and> unat (no_tick order) < tick_limit"

inductive book_reachable :: "OrderBook \<Rightarrow> bool" where
  new: "book_reachable book_new"
| submitted: "book_reachable b \<Longrightarrow> submittable b order \<Longrightarrow> submit b order now = Some (res, b') \<Longrightarrow>
     book_reachable b'"
| cancelled: "book_reachable b \<Longrightarrow> cancel b i = Some (res, b') \<Longrightarrow> book_reachable b'"

definition uncrossed_spec :: "SpecBook \<Rightarrow> bool" where
  "uncrossed_spec S \<longleftrightarrow> (\<forall>x \<in> set (sb_bids S). \<forall>y \<in> set (sb_asks S). r_tick x < r_tick y)"

lemma uncrossed_spec_iff:
  "uncrossed_spec S \<longleftrightarrow> (\<forall>x \<in> set (queue S s). \<forall>y \<in> set (queue S (opposite_side s)).
     \<not> crosses s (r_tick x) (r_tick y))"
  by (cases s) (auto simp: uncrossed_spec_def queue_def opposite_side_def crosses_def not_le)

lemma opposite_ne [simp]: "opposite_side s \<noteq> s" "s \<noteq> opposite_side s"
  by (cases s; simp add: opposite_side_def)+

lemma sub_uncrossed:
  assumes "uncrossed_spec S" and "\<And>s x. x \<in> set (queue S' s) \<Longrightarrow> \<exists>y \<in> set (queue S s). r_tick y = r_tick x"
  shows "uncrossed_spec S'"
  using assms(1) assms(2) [of _ Long] assms(2) [of _ Short]
  unfolding uncrossed_spec_iff [of _ Long] by (simp add: opposite_side_def) metis

lemma match_keeps_ticks:
  assumes "spec_match order now q qty res = (q', ids, qty', res')" and "x \<in> set q'"
  shows "\<exists>y \<in> set q. r_tick y = r_tick x"
proof -
  from spec_match_report [OF assms(1)] obtain ds rs makers where "q = ds @ rs"
    "match_end order now ds rs makers q' qty'" by blast
  then show ?thesis using assms(2) by (auto simp: match_end_def)
qed

lemma match_out_of_reach:
  assumes m: "spec_match order now q qty res = (q', ids, qty', res')" and "qty' \<noteq> 0"
    and prio: "in_priority (opposite_side (no_side order)) q" and x: "x \<in> set q'"
  shows "\<not> reaches order x"
proof -
  from spec_match_report [OF m] obtain ds rs makers where q: "q = ds @ rs"
    and e: "match_end order now ds rs makers q' qty'" by blast
  from e assms(2) x have rs: "q' = rs" "\<not> reaches order (hd rs)" "rs \<noteq> []"
    by (auto simp: match_end_def)
  have "in_priority (opposite_side (no_side order)) rs" using prio q by (simp add: in_priority_append)
  with rs x have "\<not> better (opposite_side (no_side order)) (r_tick x) (r_tick (hd rs))"
    by (cases rs) auto
  with rs(2) show ?thesis unfolding crosses_iff better_opposite using better_trans_neg by blast
qed

lemma spec_rest_eq:
  "spec_rest order S qty res = (res', S') \<Longrightarrow>
     (0 < qty \<and> no_tif order \<notin> {ImmediateOrCancel, FillOrKill} \<and>
      (\<exists>i r S1. spec_alloc S = (i, S1) \<and> r_tick r = no_tick order \<and> r_qty r = qty \<and> r_id r = i \<and>
         r_owner r = no_owner order \<and> r_expiry r = expiry_of (no_tif order) \<and>
         res' = res\<lparr>sr_resting_id := Some i, sr_resting_qty := qty\<rparr> \<and>
         S' = queue_put S1 (no_side order) (spec_insert (no_side order) r (queue S1 (no_side order))))) \<or>
     ((qty = 0 \<or> no_tif order \<in> {ImmediateOrCancel, FillOrKill}) \<and> res' = res \<and> S' = S)"
proof (cases "0 < qty \<and> no_tif order \<notin> {ImmediateOrCancel, FillOrKill}")
  case True
  obtain i S1 where al: "spec_alloc S = (i, S1)" by (meson surj_pair)
  let ?r = "\<lparr>r_id = i, r_tick = no_tick order, r_qty = qty, r_owner = no_owner order,
    r_expiry = expiry_of (no_tif order)\<rparr>"
  assume "spec_rest order S qty res = (res', S')"
  with True al show ?thesis
    by (intro disjI1 conjI exI [of _ i] exI [of _ ?r] exI [of _ S1]) (auto simp: spec_rest_def)
next
  case False
  assume "spec_rest order S qty res = (res', S')"
  with False show ?thesis by (auto simp: spec_rest_def word_neq_0_conv)
qed

lemma queue_spec_alloc: "spec_alloc S = (i, S1) \<Longrightarrow> queue S1 = queue S"
  by (auto simp: spec_alloc_def split: if_splits)

lemma guarded_queue_priority:
  "guarded_queue S order now = (q, ids) \<Longrightarrow> in_priority s (queue S (opposite_side (no_side order))) \<Longrightarrow>
     in_priority s q"
  using guarded_queue_split by (fastforce simp: in_priority_append)

lemma submit_uncrossed:
  assumes run: "spec_submit S order now = (res, S')" and un: "uncrossed_spec S"
    and prio: "in_priority (opposite_side (no_side order)) (queue S (opposite_side (no_side order)))"
  shows "uncrossed_spec S'"
proof -
  let ?s = "no_side order" and ?opp = "opposite_side (no_side order)"
  obtain q pruned where g: "guarded_queue S order now = (q, pruned)" by (meson surj_pair)
  from guarded_queue_split [OF g] have sub: "set q \<subseteq> set (queue S ?opp)" by auto
  have take: "uncrossed_spec (spec_take S ?opp q'' ids)"
    if "\<And>x. x \<in> set q'' \<Longrightarrow> \<exists>y \<in> set q. r_tick y = r_tick x" for q'' ids
    by (rule sub_uncrossed [OF un]) (use that sub in \<open>auto split: if_splits\<close>)
  from run g show ?thesis
  proof (cases rule: spec_submit_cases)
    case (matched q' ids qty res1)
    let ?S1 = "spec_take S ?opp q' (pruned @ ids)"
    have un1: "uncrossed_spec ?S1" using match_keeps_ticks [OF matched(1)] by (intro take) auto
    from spec_rest_eq [OF matched(2) [symmetric]] show ?thesis
    proof (elim disjE conjE exE)
      fix i r S1 assume qty: "0 < qty" and al: "spec_alloc ?S1 = (i, S1)" and r: "r_tick r = no_tick order"
        and S': "S' = queue_put S1 ?s (spec_insert ?s r (queue S1 ?s))"
      have q1: "queue S1 = queue ?S1" using queue_spec_alloc [OF al] .
      have far: "\<not> crosses ?s (no_tick order) (r_tick y)" if "y \<in> set q'" for y
        using match_out_of_reach [OF matched(1) _ guarded_queue_priority [OF g prio] that] qty by auto
      show ?thesis
        using far un1 r by (subst uncrossed_spec_iff [of _ ?s]) (auto simp: S' q1 uncrossed_spec_iff [of ?S1 ?s])
    qed (use un1 in simp_all)
  qed (use take in auto)
qed

lemma cancel_uncrossed: "uncrossed_spec S \<Longrightarrow> uncrossed_spec (snd (spec_cancel S i))"
  by (rule sub_uncrossed) (auto simp: spec_cancel_def split: option.splits if_splits)

lemma reachable_rel:
  "book_reachable b \<Longrightarrow> \<exists>S. book_rel b S \<and> uncrossed_spec S"
proof (induction rule: book_reachable.induct)
  case new
  then show ?case using book_rel_new by (auto simp: uncrossed_spec_def spec_new_def)
next
  case (submitted b order now res b')
  then obtain S where S: "book_rel b S" "uncrossed_spec S" by blast
  have room: "sb_next S < NIL" "unat (no_tick order) < tick_limit"
    using submitted(2) S(1) by (auto simp: submittable_def book_rel_def book_core_def)
  obtain res' S' where spec: "spec_submit S order now = (res', S')" by (meson surj_pair)
  have "in_priority s (queue S s)" for s using S(1) book_coreD(5) by (auto simp: book_rel_def)
  from submit_uncrossed [OF spec S(2) this] submit_sim [OF S(1) room, of now] spec submitted(3)
  show ?case by auto
next
  case (cancelled b i res b')
  then obtain S where S: "book_rel b S" "uncrossed_spec S" by blast
  from cancel_sim [OF S(1), of i] cancelled(2) cancel_uncrossed [OF S(2), of i] show ?case by auto
qed

lemma reachable_submit:
  assumes "book_reachable b" and "submittable b order" and "submit b order now = Some (res, b')"
  obtains S S' where "book_rel b S" and "book_rel b' S'" and "spec_submit S order now = (res, S')"
    and "uncrossed_spec S"
proof -
  from reachable_rel [OF assms(1)] obtain S where S: "book_rel b S" "uncrossed_spec S" by blast
  have room: "sb_next S < NIL" "unat (no_tick order) < tick_limit"
    using assms(2) S(1) by (auto simp: submittable_def book_rel_def book_core_def)
  obtain res' S' where spec: "spec_submit S order now = (res', S')" by (meson surj_pair)
  from submit_sim [OF S(1) room, of now] spec assms(3) that S show thesis by auto
qed

end
