(* ===== verification/Book_View.thy ===== *)
theory Book_View
  imports Book_Correct
begin

text \<open>
  The order book (\<open>crates/cerdic-tee-matcher/src/book.rs\<close>) as a reader of its arena sees it, without the
  links: which order an id names, the prices of a side and the quantity resting at each.  The properties of
  the order types and of the depth endpoint are stated over these views.
\<close>

section \<open>The order behind an id\<close>

definition order_at :: "OrderBook \<Rightarrow> OrderId \<Rightarrow> (Side \<times> Resting) option" where
  "order_at b i = map_option (\<lambda>n. (node_side n, \<lparr>r_id = i, r_tick = node_tick n, r_qty = node_qty n,
     r_owner = node_owner n, r_expiry = node_expiry n\<rparr>)) (slot b i)"

lemma order_at_queue:
  assumes "book_core b S"
  shows "order_at b i = Some (s, r) \<longleftrightarrow> r_id r = i \<and> r \<in> set (queue S s)"
proof
  assume "order_at b i = Some (s, r)"
  then obtain n where n: "i < length (arena b)" "arena b ! i = Some n" and s: "s = node_side n"
    and r: "r = \<lparr>r_id = i, r_tick = node_tick n, r_qty = node_qty n, r_owner = node_owner n, r_expiry = node_expiry n\<rparr>"
    by (auto simp: order_at_def slot_eq_Some_iff)
  from assms n obtain r' where r': "r' \<in> set (queue S s)" "r_id r' = i"
    by (fastforce simp: book_core_def arena_core_def s)
  from book_coreD(3) [OF assms r'(1)] n r'(2) have "node_is s r' n" by (auto simp: live_as_def)
  with r' have "r' = r" by (simp add: node_is_def r)
  with r' show "r_id r = i \<and> r \<in> set (queue S s)" by simp
next
  assume r: "r_id r = i \<and> r \<in> set (queue S s)"
  with book_coreD(3) [OF assms, of r s] show "order_at b i = Some (s, r)"
    by (auto simp: order_at_def live_as_def node_is_def slot_eq_Some_iff)
qed

lemma order_at_eqI:
  assumes "book_core b S" and "book_core b' S'"
    and "\<And>s r. r_id r = i \<Longrightarrow> r \<in> set (queue S' s) \<longleftrightarrow> r \<in> set (queue S s)"
  shows "order_at b' i = order_at b i"
proof (rule option.expand)
  have iff: "order_at b' i = Some (s, r) \<longleftrightarrow> order_at b i = Some (s, r)" for s r
    using assms(3) [of r s] by (auto simp: order_at_queue [OF assms(1)] order_at_queue [OF assms(2)])
  then show "(order_at b' i = None) = (order_at b i = None)" by (metis not_None_eq surj_pair)
  show "order_at b' i \<noteq> None \<Longrightarrow> order_at b i \<noteq> None \<Longrightarrow> the (order_at b' i) = the (order_at b i)"
    using iff by (metis not_None_eq option.sel surj_pair)
qed

lemma order_at_NoneI:
  assumes "book_core b S" and "\<And>s r. r_id r = i \<Longrightarrow> r \<notin> set (queue S s)"
  shows "order_at b i = None"
  using assms(2) order_at_queue [OF assms(1), of i] by (metis not_None_eq surj_pair)

text \<open>Ids that all name expired orders of a side, and the book without them.\<close>

definition expired_orders :: "OrderBook \<Rightarrow> Side \<Rightarrow> Timestamp \<Rightarrow> OrderId list \<Rightarrow> bool" where
  "expired_orders b s now ids \<longleftrightarrow> (\<forall>i \<in> set ids. \<exists>r. order_at b i = Some (s, r) \<and> is_expired (r_expiry r) now)"

definition without :: "OrderBook \<Rightarrow> OrderId list \<Rightarrow> OrderId \<Rightarrow> (Side \<times> Resting) option" where
  "without b ids i = (if i \<in> set ids then None else order_at b i)"

lemma expired_guarded:
  assumes "book_core b S" and "guarded_queue S order now = (q, pruned)"
  shows "expired_orders b (opposite_side (no_side order)) now pruned"
  using guarded_queue_split [OF assms(2)] order_at_queue [OF assms(1)] by (fastforce simp: expired_orders_def)

lemma taken_guarded:
  assumes core: "book_core b S" and core': "book_core b' S'"
    and g: "guarded_queue S order now = (q, pruned)"
    and S': "\<And>s r. r_id r = i \<Longrightarrow> r \<in> set (queue S' s) \<longleftrightarrow> r \<in> set (queue (spec_take S (opposite_side (no_side order)) q pruned) s)"
  shows "order_at b' i = without b pruned i"
proof -
  let ?opp = "opposite_side (no_side order)"
  from guarded_queue_split [OF g] obtain ds where ds: "queue S ?opp = ds @ q" "pruned = map r_id ds" by blast
  have dist: "distinct (map r_id (ds @ q))" using book_coreD(1) [OF core, of ?opp] by (simp add: side_core_def ds(1))
  have queue: "queue (spec_take S ?opp q pruned) = (queue S)(?opp := q)" by (simp add: spec_take_def)
  show ?thesis
  proof (cases "i \<in> set pruned")
    case False
    then have "order_at b' i = order_at b i"
      by (intro order_at_eqI [OF core core']) (auto simp: S' queue ds)
    with False show ?thesis by (simp add: without_def)
  next
    case True
    then obtain x where x: "x \<in> set ds" "r_id x = i" using ds(2) by auto
    have at: "order_at b i = Some (?opp, x)" using x ds(1) by (simp add: order_at_queue [OF core])
    have "r \<notin> set (queue S' s)" if r: "r_id r = i" for s r
    proof
      assume "r \<in> set (queue S' s)"
      then have r': "r \<in> set (if s = ?opp then q else queue S s)" using S' [OF r, of s] by (simp add: queue split: if_splits)
      then have "order_at b i = Some (s, r)" using r ds(1) by (auto simp: order_at_queue [OF core] split: if_splits)
      with at r' have "x \<in> set q" by simp
      with x dist show False by (auto simp: image_iff)
    qed
    with True order_at_NoneI [OF core'] show ?thesis by (simp add: without_def)
  qed
qed

section \<open>The cases of a post-only order\<close>

lemma spec_prune_head: "spec_prune now q = (r # rs, ids) \<Longrightarrow> \<not> is_expired (r_expiry r) now"
  by (induction q arbitrary: ids) (auto split: if_splits prod.splits)

lemma rejected_after_guard:
  "sr_post_only_rejected (fst (spec_submit_after_guard S order now res)) = sr_post_only_rejected res"
proof -
  obtain q' ids qty res1 where m: "spec_match order now (queue S (opposite_side (no_side order))) (no_qty order) res = (q', ids, qty, res1)"
    by (metis prod_cases4)
  from spec_match_report [OF m] have keep: "sr_post_only_rejected res1 = sr_post_only_rejected res" by (auto simp: extends_def)
  obtain res2 S2 where r: "spec_rest order (spec_take S (opposite_side (no_side order)) q' ids) qty res1 = (res2, S2)" by fastforce
  from spec_rest_eq [OF r] have "sr_post_only_rejected res2 = sr_post_only_rejected res1" by auto
  with m r keep show ?thesis by (simp add: spec_submit_after_guard_def Let_def)
qed

lemma rejected_iff:
  assumes core: "book_core b S" and run: "spec_submit S order now = (res, S')" and po: "no_post_only order"
  shows "sr_post_only_rejected res \<longleftrightarrow> (\<exists>i r. order_at b i = Some (opposite_side (no_side order), r) \<and>
    crosses (no_side order) (no_tick order) (r_tick r) \<and> \<not> is_expired (r_expiry r) now)"
proof -
  let ?s = "no_side order" and ?opp = "opposite_side (no_side order)"
  obtain q pruned where p: "spec_prune now (queue S ?opp) = (q, pruned)" by (meson surj_pair)
  from spec_prune_split [OF p] obtain ds where ds: "queue S ?opp = ds @ q" "\<forall>r \<in> set ds. is_expired (r_expiry r) now" by blast
  have prio: "in_priority ?opp q" using book_coreD(5) [OF core, of ?opp] by (simp add: ds(1) in_priority_append)
  have "sr_post_only_rejected res \<longleftrightarrow> q \<noteq> [] \<and> crosses ?s (no_tick order) (r_tick (hd q))"
    using arg_cong [OF run, of fst] po p rejected_after_guard [of _ order now "SubmitResult_default\<lparr>sr_expired := pruned\<rparr>"]
    by (cases q) (auto simp: spec_submit_def spec_best_def SubmitResult_default_def Let_def split: if_splits)
  also have "\<dots> \<longleftrightarrow> (\<exists>r \<in> set (queue S ?opp). crosses ?s (no_tick order) (r_tick r) \<and> \<not> is_expired (r_expiry r) now)"
  proof (cases q)
    case (Cons r rs)
    have "crosses ?s (no_tick order) (r_tick r)" if "x \<in> set q" "crosses ?s (no_tick order) (r_tick x)" for x
    proof (cases "x = r")
      case False
      then have "\<not> better ?s (r_tick r) (r_tick x)" using prio that(1) by (auto simp: Cons better_opposite)
      with that(2) show ?thesis using better_trans_neg by (auto simp: crosses_iff)
    qed (use that in simp)
    then show ?thesis using ds spec_prune_head [OF p [unfolded Cons]] by (auto simp: Cons)
  qed (use ds in auto)
  also have "\<dots> \<longleftrightarrow> (\<exists>i r. order_at b i = Some (?opp, r) \<and> crosses ?s (no_tick order) (r_tick r) \<and> \<not> is_expired (r_expiry r) now)"
    by (auto simp: order_at_queue [OF core])
  finally show ?thesis .
qed

lemma empty_order_never_rests:
  assumes "spec_submit S order now = (res, S')" and "no_qty order = 0"
  shows "sr_resting_id res = None"
proof -
  obtain q pruned where g: "guarded_queue S order now = (q, pruned)" by (meson surj_pair)
  from assms(1) g show ?thesis
  proof (cases rule: spec_submit_cases)
    case (matched q' ids qty res1)
    have "qty = 0 \<and> res1 = SubmitResult_default\<lparr>sr_expired := pruned\<rparr>" using matched(1) assms(2) by (cases q) auto
    with spec_rest_eq [OF matched(2) [symmetric]] show ?thesis by (auto simp: SubmitResult_default_def)
  qed (simp_all add: SubmitResult_default_def)
qed

section \<open>Sums over the arena\<close>

lemma arena_sum_queue:
  fixes f :: "OrderNode \<Rightarrow> 'a :: comm_monoid_add"
  assumes core: "book_core b S" and f: "\<And>r n. node_is s r n \<Longrightarrow> f n = g r"
  shows "sum_list (map (\<lambda>x. case x of Some n \<Rightarrow> if node_side n = s then f n else 0 | None \<Rightarrow> 0) (arena b)) =
    sum_list (map g (queue S s))"
proof -
  let ?w = "\<lambda>x. case x of Some n \<Rightarrow> if node_side n = s then f n else 0 | None \<Rightarrow> 0"
  let ?q = "queue S s" and ?a = "arena b"
  have dist: "distinct (map r_id ?q)" using book_coreD(1) [OF core, of s] by (simp add: side_core_def)
  have sub: "r_id ` set ?q \<subseteq> {..<length ?a}" using book_coreD(3) [OF core] by (fastforce simp: live_as_def)
  have zero: "?w (?a ! i) = 0" if "i < length ?a" "i \<notin> r_id ` set ?q" for i
  proof (cases "?a ! i")
    case (Some n)
    then have "i \<in> r_id ` set (queue S (node_side n))"
      using core that(1) by (simp add: book_core_def arena_core_def)
    with that(2) Some show ?thesis by auto
  qed simp
  have "sum_list (map ?w ?a) = (\<Sum>i \<in> {..<length ?a}. ?w (?a ! i))"
    by (simp add: sum_list_sum_nth atLeast0LessThan)
  also have "\<dots> = (\<Sum>i \<in> r_id ` set ?q. ?w (?a ! i))"
    by (rule sum.mono_neutral_right) (use sub zero in auto)
  also have "\<dots> = (\<Sum>r \<in> set ?q. ?w (?a ! r_id r))"
    using dist by (simp add: sum.reindex distinct_map)
  also have "\<dots> = (\<Sum>r \<in> set ?q. g r)"
  proof (rule sum.cong)
    fix r assume "r \<in> set ?q"
    then obtain n where "?a ! r_id r = Some n" "node_is s r n" using book_coreD(3) [OF core] by (auto simp: live_as_def)
    then show "?w (?a ! r_id r) = g r" using f by (auto simp: node_is_def)
  qed simp
  also have "\<dots> = sum_list (map g ?q)"
    using dist by (simp add: sum_list_distinct_conv_sum_set distinct_map)
  finally show ?thesis .
qed

text \<open>The prices at which a side has orders, and the quantity resting at a price.\<close>

definition side_prices :: "OrderBook \<Rightarrow> Side \<Rightarrow> Tick set" where
  "side_prices b s = {node_tick n |n. Some n \<in> set (arena b) \<and> node_side n = s}"

definition resting_at :: "OrderBook \<Rightarrow> Side \<Rightarrow> Tick \<Rightarrow> Qty" where
  "resting_at b s t = sum_list (map (\<lambda>x. case x of
     Some n \<Rightarrow> if node_side n = s then (if node_tick n = t then node_qty n else 0) else 0 | None \<Rightarrow> 0) (arena b))"

lemma sum_list_at_tick: "sum_list (map (\<lambda>r. if r_tick r = t then r_qty r else 0) q) = sum_list (map r_qty (at_tick q t))"
  by (induction q) (auto simp: at_tick_def)

lemma resting_at_queue: "book_core b S \<Longrightarrow> resting_at b s t = sum_list (map r_qty (at_tick (queue S s) t))"
  unfolding resting_at_def sum_list_at_tick [symmetric] by (rule arena_sum_queue) (auto simp: node_is_def)

lemma side_prices_queue:
  assumes core: "book_core b S"
  shows "side_prices b s = r_tick ` set (queue S s)"
proof (intro set_eqI iffI)
  fix t assume "t \<in> side_prices b s"
  then obtain i n where n: "i < length (arena b)" "arena b ! i = Some n" "node_side n = s" "node_tick n = t"
    by (auto simp: side_prices_def in_set_conv_nth)
  then have "order_at b i = Some (s, \<lparr>r_id = i, r_tick = t, r_qty = node_qty n, r_owner = node_owner n, r_expiry = node_expiry n\<rparr>)"
    by (simp add: order_at_def slot_eq_Some_iff)
  then show "t \<in> r_tick ` set (queue S s)" by (force simp: order_at_queue [OF core])
next
  fix t assume "t \<in> r_tick ` set (queue S s)"
  then obtain r where "r \<in> set (queue S s)" "r_tick r = t" by blast
  with book_coreD(3) [OF core this(1)] obtain n where "r_id r < length (arena b)" "arena b ! r_id r = Some n" "node_side n = s" "node_tick n = t"
    by (auto simp: live_as_def node_is_def)
  then show "t \<in> side_prices b s" unfolding side_prices_def by (metis (mono_tags, lifting) mem_Collect_eq nth_mem)
qed

text \<open>The depth of a list book: its best prices, each once, with everything that rests there.\<close>

definition best_prices :: "Side \<Rightarrow> nat \<Rightarrow> Tick set \<Rightarrow> Tick set \<Rightarrow> bool" where
  "best_prices s n P tops \<longleftrightarrow> tops \<subseteq> P \<and> card tops = min n (card P) \<and> (\<forall>t \<in> tops. \<forall>u \<in> P - tops. better s t u)"

lemma best_prices_insert:
  assumes "finite P" and "best_prices s n (P - {t}) tops" and "t \<in> P" and "\<forall>u \<in> P - {t}. better s t u"
  shows "best_prices s (Suc n) P (insert t tops)"
proof -
  have "t \<notin> tops" "finite tops" using assms(1,2) finite_subset by (auto simp: best_prices_def)
  then have "card (insert t tops) = Suc (min n (card P - 1))" using assms(1-3) by (simp add: best_prices_def)
  moreover have "0 < card P" using assms(1,3) card_gt_0_iff by blast
  ultimately show ?thesis using assms(2-4) by (auto simp: best_prices_def)
qed

lemma spec_depth_levels:
  assumes "in_priority s q"
  shows "best_prices s n (r_tick ` set q) (pl_tick ` set (spec_depth n q c)) \<and>
    (\<forall>l \<in> set (spec_depth n q c). pl_qty l = sum_list (map r_qty (at_tick q (pl_tick l))))"
  using assms
proof (induction n q c rule: spec_depth.induct)
  case (3 n r rs c)
  define qty where "qty = sum_list (map r_qty (filter (\<lambda>x. r_tick x = r_tick r) (r # rs)))"
  define q where "q = filter (\<lambda>x. r_tick x \<noteq> r_tick r) (r # rs)"
  define rest where "rest = spec_depth n q (c + qty)"
  have run: "spec_depth (Suc n) (r # rs) c = \<lparr>pl_tick = r_tick r, pl_qty = qty, pl_cumulative = c + qty\<rparr> # rest"
    by (simp only: spec_depth.simps Let_def qty_def q_def rest_def)
  have "in_priority s q" using "3.prems" unfolding q_def by (rule in_priority_filter)
  from "3.IH" [OF qty_def this [unfolded q_def]] have IH: "best_prices s n (r_tick ` set q) (pl_tick ` set rest)"
    "\<forall>l \<in> set rest. pl_qty l = sum_list (map r_qty (at_tick q (pl_tick l)))" unfolding rest_def q_def by blast+
  have prices: "r_tick ` set q = r_tick ` set (r # rs) - {r_tick r}" by (auto simp: q_def)
  have first: "\<forall>u \<in> r_tick ` set (r # rs) - {r_tick r}. better s (r_tick r) u"
    using "3.prems" better_antisym by fastforce
  have other: "pl_tick l \<noteq> r_tick r" if "l \<in> set rest" for l using IH(1) that unfolding best_prices_def prices by auto
  have "at_tick q (pl_tick l) = at_tick (r # rs) (pl_tick l)" if "l \<in> set rest" for l
    using other [OF that] by (auto simp: at_tick_def q_def intro!: filter_cong)
  moreover have "at_tick (r # rs) (r_tick r) = filter (\<lambda>x. r_tick x = r_tick r) (r # rs)" by (simp add: at_tick_def)
  ultimately show ?case
    using best_prices_insert [OF _ IH(1) [unfolded prices] _ first] IH(2) unfolding run by (simp add: qty_def)
qed (auto simp: best_prices_def)

end
