(* ===== verification/Book_Properties.thy ===== *)
theory Book_Properties
  imports Book_View
begin

text \<open>
  The promises of the order book (\<open>crates/cerdic-tee-matcher/src/book.rs\<close>), stated on the arena
  book itself: histories agree with the list book, fill-or-kill is all or nothing, a post-only order
  never takes, fills respect price, expiry and ownership, quantities are conserved, the book is never
  crossed, and a rested order can be cancelled for exactly what rests.
\<close>

section \<open>Concrete orders for the instances\<close>

definition gtc :: "Side \<Rightarrow> Tick \<Rightarrow> Qty \<Rightarrow> OwnerId \<Rightarrow> NewOrder" where
  "gtc s t k w = \<lparr>no_side = s, no_tick = t, no_qty = k, no_owner = w, no_tif = GoodTilCancel,
     no_post_only = False\<rparr>"

lemma new_submittable: "unat (no_tick order) < tick_limit \<Longrightarrow> submittable book_new order"
  by (simp add: submittable_def book_new_def NIL_def)

lemma submit_new:
  assumes "unat (no_tick order) < tick_limit"
  shows "\<exists>b'. submit book_new order now = Some (fst (spec_submit spec_new order now), b')"
  using submit_sim [OF book_rel_new _ assms, of now] by (auto simp: spec_new_def NIL_def)

section \<open>Equivalence with the list book\<close>

text \<open>
  C3: For every history of submissions (ticks below the level-array limit) and cancellations, fewer
  than \<open>2 ^ 32 - 1\<close> of them, the arena book never panics, gives the same reply to each call as the
  list book in price-time priority, and its depth view and best prices are those of the list book.
\<close>

theorem book_refines_list_book:
  assumes "length cs < NIL" and "list_all sane_call cs"
  shows "\<exists>rs b S. run_calls submit cancel cs book_new = Some (rs, b) \<and>
     run_calls (\<lambda>S order now. Some (spec_submit S order now)) (\<lambda>S i. Some (spec_cancel S i)) cs spec_new
       = Some (rs, S) \<and>
     (\<forall>s n. depth b s n = Some (spec_depth n (queue S s) 0)) \<and> (\<forall>s. best b s = spec_best (queue S s))"
  by (rule arena_book.history_sim [OF assms])

theorem book_refines_list_book_witness:
  "\<exists>b. run_calls submit cancel
     [CallSubmit (gtc Short 100 10 1) 0, CallSubmit (gtc Short 99 5 2) 0, CallSubmit (gtc Long 100 8 3) 0,
      CallCancel 0] book_new =
     Some ([Submitted (SubmitResult_default\<lparr>sr_resting_id := Some 0, sr_resting_qty := 10\<rparr>),
            Submitted (SubmitResult_default\<lparr>sr_resting_id := Some 1, sr_resting_qty := 5\<rparr>),
            Submitted (SubmitResult_default\<lparr>sr_fills := [
              \<lparr>fill_maker_id = 1, fill_maker_owner = 2, fill_tick = 99, fill_qty = 5,
               fill_maker_filled = True, fill_maker_size_before = 5, fill_taker_size_before = 8\<rparr>,
              \<lparr>fill_maker_id = 0, fill_maker_owner = 1, fill_tick = 100, fill_qty = 3,
               fill_maker_filled = False, fill_maker_size_before = 10, fill_taker_size_before = 3\<rparr>]\<rparr>),
            Cancelled (Some (100, 7))], b)"
proof -
  let ?cs = "[CallSubmit (gtc Short 100 10 1) 0, CallSubmit (gtc Short 99 5 2) 0,
    CallSubmit (gtc Long 100 8 3) 0, CallCancel 0]"
  have "length ?cs < NIL" "list_all sane_call ?cs"
    by (simp_all add: NIL_def sane_call_def gtc_def tick_limit_def)
  from book_refines_list_book [OF this] show ?thesis
    by (auto simp: gtc_def spec_submit_def spec_submit_after_guard_def queue_def spec_new_def
        opposite_side_def spec_rest_def spec_alloc_def Let_def expiry_of_def spec_insert_def better_def
        queue_put_def spec_take_def crosses_def is_expired_def spec_fill_def spec_cancel_def
        spec_remove_def SubmitResult_default_def)
qed

section \<open>Order types\<close>

lemma second_submit:
  assumes "unat (no_tick o1) < tick_limit" and "unat (no_tick o2) < tick_limit"
  obtains b1 b2 where "submit book_new o1 now = Some (fst (spec_submit spec_new o1 now), b1)"
    and "book_reachable b1" and "submittable b1 o2"
    and "submit b1 o2 now = Some (fst (spec_submit (snd (spec_submit spec_new o1 now)) o2 now), b2)"
proof -
  from submit_sim [OF book_rel_new _ assms(1), of now] obtain b1 where
    b1: "submit book_new o1 now = Some (fst (spec_submit spec_new o1 now), b1)"
    "book_rel b1 (snd (spec_submit spec_new o1 now))" by (auto simp: spec_new_def NIL_def)
  have "sb_next (snd (spec_submit spec_new o1 now)) < NIL"
    using sb_next_submit [of spec_new o1 now] by (simp add: spec_new_def NIL_def)
  moreover from this have "submittable b1 o2"
    using b1(2) assms(2) by (simp add: submittable_def book_rel_def book_core_def)
  moreover have "book_reachable b1"
    by (rule book_reachable.submitted [OF book_reachable.new new_submittable [OF assms(1)] b1(1)])
  ultimately show thesis using that b1(1) submit_sim [OF b1(2) _ assms(2), of now] by blast
qed

lemmas spec_eval = gtc_def spec_submit_def spec_submit_after_guard_def queue_def spec_new_def
  opposite_side_def spec_rest_def spec_alloc_def Let_def expiry_of_def spec_insert_def better_def
  queue_put_def spec_take_def crosses_def is_expired_def spec_fill_def spec_cancel_def
  spec_remove_def SubmitResult_default_def

lemma extends_fields:
  "extends res res' fs ex st \<Longrightarrow> sr_fills res' = sr_fills res @ fs \<and> sr_expired res' = sr_expired res @ ex \<and>
     sr_self_trade_cancelled res' = sr_self_trade_cancelled res @ st \<and>
     sr_resting_id res' = sr_resting_id res \<and> sr_resting_qty res' = sr_resting_qty res \<and>
     sr_post_only_rejected res' = sr_post_only_rejected res \<and>
     sr_fill_or_kill_failed res' = sr_fill_or_kill_failed res"
  by (simp add: extends_def)

lemma default_fields [simp]:
  "sr_fills SubmitResult_default = []" "sr_resting_id SubmitResult_default = None"
  "sr_resting_qty SubmitResult_default = 0" "sr_self_trade_cancelled SubmitResult_default = []"
  "sr_expired SubmitResult_default = []"
  "\<not> sr_post_only_rejected SubmitResult_default" "\<not> sr_fill_or_kill_failed SubmitResult_default"
  by (simp_all add: SubmitResult_default_def)

lemma sum_fills_Nil [simp]: "sum_fills [] = 0"
  by (simp add: sum_fills_def)

lemma fok_spec:
  assumes run: "spec_submit S order now = (res, S')" and fok: "no_tif order = FillOrKill"
  shows "sr_resting_id res = None \<and>
     (if sr_fill_or_kill_failed res \<or> sr_post_only_rejected res then sr_fills res = []
      else sum_fills (sr_fills res) = unat (no_qty order))"
proof -
  obtain q pruned where g: "guarded_queue S order now = (q, pruned)" by (meson surj_pair)
  from run g show ?thesis
  proof (cases rule: spec_submit_cases)
    case (matched q' ids qty res1)
    have res: "res = res1" using spec_rest_eq [OF matched(2) [symmetric]] fok by auto
    from spec_match_report [OF matched(1)] obtain fs ex st where
      e: "extends (SubmitResult_default\<lparr>sr_expired := pruned\<rparr>) res1 fs ex st"
      "sum_fills fs + unat qty = unat (no_qty order)" by blast
    have "qty = 0"
    proof (cases "no_qty order = 0")
      case True
      then show ?thesis using e(2) by (simp add: unsigned_eq_0_iff)
    next
      case False
      then show ?thesis using available_predicts_match [of 0 order now q] matched(1,3) fok
        by (simp add: word_neq_0_conv)
    qed
    then show ?thesis using e res extends_fields [OF e(1)] by simp
  qed simp_all
qed

text \<open>
  C4: A fill-or-kill order never rests and never fills in part: it is either fully filled or has no
  fill at all.  A killed one leaves every resting order as it was, and the book itself unchanged, except
  that an order that is also post-only has first removed the expired orders at the head of the other side,
  which it reports.
\<close>

theorem fill_or_kill_all_or_nothing:
  assumes "book_reachable b" and "submittable b order" and "submit b order now = Some (res, b')"
    and "no_tif order = FillOrKill"
  shows "sr_resting_id res = None \<and>
     (if sr_fill_or_kill_failed res \<or> sr_post_only_rejected res then sr_fills res = []
      else sum_fills (sr_fills res) = unat (no_qty order)) \<and>
     (sr_fill_or_kill_failed res \<and> \<not> no_post_only order \<longrightarrow> b' = b) \<and>
     (sr_fill_or_kill_failed res \<or> sr_post_only_rejected res \<longrightarrow> order_at b' = without b (sr_expired res) \<and>
       expired_orders b (opposite_side (no_side order)) now (sr_expired res))"
proof -
  obtain S S' where rel: "book_rel b S" "book_rel b' S'" and run: "spec_submit S order now = (res, S')"
    using reachable_submit [OF assms(1-3)] by metis
  have core: "book_core b S" "book_core b' S'" using rel by (simp_all add: book_rel_def)
  obtain q pruned where g: "guarded_queue S order now = (q, pruned)" by (meson surj_pair)
  have b': "b' = b" if failed: "sr_fill_or_kill_failed res" and po: "\<not> no_post_only order"
  proof -
    have g: "guarded_queue S order now = (queue S (opposite_side (no_side order)), [])"
      using po by (simp add: guarded_queue_def)
    from run g have "spec_available order now (queue S (opposite_side (no_side order))) 0 < no_qty order"
    proof (cases rule: spec_submit_cases)
      case (matched q' ids qty res1)
      from spec_match_report [OF matched(1)] extends_fields have "\<not> sr_fill_or_kill_failed res1" by force
      with spec_rest_eq [OF matched(2) [symmetric]] failed show ?thesis by auto
    qed (use po in auto)
    then show ?thesis using assms(3,4) po available_sim [OF rel(1), of order now]
      by (simp add: submit_def submit_after_guard_def)
  qed
  have killed: "order_at b' = without b (sr_expired res) \<and> sr_expired res = pruned"
    if failed: "sr_fill_or_kill_failed res \<or> sr_post_only_rejected res"
  proof -
    from run g have "S' = spec_take S (opposite_side (no_side order)) q pruned \<and> sr_expired res = pruned"
    proof (cases rule: spec_submit_cases)
      case (matched q' ids qty res1)
      from spec_match_report [OF matched(1)] extends_fields have "\<not> sr_fill_or_kill_failed res1 \<and> \<not> sr_post_only_rejected res1" by force
      with spec_rest_eq [OF matched(2) [symmetric]] failed show ?thesis by auto
    qed simp_all
    with taken_guarded [OF core g] show ?thesis by (simp add: fun_eq_iff)
  qed
  have "sr_fill_or_kill_failed res \<or> sr_post_only_rejected res \<longrightarrow> order_at b' = without b (sr_expired res) \<and>
      expired_orders b (opposite_side (no_side order)) now (sr_expired res)"
    using killed expired_guarded [OF core(1) g] by metis
  with b' fok_spec [OF run assms(4)] show ?thesis by blast
qed

theorem fill_or_kill_all_or_nothing_witness:
  "\<exists>b res b'. book_reachable b \<and> submit b ((gtc Long 100 10 2)\<lparr>no_tif := FillOrKill\<rparr>) 0 = Some (res, b') \<and>
     sr_fill_or_kill_failed res \<and> sr_fills res = [] \<and> b' = b"
proof -
  let ?o = "(gtc Long 100 10 2)\<lparr>no_tif := FillOrKill\<rparr>"
  have "unat (no_tick (gtc Short 100 7 1)) < tick_limit" "unat (no_tick ?o) < tick_limit"
    by (simp_all add: gtc_def tick_limit_def)
  then obtain b1 b2 where b: "book_reachable b1" "submittable b1 ?o"
    "submit b1 ?o 0 = Some (fst (spec_submit (snd (spec_submit spec_new (gtc Short 100 7 1) 0)) ?o 0), b2)"
    using second_submit by metis
  have r: "fst (spec_submit (snd (spec_submit spec_new (gtc Short 100 7 1) 0)) ?o 0) =
      SubmitResult_default\<lparr>sr_fill_or_kill_failed := True\<rparr>"
    by (simp add: spec_eval saturating_add_u64_def)
  have "no_tif ?o = FillOrKill" "\<not> no_post_only ?o" by (simp_all add: gtc_def)
  with fill_or_kill_all_or_nothing [OF b] b r show ?thesis by auto
qed

lemma match_out_of_reach_id:
  "q = [] \<or> \<not> reaches order (hd q) \<Longrightarrow> spec_match order now q qty res = (q, [], qty, res)"
  by (cases q) auto

text \<open>
  C18: A post-only order produces no fill and cancels none of its owner's orders.  It is rejected exactly
  when an unexpired order of the other side would have matched it.  Otherwise it rests in full at its own
  price, for its owner and with its expiry; only an immediate-or-cancel or fill-or-kill order, or one of
  quantity zero, does not rest.  Apart from that every resting order is left as it was, but for the expired
  ones removed from the head of the other side, which are reported.
\<close>

theorem post_only_never_takes:
  assumes "book_reachable b" and "submittable b order" and "submit b order now = Some (res, b')"
    and "no_post_only order"
  shows "sr_fills res = [] \<and> sr_self_trade_cancelled res = [] \<and>
     expired_orders b (opposite_side (no_side order)) now (sr_expired res) \<and>
     (sr_post_only_rejected res \<longleftrightarrow> (\<exists>i r. order_at b i = Some (opposite_side (no_side order), r) \<and>
        crosses (no_side order) (no_tick order) (r_tick r) \<and> \<not> is_expired (r_expiry r) now)) \<and>
     (if sr_post_only_rejected res \<or> no_qty order = 0 \<or> no_tif order \<in> {ImmediateOrCancel, FillOrKill}
      then sr_resting_id res = None \<and> order_at b' = without b (sr_expired res)
      else \<exists>i. sr_resting_id res = Some i \<and> sr_resting_qty res = no_qty order \<and>
        order_at b' = (without b (sr_expired res))(i \<mapsto> (no_side order, \<lparr>r_id = i, r_tick = no_tick order,
          r_qty = no_qty order, r_owner = no_owner order, r_expiry = expiry_of (no_tif order)\<rparr>)))"
    (is "?quiet \<and> ?none \<and> ?expired \<and> ?rejected \<and> ?rests")
proof -
  obtain S S' where rel: "book_rel b S" "book_rel b' S'" and run: "spec_submit S order now = (res, S')"
    using reachable_submit [OF assms(1-3)] by metis
  have core: "book_core b S" "book_core b' S'" using rel by (simp_all add: book_rel_def)
  obtain q pruned where g: "guarded_queue S order now = (q, pruned)" by (meson surj_pair)
  let ?S1 = "spec_take S (opposite_side (no_side order)) q pruned"
  have same: "order_at b' = without b pruned" if "S' = ?S1" using taken_guarded [OF core g] that by (simp add: fun_eq_iff)
  have "?quiet \<and> ?none \<and> sr_expired res = pruned \<and> ?rests"
    using run g
  proof (cases rule: spec_submit_cases)
    case (killed)
    then show ?thesis using assms(4) same by simp
  next
    case (matched q' ids qty res1)
    from match_out_of_reach_id [OF matched(4) [OF assms(4)]] matched(1)
    have m: "q' = q" "ids = []" "res1 = SubmitResult_default\<lparr>sr_expired := pruned\<rparr>" "qty = no_qty order" by auto
    note rest = spec_rest_eq [OF matched(2) [symmetric], unfolded m(1,2) append_Nil2]
    show ?thesis
    proof (cases "0 < no_qty order \<and> no_tif order \<notin> {ImmediateOrCancel, FillOrKill}")
      case False
      with rest m have "res = SubmitResult_default\<lparr>sr_expired := pruned\<rparr>" "S' = ?S1" by auto
      with False same show ?thesis by (auto simp: word_neq_0_conv)
    next
      case True
      from rest True m obtain r S2 where al: "spec_alloc ?S1 = (r_id r, S2)"
        and fields: "r_tick r = no_tick order" "r_qty r = no_qty order" "r_owner r = no_owner order" "r_expiry r = expiry_of (no_tif order)"
        and res: "res = SubmitResult_default\<lparr>sr_expired := pruned, sr_resting_id := Some (r_id r), sr_resting_qty := no_qty order\<rparr>"
        and S': "S' = queue_put S2 (no_side order) (spec_insert (no_side order) r (queue S2 (no_side order)))" by auto
      define i where "i = r_id r"
      have r: "r = \<lparr>r_id = i, r_tick = no_tick order, r_qty = no_qty order, r_owner = no_owner order, r_expiry = expiry_of (no_tif order)\<rparr>"
        using fields by (simp add: i_def)
      have queue: "queue S' = (queue ?S1)(no_side order := spec_insert (no_side order) r (queue ?S1 (no_side order)))"
        using queue_spec_alloc [OF al] by (simp add: S')
      have "order_at b' i = Some (no_side order, r)" by (simp add: order_at_queue [OF core(2)] queue i_def)
      moreover have "order_at b' j = without b pruned j" if "j \<noteq> i" for j
        by (rule taken_guarded [OF core g]) (use that in \<open>auto simp: queue i_def\<close>)
      ultimately have "order_at b' = (without b pruned)(i \<mapsto> (no_side order, r))" by auto
      with True res [folded i_def] r show ?thesis by auto
    qed
  qed (use same in simp_all)
  with expired_guarded [OF core(1) g] rejected_iff [OF core(1) run assms(4)] show ?thesis by metis
qed

theorem post_only_never_takes_witness:
  "\<exists>b res b' i. book_reachable b \<and> submit b ((gtc Long 99 10 2)\<lparr>no_post_only := True\<rparr>) 0 = Some (res, b') \<and>
     sr_resting_id res = Some i \<and>
     order_at b' i = Some (Long, \<lparr>r_id = i, r_tick = 99, r_qty = 10, r_owner = 2, r_expiry = None\<rparr>)"
proof -
  let ?o = "(gtc Long 99 10 2)\<lparr>no_post_only := True\<rparr>"
  have "unat (no_tick (gtc Short 100 7 1)) < tick_limit" "unat (no_tick ?o) < tick_limit"
    by (simp_all add: gtc_def tick_limit_def)
  then obtain b1 b2 where b: "book_reachable b1" "submittable b1 ?o"
    "submit b1 ?o 0 = Some (fst (spec_submit (snd (spec_submit spec_new (gtc Short 100 7 1) 0)) ?o 0), b2)"
    using second_submit by metis
  have r: "\<not> sr_post_only_rejected (fst (spec_submit (snd (spec_submit spec_new (gtc Short 100 7 1) 0)) ?o 0))"
    by (simp add: spec_eval spec_best_def)
  have o: "no_post_only ?o" "no_side ?o = Long" "no_tick ?o = 99" "no_qty ?o = 10" "no_owner ?o = 2"
    "no_tif ?o = GoodTilCancel" by (simp_all add: gtc_def)
  have "expiry_of GoodTilCancel = None" by (simp add: expiry_of_def)
  with post_only_never_takes [OF b o(1), unfolded o(2-)] r obtain i where
    "sr_resting_id (fst (spec_submit (snd (spec_submit spec_new (gtc Short 100 7 1) 0)) ?o 0)) = Some i"
    "order_at b2 i = Some (Long, \<lparr>r_id = i, r_tick = 99, r_qty = 10, r_owner = 2, r_expiry = None\<rparr>)" by auto
  with b show ?thesis by blast
qed

section \<open>What is filled\<close>

lemma list_all2_fills:
  "list_all2 P xs ys \<Longrightarrow> y \<in> set ys \<Longrightarrow> \<exists>x \<in> set xs. P x y"
  by (induction rule: list_all2_induct) auto

lemma spec_submit_fills:
  assumes run: "spec_submit S order now = (res, S')" and f: "f \<in> set (sr_fills res)"
  obtains r where "r \<in> set (queue S (opposite_side (no_side order)))" and "good_fill order now r f"
proof -
  obtain q pruned where g: "guarded_queue S order now = (q, pruned)" by (meson surj_pair)
  have sub: "set q \<subseteq> set (queue S (opposite_side (no_side order)))" using guarded_queue_split [OF g] by auto
  from run g show thesis
  proof (cases rule: spec_submit_cases)
    case (matched q' ids qty res1)
    from spec_match_report [OF matched(1)] obtain ds rs makers fs ex st where q: "q = ds @ rs"
      and e: "extends (SubmitResult_default\<lparr>sr_expired := pruned\<rparr>) res1 fs ex st"
      and m: "matched order now ds makers fs ex st" "match_end order now ds rs makers q' qty" by blast
    have "f \<in> set fs" using f spec_rest_eq [OF matched(2) [symmetric]] extends_fields [OF e] by auto
    then obtain r where r: "r \<in> set makers" "good_fill order now r f"
      using m(1) list_all2_fills unfolding matched_def by metis
    have "set makers \<subseteq> set q" using m(2) q by (auto simp: match_end_def)
    with r sub that show thesis by blast
  qed (use f in auto)
qed

text \<open>
  C6: Every fill of a submission is against an order that was live on the opposite side when the
  submission started, at that order's own price, which the incoming limit reaches; its owner is not
  the incoming owner and it had not expired; the quantity is the smaller of the two remaining sizes
  and is reported together with both of them.
\<close>

theorem fills_are_legitimate:
  assumes "book_reachable b" and "submittable b order" and "submit b order now = Some (res, b')"
    and "f \<in> set (sr_fills res)"
  shows "\<exists>n. slot b (fill_maker_id f) = Some n \<and> node_side n = opposite_side (no_side order) \<and>
     fill_tick f = node_tick n \<and> crosses (no_side order) (no_tick order) (node_tick n) \<and>
     fill_maker_owner f = node_owner n \<and> node_owner n \<noteq> no_owner order \<and>
     \<not> is_expired (node_expiry n) now \<and> fill_maker_size_before f = node_qty n \<and>
     fill_qty f = min (fill_taker_size_before f) (node_qty n) \<and>
     (fill_maker_filled f \<longleftrightarrow> fill_qty f = node_qty n)"
proof -
  obtain S S' where rel: "book_rel b S" and run: "spec_submit S order now = (res, S')"
    using reachable_submit [OF assms(1-3)] by metis
  obtain r where r: "r \<in> set (queue S (opposite_side (no_side order)))" "good_fill order now r f"
    using spec_submit_fills [OF run assms(4)] by blast
  have "live_as (arena b) (opposite_side (no_side order)) r"
    using rel r(1) book_coreD(3) by (auto simp: book_rel_def)
  with r(2) show ?thesis
    by (auto simp: live_as_def slot_eq_Some_iff good_fill_def node_is_def)
qed

theorem fills_are_legitimate_witness:
  "\<exists>b res b' f n. book_reachable b \<and> submit b (gtc Long 105 10 2) 0 = Some (res, b') \<and>
     sr_fills res = [f] \<and> slot b (fill_maker_id f) = Some n \<and> fill_tick f = 100 \<and>
     node_tick n = 100 \<and> node_owner n \<noteq> 2"
proof -
  let ?o = "gtc Long 105 10 2"
  have "unat (no_tick (gtc Short 100 7 1)) < tick_limit" "unat (no_tick ?o) < tick_limit"
    by (simp_all add: gtc_def tick_limit_def)
  then obtain b1 b2 where b: "book_reachable b1" "submittable b1 ?o"
    "submit b1 ?o 0 = Some (fst (spec_submit (snd (spec_submit spec_new (gtc Short 100 7 1) 0)) ?o 0), b2)"
    using second_submit by metis
  let ?f = "\<lparr>fill_maker_id = 0, fill_maker_owner = 1, fill_tick = 100, fill_qty = 7,
    fill_maker_filled = True, fill_maker_size_before = 7, fill_taker_size_before = 10\<rparr>"
  have r: "sr_fills (fst (spec_submit (snd (spec_submit spec_new (gtc Short 100 7 1) 0)) ?o 0)) = [?f]"
    by (simp add: spec_eval)
  then have "?f \<in> set (sr_fills (fst (spec_submit (snd (spec_submit spec_new (gtc Short 100 7 1) 0)) ?o 0)))"
    by simp
  from fills_are_legitimate [OF b this] b r show ?thesis by (auto simp: gtc_def)
qed

lemma matched_full:
  assumes m: "matched order now ds makers fs ex st" and e: "match_end order now ds rs makers q' qty'"
    and r: "r \<in> set ds"
  shows "(\<exists>f \<in> set fs. fill_maker_id f = r_id r \<and> fill_maker_filled f) \<or> r_id r \<in> set ex \<union> set st"
proof (cases "eligible order now r")
  case True
  let ?el = "filter (eligible order now) ds"
  have "r \<in> set ?el" using r True by simp
  then obtain k where k: "k < length ?el" "?el ! k = r" by (meson in_set_conv_nth)
  obtain tl where "makers = ?el @ tl" using e unfolding match_end_def by force
  then have mk: "k < length makers" "makers ! k = r" using k by (simp_all add: nth_append)
  have "good_fill order now r (fs ! k)" "k < length fs"
    using m mk by (auto simp: matched_def list_all2_conv_all_nth)
  moreover have "fill_maker_filled (fs ! k)"
    using m k(1) \<open>k < length fs\<close> by (auto simp: matched_def list_all_length)
  ultimately show ?thesis by (auto simp: good_fill_def intro!: bexI [of _ "fs ! k"])
next
  case False
  then show ?thesis using m r by (auto simp: matched_def)
qed

lemma priority_spec:
  assumes run: "spec_submit S order now = (res, S')" and f: "f \<in> set (sr_fills res)"
    and prio: "in_priority (opposite_side (no_side order)) (queue S (opposite_side (no_side order)))"
    and r: "r \<in> set (queue S (opposite_side (no_side order)))"
    and better: "better (opposite_side (no_side order)) (r_tick r) (fill_tick f)"
  shows "(\<exists>g \<in> set (sr_fills res). fill_maker_id g = r_id r \<and> fill_maker_filled g) \<or>
     r_id r \<in> set (sr_expired res) \<union> set (sr_self_trade_cancelled res)"
proof -
  obtain q pruned where g: "guarded_queue S order now = (q, pruned)" by (meson surj_pair)
  from guarded_queue_split [OF g] obtain ps where ps: "queue S (opposite_side (no_side order)) = ps @ q"
    "pruned = map r_id ps" by blast
  from run g show ?thesis
  proof (cases rule: spec_submit_cases)
    case (matched q' ids qty res1)
    from spec_match_report [OF matched(1)] obtain ds rs makers fs ex st where q: "q = ds @ rs"
      and e: "extends (SubmitResult_default\<lparr>sr_expired := pruned\<rparr>) res1 fs ex st"
      and m: "matched order now ds makers fs ex st" "match_end order now ds rs makers q' qty" by blast
    have res: "sr_fills res = fs" "sr_expired res = pruned @ ex" "sr_self_trade_cancelled res = st"
      using spec_rest_eq [OF matched(2) [symmetric]] extends_fields [OF e] by auto
    obtain mk where mk: "mk \<in> set makers" "good_fill order now mk f"
      using f res(1) m(1) list_all2_fills unfolding matched_def by metis
    have "r \<notin> set rs"
    proof
      assume "r \<in> set rs"
      moreover have "mk \<in> set ds \<or> mk = hd rs \<and> rs \<noteq> []" using m(2) mk(1) by (auto simp: match_end_def)
      moreover have "in_priority (opposite_side (no_side order)) (ds @ rs)"
        using prio ps(1) q by (simp add: in_priority_append)
      ultimately have "\<not> better (opposite_side (no_side order)) (r_tick r) (r_tick mk)"
        by (cases rs) (auto simp: in_priority_append)
      with better mk(2) show False by (simp add: good_fill_def)
    qed
    then have "r \<in> set ps \<union> set ds" using r ps(1) q by auto
    with matched_full [OF m, of r] res ps(2) show ?thesis by auto
  qed (use f in auto)
qed

text \<open>
  C8: Price priority: when a submission trades at some price, every order that was live on that side
  at a strictly better price has been filled completely by the same submission, or was pruned because
  it had expired, or was cancelled because it belongs to the incoming owner.
\<close>

theorem better_prices_fill_first:
  assumes "book_reachable b" and "submittable b order" and "submit b order now = Some (res, b')"
    and "f \<in> set (sr_fills res)" and "slot b i = Some n" and "node_side n = opposite_side (no_side order)"
    and "better (opposite_side (no_side order)) (node_tick n) (fill_tick f)"
  shows "(\<exists>g \<in> set (sr_fills res). fill_maker_id g = i \<and> fill_maker_filled g) \<or>
     i \<in> set (sr_expired res) \<union> set (sr_self_trade_cancelled res)"
proof -
  obtain S S' where rel: "book_rel b S" and run: "spec_submit S order now = (res, S')"
    using reachable_submit [OF assms(1-3)] by metis
  have core: "book_core b S" using rel by (simp add: book_rel_def)
  from live_slot_queued [OF core assms(5)] obtain r where r: "r \<in> set (queue S (node_side n))" "r_id r = i"
    "node_is (node_side n) r n" by blast
  have "r_tick r = node_tick n" using r(3) by (simp add: node_is_def)
  with priority_spec [OF run assms(4) book_coreD(5) [OF core], of r] r(1,2) assms(6,7) show ?thesis by simp
qed

theorem better_prices_fill_first_witness:
  "\<exists>b res b' f n. book_reachable b \<and> submit b (gtc Long 105 10 3) 0 = Some (res, b') \<and>
     f \<in> set (sr_fills res) \<and> fill_tick f = 101 \<and> slot b 1 = Some n \<and> node_tick n = 100 \<and>
     ((\<exists>g \<in> set (sr_fills res). fill_maker_id g = 1 \<and> fill_maker_filled g) \<or>
      1 \<in> set (sr_expired res) \<union> set (sr_self_trade_cancelled res))"
proof -
  let ?o1 = "gtc Short 101 7 1" and ?o2 = "gtc Short 100 4 2" and ?o3 = "gtc Long 105 10 3"
  have t: "unat (no_tick ?o1) < tick_limit" "unat (no_tick ?o2) < tick_limit" "unat (no_tick ?o3) < tick_limit"
    by (simp_all add: gtc_def tick_limit_def)
  let ?S1 = "snd (spec_submit spec_new ?o1 0)" and ?S2 = "snd (spec_submit (snd (spec_submit spec_new ?o1 0)) ?o2 0)"
  from submit_sim [OF book_rel_new _ t(1), of 0] obtain b1 where
    b1: "submit book_new ?o1 0 = Some (fst (spec_submit spec_new ?o1 0), b1)" "book_rel b1 ?S1"
    by (auto simp: spec_new_def NIL_def)
  have n1: "sb_next ?S1 = 1" "sb_next ?S2 = 2" by (simp_all add: spec_eval)
  from submit_sim [OF b1(2) _ t(2), of 0] obtain b2 where
    b2: "submit b1 ?o2 0 = Some (fst (spec_submit ?S1 ?o2 0), b2)" "book_rel b2 ?S2"
    using n1 by (auto simp: NIL_def)
  from submit_sim [OF b2(2) _ t(3), of 0] obtain b3 where
    b3: "submit b2 ?o3 0 = Some (fst (spec_submit ?S2 ?o3 0), b3)" using n1 by (auto simp: NIL_def)
  have sub: "submittable book_new ?o1" "submittable b1 ?o2" "submittable b2 ?o3"
    using b1(2) b2(2) n1 t by (auto simp: submittable_def book_rel_def book_core_def NIL_def book_new_def)
  have reach: "book_reachable b2"
    using book_reachable.submitted [OF book_reachable.submitted [OF book_reachable.new sub(1) b1(1)] sub(2) b2(1)] .
  let ?f = "\<lparr>fill_maker_id = 0, fill_maker_owner = 1, fill_tick = 101, fill_qty = 6,
    fill_maker_filled = False, fill_maker_size_before = 7, fill_taker_size_before = 6\<rparr>"
  have f: "?f \<in> set (sr_fills (fst (spec_submit ?S2 ?o3 0)))" by (simp add: spec_eval)
  have q: "queue ?S2 Short = [\<lparr>r_id = 1, r_tick = 100, r_qty = 4, r_owner = 2, r_expiry = None\<rparr>,
      \<lparr>r_id = 0, r_tick = 101, r_qty = 7, r_owner = 1, r_expiry = None\<rparr>]" by (simp add: spec_eval)
  have core: "book_core b2 ?S2" using b2(2) by (simp add: book_rel_def)
  have "live_as (arena b2) Short \<lparr>r_id = 1, r_tick = 100, r_qty = 4, r_owner = 2, r_expiry = None\<rparr>"
    by (rule book_coreD(3) [OF core]) (simp add: q)
  then obtain n where n: "slot b2 1 = Some n" "node_side n = Short" "node_tick n = 100"
    by (auto simp: live_as_def slot_eq_Some_iff node_is_def)
  have "node_side n = opposite_side (no_side ?o3)"
    "better (opposite_side (no_side ?o3)) (node_tick n) (fill_tick ?f)"
    using n by (simp_all add: gtc_def opposite_side_def better_def)
  from better_prices_fill_first [OF reach sub(3) b3 f n(1) this] reach b3 f n show ?thesis
    by (intro exI [of _ b2] exI [of _ "fst (spec_submit ?S2 ?o3 0)"] exI [of _ b3] exI [of _ ?f] exI [of _ n]) simp
qed

section \<open>Conservation\<close>

lemma taker_quantity_spec:
  assumes run: "spec_submit S order now = (res, S')"
  shows "sum_fills (sr_fills res) + unat (sr_resting_qty res) \<le> unat (no_qty order) \<and>
     (no_tif order \<notin> {ImmediateOrCancel, FillOrKill} \<and> \<not> sr_post_only_rejected res \<longrightarrow>
      sum_fills (sr_fills res) + unat (sr_resting_qty res) = unat (no_qty order))"
proof -
  obtain q pruned where g: "guarded_queue S order now = (q, pruned)" by (meson surj_pair)
  from run g show ?thesis
  proof (cases rule: spec_submit_cases)
    case (matched q' ids qty res1)
    from spec_match_report [OF matched(1)] obtain fs ex st where
      e: "extends (SubmitResult_default\<lparr>sr_expired := pruned\<rparr>) res1 fs ex st"
      "sum_fills fs + unat qty = unat (no_qty order)" by blast
    with spec_rest_eq [OF matched(2) [symmetric]] extends_fields [OF e(1)] show ?thesis by auto
  qed auto
qed

text \<open>
  The incoming quantity is accounted for: what is filled and what rests never exceed it, and for
  a good-til-cancel or good-til-time order that is not rejected they add up to it exactly.
\<close>

theorem taker_quantity_conserved:
  assumes "book_reachable b" and "submittable b order" and "submit b order now = Some (res, b')"
  shows "sum_fills (sr_fills res) + unat (sr_resting_qty res) \<le> unat (no_qty order) \<and>
     (no_tif order \<notin> {ImmediateOrCancel, FillOrKill} \<and> \<not> sr_post_only_rejected res \<longrightarrow>
      sum_fills (sr_fills res) + unat (sr_resting_qty res) = unat (no_qty order))"
proof -
  obtain S S' where "spec_submit S order now = (res, S')"
    using reachable_submit [OF assms] by metis
  then show ?thesis by (rule taker_quantity_spec)
qed

theorem taker_quantity_conserved_witness:
  "\<exists>b res b'. book_reachable b \<and> submit b (gtc Long 105 10 2) 0 = Some (res, b') \<and>
     sum_fills (sr_fills res) = 7 \<and> sum_fills (sr_fills res) + unat (sr_resting_qty res) = 10"
proof -
  let ?o = "gtc Long 105 10 2"
  have "unat (no_tick (gtc Short 100 7 1)) < tick_limit" "unat (no_tick ?o) < tick_limit"
    by (simp_all add: gtc_def tick_limit_def)
  then obtain b1 b2 where b: "book_reachable b1" "submittable b1 ?o"
    "submit b1 ?o 0 = Some (fst (spec_submit (snd (spec_submit spec_new (gtc Short 100 7 1) 0)) ?o 0), b2)"
    using second_submit by metis
  have r: "sum_fills (sr_fills (fst (spec_submit (snd (spec_submit spec_new (gtc Short 100 7 1) 0)) ?o 0))) = 7"
    "\<not> sr_post_only_rejected (fst (spec_submit (snd (spec_submit spec_new (gtc Short 100 7 1) 0)) ?o 0))"
    by (simp_all add: spec_eval sum_fills_def)
  have "no_tif ?o = GoodTilCancel" "unat (no_qty ?o) = 10" by (simp_all add: gtc_def)
  with taker_quantity_conserved [OF b] b r show ?thesis by auto
qed

text \<open>The quantity resting on one side, read off the arena.\<close>

definition live_qty :: "OrderBook \<Rightarrow> Side \<Rightarrow> nat" where
  "live_qty b s = sum_list (map (\<lambda>x. case x of
     Some n \<Rightarrow> if node_side n = s then unat (node_qty n) else 0 | None \<Rightarrow> 0) (arena b))"

definition slot_qty :: "OrderBook \<Rightarrow> OrderId \<Rightarrow> nat" where
  "slot_qty b i = (case slot b i of Some n \<Rightarrow> unat (node_qty n) | None \<Rightarrow> 0)"

lemma slot_qty_queued: "book_core b S \<Longrightarrow> r \<in> set (queue S s) \<Longrightarrow> slot_qty b (r_id r) = unat (r_qty r)"
  using book_coreD(3) [of b S r s] by (auto simp: slot_qty_def live_as_def node_is_def slot_def vec_simps)

lemma live_qty_queue: "book_core b S \<Longrightarrow> live_qty b s = resting_sum (queue S s)"
  unfolding live_qty_def resting_sum_def by (rule arena_sum_queue) (auto simp: node_is_def)

lemma resting_sum_insert: "resting_sum (spec_insert s r q) = unat (r_qty r) + resting_sum q"
proof -
  have "resting_sum q = resting_sum (takeWhile P q) + resting_sum (dropWhile P q)" for P
    by (metis resting_sum_simps(3) takeWhile_dropWhile_id)
  then show ?thesis by (simp add: spec_insert_def)
qed

lemma resting_sum_dropped:
  "resting_sum (filter (\<lambda>r. \<not> eligible order now r) ds) =
     resting_sum (filter (\<lambda>r. is_expired (r_expiry r) now) ds) +
     resting_sum (filter (\<lambda>r. \<not> is_expired (r_expiry r) now \<and> r_owner r = no_owner order) ds)"
  by (induction ds) auto

lemma slot_qty_sum:
  "book_core b S \<Longrightarrow> set xs \<subseteq> set (queue S s) \<Longrightarrow>
     sum_list (map (slot_qty b) (map r_id xs)) = resting_sum xs"
  by (induction xs) (auto simp: slot_qty_queued)

lemma conserved_spec:
  assumes run: "spec_submit S order now = (res, S')" and core: "book_core b S"
  shows "resting_sum (queue S' (opposite_side (no_side order))) + sum_fills (sr_fills res) +
      sum_list (map (slot_qty b) (sr_expired res @ sr_self_trade_cancelled res)) =
      resting_sum (queue S (opposite_side (no_side order)))"
    and "resting_sum (queue S' (no_side order)) =
      resting_sum (queue S (no_side order)) + unat (sr_resting_qty res)"
proof -
  let ?opp = "opposite_side (no_side order)"
  obtain q pruned where g: "guarded_queue S order now = (q, pruned)" by (meson surj_pair)
  from guarded_queue_split [OF g] obtain ps where ps: "queue S ?opp = ps @ q" "pruned = map r_id ps" by blast
  have pq: "sum_list (map (slot_qty b) pruned) = resting_sum ps"
    unfolding ps(2) by (rule slot_qty_sum [OF core, of _ ?opp]) (use ps(1) in auto)
  have "(resting_sum (queue S' ?opp) + sum_fills (sr_fills res) +
      sum_list (map (slot_qty b) (sr_expired res @ sr_self_trade_cancelled res)) = resting_sum (queue S ?opp)) \<and>
     resting_sum (queue S' (no_side order)) = resting_sum (queue S (no_side order)) + unat (sr_resting_qty res)"
    using run g
  proof (cases rule: spec_submit_cases)
    case (matched q' ids qty res1)
    from spec_match_report [OF matched(1)] obtain ds rs makers fs ex st where q: "q = ds @ rs"
      and e: "extends (SubmitResult_default\<lparr>sr_expired := pruned\<rparr>) res1 fs ex st"
      and m: "matched order now ds makers fs ex st"
      and s: "sum_fills fs + resting_sum q' = resting_sum (filter (eligible order now) ds) + resting_sum rs"
      by blast
    have sub: "set (filter P ds) \<subseteq> set (queue S ?opp)" for P using ps(1) q by auto
    have "sum_list (map (slot_qty b) ex) + sum_list (map (slot_qty b) st) =
        resting_sum (filter (\<lambda>r. \<not> eligible order now r) ds)"
      using m slot_qty_sum [OF core sub] unfolding matched_def resting_sum_dropped by simp
    moreover have res: "sr_fills res = fs" "sr_expired res = pruned @ ex" "sr_self_trade_cancelled res = st"
      using spec_rest_eq [OF matched(2) [symmetric]] extends_fields [OF e] by auto
    moreover have "queue S' ?opp = q' \<and> resting_sum (queue S' (no_side order)) =
        resting_sum (queue S (no_side order)) + unat (sr_resting_qty res)"
      using spec_rest_eq [OF matched(2) [symmetric]] extends_fields [OF e]
      by (auto simp: queue_spec_alloc resting_sum_insert)
    ultimately show ?thesis
      using s pq ps(1) q resting_sum_partition [of ds "eligible order now"] by simp
  qed (use pq ps(1) in simp_all)
  then show "resting_sum (queue S' ?opp) + sum_fills (sr_fills res) +
      sum_list (map (slot_qty b) (sr_expired res @ sr_self_trade_cancelled res)) = resting_sum (queue S ?opp)"
    and "resting_sum (queue S' (no_side order)) =
      resting_sum (queue S (no_side order)) + unat (sr_resting_qty res)" by blast+
qed

text \<open>
  C13: No resting quantity appears or disappears: on the opposite side, what rests afterwards plus what
  was filled plus what the pruned and self-trade-cancelled orders held is what rested before; on the
  own side, exactly the reported remainder is added.
\<close>

theorem resting_quantity_conserved:
  assumes "book_reachable b" and "submittable b order" and "submit b order now = Some (res, b')"
  shows "live_qty b' (opposite_side (no_side order)) + sum_fills (sr_fills res) +
      sum_list (map (slot_qty b) (sr_expired res @ sr_self_trade_cancelled res)) =
      live_qty b (opposite_side (no_side order)) \<and>
     live_qty b' (no_side order) = live_qty b (no_side order) + unat (sr_resting_qty res)"
proof -
  obtain S S' where rel: "book_rel b S" "book_rel b' S'" and run: "spec_submit S order now = (res, S')"
    using reachable_submit [OF assms] by metis
  have core: "book_core b S" "book_core b' S'" using rel by (simp_all add: book_rel_def)
  from conserved_spec [OF run core(1)] show ?thesis by (simp add: live_qty_queue [OF core(1)] live_qty_queue [OF core(2)])
qed

theorem resting_quantity_conserved_witness:
  "\<exists>b res b'. book_reachable b \<and> submit b (gtc Long 105 10 2) 0 = Some (res, b') \<and>
     live_qty b Short = live_qty b' Short + 7 \<and> live_qty b' Long = live_qty b Long + 3"
proof -
  let ?o = "gtc Long 105 10 2"
  have "unat (no_tick (gtc Short 100 7 1)) < tick_limit" "unat (no_tick ?o) < tick_limit"
    by (simp_all add: gtc_def tick_limit_def)
  then obtain b1 b2 where b: "book_reachable b1" "submittable b1 ?o"
    "submit b1 ?o 0 = Some (fst (spec_submit (snd (spec_submit spec_new (gtc Short 100 7 1) 0)) ?o 0), b2)"
    using second_submit by metis
  let ?r = "fst (spec_submit (snd (spec_submit spec_new (gtc Short 100 7 1) 0)) ?o 0)"
  have r: "sum_fills (sr_fills ?r) = 7" "sr_expired ?r = []" "sr_self_trade_cancelled ?r = []"
    "unat (sr_resting_qty ?r) = 3" by (simp_all add: spec_eval sum_fills_def)
  have "no_side ?o = Long" "opposite_side (no_side ?o) = Short" by (simp_all add: gtc_def opposite_side_def)
  with resting_quantity_conserved [OF b] b r show ?thesis by auto
qed

section \<open>The spread and cancellation\<close>

text \<open>
  C17: The book is never crossed or locked: in every reachable book the best bid is strictly below
  the best ask.
\<close>

theorem book_never_crossed:
  assumes "book_reachable b" and "best_bid b = Some x" and "best_ask b = Some y"
  shows "x < y"
proof -
  from reachable_rel [OF assms(1)] obtain S where S: "book_rel b S" "uncrossed_spec S" by blast
  have "best b Long = spec_best (sb_bids S)" "best b Short = spec_best (sb_asks S)"
    using S(1) by (simp_all add: book_rel_def queue_def)
  with assms(2,3) S(2) show ?thesis
    by (auto simp: best_def spec_best_def uncrossed_spec_def split: list.splits)
qed

theorem book_never_crossed_witness:
  "\<exists>b. book_reachable b \<and> best_bid b = Some 99 \<and> best_ask b = Some 100 \<and> (99 :: Tick) < 100"
proof -
  let ?o1 = "gtc Short 100 7 1" and ?o2 = "gtc Long 99 10 2"
  have t: "unat (no_tick ?o1) < tick_limit" "unat (no_tick ?o2) < tick_limit"
    by (simp_all add: gtc_def tick_limit_def)
  obtain b1 b2 where b: "book_reachable b1" "submittable b1 ?o2"
    "submit b1 ?o2 0 = Some (fst (spec_submit (snd (spec_submit spec_new ?o1 0)) ?o2 0), b2)"
    "submit book_new ?o1 0 = Some (fst (spec_submit spec_new ?o1 0), b1)"
    using second_submit [OF t] by metis
  have reach: "book_reachable b2" by (rule book_reachable.submitted [OF b(1,2,3)])
  from submit_sim [OF book_rel_new _ t(1), of 0] b(4) have r1: "book_rel b1 (snd (spec_submit spec_new ?o1 0))"
    by (auto simp: spec_new_def NIL_def)
  have "sb_next (snd (spec_submit spec_new ?o1 0)) < NIL" by (simp add: spec_eval NIL_def)
  with submit_sim [OF r1 _ t(2), of 0] b(3)
  have "book_rel b2 (snd (spec_submit (snd (spec_submit spec_new ?o1 0)) ?o2 0))" by auto
  then have "best b2 s = spec_best (queue (snd (spec_submit (snd (spec_submit spec_new ?o1 0)) ?o2 0)) s)" for s
    by (simp add: book_rel_def)
  from this [of Long] this [of Short] have top: "best_bid b2 = Some 99" "best_ask b2 = Some 100"
    by (simp_all add: spec_eval best_def spec_best_def)
  from book_never_crossed [OF reach top] reach top show ?thesis by blast
qed

lemma dead_after_remove:
  assumes "book_core b (spec_remove S s i)"
  shows "owner_of b i = None"
proof -
  have "i \<in> set (free b)" using assms by (simp add: book_core_def)
  then have "i < length (arena b) \<and> arena b ! i = None"
    using assms unfolding book_core_def arena_core_def by blast
  then show ?thesis by (simp add: owner_of_def)
qed

text \<open>
  Resting and cancelling are inverse: when a submission reports a resting id, that id belongs to
  the order's owner, cancelling it succeeds and returns the order's price and exactly the reported
  resting quantity, and afterwards the id is dead.
\<close>

theorem rest_cancel_round_trip:
  assumes "book_reachable b" and "submittable b order" and "submit b order now = Some (res, b')"
    and "sr_resting_id res = Some i"
  shows "owner_of b' i = Some (no_owner order) \<and>
     (\<exists>b''. cancel b' i = Some (Some (no_tick order, sr_resting_qty res), b'') \<and> owner_of b'' i = None)"
proof -
  obtain S S' where rel: "book_rel b S" "book_rel b' S'" and run: "spec_submit S order now = (res, S')"
    using reachable_submit [OF assms(1-3)] by metis
  have core: "book_core b' S'" using rel by (simp add: book_rel_def)
  obtain q pruned where g: "guarded_queue S order now = (q, pruned)" by (meson surj_pair)
  from run g obtain r where r: "r \<in> set (queue S' (no_side order))" "r_id r = i" "r_owner r = no_owner order"
    "r_tick r = no_tick order" "r_qty r = sr_resting_qty res"
  proof (cases rule: spec_submit_cases)
    case (matched q' ids qty res1)
    from spec_match_report [OF matched(1)] extends_fields have "sr_resting_id res1 = None" by force
    with spec_rest_eq [OF matched(2) [symmetric]] assms(4) obtain r S1 where
      "r_tick r = no_tick order" "r_qty r = qty" "r_id r = i" "r_owner r = no_owner order"
      "sr_resting_qty res = qty"
      "S' = queue_put S1 (no_side order) (spec_insert (no_side order) r (queue S1 (no_side order)))" by auto
    then show ?thesis by (intro that [of r]) simp_all
  qed (use assms(4) in auto)
  have "owner_of b' i = Some (no_owner order)"
    using book_coreD(3) [OF core r(1)] r(2,3) by (auto simp: live_as_def node_is_def owner_of_def)
  moreover from cancel_sim [OF rel(2), of i] obtain b'' where
    "cancel b' i = Some (Some (no_tick order, sr_resting_qty res), b'')"
    "book_rel b'' (spec_remove S' (no_side order) i)"
    using spec_cancel_live [OF core r(1)] r(2,4,5) by auto
  ultimately show ?thesis using dead_after_remove by (auto simp: book_rel_def)
qed

theorem rest_cancel_round_trip_witness:
  "\<exists>b' b''. submit book_new (gtc Short 100 7 1) 0 =
       Some (SubmitResult_default\<lparr>sr_resting_id := Some 0, sr_resting_qty := 7\<rparr>, b') \<and>
     owner_of b' 0 = Some 1 \<and> cancel b' 0 = Some (Some (100, 7), b'') \<and> owner_of b'' 0 = None"
proof -
  let ?o = "gtc Short 100 7 1"
  have t: "unat (no_tick ?o) < tick_limit" by (simp add: gtc_def tick_limit_def)
  from submit_new [OF t, of 0] obtain b' where b': "submit book_new ?o 0 =
      Some (SubmitResult_default\<lparr>sr_resting_id := Some 0, sr_resting_qty := 7\<rparr>, b')"
    by (auto simp: spec_eval)
  from rest_cancel_round_trip [OF book_reachable.new new_submittable [OF t] b', of 0] b' show ?thesis
    by (auto simp: gtc_def)
qed

end
