(* ===== verification/Btree.thy ===== *)
theory Btree
  imports Prelude
begin

text \<open>
  \<open>std::collections::BTreeMap\<close> as the sources use it: an association list in strictly ascending key
  order, so that iteration and \<open>keys().next()\<close> follow the key order, with \<open>get\<close>, \<open>insert\<close>, \<open>remove\<close>
  and the \<open>entry(k).or_default().push_back(x)\<close> idiom on maps of queues.  \<open>Reverse\<close> is
  \<open>std::cmp::Reverse\<close>.  The locale \<open>ordered_map\<close> is what the order books rely on.
\<close>

section \<open>Keys in reverse order\<close>

datatype 'a Reverse = Reverse (unreverse: 'a)

instantiation Reverse :: (linorder) linorder
begin

definition less_eq_Reverse :: "'a Reverse \<Rightarrow> 'a Reverse \<Rightarrow> bool" where
  "less_eq_Reverse x y \<longleftrightarrow> unreverse y \<le> unreverse x"

definition less_Reverse :: "'a Reverse \<Rightarrow> 'a Reverse \<Rightarrow> bool" where
  "less_Reverse x y \<longleftrightarrow> unreverse y < unreverse x"

instance
  by standard (auto simp: less_eq_Reverse_def less_Reverse_def intro: Reverse.expand)

end

section \<open>The map\<close>

definition bt_inv :: "('k :: linorder \<times> 'v) list \<Rightarrow> bool" where
  "bt_inv m \<longleftrightarrow> sorted_wrt (<) (map fst m)"

definition bt_get :: "('k :: linorder \<times> 'v) list \<Rightarrow> 'k \<Rightarrow> 'v option" where
  "bt_get m k = map_of m k"

fun bt_insert :: "'k :: linorder \<Rightarrow> 'v \<Rightarrow> ('k \<times> 'v) list \<Rightarrow> ('k \<times> 'v) list" where
  "bt_insert k v [] = [(k, v)]"
| "bt_insert k v ((a, w) # m) =
     (if k < a then (k, v) # (a, w) # m
      else if k = a then (k, v) # m
      else (a, w) # bt_insert k v m)"

definition bt_remove :: "'k :: linorder \<Rightarrow> ('k \<times> 'v) list \<Rightarrow> ('k \<times> 'v) list" where
  "bt_remove k m = filter (\<lambda>e. fst e \<noteq> k) m"

definition bt_push :: "'k :: linorder \<Rightarrow> 'a \<Rightarrow> ('k \<times> 'a list) list \<Rightarrow> ('k \<times> 'a list) list" where
  "bt_push k x m = bt_insert k ((case bt_get m k of None \<Rightarrow> [] | Some q \<Rightarrow> q) @ [x]) m"

lemma keys_bt_insert: "set (map fst (bt_insert k v m)) = insert k (set (map fst m))"
  by (induction k v m rule: bt_insert.induct) auto

lemma bt_inv_Cons [simp]: "bt_inv ((k, v) # m) \<longleftrightarrow> (\<forall>k' \<in> set (map fst m). k < k') \<and> bt_inv m"
  by (auto simp: bt_inv_def)

lemma bt_inv_Nil [simp]: "bt_inv []"
  by (simp add: bt_inv_def)

lemma bt_inv_insert: "bt_inv m \<Longrightarrow> bt_inv (bt_insert k v m)"
proof (induction k v m rule: bt_insert.induct)
  case (2 k v a w m)
  then show ?case using keys_bt_insert [of k v m] by auto
qed simp

lemma bt_inv_remove: "bt_inv m \<Longrightarrow> bt_inv (bt_remove k m)"
  by (induction m) (auto simp: bt_remove_def)

lemma bt_get_insert: "bt_inv m \<Longrightarrow> bt_get (bt_insert k v m) k' = (if k' = k then Some v else bt_get m k')"
  by (induction k v m rule: bt_insert.induct) (auto simp: bt_get_def)

lemma bt_get_remove: "bt_get (bt_remove k m) k' = (if k' = k then None else bt_get m k')"
  by (induction m) (auto simp: bt_remove_def bt_get_def)

lemma bt_inv_distinct: "bt_inv m \<Longrightarrow> distinct (map fst m)"
  by (induction m) force+

lemma bt_get_iff: "bt_inv m \<Longrightarrow> bt_get m k = Some v \<longleftrightarrow> (k, v) \<in> set m"
  using bt_inv_distinct [of m] by (simp add: bt_get_def)

text \<open>Where an update happens in the list of entries.\<close>

lemma bt_at_key:
  assumes "bt_inv m" and "bt_get m k = Some v"
  obtains m1 m2 where "m = m1 @ (k, v) # m2" and "\<And>w. bt_insert k w m = m1 @ (k, w) # m2"
    and "bt_remove k m = m1 @ m2"
  using assms
proof (induction m arbitrary: thesis)
  case (Cons e m)
  obtain a w where e: "e = (a, w)" by (cases e)
  show ?case
  proof (cases "k = a")
    case True
    then have "bt_remove k m = m" using Cons.prems(2) e by (auto simp: bt_remove_def filter_id_conv)
    then show ?thesis using True Cons.prems e by (intro Cons.prems(1) [of "[]" m]) (auto simp: bt_get_def bt_remove_def)
  next
    case False
    then have g: "bt_get m k = Some v" using Cons.prems(3) e by (simp add: bt_get_def)
    then have "k \<in> set (map fst m)" by (auto simp: bt_get_def dest: map_of_SomeD intro: rev_image_eqI)
    then have less: "a < k" using Cons.prems(2) e by auto
    obtain m1 m2 where "m = m1 @ (k, v) # m2" "\<And>w. bt_insert k w m = m1 @ (k, w) # m2"
      "bt_remove k m = m1 @ m2" using Cons.IH [OF _ _ g] Cons.prems(2) e by auto
    then show ?thesis using False less e
      by (intro Cons.prems(1) [of "(a, w) # m1" m2]) (auto simp: bt_remove_def)
  qed
qed (simp add: bt_get_def)

lemma bt_new_key:
  assumes "bt_get m k = None"
  obtains m1 m2 where "m = m1 @ m2" and "\<And>w. bt_insert k w m = m1 @ (k, w) # m2"
  using assms
proof (induction m arbitrary: thesis)
  case (Cons e m)
  obtain a w where e: "e = (a, w)" by (cases e)
  show ?case
  proof (cases "k < a")
    case True
    then show ?thesis using e by (intro Cons.prems(1) [of "[]" "e # m"]) auto
  next
    case False
    have ne: "k \<noteq> a" "bt_get m k = None" using Cons.prems(2) e by (auto simp: bt_get_def split: if_splits)
    obtain m1 m2 where "m = m1 @ m2" "\<And>w. bt_insert k w m = m1 @ (k, w) # m2"
      using Cons.IH [OF _ ne(2)] by blast
    then show ?thesis using False ne e by (intro Cons.prems(1) [of "(a, w) # m1" m2]) auto
  qed
qed (use assms in auto)

section \<open>The contract of an ordered map\<close>

locale ordered_map =
  fixes valid :: "'m \<Rightarrow> bool"
    and entries :: "'m \<Rightarrow> ('k :: linorder \<times> 'v) list"
    and lookup :: "'m \<Rightarrow> 'k \<Rightarrow> 'v option"
    and put :: "'k \<Rightarrow> 'v \<Rightarrow> 'm \<Rightarrow> 'm"
    and del :: "'k \<Rightarrow> 'm \<Rightarrow> 'm"
  assumes entries_ascending: "valid m \<Longrightarrow> sorted_wrt (<) (map fst (entries m))"
    and lookup_law: "valid m \<Longrightarrow> lookup m k = map_of (entries m) k"
    and put_law: "valid m \<Longrightarrow> valid (put k v m) \<and> lookup (put k v m) = (lookup m)(k := Some v)"
    and del_law: "valid m \<Longrightarrow> valid (del k m) \<and> lookup (del k m) = (lookup m)(k := None)"
begin

lemma first_entry_least:
  assumes "valid m" and "entries m = (k, v) # rest" and "lookup m k' = Some w"
  shows "k \<le> k'"
proof -
  have "k' \<in> insert k (fst ` set rest)"
    using assms lookup_law [OF assms(1)] by (auto dest: map_of_SomeD split: if_splits intro: rev_image_eqI)
  with entries_ascending [OF assms(1)] assms(2) show ?thesis by (auto intro: less_imp_le)
qed

lemma put_del: "valid m \<Longrightarrow> lookup m k = None \<Longrightarrow> lookup (del k (put k v m)) = lookup m"
  using put_law [of m k v] del_law [of "put k v m" k] by auto

end

interpretation btree: ordered_map bt_inv "\<lambda>m. m" bt_get bt_insert bt_remove
proof unfold_locales
  fix m :: "('a \<times> 'b) list" and k v
  assume m: "bt_inv m"
  show "sorted_wrt (<) (map fst m)" using m by (simp add: bt_inv_def)
  show "bt_get m k = map_of m k" by (simp add: bt_get_def)
  show "bt_inv (bt_insert k v m) \<and> bt_get (bt_insert k v m) = (bt_get m)(k := Some v)"
    using m by (simp add: bt_inv_insert bt_get_insert fun_eq_iff)
  show "bt_inv (bt_remove k m) \<and> bt_get (bt_remove k m) = (bt_get m)(k := None)"
    using m by (simp add: bt_inv_remove bt_get_remove fun_eq_iff)
qed

section \<open>Maps of queues\<close>

definition flat :: "('k \<times> 'a list) list \<Rightarrow> 'a list" where
  "flat m = concat (map snd m)"

lemma flat_simps [simp]: "flat [] = []" "flat ((k, q) # m) = q @ flat m" "flat (m1 @ m2) = flat m1 @ flat m2"
  by (simp_all add: flat_def)

lemma in_flat_iff: "bt_inv m \<Longrightarrow> x \<in> set (flat m) \<longleftrightarrow> (\<exists>k q. bt_get m k = Some q \<and> x \<in> set q)"
  by (force simp: flat_def bt_get_iff)

lemma mset_flat_push:
  assumes "bt_inv m"
  shows "\<exists>xs ys. flat m = xs @ ys \<and> flat (bt_push k x m) = xs @ x # ys"
proof (cases "bt_get m k")
  case None
  then obtain m1 m2 where "m = m1 @ m2" "\<And>w. bt_insert k w m = m1 @ (k, w) # m2"
    using bt_new_key by metis
  then show ?thesis using None by (intro exI [of _ "flat m1"] exI [of _ "flat m2"]) (simp add: bt_push_def)
next
  case (Some q)
  then obtain m1 m2 where "m = m1 @ (k, q) # m2" "\<And>w. bt_insert k w m = m1 @ (k, w) # m2"
    using bt_at_key [OF assms] by metis
  then show ?thesis using Some
    by (intro exI [of _ "flat m1 @ q"] exI [of _ "flat m2"]) (simp add: bt_push_def)
qed

end
