(* ===== verification/Clob.thy ===== *)
theory Clob
  imports Btree Common_Types
begin

text \<open>
  The public central limit order book, \<open>crates/clob/src/lib.rs\<close>: two \<open>BTreeMap\<close>s of FIFO queues,
  bids under \<open>Reverse\<close>d keys, and an id index.  A price is a \<open>U256\<close>, of which the code only uses the
  order and the test for zero; sizes are \<open>i128\<close> and quantities \<open>u128\<close>.  The two sweeps of the source
  are one loop with the stopping test, the key's price and the trade's two ids as parameters; a
  level's queue is consumed from the front until it is empty or nothing remains, so the outer loop
  goes on to the next level exactly when the level has been emptied.
\<close>

section \<open>Orders and trades\<close>

type_synonym OrderKey = u64
type_synonym Price = "256 word"

record Order =
  o_id :: OrderKey
  o_side :: Side
  o_price :: Price
  o_size :: int
  o_expiry_block :: u64
  o_signature :: "8 word list"

record MatchedTrade =
  mt_long_order_id :: OrderKey
  mt_short_order_id :: OrderKey
  mt_price :: Price
  mt_size :: int
  mt_premium :: "256 word"

record MatchResult =
  mr_trade :: MatchedTrade
  mr_maker_order_id :: OrderKey
  mr_maker_remaining :: int
  mr_taker_remaining :: int

datatype ClobError = OrderNotFound OrderKey | ZeroSize | ZeroPrice
  | SideSizeSignMismatch OrderKey Side int

record BookLocation =
  loc_side :: Side
  loc_price :: Price

definition quantity :: "Order \<Rightarrow> nat" where
  "quantity ord = nat \<bar>o_size ord\<bar>"

definition side_agrees_with_size :: "Side \<Rightarrow> int \<Rightarrow> bool" where
  "side_agrees_with_size side sz \<longleftrightarrow> sz \<noteq> 0 \<and> sgn sz = sign_multiplier side"

definition validate :: "Order \<Rightarrow> ClobError + unit" where
  "validate ord =
     (if o_size ord = 0 then Inl ZeroSize
      else if o_price ord = 0 then Inl ZeroPrice
      else if \<not> side_agrees_with_size (o_side ord) (o_size ord)
      then Inl (SideSizeSignMismatch (o_id ord) (o_side ord) (o_size ord))
      else Inr ())"

definition set_quantity :: "Order \<Rightarrow> nat \<Rightarrow> Order option" where
  "set_quantity ord q =
     (if q < 2 ^ 127 then Some (ord\<lparr>o_size := int q * sign_multiplier (o_side ord)\<rparr>) else None)"

section \<open>The book\<close>

record ClobBook =
  cb_asks :: "(Price \<times> Order list) list"
  cb_bids :: "(Price Reverse \<times> Order list) list"
  cb_index :: "OrderKey \<rightharpoonup> BookLocation"

definition clob_new :: ClobBook where
  "clob_new = \<lparr>cb_asks = [], cb_bids = [], cb_index = Map.empty\<rparr>"

definition clob_best_bid :: "ClobBook \<Rightarrow> Price option" where
  "clob_best_bid b = (case cb_bids b of [] \<Rightarrow> None | (k, _) # _ \<Rightarrow> Some (unreverse k))"

definition clob_best_ask :: "ClobBook \<Rightarrow> Price option" where
  "clob_best_ask b = (case cb_asks b of [] \<Rightarrow> None | (k, _) # _ \<Rightarrow> Some k)"

definition clob_contains :: "ClobBook \<Rightarrow> OrderKey \<Rightarrow> bool" where
  "clob_contains b i \<longleftrightarrow> cb_index b i \<noteq> None"

definition level_at :: "ClobBook \<Rightarrow> Side \<Rightarrow> Price \<Rightarrow> Order list option" where
  "level_at b side price =
     (case side of Long \<Rightarrow> bt_get (cb_bids b) (Reverse price) | Short \<Rightarrow> bt_get (cb_asks b) price)"

definition clob_order :: "ClobBook \<Rightarrow> OrderKey \<Rightarrow> Order option" where
  "clob_order b i = do {
     loc \<leftarrow> cb_index b i;
     level \<leftarrow> level_at b (loc_side loc) (loc_price loc);
     find (\<lambda>ord. o_id ord = i) level
   }"

definition order_ids_at :: "ClobBook \<Rightarrow> Side \<Rightarrow> Price \<Rightarrow> OrderKey list" where
  "order_ids_at b side price =
     (case level_at b side price of None \<Rightarrow> [] | Some q \<Rightarrow> map o_id q)"

section \<open>Matching\<close>

definition match_result :: "MatchedTrade \<Rightarrow> OrderKey \<Rightarrow> nat \<Rightarrow> nat \<Rightarrow> MatchResult" where
  "match_result trade maker_id maker_remaining taker_remaining =
     \<lparr>mr_trade = trade, mr_maker_order_id = maker_id,
      mr_maker_remaining = wrap_i128 (int maker_remaining),
      mr_taker_remaining = wrap_i128 (int taker_remaining)\<rparr>"

definition ask_trade :: "OrderKey \<Rightarrow> Price \<Rightarrow> OrderKey \<Rightarrow> nat \<Rightarrow> MatchedTrade" where
  "ask_trade taker_id level_price maker_id fill =
     \<lparr>mt_long_order_id = taker_id, mt_short_order_id = maker_id, mt_price = level_price,
      mt_size = wrap_i128 (int fill), mt_premium = 0\<rparr>"

definition bid_trade :: "OrderKey \<Rightarrow> Price \<Rightarrow> OrderKey \<Rightarrow> nat \<Rightarrow> MatchedTrade" where
  "bid_trade taker_id level_price maker_id fill =
     \<lparr>mt_long_order_id = maker_id, mt_short_order_id = taker_id, mt_price = level_price,
      mt_size = wrap_i128 (int fill), mt_premium = 0\<rparr>"

type_synonym OrderIndex = "OrderKey \<rightharpoonup> BookLocation"

fun fill_level :: "(OrderKey \<Rightarrow> nat \<Rightarrow> MatchedTrade) \<Rightarrow> Order list \<Rightarrow> OrderIndex \<Rightarrow> nat \<Rightarrow> MatchResult list \<Rightarrow>
    (Order list \<times> OrderIndex \<times> nat \<times> MatchResult list) option" where
  "fill_level trade [] index remaining results = Some ([], index, remaining, results)"
| "fill_level trade (maker # level) index remaining results =
     (if remaining = 0 then Some (maker # level, index, remaining, results)
      else
        let fill = min (quantity maker) remaining;
            maker_remaining = quantity maker - fill;
            remaining' = remaining - fill;
            results' = results @
              [match_result (trade (o_id maker) fill) (o_id maker) maker_remaining remaining'] in
        if maker_remaining = 0
        then fill_level trade level (index(o_id maker := None)) remaining' results'
        else do {
          maker' \<leftarrow> set_quantity maker maker_remaining;
          Some (maker' # level, index, remaining', results')
        })"

fun sweep :: "('k \<Rightarrow> bool) \<Rightarrow> ('k \<Rightarrow> OrderKey \<Rightarrow> nat \<Rightarrow> MatchedTrade) \<Rightarrow> ('k \<times> Order list) list \<Rightarrow> OrderIndex \<Rightarrow>
    nat \<Rightarrow> MatchResult list \<Rightarrow> (('k \<times> Order list) list \<times> OrderIndex \<times> nat \<times> MatchResult list) option" where
  "sweep stop trade [] index remaining results = Some ([], index, remaining, results)"
| "sweep stop trade ((k, level) # rest) index remaining results =
     (if remaining = 0 \<or> stop k then Some ((k, level) # rest, index, remaining, results)
      else do {
        (level', index', remaining', results') \<leftarrow> fill_level (trade k) level index remaining results;
        if level' = [] then sweep stop trade rest index' remaining' results'
        else Some ((k, level') # rest, index', remaining', results')
      })"

definition match_against_asks :: "ClobBook \<Rightarrow> OrderKey \<Rightarrow> Price \<Rightarrow> nat \<Rightarrow> MatchResult list \<Rightarrow>
    (ClobBook \<times> nat \<times> MatchResult list) option" where
  "match_against_asks b taker_id limit remaining results = do {
     (asks, index, remaining', results') \<leftarrow>
       sweep (\<lambda>level_price. limit < level_price) (ask_trade taker_id)
         (cb_asks b) (cb_index b) remaining results;
     Some (b\<lparr>cb_asks := asks, cb_index := index\<rparr>, remaining', results')
   }"

definition match_against_bids :: "ClobBook \<Rightarrow> OrderKey \<Rightarrow> Price \<Rightarrow> nat \<Rightarrow> MatchResult list \<Rightarrow>
    (ClobBook \<times> nat \<times> MatchResult list) option" where
  "match_against_bids b taker_id limit remaining results = do {
     (bids, index, remaining', results') \<leftarrow>
       sweep (\<lambda>k. unreverse k < limit) (\<lambda>k. bid_trade taker_id (unreverse k))
         (cb_bids b) (cb_index b) remaining results;
     Some (b\<lparr>cb_bids := bids, cb_index := index\<rparr>, remaining', results')
   }"

definition push_level :: "ClobBook \<Rightarrow> Order \<Rightarrow> ClobBook" where
  "push_level b ord =
     (case o_side ord of
        Long \<Rightarrow> b\<lparr>cb_bids := bt_push (Reverse (o_price ord)) ord (cb_bids b)\<rparr>
      | Short \<Rightarrow> b\<lparr>cb_asks := bt_push (o_price ord) ord (cb_asks b)\<rparr>)"

definition insert_resting :: "ClobBook \<Rightarrow> Order \<Rightarrow> nat \<Rightarrow> ClobBook option" where
  "insert_resting b ord remaining = do {
     ord' \<leftarrow> set_quantity ord remaining;
     let b' = push_level b ord';
     Some (b'\<lparr>cb_index := (cb_index b')(o_id ord' \<mapsto> \<lparr>loc_side = o_side ord', loc_price = o_price ord'\<rparr>)\<rparr>)
   }"

definition process_order :: "ClobBook \<Rightarrow> Order \<Rightarrow> (MatchResult list \<times> ClobBook) option" where
  "process_order b ord =
     (if validate ord \<noteq> Inr () \<or> clob_contains b (o_id ord) then Some ([], b)
      else do {
        (b1, remaining, results) \<leftarrow>
          (case o_side ord of
             Long \<Rightarrow> match_against_asks b (o_id ord) (o_price ord) (quantity ord) []
           | Short \<Rightarrow> match_against_bids b (o_id ord) (o_price ord) (quantity ord) []);
        b2 \<leftarrow> (if 0 < remaining then insert_resting b1 ord remaining else Some b1);
        Some (results, b2)
      })"

section \<open>Cancellation, modification and recycling\<close>

text \<open>Removing an order from the queue of its level, and the level when it empties.\<close>

definition level_remove :: "'k :: linorder \<Rightarrow> OrderKey \<Rightarrow> ('k \<times> Order list) list \<Rightarrow>
    (Order \<times> ('k \<times> Order list) list) option" where
  "level_remove k i m = do {
     level \<leftarrow> bt_get m k;
     removed \<leftarrow> find (\<lambda>ord. o_id ord = i) level;
     let level' = takeWhile (\<lambda>ord. o_id ord \<noteq> i) level @ tl (dropWhile (\<lambda>ord. o_id ord \<noteq> i) level);
     Some (removed, if level' = [] then bt_remove k m else bt_insert k level' m)
   }"

definition remove_from_level :: "ClobBook \<Rightarrow> BookLocation \<Rightarrow> OrderKey \<Rightarrow> (Order \<times> ClobBook) option" where
  "remove_from_level b loc i =
     (case loc_side loc of
        Long \<Rightarrow> do { (ord, m) \<leftarrow> level_remove (Reverse (loc_price loc)) i (cb_bids b);
                     Some (ord, b\<lparr>cb_bids := m\<rparr>) }
      | Short \<Rightarrow> do { (ord, m) \<leftarrow> level_remove (loc_price loc) i (cb_asks b);
                      Some (ord, b\<lparr>cb_asks := m\<rparr>) })"

definition cancel_order :: "ClobBook \<Rightarrow> OrderKey \<Rightarrow> ((ClobError + Order) \<times> ClobBook) option" where
  "cancel_order b i =
     (case cb_index b i of
        None \<Rightarrow> Some (Inl (OrderNotFound i), b)
      | Some loc \<Rightarrow> do {
          (ord, b') \<leftarrow> remove_from_level (b\<lparr>cb_index := (cb_index b)(i := None)\<rparr>) loc i;
          Some (Inr ord, b')
        })"

definition resize_in_level :: "'k :: linorder \<Rightarrow> OrderKey \<Rightarrow> int \<Rightarrow> ('k \<times> Order list) list \<Rightarrow>
    ('k \<times> Order list) list option" where
  "resize_in_level k i new_size m = do {
     level \<leftarrow> bt_get m k;
     found \<leftarrow> find (\<lambda>ord. o_id ord = i) level;
     Some (bt_insert k (takeWhile (\<lambda>ord. o_id ord \<noteq> i) level @ found\<lparr>o_size := new_size\<rparr> #
       tl (dropWhile (\<lambda>ord. o_id ord \<noteq> i) level)) m)
   }"

definition modify_order :: "ClobBook \<Rightarrow> OrderKey \<Rightarrow> Price \<Rightarrow> int \<Rightarrow> ((ClobError + unit) \<times> ClobBook) option" where
  "modify_order b i new_price new_size =
     (if new_size = 0 then Some (Inl ZeroSize, b)
      else if new_price = 0 then Some (Inl ZeroPrice, b)
      else case cb_index b i of
        None \<Rightarrow> Some (Inl (OrderNotFound i), b)
      | Some loc \<Rightarrow>
          if \<not> side_agrees_with_size (loc_side loc) new_size
          then Some (Inl (SideSizeSignMismatch i (loc_side loc) new_size), b)
          else if loc_price loc = new_price then
            (case loc_side loc of
               Long \<Rightarrow> do { m \<leftarrow> resize_in_level (Reverse new_price) i new_size (cb_bids b);
                            Some (Inr (), b\<lparr>cb_bids := m\<rparr>) }
             | Short \<Rightarrow> do { m \<leftarrow> resize_in_level new_price i new_size (cb_asks b);
                             Some (Inr (), b\<lparr>cb_asks := m\<rparr>) })
          else do {
            (ord, b1) \<leftarrow> remove_from_level b loc i;
            let ord' = ord\<lparr>o_price := new_price, o_size := new_size\<rparr>;
            let b2 = (case loc_side loc of
                Long \<Rightarrow> b1\<lparr>cb_bids := bt_push (Reverse new_price) ord' (cb_bids b1)\<rparr>
              | Short \<Rightarrow> b1\<lparr>cb_asks := bt_push new_price ord' (cb_asks b1)\<rparr>);
            Some (Inr (), b2\<lparr>cb_index := (cb_index b2)(i \<mapsto> loc\<lparr>loc_price := new_price\<rparr>)\<rparr>)
          })"

fun cancel_all :: "OrderKey list \<Rightarrow> ClobBook \<Rightarrow> ClobBook option" where
  "cancel_all [] b = Some b"
| "cancel_all (i # is) b = do { (_, b') \<leftarrow> cancel_order b i; cancel_all is b' }"

definition cleanup_expired :: "ClobBook \<Rightarrow> u64 \<Rightarrow> (OrderKey list \<times> ClobBook) option" where
  "cleanup_expired b current_block = do {
     let expired = map o_id (filter (\<lambda>ord. o_expiry_block ord \<le> current_block)
                     (flat (cb_asks b) @ flat (cb_bids b)));
     b' \<leftarrow> cancel_all expired b;
     Some (expired, b')
   }"

end
