(* ===== verification/Clob_Correct.thy ===== *)
theory Clob_Correct
  imports Clob "HOL-Library.Multiset"
begin

text \<open>
  Correctness of the public order book of \<open>crates/clob/src/lib.rs\<close>: the invariant that ties the two
  maps to the id index, the sweep as greedy consumption of one queue in price-time order, and the
  behaviour of every operation.
\<close>

section \<open>The invariant\<close>

definition order_ok :: "Side \<Rightarrow> Order \<Rightarrow> bool" where
  "order_ok s ord \<longleftrightarrow> o_side ord = s \<and> side_agrees_with_size s (o_size ord) \<and> in_i128 (o_size ord)"

definition side_ok :: "(Order \<Rightarrow> 'k :: linorder) \<Rightarrow> Side \<Rightarrow> ('k \<times> Order list) list \<Rightarrow> bool" where
  "side_ok key s m \<longleftrightarrow> bt_inv m \<and>
     (\<forall>(k, q) \<in> set m. q \<noteq> [] \<and> (\<forall>ord \<in> set q. key ord = k \<and> order_ok s ord))"

definition bid_key :: "Order \<Rightarrow> Price Reverse" where
  "bid_key ord = Reverse (o_price ord)"

definition live :: "ClobBook \<Rightarrow> Order list" where
  "live b = flat (cb_asks b) @ flat (cb_bids b)"

definition location :: "Order \<Rightarrow> BookLocation" where
  "location ord = \<lparr>loc_side = o_side ord, loc_price = o_price ord\<rparr>"

definition clob_ok :: "ClobBook \<Rightarrow> bool" where
  "clob_ok b \<longleftrightarrow> side_ok o_price Short (cb_asks b) \<and> side_ok bid_key Long (cb_bids b) \<and>
     distinct (map o_id (live b)) \<and>
     cb_index b = map_of (map (\<lambda>ord. (o_id ord, location ord)) (live b))"

lemma order_ok_quantity:
  assumes "order_ok s ord"
  shows "0 < quantity ord" and "quantity ord \<le> 2 ^ 127" and "s = Long \<Longrightarrow> quantity ord < 2 ^ 127"
    and "int (quantity ord) * sign_multiplier s = o_size ord"
  using assms
  by (cases s; auto simp: order_ok_def quantity_def side_agrees_with_size_def in_i128_def sgn_if split: if_splits)+

lemma validate_ok: "validate ord = Inr () \<Longrightarrow> in_i128 (o_size ord) \<Longrightarrow> order_ok (o_side ord) ord"
  by (auto simp: validate_def order_ok_def split: if_splits)

lemma side_ok_Cons:
  "side_ok key s ((k, q) # m) \<longleftrightarrow> (\<forall>k' \<in> set (map fst m). k < k') \<and> q \<noteq> [] \<and>
     (\<forall>ord \<in> set q. key ord = k \<and> order_ok s ord) \<and> side_ok key s m"
  by (auto simp: side_ok_def)

lemma side_ok_flat: "side_ok key s m \<Longrightarrow> ord \<in> set (flat m) \<Longrightarrow> order_ok s ord"
  by (force simp: side_ok_def flat_def)

section \<open>Sweeping is greedy consumption\<close>

definition shrink :: "Order \<Rightarrow> nat \<Rightarrow> Order" where
  "shrink ord q = ord\<lparr>o_size := int q * sign_multiplier (o_side ord)\<rparr>"

fun greedy :: "(Order \<Rightarrow> bool) \<Rightarrow> (Order \<Rightarrow> nat \<Rightarrow> MatchedTrade) \<Rightarrow> Order list \<Rightarrow> nat \<Rightarrow>
    Order list \<times> nat \<times> MatchResult list" where
  "greedy stop trade [] rem = ([], rem, [])"
| "greedy stop trade (ord # q) rem =
     (if rem = 0 \<or> stop ord then (ord # q, rem, [])
      else if quantity ord \<le> rem then
        let (q', rem', rs) = greedy stop trade q (rem - quantity ord) in
        (q', rem', match_result (trade ord (quantity ord)) (o_id ord) 0 (rem - quantity ord) # rs)
      else (shrink ord (quantity ord - rem) # q, 0,
            [match_result (trade ord rem) (o_id ord) (quantity ord - rem) 0]))"

definition taken :: "Order list \<Rightarrow> Order list \<Rightarrow> OrderKey set" where
  "taken q q' = o_id ` set (take (length q - length q') q)"

definition forget :: "OrderIndex \<Rightarrow> OrderKey set \<Rightarrow> OrderIndex" where
  "forget index X = (\<lambda>i. if i \<in> X then None else index i)"

lemma greedy_length: "greedy stop trade q rem = (q', rem', rs) \<Longrightarrow> length q' \<le> length q"
proof (induction q arbitrary: rem rs)
  case (Cons ord q)
  show ?case
  proof (cases "rem = 0 \<or> stop ord \<or> rem < quantity ord")
    case True
    then show ?thesis using Cons.prems by (auto split: if_splits)
  next
    case False
    then obtain rs' where "greedy stop trade q (rem - quantity ord) = (q', rem', rs')"
      using Cons.prems by (auto split: prod.splits if_splits)
    with Cons.IH show ?thesis by fastforce
  qed
qed simp

lemma forget_simps [simp]: "forget index {} = index" "forget (forget index X) Y = forget index (X \<union> Y)"
  by (auto simp: forget_def)

lemma taken_refl [simp]: "length q' = length q \<Longrightarrow> taken q q' = {}"
  by (simp add: taken_def)

lemma taken_Cons: "length q' \<le> length q \<Longrightarrow> taken (ord # q) q' = insert (o_id ord) (taken q q')"
  by (simp add: taken_def Suc_diff_le)

lemma fill_level_greedy:
  assumes "\<forall>ord \<in> set q. order_ok s ord"
    and "greedy (\<lambda>_. False) (\<lambda>ord. trade (o_id ord)) q rem = (q', rem', rs)"
  shows "fill_level trade q index rem res = Some (q', forget index (taken q q'), rem', res @ rs)"
  using assms
proof (induction q arbitrary: index rem res rs)
  case (Cons ord q)
  note ok = order_ok_quantity [of s ord]
  consider "rem = 0" | (full) "0 < rem" "quantity ord \<le> rem" | (part) "0 < rem" "rem < quantity ord" by linarith
  then show ?case
  proof cases
    case full
    then obtain rs' where g: "greedy (\<lambda>_. False) (\<lambda>ord. trade (o_id ord)) q (rem - quantity ord) = (q', rem', rs')"
      "rs = match_result (trade (o_id ord) (quantity ord)) (o_id ord) 0 (rem - quantity ord) # rs'"
      using Cons.prems(2) by (auto split: prod.splits)
    have "forget (index(o_id ord := None)) (taken q q') = forget index (taken (ord # q) q')"
      unfolding taken_Cons [OF greedy_length [OF g(1)]] by (auto simp: forget_def fun_eq_iff)
    then show ?thesis using Cons.IH [OF _ g(1)] Cons.prems(1) full g(2) by (simp add: Let_def)
  next
    case part
    then have "quantity ord - rem < 2 ^ 127" using ok(2) Cons.prems(1) by auto
    then show ?thesis using Cons.prems part
      by (auto simp: Let_def set_quantity_def shrink_def)
  qed (use Cons.prems in auto)
qed simp

lemma greedy_append:
  assumes "greedy stop trade xs rem = (xs', rem1, rs1)"
  shows "greedy stop trade (xs @ ys) rem =
     (if xs' = [] then let (q, r, rs) = greedy stop trade ys rem1 in (q, r, rs1 @ rs)
      else (xs' @ ys, rem1, rs1))"
  using assms
proof (induction xs arbitrary: rem rs1)
  case Nil
  then show ?case by (auto split: prod.split)
next
  case (Cons ord q)
  show ?case
  proof (cases "rem = 0 \<or> stop ord \<or> rem < quantity ord")
    case True
    then show ?thesis using Cons.prems by (auto split: if_splits)
  next
    case False
    then obtain rs' where g: "greedy stop trade q (rem - quantity ord) = (xs', rem1, rs')"
      "rs1 = match_result (trade ord (quantity ord)) (o_id ord) 0 (rem - quantity ord) # rs'"
      using Cons.prems by (auto split: prod.splits if_splits)
    with Cons.IH [OF g(1)] False show ?thesis by (auto simp: Let_def split: prod.splits)
  qed
qed

lemma greedy_cong_level:
  assumes "\<forall>ord \<in> set q. stop ord = stop' ord \<and> trade ord = trade' ord"
  shows "greedy stop trade q rem = greedy stop' trade' q rem"
  using assms by (induction q arbitrary: rem) auto

lemma shrink_ok: "order_ok s ord \<Longrightarrow> 0 < n \<Longrightarrow> n < quantity ord \<Longrightarrow> order_ok s (shrink ord n)"
  by (cases s) (auto simp: order_ok_def shrink_def side_agrees_with_size_def in_i128_def quantity_def sgn_if)

lemma greedy_keeps:
  assumes "greedy stop trade q rem = (q', rem', rs)" and "\<forall>ord \<in> set q. order_ok s ord"
  shows "\<forall>ord' \<in> set q'. order_ok s ord' \<and> (\<exists>ord \<in> set q. location ord' = location ord \<and> o_id ord' = o_id ord)"
  using assms
proof (induction q arbitrary: rem rs)
  case (Cons ord q)
  consider (stop) "rem = 0 \<or> stop ord" | (full) "0 < rem" "\<not> stop ord" "quantity ord \<le> rem"
    | (part) "0 < rem" "\<not> stop ord" "rem < quantity ord" by linarith
  then show ?case
  proof cases
    case full
    then obtain rs' where "greedy stop trade q (rem - quantity ord) = (q', rem', rs')"
      using Cons.prems by (auto split: prod.splits)
    with Cons.IH Cons.prems(2) show ?thesis by fastforce
  next
    case part
    have "order_ok s (shrink ord (quantity ord - rem))" using shrink_ok Cons.prems(2) part by simp
    with part Cons.prems show ?thesis by (auto simp: shrink_def location_def)
  qed (use Cons.prems in auto)
qed simp

lemma taken_append: "length Q \<le> length ys \<Longrightarrow> taken (xs @ ys) Q = o_id ` set xs \<union> taken ys Q"
  by (auto simp: taken_def image_Un)

lemma taken_append_same: "length xs' \<le> length xs \<Longrightarrow> taken (xs @ ys) (xs' @ ys) = taken xs xs'"
  by (simp add: taken_def)

lemma greedy_stopped: "rem = 0 \<or> (\<exists>ord q'. q = ord # q' \<and> stop ord) \<Longrightarrow> greedy stop trade q rem = (q, rem, [])"
  by (cases q) auto

definition price_key :: "(Order \<Rightarrow> 'k) \<Rightarrow> bool" where
  "price_key key \<longleftrightarrow> (\<forall>x y. location x = location y \<longrightarrow> key x = key y)"

lemma price_keys [simp]: "price_key o_price" "price_key bid_key"
  by (auto simp: price_key_def location_def bid_key_def)

lemma sweep_greedy:
  assumes "side_ok key s m" and key: "price_key key"
    and "greedy (\<lambda>ord. stop (key ord)) (\<lambda>ord. trade (key ord) (o_id ord)) (flat m) rem = (Q, rem', rs)"
  shows "\<exists>m'. sweep stop trade m index rem res = Some (m', forget index (taken (flat m) Q), rem', res @ rs) \<and>
     flat m' = Q \<and> side_ok key s m' \<and> set (map fst m') \<subseteq> set (map fst m)"
  using assms(1,3)
proof (induction m arbitrary: index rem res rs)
  case (Cons e m)
  obtain k q where e: "e = (k, q)" by (cases e)
  have ok: "q \<noteq> []" "\<And>ord. ord \<in> set q \<Longrightarrow> key ord = k \<and> order_ok s ord" "side_ok key s m"
    "\<forall>k' \<in> set (map fst m). k < k'"
    using Cons.prems(1) e by (auto simp: side_ok_Cons)
  let ?stop = "\<lambda>ord. stop (key ord)" and ?trade = "\<lambda>ord. trade (key ord) (o_id ord)"
  show ?case
  proof (cases "rem = 0 \<or> stop k")
    case True
    then have "greedy ?stop ?trade (flat (e # m)) rem = (flat (e # m), rem, [])"
      using ok(1,2) e by (intro greedy_stopped) (cases q; auto)
    with True Cons.prems e show ?thesis by auto
  next
    case False
    obtain q' rem1 rs1 where g: "greedy (\<lambda>_. False) (\<lambda>ord. trade k (o_id ord)) q rem = (q', rem1, rs1)"
      by (metis prod_cases3)
    have fill: "fill_level (trade k) q index rem res = Some (q', forget index (taken q q'), rem1, res @ rs1)"
      using fill_level_greedy [OF _ g] ok(2) by blast
    have g': "greedy ?stop ?trade q rem = (q', rem1, rs1)"
      using g False ok(2) by (subst greedy_cong_level [of _ _ "\<lambda>_. False" _ "\<lambda>ord. trade k (o_id ord)"]) auto
    note app = greedy_append [OF g', of "flat m"]
    show ?thesis
    proof (cases "q' = []")
      case True
      with app Cons.prems(2) e obtain rs2 where g2: "greedy ?stop ?trade (flat m) rem1 = (Q, rem', rs2)"
        "rs = rs1 @ rs2" by (auto split: prod.splits)
      have tk: "taken (flat (e # m)) Q = taken q q' \<union> taken (flat m) Q"
        using taken_append [OF greedy_length [OF g2(1)], of q] True e by (simp add: taken_def)
      from Cons.IH [OF ok(3) g2(1), of "forget index (taken q q')" "res @ rs1"] obtain m' where
        m': "sweep stop trade m (forget index (taken q q')) rem1 (res @ rs1) =
            Some (m', forget index (taken q q' \<union> taken (flat m) Q), rem', res @ rs)"
        "flat m' = Q" "side_ok key s m'" "set (map fst m') \<subseteq> set (map fst m)" using g2(2) by auto
      have "set (map fst m') \<subseteq> set (map fst (e # m))" using m'(4) by auto
      with m' True fill False e tk show ?thesis by (intro exI [of _ m']) (simp del: set_map)
    next
      case ne: False
      with app Cons.prems(2) e have Q: "Q = q' @ flat m" "rem' = rem1" "rs = rs1" by auto
      have keep: "\<forall>ord' \<in> set q'. key ord' = k \<and> order_ok s ord'"
        using greedy_keeps [OF g', of s] ok(2) key unfolding price_key_def by metis
      have "side_ok key s ((k, q') # m)" using ok ne keep by (simp add: side_ok_Cons)
      moreover have "taken (flat (e # m)) Q = taken q q'"
        using taken_append_same [OF greedy_length [OF g'], of "flat m"] Q e by simp
      ultimately show ?thesis using fill False ne e Q by auto
    qed
  qed
qed simp

section \<open>The id index\<close>

definition entry :: "Order \<Rightarrow> OrderKey \<times> BookLocation" where
  "entry ord = (o_id ord, location ord)"

lemma fst_entry [simp]: "fst \<circ> entry = o_id" "fst (entry ord) = o_id ord"
  by (auto simp: entry_def)

lemma clob_ok_alt:
  "clob_ok b \<longleftrightarrow> side_ok o_price Short (cb_asks b) \<and> side_ok bid_key Long (cb_bids b) \<and>
     distinct (map o_id (live b)) \<and> cb_index b = map_of (map entry (live b))"
  by (simp add: clob_ok_def entry_def [abs_def])

lemma greedy_entries:
  "greedy stop trade q rem = (q', rem', rs) \<Longrightarrow> map entry q' = drop (length q - length q') (map entry q)"
proof (induction q arbitrary: rem rs)
  case (Cons ord q)
  show ?case
  proof (cases "rem = 0 \<or> stop ord \<or> rem < quantity ord")
    case True
    then show ?thesis using Cons.prems
      by (auto split: if_splits simp: entry_def shrink_def location_def)
  next
    case False
    then obtain rs' where g: "greedy stop trade q (rem - quantity ord) = (q', rem', rs')"
      using Cons.prems by (auto split: prod.splits if_splits)
    from Cons.IH [OF g] greedy_length [OF g] show ?thesis by (simp add: Suc_diff_le)
  qed
qed simp

lemma map_of_forget:
  assumes "distinct (map fst (P @ X @ Y))"
  shows "(\<lambda>i. if i \<in> fst ` set X then None else map_of (P @ X @ Y) i) = map_of (P @ Y)"
proof
  fix i
  have "map_of P i = None" "map_of Y i = None" if "i \<in> fst ` set X"
    using assms that by (auto simp: map_of_eq_None_iff)
  moreover have "map_of X i = None" if "i \<notin> fst ` set X" using that by (simp add: map_of_eq_None_iff)
  ultimately show "(if i \<in> fst ` set X then None else map_of (P @ X @ Y) i) = map_of (P @ Y) i"
    by (auto simp: map_of_append map_add_def split: option.splits)
qed

lemma index_after_sweep:
  assumes "greedy stop trade q rem = (q', rem', rs)" and "distinct (map o_id (A @ q @ B))"
  shows "forget (map_of (map entry (A @ q @ B))) (taken q q') = map_of (map entry (A @ q' @ B))"
    and "distinct (map o_id (A @ q' @ B))"
proof -
  let ?n = "length q - length q'"
  have split: "map entry q = take ?n (map entry q) @ map entry q'"
    using greedy_entries [OF assms(1)] by simp
  have eq: "map entry (A @ q @ B) = map entry A @ take ?n (map entry q) @ map entry q' @ map entry B"
    unfolding map_append by (subst split) (simp only: append_assoc)
  have d: "distinct (map fst (map entry A @ take ?n (map entry q) @ map entry q' @ map entry B))"
    unfolding eq [symmetric] using assms(2) by (simp only: list.map_comp fst_entry)
  have "fst ` set (take ?n (map entry q)) = taken q q'"
    by (simp add: taken_def take_map image_image)
  with map_of_forget [OF d]
  show "forget (map_of (map entry (A @ q @ B))) (taken q q') = map_of (map entry (A @ q' @ B))"
    unfolding eq forget_def by simp
  show "distinct (map o_id (A @ q' @ B))"
    using d by (auto simp: list.map_comp)
qed

lemma map_of_insert:
  "distinct (map fst (xs @ (k, v) # ys)) \<Longrightarrow> map_of (xs @ (k, v) # ys) = (map_of (xs @ ys))(k \<mapsto> v)"
proof
  fix i assume d: "distinct (map fst (xs @ (k, v) # ys))"
  have "map_of xs k = None" "map_of ys k = None" using d by (auto simp: map_of_eq_None_iff)
  then show "map_of (xs @ (k, v) # ys) i = ((map_of (xs @ ys))(k \<mapsto> v)) i"
    by (auto simp: map_add_def split: option.splits)
qed

lemma map_of_drop:
  "distinct (map fst (xs @ (k, v) # ys)) \<Longrightarrow> (map_of (xs @ (k, v) # ys))(k := None) = map_of (xs @ ys)"
proof
  fix i assume d: "distinct (map fst (xs @ (k, v) # ys))"
  have "map_of xs k = None" "map_of ys k = None" using d by (auto simp: map_of_eq_None_iff)
  then show "((map_of (xs @ (k, v) # ys))(k := None)) i = map_of (xs @ ys) i"
    by (auto simp: map_add_def split: option.splits)
qed

section \<open>Adding and removing one order\<close>

lemma set_bt_insert: "e \<in> set (bt_insert k v m) \<Longrightarrow> e = (k, v) \<or> e \<in> set m"
  by (induction k v m rule: bt_insert.induct) (auto split: if_splits)

lemma side_ok_insert:
  assumes "side_ok key s m" and "q \<noteq> []" and "\<forall>ord \<in> set q. key ord = k \<and> order_ok s ord"
  shows "side_ok key s (bt_insert k q m)"
  using assms bt_inv_insert [of m k q] by (auto simp: side_ok_def dest!: set_bt_insert)

lemma side_ok_remove: "side_ok key s m \<Longrightarrow> side_ok key s (bt_remove k m)"
  using bt_inv_remove [of m k] by (auto simp: side_ok_def bt_remove_def)

lemma side_ok_level: "side_ok key s m \<Longrightarrow> bt_get m k = Some q \<Longrightarrow>
    q \<noteq> [] \<and> (\<forall>ord \<in> set q. key ord = k \<and> order_ok s ord)"
  by (auto simp: side_ok_def bt_get_iff)

lemma side_ok_push:
  assumes "side_ok key s m" and "order_ok s ord"
  shows "side_ok key s (bt_push (key ord) ord m)"
proof (cases "bt_get m (key ord)")
  case None
  then show ?thesis using assms(2) by (simp add: bt_push_def side_ok_insert [OF assms(1)])
next
  case (Some q)
  with side_ok_level [OF assms(1) Some] assms(2) show ?thesis
    by (simp add: bt_push_def) (rule side_ok_insert [OF assms(1)]; auto)
qed

lemma side_ok_find_level:
  assumes "side_ok key s m" and "ord \<in> set (flat m)"
  shows "\<exists>q. bt_get m (key ord) = Some q \<and> ord \<in> set q"
proof -
  have "bt_inv m" using assms(1) by (simp add: side_ok_def)
  with in_flat_iff [of m ord] assms(2) obtain k q where q: "bt_get m k = Some q" "ord \<in> set q" by blast
  then have "key ord = k" using side_ok_level [OF assms(1) q(1)] by simp
  with q show ?thesis by simp
qed

lemma split_by_id:
  assumes "distinct (map o_id q)" and "ord \<in> set q"
  shows "find (\<lambda>x. o_id x = o_id ord) q = Some ord"
    and "q = takeWhile (\<lambda>x. o_id x \<noteq> o_id ord) q @ ord # tl (dropWhile (\<lambda>x. o_id x \<noteq> o_id ord) q)"
  using assms by (induction q) (auto simp: image_iff)

lemma around_id_subset: "set (takeWhile P q @ tl (dropWhile P q)) \<subseteq> set q"
proof -
  have "set (tl xs) \<subseteq> set xs" for xs :: "'a list" by (cases xs) auto
  then show ?thesis using set_takeWhileD [of _ P q] set_dropWhileD [of _ P q] by auto
qed

lemma level_remove_ok:
  assumes side: "side_ok key s m" and dist: "distinct (map o_id (flat m))" and ord: "ord \<in> set (flat m)"
  shows "\<exists>m' xs ys. level_remove (key ord) (o_id ord) m = Some (ord, m') \<and>
     flat m = xs @ ord # ys \<and> flat m' = xs @ ys \<and> side_ok key s m'"
proof -
  have inv: "bt_inv m" using side by (simp add: side_ok_def)
  obtain q where q: "bt_get m (key ord) = Some q" "ord \<in> set q"
    using side_ok_find_level [OF side ord] by blast
  obtain m1 m2 where m: "m = m1 @ (key ord, q) # m2" "\<And>w. bt_insert (key ord) w m = m1 @ (key ord, w) # m2"
    "bt_remove (key ord) m = m1 @ m2" using bt_at_key [OF inv q(1)] by metis
  have "distinct (map o_id q)" using dist m(1) by simp
  note sp = split_by_id [OF this q(2)]
  let ?xs = "takeWhile (\<lambda>x. o_id x \<noteq> o_id ord) q" and ?ys = "tl (dropWhile (\<lambda>x. o_id x \<noteq> o_id ord) q)"
  let ?m = "if ?xs @ ?ys = [] then bt_remove (key ord) m else bt_insert (key ord) (?xs @ ?ys) m"
  have "flat m = (flat m1 @ ?xs) @ ord # (?ys @ flat m2)" using m(1) sp(2) by (metis append.assoc append_Cons flat_simps(2,3))
  moreover have "flat ?m = (flat m1 @ ?xs) @ (?ys @ flat m2)" using m(2,3) by auto
  moreover have "side_ok key s ?m"
  proof (cases "?xs @ ?ys = []")
    case False
    have "\<forall>x \<in> set (?xs @ ?ys). key x = key ord \<and> order_ok s x"
      using side_ok_level [OF side q(1)] around_id_subset [of _ q] by blast
    from side_ok_insert [OF side False this] show ?thesis by (simp only: False if_False)
  qed (simp add: side_ok_remove [OF side])
  moreover have "level_remove (key ord) (o_id ord) m = Some (ord, ?m)"
    by (simp only: level_remove_def q(1) sp(1) Let_def Option.bind.simps)
  ultimately show ?thesis by blast
qed

text \<open>Replacing an order in place.\<close>

lemma resize_in_level_ok:
  assumes side: "side_ok key s m" and dist: "distinct (map o_id (flat m))" and ord: "ord \<in> set (flat m)"
    and key: "price_key key" and ok: "order_ok s (ord\<lparr>o_size := z\<rparr>)"
  shows "\<exists>m' xs ys. resize_in_level (key ord) (o_id ord) z m = Some m' \<and>
     flat m = xs @ ord # ys \<and> flat m' = xs @ ord\<lparr>o_size := z\<rparr> # ys \<and> side_ok key s m'"
proof -
  have inv: "bt_inv m" using side by (simp add: side_ok_def)
  obtain q where q: "bt_get m (key ord) = Some q" "ord \<in> set q"
    using side_ok_find_level [OF side ord] by blast
  obtain m1 m2 where m: "m = m1 @ (key ord, q) # m2" "\<And>w. bt_insert (key ord) w m = m1 @ (key ord, w) # m2"
    using bt_at_key [OF inv q(1)] by metis
  have "distinct (map o_id q)" using dist m(1) by simp
  note sp = split_by_id [OF this q(2)]
  let ?xs = "takeWhile (\<lambda>x. o_id x \<noteq> o_id ord) q" and ?ys = "tl (dropWhile (\<lambda>x. o_id x \<noteq> o_id ord) q)"
  let ?q = "?xs @ ord\<lparr>o_size := z\<rparr> # ?ys"
  have same: "key (ord\<lparr>o_size := z\<rparr>) = key ord" 
    by (rule key [unfolded price_key_def, rule_format]) (simp add: location_def)
  have "\<forall>x \<in> set (?xs @ ?ys). key x = key ord \<and> order_ok s x"
    using side_ok_level [OF side q(1)] around_id_subset [of _ q] by blast
  then have "side_ok key s (bt_insert (key ord) ?q m)"
    using ok same by (intro side_ok_insert [OF side]) auto
  moreover have "flat m = (flat m1 @ ?xs) @ ord # (?ys @ flat m2)" using m(1) sp(2) by (metis append.assoc append_Cons flat_simps(2,3))
  moreover have "resize_in_level (key ord) (o_id ord) z m = Some (bt_insert (key ord) ?q m)"
    by (simp only: resize_in_level_def q(1) sp(1) Option.bind.simps)
  moreover have "flat (bt_insert (key ord) ?q m) = (flat m1 @ ?xs) @ ord\<lparr>o_size := z\<rparr> # (?ys @ flat m2)"
    by (simp only: m(2) flat_simps append.assoc append_Cons)
  ultimately show ?thesis by blast
qed

section \<open>Both sides of the book\<close>

definition own_queue :: "Side \<Rightarrow> ClobBook \<Rightarrow> Order list" where
  "own_queue s b = (case s of Long \<Rightarrow> flat (cb_bids b) | Short \<Rightarrow> flat (cb_asks b))"

definition opp_queue :: "Side \<Rightarrow> ClobBook \<Rightarrow> Order list" where
  "opp_queue s b = (case s of Long \<Rightarrow> flat (cb_asks b) | Short \<Rightarrow> flat (cb_bids b))"

definition beyond :: "Order \<Rightarrow> Order \<Rightarrow> bool" where
  "beyond ord maker \<longleftrightarrow> (case o_side ord of Long \<Rightarrow> o_price ord < o_price maker | Short \<Rightarrow> o_price maker < o_price ord)"

definition maker_trade :: "Order \<Rightarrow> Order \<Rightarrow> nat \<Rightarrow> MatchedTrade" where
  "maker_trade ord maker = (case o_side ord of
      Long \<Rightarrow> ask_trade (o_id ord) (o_price maker) (o_id maker)
    | Short \<Rightarrow> bid_trade (o_id ord) (o_price maker) (o_id maker))"

text \<open>\<open>ahead s p q\<close>: on side \<open>s\<close> an order at price \<open>q\<close> trades no later than one at price \<open>p\<close>.\<close>

definition ahead :: "Side \<Rightarrow> Price \<Rightarrow> Price \<Rightarrow> bool" where
  "ahead s p q \<longleftrightarrow> (case s of Long \<Rightarrow> p \<le> q | Short \<Rightarrow> q \<le> p)"

lemma flat_around_key:
  assumes "side_ok key s (m1 @ (k, q) # m2)"
  shows "\<forall>y \<in> set (flat m1). key y < k" and "\<forall>y \<in> set (flat m2). k < key y"
proof -
  have "sorted_wrt (<) (map fst (m1 @ (k, q) # m2))" using assms by (simp add: side_ok_def bt_inv_def)
  then have lt: "\<forall>(k', _) \<in> set m1. k' < k" "\<forall>(k', _) \<in> set m2. k < k'" by (auto simp: sorted_wrt_append)
  have ks: "\<forall>(k', q') \<in> set m1 \<union> set m2. \<forall>y \<in> set q'. key y = k'" using assms by (force simp: side_ok_def)
  have "key y < k" if "(k', q') \<in> set m1" "y \<in> set q'" for k' q' y using bspec [OF lt(1) that(1)] bspec [OF ks UnI1 [OF that(1)]] that(2) by simp
  then show "\<forall>y \<in> set (flat m1). key y < k" by (auto simp: flat_def)
  have "k < key y" if "(k', q') \<in> set m2" "y \<in> set q'" for k' q' y using bspec [OF lt(2) that(1)] bspec [OF ks UnI2 [OF that(1)]] that(2) by simp
  then show "\<forall>y \<in> set (flat m2). k < key y" by (auto simp: flat_def)
qed

lemma flat_push_position:
  assumes side: "side_ok key s m" and ord: "order_ok s x"
  shows "\<exists>xs ys. flat m = xs @ ys \<and> flat (bt_push (key x) x m) = xs @ x # ys \<and>
     (\<forall>y \<in> set xs. key y \<le> key x) \<and> (\<forall>y \<in> set ys. key x < key y)"
proof (cases "bt_get m (key x)")
  case None
  then obtain m1 m2 where m: "m = m1 @ m2" "\<And>w. bt_insert (key x) w m = m1 @ (key x, w) # m2"
    using bt_new_key by metis
  have p: "bt_push (key x) x m = m1 @ (key x, [x]) # m2" using None by (simp add: bt_push_def m(2))
  have "\<forall>y \<in> set (flat m1). key y < key x" "\<forall>y \<in> set (flat m2). key x < key y"
    using side_ok_push [OF side ord] p flat_around_key by metis+
  then show ?thesis using m(1) p
    by (intro exI [of _ "flat m1"] exI [of _ "flat m2"]) (auto intro: less_imp_le)
next
  case (Some q)
  have inv: "bt_inv m" using side by (simp add: side_ok_def)
  obtain m1 m2 where m: "m = m1 @ (key x, q) # m2" "\<And>w. bt_insert (key x) w m = m1 @ (key x, w) # m2"
    using bt_at_key [OF inv Some] by metis
  have p: "bt_push (key x) x m = m1 @ (key x, q @ [x]) # m2" using Some by (simp add: bt_push_def m(2))
  have "\<forall>y \<in> set (flat m1). key y < key x" "\<forall>y \<in> set (flat m2). key x < key y"
    using side m(1) flat_around_key by metis+
  moreover have "\<forall>y \<in> set q. key y = key x" using side_ok_level [OF side Some] by simp
  ultimately show ?thesis using m(1) p
    by (intro exI [of _ "flat m1 @ q"] exI [of _ "flat m2"]) (auto intro: less_imp_le)
qed

lemma clob_okD:
  assumes "clob_ok b"
  shows "side_ok o_price Short (cb_asks b)" and "side_ok bid_key Long (cb_bids b)"
    and "distinct (map o_id (live b))" and "cb_index b = map_of (map entry (live b))"
  using assms by (simp_all add: clob_ok_alt)

lemma index_iff:
  assumes "clob_ok b"
  shows "cb_index b i = Some loc \<longleftrightarrow> (\<exists>ord \<in> set (live b). entry ord = (i, loc))"
proof -
  have "distinct (map fst (map entry (live b)))" using clob_okD(3) [OF assms] by (simp add: list.map_comp)
  then show ?thesis unfolding clob_okD(4) [OF assms] by (simp add: map_of_eq_Some_iff image_iff eq_commute)
qed

lemma contains_iff: "clob_ok b \<Longrightarrow> clob_contains b i \<longleftrightarrow> i \<in> o_id ` set (live b)"
  by (auto simp: clob_contains_def index_iff entry_def image_iff)

lemma order_ok_side: "order_ok s ord \<Longrightarrow> o_side ord = s"
  by (simp add: order_ok_def)

lemma clob_new_ok: "clob_ok clob_new"
  by (simp add: clob_ok_def clob_new_def side_ok_def live_def)

section \<open>Processing an order\<close>

lemma sweep_asks_ok:
  assumes ok: "clob_ok b"
    and g: "greedy (\<lambda>m. lim < o_price m) (\<lambda>m. ask_trade t (o_price m) (o_id m)) (flat (cb_asks b)) rem = (Q, rem', rs)"
  shows "\<exists>b'. match_against_asks b t lim rem [] = Some (b', rem', rs) \<and> clob_ok b' \<and>
     flat (cb_asks b') = Q \<and> cb_bids b' = cb_bids b \<and> o_id ` set (live b') \<subseteq> o_id ` set (live b)"
proof -
  note D = clob_okD [OF ok]
  obtain m' where m': "sweep (\<lambda>p. lim < p) (ask_trade t) (cb_asks b) (cb_index b) rem [] =
      Some (m', forget (cb_index b) (taken (flat (cb_asks b)) Q), rem', [] @ rs)"
    "flat m' = Q" "side_ok o_price Short m'"
    using sweep_greedy [OF D(1) price_keys(1), of "\<lambda>p. lim < p" "ask_trade t" rem Q rem' rs "cb_index b" "[]"] g by blast
  let ?b = "b\<lparr>cb_asks := m', cb_index := forget (cb_index b) (taken (flat (cb_asks b)) Q)\<rparr>"
  have live: "live b = [] @ flat (cb_asks b) @ flat (cb_bids b)" by (simp add: live_def)
  note after = index_after_sweep [OF g D(3) [unfolded live]]
  have "clob_ok ?b" using m' D(2) after D(4) by (simp add: clob_ok_alt live_def)
  moreover have "o_id ` set (live ?b) \<subseteq> o_id ` set (live b)"
    using m'(2) greedy_keeps [OF g, of Short] side_ok_flat [OF D(1)] by (fastforce simp: live_def)
  ultimately show ?thesis using m' by (intro exI [of _ ?b]) (simp add: match_against_asks_def)
qed

lemma sweep_bids_ok:
  assumes ok: "clob_ok b"
    and g: "greedy (\<lambda>m. o_price m < lim) (\<lambda>m. bid_trade t (o_price m) (o_id m)) (flat (cb_bids b)) rem = (Q, rem', rs)"
  shows "\<exists>b'. match_against_bids b t lim rem [] = Some (b', rem', rs) \<and> clob_ok b' \<and>
     flat (cb_bids b') = Q \<and> cb_asks b' = cb_asks b \<and> o_id ` set (live b') \<subseteq> o_id ` set (live b)"
proof -
  note D = clob_okD [OF ok]
  have g': "greedy (\<lambda>m. unreverse (bid_key m) < lim) (\<lambda>m. bid_trade t (unreverse (bid_key m)) (o_id m)) (flat (cb_bids b)) rem = (Q, rem', rs)"
    using g by (simp add: bid_key_def)
  obtain m' where m': "sweep (\<lambda>k. unreverse k < lim) (\<lambda>k. bid_trade t (unreverse k)) (cb_bids b) (cb_index b) rem [] =
      Some (m', forget (cb_index b) (taken (flat (cb_bids b)) Q), rem', [] @ rs)"
    "flat m' = Q" "side_ok bid_key Long m'"
    using sweep_greedy [OF D(2) price_keys(2), of "\<lambda>k. unreverse k < lim" "\<lambda>k. bid_trade t (unreverse k)" rem Q rem' rs "cb_index b" "[]"] g' by blast
  let ?b = "b\<lparr>cb_bids := m', cb_index := forget (cb_index b) (taken (flat (cb_bids b)) Q)\<rparr>"
  have live: "live b = flat (cb_asks b) @ flat (cb_bids b) @ []" by (simp add: live_def)
  note after = index_after_sweep [OF g D(3) [unfolded live]]
  have "clob_ok ?b" using m' D(1) after D(4) by (simp add: clob_ok_alt live_def)
  moreover have "o_id ` set (live ?b) \<subseteq> o_id ` set (live b)"
    using m'(2) greedy_keeps [OF g, of Long] side_ok_flat [OF D(2)] by (fastforce simp: live_def)
  ultimately show ?thesis using m' by (intro exI [of _ ?b]) (simp add: match_against_bids_def)
qed

lemma clob_ok_add:
  assumes ok: "clob_ok b" and fresh: "o_id x \<notin> o_id ` set (live b)"
    and sides: "side_ok o_price Short (cb_asks b')" "side_ok bid_key Long (cb_bids b')"
    and idx: "cb_index b' = (cb_index b)(o_id x \<mapsto> location x)"
    and lv: "live b = us @ vs" "live b' = us @ x # vs"
  shows "clob_ok b'"
proof -
  note D = clob_okD [OF ok]
  have d: "distinct (map o_id (live b'))" using D(3) fresh lv by auto
  then have "distinct (map fst (map entry us @ (o_id x, location x) # map entry vs))"
    using lv by (simp add: list.map_comp)
  from map_of_insert [OF this] have "cb_index b' = map_of (map entry (live b'))"
    using D(4) lv idx by (simp add: entry_def)
  with sides d show ?thesis by (simp only: clob_ok_alt)
qed

lemma live_split: "live b = (if s = Long then opp_queue s b else []) @ own_queue s b @ (if s = Long then [] else opp_queue s b)"
  by (cases s) (simp_all add: live_def opp_queue_def own_queue_def)

lemma set_live: "set (live b) = set (own_queue s b) \<union> set (opp_queue s b)"
  by (cases s) (auto simp: live_def opp_queue_def own_queue_def)

definition sides_ok :: "ClobBook \<Rightarrow> bool" where
  "sides_ok b \<longleftrightarrow> side_ok o_price Short (cb_asks b) \<and> side_ok bid_key Long (cb_bids b)"

lemma clob_ok_sides: "clob_ok b \<longleftrightarrow> sides_ok b \<and> distinct (map o_id (live b)) \<and> cb_index b = map_of (map entry (live b))"
  by (auto simp: clob_ok_alt sides_ok_def)

lemma live_around:
  assumes "own_queue s b = xs @ us @ ys" and "own_queue s b' = xs @ vs @ ys" and "opp_queue s b' = opp_queue s b"
  obtains as bs where "live b = as @ us @ bs" and "live b' = as @ vs @ bs"
proof (cases s)
  case Long
  then show thesis using live_split [of b s] live_split [of b' s] assms
    by (intro that [of "opp_queue s b @ xs" ys]) simp_all
next
  case Short
  then show thesis using live_split [of b s] live_split [of b' s] assms
    by (intro that [of xs "ys @ opp_queue s b"]) simp_all
qed

lemma push_level_ok:
  assumes ok: "sides_ok b" and x: "order_ok (o_side x) x"
  shows "\<exists>xs ys. own_queue (o_side x) b = xs @ ys \<and> own_queue (o_side x) (push_level b x) = xs @ x # ys \<and>
     opp_queue (o_side x) (push_level b x) = opp_queue (o_side x) b \<and> sides_ok (push_level b x) \<and>
     (\<forall>y \<in> set xs. ahead (o_side x) (o_price x) (o_price y)) \<and>
     (\<forall>y \<in> set ys. \<not> ahead (o_side x) (o_price x) (o_price y))"
proof (cases "o_side x")
  case Long
  have side: "side_ok bid_key Long (cb_bids b)" and xl: "order_ok Long x" using ok x Long by (simp_all add: sides_ok_def)
  have key: "bid_key x = Reverse (o_price x)" by (simp add: bid_key_def)
  from flat_push_position [OF side xl] side_ok_push [OF side xl] ok Long show ?thesis
    by (auto simp: key push_level_def sides_ok_def own_queue_def opp_queue_def ahead_def bid_key_def
        less_eq_Reverse_def less_Reverse_def not_le)
next
  case Short
  have side: "side_ok o_price Short (cb_asks b)" and xs: "order_ok Short x" using ok x Short by (simp_all add: sides_ok_def)
  from flat_push_position [OF side xs] side_ok_push [OF side xs] ok Short show ?thesis
    by (auto simp: push_level_def sides_ok_def own_queue_def opp_queue_def ahead_def not_le)
qed

lemma queues_update_index [simp]:
  "own_queue s (b\<lparr>cb_index := ix\<rparr>) = own_queue s b" "opp_queue s (b\<lparr>cb_index := ix\<rparr>) = opp_queue s b"
  "live (b\<lparr>cb_index := ix\<rparr>) = live b" "sides_ok (b\<lparr>cb_index := ix\<rparr>) = sides_ok b"
  by (cases s; simp add: own_queue_def opp_queue_def live_def sides_ok_def)+

lemma insert_resting_ok:
  assumes ok: "clob_ok b" and ord: "order_ok (o_side ord) ord" and fresh: "o_id ord \<notin> o_id ` set (live b)"
    and rem: "0 < rem" "rem \<le> quantity ord" "rem < 2 ^ 127"
  shows "\<exists>b' xs ys. insert_resting b ord rem = Some b' \<and> clob_ok b' \<and>
     opp_queue (o_side ord) b' = opp_queue (o_side ord) b \<and>
     own_queue (o_side ord) b = xs @ ys \<and> own_queue (o_side ord) b' = xs @ shrink ord rem # ys \<and>
     (\<forall>y \<in> set xs. ahead (o_side ord) (o_price ord) (o_price y)) \<and>
     (\<forall>y \<in> set ys. \<not> ahead (o_side ord) (o_price ord) (o_price y)) \<and>
     b' = (push_level b (shrink ord rem))\<lparr>cb_index := (cb_index b)(o_id ord \<mapsto> location ord)\<rparr>"
proof -
  let ?x = "shrink ord rem"
  have x: "order_ok (o_side ord) ?x" "o_side ?x = o_side ord" "o_price ?x = o_price ord" "o_id ?x = o_id ord"
    "location ?x = location ord"
    using ord rem shrink_ok [OF ord, of rem] order_ok_quantity(4) [OF ord]
    by (cases "rem = quantity ord"; auto simp: shrink_def location_def)+
  let ?b = "(push_level b ?x)\<lparr>cb_index := (cb_index b)(o_id ord \<mapsto> location ord)\<rparr>"
  have ins: "insert_resting b ord rem = Some ?b"
    using rem(3) by (cases "o_side ord")
      (simp_all add: insert_resting_def set_quantity_def shrink_def push_level_def Let_def location_def)
  have "sides_ok b" using ok by (simp add: clob_ok_sides)
  from push_level_ok [OF this, of ?x] x obtain xs ys where
    p: "own_queue (o_side ord) b = xs @ ys" "own_queue (o_side ord) ?b = xs @ ?x # ys"
    "opp_queue (o_side ord) ?b = opp_queue (o_side ord) b" "sides_ok ?b"
    "\<forall>y \<in> set xs. ahead (o_side ord) (o_price ord) (o_price y)"
    "\<forall>y \<in> set ys. \<not> ahead (o_side ord) (o_price ord) (o_price y)" by auto
  obtain us vs where "live b = us @ [] @ vs" "live ?b = us @ [?x] @ vs"
    using live_around [of "o_side ord" b xs "[]" ys ?b "[?x]"] p(1,2,3) by auto
  then have "clob_ok ?b" using p(4) fresh x(4,5)
    by (intro clob_ok_add [OF ok, of ?x ?b us vs]) (auto simp: sides_ok_def)
  with ins p show ?thesis by blast
qed

text \<open>One accepted order: sweep the opposite queue greedily, rest what is left.\<close>

definition accepted :: "ClobBook \<Rightarrow> Order \<Rightarrow> bool" where
  "accepted b ord \<longleftrightarrow> validate ord = Inr () \<and> \<not> clob_contains b (o_id ord)"

definition swept :: "ClobBook \<Rightarrow> Order \<Rightarrow> Order list \<times> nat \<times> MatchResult list" where
  "swept b ord = greedy (beyond ord) (maker_trade ord) (opp_queue (o_side ord) b) (quantity ord)"

lemma greedy_rem_le: "greedy stop trade q rem = (q', rem', rs) \<Longrightarrow> rem' \<le> rem"
proof (induction q arbitrary: rem rs)
  case (Cons ord q)
  show ?case
  proof (cases "rem = 0 \<or> stop ord \<or> rem < quantity ord")
    case False
    then obtain rs' where "greedy stop trade q (rem - quantity ord) = (q', rem', rs')"
      using Cons.prems by (auto split: prod.splits if_splits)
    with Cons.IH show ?thesis by fastforce
  qed (use Cons.prems in \<open>auto split: if_splits\<close>)
qed simp

lemma sweep_side_ok:
  assumes ok: "clob_ok b" and sw: "swept b ord = (Q, rem, rs)"
  shows "\<exists>b1. (case o_side ord of
        Long \<Rightarrow> match_against_asks b (o_id ord) (o_price ord) (quantity ord) []
      | Short \<Rightarrow> match_against_bids b (o_id ord) (o_price ord) (quantity ord) []) = Some (b1, rem, rs) \<and>
     clob_ok b1 \<and> opp_queue (o_side ord) b1 = Q \<and> own_queue (o_side ord) b1 = own_queue (o_side ord) b \<and>
     o_id ` set (live b1) \<subseteq> o_id ` set (live b)"
proof (cases "o_side ord")
  case Long
  with sweep_asks_ok [OF ok, of "o_price ord" "o_id ord" "quantity ord" Q rem rs] sw show ?thesis
    by (auto simp: swept_def beyond_def [abs_def] maker_trade_def [abs_def] opp_queue_def own_queue_def)
next
  case Short
  with sweep_bids_ok [OF ok, of "o_price ord" "o_id ord" "quantity ord" Q rem rs] sw show ?thesis
    by (auto simp: swept_def beyond_def [abs_def] maker_trade_def [abs_def] opp_queue_def own_queue_def)
qed

lemma process_order_ok:
  assumes ok: "clob_ok b" and acc: "accepted b ord" and rng: "in_i128 (o_size ord)"
    and sw: "swept b ord = (Q, rem, rs)" and rem: "rem < 2 ^ 127"
  shows "\<exists>b' xs ys. process_order b ord = Some (rs, b') \<and> clob_ok b' \<and> opp_queue (o_side ord) b' = Q \<and>
     own_queue (o_side ord) b = xs @ ys \<and>
     own_queue (o_side ord) b' = xs @ (if rem = 0 then [] else [shrink ord rem]) @ ys \<and>
     (\<forall>y \<in> set xs. ahead (o_side ord) (o_price ord) (o_price y)) \<and>
     (\<forall>y \<in> set ys. 0 < rem \<longrightarrow> \<not> ahead (o_side ord) (o_price ord) (o_price y))"
proof -
  have ord: "order_ok (o_side ord) ord" using acc rng by (simp add: accepted_def validate_ok)
  have fresh: "o_id ord \<notin> o_id ` set (live b)" using acc by (simp add: accepted_def contains_iff [OF ok])
  obtain b1 where b1: "(case o_side ord of
        Long \<Rightarrow> match_against_asks b (o_id ord) (o_price ord) (quantity ord) []
      | Short \<Rightarrow> match_against_bids b (o_id ord) (o_price ord) (quantity ord) []) = Some (b1, rem, rs)"
     "clob_ok b1" "opp_queue (o_side ord) b1 = Q" "own_queue (o_side ord) b1 = own_queue (o_side ord) b"
     "o_id ` set (live b1) \<subseteq> o_id ` set (live b)" using sweep_side_ok [OF ok sw] by blast
  have proc: "process_order b ord = do { b2 \<leftarrow> (if 0 < rem then insert_resting b1 ord rem else Some b1); Some (rs, b2) }"
    using acc b1(1) by (simp add: process_order_def accepted_def)
  show ?thesis
  proof (cases "rem = 0")
    case True
    then show ?thesis using b1 proc
      by (intro exI [of _ b1] exI [of _ "[]"] exI [of _ "own_queue (o_side ord) b"]) simp
  next
    case False
    have le: "rem \<le> quantity ord" using sw greedy_rem_le unfolding swept_def by blast
    have pos: "0 < rem" using False by simp
    have fr: "o_id ord \<notin> o_id ` set (live b1)" using fresh b1(5) by blast
    from insert_resting_ok [OF b1(2) ord fr pos le rem, unfolded b1(3,4)] obtain b' xs ys where "insert_resting b1 ord rem = Some b'" "clob_ok b'"
      "opp_queue (o_side ord) b' = Q" "own_queue (o_side ord) b = xs @ ys"
      "own_queue (o_side ord) b' = xs @ shrink ord rem # ys"
      "\<forall>y \<in> set xs. ahead (o_side ord) (o_price ord) (o_price y)"
      "\<forall>y \<in> set ys. \<not> ahead (o_side ord) (o_price ord) (o_price y)"
      by blast
    then show ?thesis using proc False by (intro exI [of _ b'] exI [of _ xs] exI [of _ ys]) simp
  qed
qed

end
