(* ===== verification/Clob_Lifecycle.thy ===== *)
theory Clob_Lifecycle
  imports Clob_Correct
begin

text \<open>
  Removing, modifying and recycling orders of the public book: every operation on a live order finds
  it where the id index says it is, changes that one place of its side's queue and nothing else.
\<close>

section \<open>Removal\<close>

lemma own_side: "sides_ok b \<Longrightarrow> ord \<in> set (live b) \<Longrightarrow> ord \<in> set (own_queue (o_side ord) b)"
  unfolding sides_ok_def live_def own_queue_def set_append
  by (elim conjE UnE) (drule (1) side_ok_flat, drule order_ok_side, simp)+

lemma remove_from_level_ok:
  assumes ok: "sides_ok b" and dist: "distinct (map o_id (live b))" and ord: "ord \<in> set (live b)"
  defines "s \<equiv> o_side ord"
  shows "\<exists>b' xs ys. remove_from_level b (location ord) (o_id ord) = Some (ord, b') \<and> sides_ok b' \<and>
     cb_index b' = cb_index b \<and> opp_queue s b' = opp_queue s b \<and>
     own_queue s b = xs @ ord # ys \<and> own_queue s b' = xs @ ys"
proof (cases s)
  case Long
  have "ord \<in> set (flat (cb_bids b))" "distinct (map o_id (flat (cb_bids b)))"
    using own_side [OF ok ord] Long dist by (auto simp: s_def own_queue_def live_def)
  then obtain m xs ys where "level_remove (bid_key ord) (o_id ord) (cb_bids b) = Some (ord, m)"
    "flat (cb_bids b) = xs @ ord # ys" "flat m = xs @ ys" "side_ok bid_key Long m"
    using level_remove_ok [of bid_key Long "cb_bids b" ord] ok by (auto simp: sides_ok_def)
  then show ?thesis using ok Long
    by (intro exI [of _ "b\<lparr>cb_bids := m\<rparr>"] exI [of _ xs] exI [of _ ys])
      (auto simp: s_def remove_from_level_def location_def bid_key_def sides_ok_def opp_queue_def own_queue_def)
next
  case Short
  have "ord \<in> set (flat (cb_asks b))" "distinct (map o_id (flat (cb_asks b)))"
    using own_side [OF ok ord] Short dist by (auto simp: s_def own_queue_def live_def)
  then obtain m xs ys where "level_remove (o_price ord) (o_id ord) (cb_asks b) = Some (ord, m)"
    "flat (cb_asks b) = xs @ ord # ys" "flat m = xs @ ys" "side_ok o_price Short m"
    using level_remove_ok [of o_price Short "cb_asks b" ord] ok by (auto simp: sides_ok_def)
  then show ?thesis using ok Short
    by (intro exI [of _ "b\<lparr>cb_asks := m\<rparr>"] exI [of _ xs] exI [of _ ys])
      (auto simp: s_def remove_from_level_def location_def sides_ok_def opp_queue_def own_queue_def)
qed

lemma clob_ok_drop:
  assumes ok: "clob_ok b" and sides: "sides_ok b'" and idx: "cb_index b' = (cb_index b)(o_id x := None)"
    and lv: "live b = us @ x # vs" "live b' = us @ vs"
  shows "clob_ok b'"
proof -
  note D = clob_okD [OF ok]
  have "distinct (map fst (map entry us @ (o_id x, location x) # map entry vs))"
    using D(3) lv by (simp add: list.map_comp)
  from map_of_drop [OF this] have "cb_index b' = map_of (map entry (live b'))"
    using D(4) lv idx by (simp add: entry_def)
  with sides D(3) lv show ?thesis by (simp add: clob_ok_sides)
qed

lemma index_live: "clob_ok b \<Longrightarrow> ord \<in> set (live b) \<Longrightarrow> cb_index b (o_id ord) = Some (location ord)"
  by (auto simp: index_iff entry_def)

definition without :: "Side \<Rightarrow> Order \<Rightarrow> ClobBook \<Rightarrow> ClobBook \<Rightarrow> bool" where
  "without s ord b b' \<longleftrightarrow> opp_queue s b' = opp_queue s b \<and>
     (\<exists>xs ys. own_queue s b = xs @ ord # ys \<and> own_queue s b' = xs @ ys)"

lemma cancel_order_ok:
  assumes ok: "clob_ok b" and ord: "ord \<in> set (live b)"
  shows "\<exists>b'. cancel_order b (o_id ord) = Some (Inr ord, b') \<and> clob_ok b' \<and> without (o_side ord) ord b b'"
proof -
  let ?b = "b\<lparr>cb_index := (cb_index b)(o_id ord := None)\<rparr>"
  have same: "live ?b = live b" "own_queue s ?b = own_queue s b" "opp_queue s ?b = opp_queue s b" for s
    by (cases s; simp add: live_def own_queue_def opp_queue_def)+
  have "sides_ok ?b" "distinct (map o_id (live ?b))" using ok same by (auto simp: clob_ok_sides sides_ok_def)
  from remove_from_level_ok [OF this, of ord] ord same obtain b' xs ys where
    b': "remove_from_level ?b (location ord) (o_id ord) = Some (ord, b')" "sides_ok b'"
    "cb_index b' = cb_index ?b" "opp_queue (o_side ord) b' = opp_queue (o_side ord) b"
    "own_queue (o_side ord) b = xs @ ord # ys" "own_queue (o_side ord) b' = xs @ ys" by auto
  obtain as bs where "live b = as @ [ord] @ bs" "live b' = as @ [] @ bs"
    using live_around [of "o_side ord" b xs "[ord]" ys b' "[]"] b'(4,5,6) by auto
  then have "clob_ok b'" using clob_ok_drop [OF ok b'(2), of ord as bs] b'(3) by simp
  with b' show ?thesis using index_live [OF ok ord] by (auto simp: cancel_order_def without_def)
qed

lemma cancel_order_missing: "clob_ok b \<Longrightarrow> i \<notin> o_id ` set (live b) \<Longrightarrow> cancel_order b i = Some (Inl (OrderNotFound i), b)"
  using contains_iff [of b i] by (simp add: cancel_order_def clob_contains_def)

lemma without_live:
  assumes "without s ord b b'" and "distinct (map o_id (live b))"
  shows "mset (live b) = add_mset ord (mset (live b'))" and "set (live b') = set (live b) - {ord}"
proof -
  obtain xs ys where q: "opp_queue s b' = opp_queue s b" "own_queue s b = xs @ ord # ys" "own_queue s b' = xs @ ys"
    using assms(1) by (auto simp: without_def)
  then obtain as bs where l: "live b = as @ [ord] @ bs" "live b' = as @ [] @ bs"
    using live_around [of s b xs "[ord]" ys b' "[]"] by auto
  then show "mset (live b) = add_mset ord (mset (live b'))" by simp
  show "set (live b') = set (live b) - {ord}" using l assms(2) by auto
qed

lemma other_side: "s' \<noteq> s \<Longrightarrow> own_queue s' b = opp_queue s b"
  by (cases s; cases s') (simp_all add: own_queue_def opp_queue_def)

lemma without_filter:
  assumes "without s ord b b'" and "distinct (map o_id (live b))"
  shows "own_queue s' b' = filter (\<lambda>x. o_id x \<noteq> o_id ord) (own_queue s' b)"
proof -
  obtain xs ys where q: "opp_queue s b' = opp_queue s b" "own_queue s b = xs @ ord # ys" "own_queue s b' = xs @ ys"
    using assms(1) by (auto simp: without_def)
  have "distinct (map o_id (own_queue s b) @ map o_id (opp_queue s b))"
    using assms(2) by (cases s) (auto simp: live_def own_queue_def opp_queue_def)
  then have "o_id ord \<notin> o_id ` set (xs @ ys @ opp_queue s b)" using q(2) by auto
  then have keep: "filter (\<lambda>x. o_id x \<noteq> o_id ord) zs = zs" if "set zs \<subseteq> set (xs @ ys @ opp_queue s b)" for zs
    using that unfolding filter_id_conv by (metis imageI subsetD)
  have "filter (\<lambda>x. o_id x \<noteq> o_id ord) xs = xs" "filter (\<lambda>x. o_id x \<noteq> o_id ord) ys = ys"
    "filter (\<lambda>x. o_id x \<noteq> o_id ord) (opp_queue s b) = opp_queue s b" by (rule keep; auto)+
  note keeps = this
  show ?thesis
  proof (cases "s' = s")
    case True
    with q keeps show ?thesis by simp
  next
    case False
    with q(1) keeps show ?thesis by (simp add: other_side)
  qed
qed

section \<open>Recycling expired orders\<close>

lemma cancel_all_ok:
  assumes "clob_ok b" and "distinct is" and "set is \<subseteq> o_id ` set (live b)"
  shows "\<exists>b'. cancel_all is b = Some b' \<and> clob_ok b' \<and>
     (\<forall>s. own_queue s b' = filter (\<lambda>ord. o_id ord \<notin> set is) (own_queue s b))"
  using assms
proof (induction "is" arbitrary: b)
  case Nil
  then show ?case by simp
next
  case (Cons i "is")
  then obtain ord where ord: "ord \<in> set (live b)" "i = o_id ord" by auto
  obtain b1 where b1: "cancel_order b i = Some (Inr ord, b1)" "clob_ok b1" "without (o_side ord) ord b b1"
    using cancel_order_ok [OF Cons.prems(1) ord(1)] ord(2) by blast
  note D = clob_okD [OF Cons.prems(1)]
  have "o_id ` set (live b1) = o_id ` set (live b) - {i}"
    using without_live(2) [OF b1(3) D(3)] D(3) ord by (auto simp: distinct_map inj_on_def)
  then have "set is \<subseteq> o_id ` set (live b1)" using Cons.prems(2,3) by auto
  from Cons.IH [OF b1(2) _ this] Cons.prems(2) obtain b' where
    b': "cancel_all is b1 = Some b'" "clob_ok b'"
    "\<And>s. own_queue s b' = filter (\<lambda>ord. o_id ord \<notin> set is) (own_queue s b1)" by auto
  have "own_queue s b1 = filter (\<lambda>x. o_id x \<noteq> i) (own_queue s b)" for s
    by (rule without_filter [OF b1(3) D(3), folded ord(2)])
  with b' b1(1) show ?case by (auto simp: intro!: filter_cong)
qed

definition expired_at :: "u64 \<Rightarrow> Order \<Rightarrow> bool" where
  "expired_at n ord \<longleftrightarrow> o_expiry_block ord \<le> n"

lemma cleanup_expired_ok:
  assumes "clob_ok b"
  shows "\<exists>b'. cleanup_expired b n = Some (map o_id (filter (expired_at n) (live b)), b') \<and> clob_ok b' \<and>
     (\<forall>s. own_queue s b' = filter (\<lambda>ord. \<not> expired_at n ord) (own_queue s b))"
proof -
  let ?is = "map o_id (filter (expired_at n) (live b))"
  note d = clob_okD(3) [OF assms]
  have "distinct ?is" using d by (simp add: distinct_map_filter)
  then obtain b' where b': "cancel_all ?is b = Some b'" "clob_ok b'"
    "\<And>s. own_queue s b' = filter (\<lambda>ord. o_id ord \<notin> set ?is) (own_queue s b)"
    using cancel_all_ok [OF assms, of ?is] by auto
  have "o_id ord \<in> set ?is \<longleftrightarrow> expired_at n ord" if "ord \<in> set (own_queue s b)" for s ord
    using that d set_live [of b s] by (auto simp: distinct_map inj_on_def)
  then have "own_queue s b' = filter (\<lambda>ord. \<not> expired_at n ord) (own_queue s b)" for s
    unfolding b'(3) by (intro filter_cong) simp_all
  with b' show ?thesis by (simp add: cleanup_expired_def Let_def expired_at_def [abs_def] live_def)
qed

section \<open>Modification\<close>

definition resized :: "Side \<Rightarrow> Order \<Rightarrow> int \<Rightarrow> ClobBook \<Rightarrow> ClobBook \<Rightarrow> bool" where
  "resized s ord z b b' \<longleftrightarrow> opp_queue s b' = opp_queue s b \<and>
     (\<exists>xs ys. own_queue s b = xs @ ord # ys \<and> own_queue s b' = xs @ ord\<lparr>o_size := z\<rparr> # ys)"

definition requeued :: "Side \<Rightarrow> Order \<Rightarrow> Order \<Rightarrow> ClobBook \<Rightarrow> ClobBook \<Rightarrow> bool" where
  "requeued s ord ord' b b' \<longleftrightarrow> opp_queue s b' = opp_queue s b \<and>
     (\<exists>xs ys us vs. own_queue s b = xs @ ord # ys \<and> xs @ ys = us @ vs \<and> own_queue s b' = us @ ord' # vs \<and>
        (\<forall>y \<in> set us. ahead s (o_price ord') (o_price y)) \<and> (\<forall>y \<in> set vs. \<not> ahead s (o_price ord') (o_price y)))"

lemma modify_in_place:
  assumes ok: "clob_ok b" and ord: "ord \<in> set (live b)"
    and z: "side_agrees_with_size (o_side ord) z" "in_i128 z" and p: "o_price ord \<noteq> 0"
  shows "\<exists>b'. modify_order b (o_id ord) (o_price ord) z = Some (Inr (), b') \<and> clob_ok b' \<and> resized (o_side ord) ord z b b'"
proof -
  note D = clob_okD [OF ok] and idx = index_live [OF ok ord]
  have nz: "z \<noteq> 0" using z(1) by (simp add: side_agrees_with_size_def)
  have new: "order_ok (o_side ord) (ord\<lparr>o_size := z\<rparr>)" using z by (simp add: order_ok_def)
  have own: "ord \<in> set (own_queue (o_side ord) b)" using own_side ok ord by (simp add: clob_ok_sides)
  have dist: "distinct (map o_id (flat (cb_asks b)))" "distinct (map o_id (flat (cb_bids b)))" using D(3) by (simp_all add: live_def)
  have index: "map_of (map entry (us @ ord\<lparr>o_size := z\<rparr> # vs)) = map_of (map entry (us @ ord # vs))" for us vs
    by (simp add: entry_def location_def)
  show ?thesis
  proof (cases "o_side ord")
    case Long
    obtain m xs ys where m: "resize_in_level (bid_key ord) (o_id ord) z (cb_bids b) = Some m"
      "flat (cb_bids b) = xs @ ord # ys" "flat m = xs @ ord\<lparr>o_size := z\<rparr> # ys" "side_ok bid_key Long m"
      using resize_in_level_ok [OF D(2) dist(2), of ord z] own new Long by (auto simp: own_queue_def)
    have "clob_ok (b\<lparr>cb_bids := m\<rparr>)"
      using D m index [of "flat (cb_asks b) @ xs" ys] by (simp add: clob_ok_alt live_def)
    then show ?thesis using m idx p z(1) nz Long
      by (intro exI [of _ "b\<lparr>cb_bids := m\<rparr>"])
        (auto simp: modify_order_def location_def bid_key_def resized_def opp_queue_def own_queue_def)
  next
    case Short
    obtain m xs ys where m: "resize_in_level (o_price ord) (o_id ord) z (cb_asks b) = Some m"
      "flat (cb_asks b) = xs @ ord # ys" "flat m = xs @ ord\<lparr>o_size := z\<rparr> # ys" "side_ok o_price Short m"
      using resize_in_level_ok [OF D(1) dist(1), of ord z] own new Short by (auto simp: own_queue_def)
    have "clob_ok (b\<lparr>cb_asks := m\<rparr>)"
      using D m index [of xs "ys @ flat (cb_bids b)"] by (simp add: clob_ok_alt live_def)
    then show ?thesis using m idx p z(1) nz Short
      by (intro exI [of _ "b\<lparr>cb_asks := m\<rparr>"])
        (auto simp: modify_order_def location_def resized_def opp_queue_def own_queue_def)
  qed
qed

lemma modify_moved:
  assumes ok: "clob_ok b" and ord: "ord \<in> set (live b)"
    and z: "side_agrees_with_size (o_side ord) z" "in_i128 z" and p: "p \<noteq> 0" "p \<noteq> o_price ord"
  shows "\<exists>b'. modify_order b (o_id ord) p z = Some (Inr (), b') \<and> clob_ok b' \<and>
     requeued (o_side ord) ord (ord\<lparr>o_price := p, o_size := z\<rparr>) b b'"
proof -
  let ?s = "o_side ord" and ?x = "ord\<lparr>o_price := p, o_size := z\<rparr>"
  have nz: "z \<noteq> 0" using z(1) by (simp add: side_agrees_with_size_def)
  have sides: "sides_ok b" using ok by (simp add: clob_ok_sides)
  obtain b1 xs ys where b1: "remove_from_level b (location ord) (o_id ord) = Some (ord, b1)" "sides_ok b1"
    "cb_index b1 = cb_index b" "opp_queue ?s b1 = opp_queue ?s b"
    "own_queue ?s b = xs @ ord # ys" "own_queue ?s b1 = xs @ ys"
    using remove_from_level_ok [OF sides clob_okD(3) [OF ok] ord] by blast
  have x: "order_ok (o_side ?x) ?x" "o_side ?x = ?s" "o_price ?x = p" using z by (simp_all add: order_ok_def)
  obtain us vs where p1: "xs @ ys = us @ vs" "own_queue ?s (push_level b1 ?x) = us @ ?x # vs"
    "opp_queue ?s (push_level b1 ?x) = opp_queue ?s b" "sides_ok (push_level b1 ?x)"
    "\<forall>y \<in> set us. ahead ?s p (o_price y)" "\<forall>y \<in> set vs. \<not> ahead ?s p (o_price y)"
    using push_level_ok [OF b1(2) x(1)] unfolding x(2,3) b1(4,6) by blast
  let ?b = "(push_level b1 ?x)\<lparr>cb_index := (cb_index b)(o_id ord \<mapsto> location ?x)\<rparr>"
  have "modify_order b (o_id ord) p z = Some (Inr (), ?b)"
    using index_live [OF ok ord] b1(1,3) p z(1) nz
    by (cases ?s) (auto simp: modify_order_def location_def push_level_def Let_def)
  moreover have "requeued ?s ord ?x b ?b"
    unfolding requeued_def queues_update_index x(3) using b1(5) p1(1,2,3,5,6) by blast
  moreover have "clob_ok ?b"
  proof -
    let ?b1 = "b1\<lparr>cb_index := (cb_index b)(o_id ord := None)\<rparr>"
    obtain as bs where l1: "live b = as @ [ord] @ bs" "live ?b1 = as @ [] @ bs"
      using live_around [of ?s b xs "[ord]" ys ?b1 "[]"] b1(4,5,6) by auto
    then have ok1: "clob_ok ?b1" using b1(2) by (intro clob_ok_drop [OF ok, of ?b1 ord as bs]) simp_all
    have fresh: "o_id ?x \<notin> o_id ` set (live ?b1)" using l1 clob_okD(3) [OF ok] by auto
    obtain cs ds where "live ?b1 = cs @ [] @ ds" "live ?b = cs @ [?x] @ ds"
      using live_around [of ?s ?b1 us "[]" vs ?b "[?x]"] p1(1,2,3) b1(4,6) by auto
    then show ?thesis using p1(4) fresh
      by (intro clob_ok_add [OF ok1, of ?x ?b cs ds]) (auto simp: sides_ok_def fun_eq_iff)
  qed
  ultimately show ?thesis by blast
qed

end
