(* ===== verification/Clob_Properties.thy ===== *)
theory Clob_Properties
  imports Clob_Lifecycle
begin

text \<open>
  The properties of the public order book: the invariant, price-time priority as greedy consumption,
  conservation of quantity, the one input that panics, and what cancel, modify and expiry do.
\<close>

section \<open>What the greedy sweep leaves and reports\<close>

lemma quantity_shrink [simp]: "quantity (shrink ord n) = n"
  by (simp add: quantity_def shrink_def abs_mult)

lemma greedy_no_results: "greedy stop trade q rem = (q', rem', []) \<Longrightarrow> q' = q \<and> rem' = rem"
  by (cases q) (auto split: if_splits prod.splits)

lemma greedy_remainder_stops:
  assumes "greedy stop trade q rem = (q', rem', rs)" and "0 < rem'" and "sorted_wrt (\<lambda>x y. stop x \<longrightarrow> stop y) q"
  shows "\<forall>x \<in> set q'. stop x"
  using assms
proof (induction q arbitrary: rem rs)
  case (Cons ord q)
  show ?case
  proof (cases "rem = 0 \<or> stop ord \<or> rem < quantity ord")
    case True
    then show ?thesis using Cons.prems by (cases "rem = 0"; cases "stop ord"; force)
  next
    case False
    then obtain rs' where "greedy stop trade q (rem - quantity ord) = (q', rem', rs')"
      using Cons.prems(1) by (auto split: prod.splits if_splits)
    moreover have "sorted_wrt (\<lambda>x y. stop x \<longrightarrow> stop y) q" using Cons.prems(3) by (simp only: sorted_wrt.simps)
    ultimately show ?thesis using Cons.IH Cons.prems(2) by blast
  qed
qed simp

definition traded :: "MatchResult list \<Rightarrow> nat" where
  "traded rs = sum_list (map (\<lambda>r. nat (mt_size (mr_trade r))) rs)"

definition depth_of :: "Order list \<Rightarrow> nat" where
  "depth_of q = sum_list (map quantity q)"

lemma totals_simps [simp]:
  "traded [] = 0" "traded (r # rs) = nat (mt_size (mr_trade r)) + traded rs"
  "depth_of [] = 0" "depth_of (ord # q) = quantity ord + depth_of q" "depth_of (q @ q') = depth_of q + depth_of q'"
  by (simp_all add: traded_def depth_of_def)

lemma match_result_simps [simp]:
  "mr_trade (match_result t i m r) = t" "mr_maker_order_id (match_result t i m r) = i"
  by (simp_all add: match_result_def)

definition exact_trade :: "Order list \<Rightarrow> (Order \<Rightarrow> bool) \<Rightarrow> (Order \<Rightarrow> nat \<Rightarrow> MatchedTrade) \<Rightarrow> MatchResult \<Rightarrow> bool" where
  "exact_trade q stop trade r \<longleftrightarrow> (\<exists>mk \<in> set q. \<exists>n. 0 < n \<and> n \<le> quantity mk \<and> \<not> stop mk \<and>
     mr_trade r = trade mk n \<and> mr_maker_order_id r = o_id mk \<and> mt_size (mr_trade r) = int n)"

lemma greedy_results:
  assumes "greedy stop trade q rem = (q', rem', rs)" and "\<forall>ord \<in> set q. order_ok s ord"
    and "rem \<le> 2 ^ 127" and "s = Short \<Longrightarrow> rem < 2 ^ 127"
    and size: "\<And>ord n. mt_size (trade ord n) = wrap_i128 (int n)"
  shows "rem = rem' + traded rs \<and> depth_of q = depth_of q' + traded rs \<and>
     (\<forall>r \<in> set rs. exact_trade q stop trade r)"
  using assms(1-4)
proof (induction q arbitrary: rem rs)
  case (Cons ord q)
  note ok = order_ok_quantity [of s ord]
  have exact: "mt_size (trade ord n) = int n" if "n < 2 ^ 127" for n
    unfolding size by (rule wrap_i128_id) (use that in \<open>auto simp: in_i128_def\<close>)
  consider (stop) "rem = 0 \<or> stop ord" | (full) "0 < rem" "\<not> stop ord" "quantity ord \<le> rem"
    | (part) "0 < rem" "\<not> stop ord" "rem < quantity ord" by linarith
  then show ?case
  proof cases
    case full
    then obtain rs' where g: "greedy stop trade q (rem - quantity ord) = (q', rem', rs')"
      "rs = match_result (trade ord (quantity ord)) (o_id ord) 0 (rem - quantity ord) # rs'"
      using Cons.prems(1) by (auto split: prod.splits)
    have "quantity ord < 2 ^ 127" using ok(3) Cons.prems(2,4) full(3) by (cases s) auto
    then have sz: "mt_size (trade ord (quantity ord)) = int (quantity ord)" by (rule exact)
    have "0 < quantity ord" using ok(1) Cons.prems(2) by simp
    moreover have "rem - quantity ord = rem' + traded rs' \<and> depth_of q = depth_of q' + traded rs' \<and>
        (\<forall>r \<in> set rs'. exact_trade q stop trade r)"
      using Cons.IH [OF g(1)] Cons.prems(2-4) by fastforce
    ultimately show ?thesis using full g(2) sz by (auto simp: exact_trade_def)
  next
    case part
    then have "rem < 2 ^ 127" using ok(2) Cons.prems(2) by auto
    then have "mt_size (trade ord rem) = int rem" by (rule exact)
    with part Cons.prems show ?thesis by (auto simp: exact_trade_def)
  qed (use Cons.prems in auto)
qed simp

section \<open>Order of the queues\<close>

lemma side_ok_sorted: "side_ok key s m \<Longrightarrow> sorted_wrt (\<lambda>x y. key x \<le> key y) (flat m)"
proof (induction m)
  case (Cons e m)
  obtain k q where e: "e = (k, q)" by (cases e)
  have "side_ok key s ([] @ (k, q) # m)" using Cons.prems e by simp
  note after = flat_around_key(2) [OF this]
  have q: "\<forall>x \<in> set q. key x = k" "side_ok key s m" using Cons.prems e by (simp_all add: side_ok_Cons)
  have "sorted_wrt (\<lambda>x y. key x \<le> key y) q" using q(1) by (induction q) auto
  with Cons.IH [OF q(2)] after q(1) e show ?case by (force simp: sorted_wrt_append)
qed simp

lemma opp_queue_stops:
  assumes "sides_ok b"
  shows "sorted_wrt (\<lambda>x y. beyond ord x \<longrightarrow> beyond ord y) (opp_queue (o_side ord) b)"
proof (cases "o_side ord")
  case Long
  have "sorted_wrt (\<lambda>x y. o_price x \<le> o_price y) (flat (cb_asks b))"
    using assms side_ok_sorted unfolding sides_ok_def by blast
  then show ?thesis using Long
    by (auto simp: opp_queue_def beyond_def elim!: sorted_wrt_mono_rel [rotated])
next
  case Short
  have "sorted_wrt (\<lambda>x y. bid_key x \<le> bid_key y) (flat (cb_bids b))"
    using assms side_ok_sorted unfolding sides_ok_def by blast
  then show ?thesis using Short
    by (auto simp: opp_queue_def beyond_def bid_key_def less_eq_Reverse_def elim!: sorted_wrt_mono_rel [rotated])
qed

text \<open>A side's map is determined by its queue.\<close>

lemma side_ok_unique: "side_ok key s m \<Longrightarrow> side_ok key s m' \<Longrightarrow> flat m = flat m' \<Longrightarrow> m = m'"
proof (induction m arbitrary: m')
  case Nil
  then show ?case by (cases m') (auto simp: side_ok_Cons)
next
  case (Cons e m)
  obtain k q where e: "e = (k, q)" by (cases e)
  have q: "q \<noteq> []" "\<forall>x \<in> set q. key x = k" "side_ok key s m" using Cons.prems(1) e by (auto simp: side_ok_Cons)
  obtain k' q' m1 where m': "m' = (k', q') # m1"
    using Cons.prems(3) q(1) e by (cases m') auto
  have q': "q' \<noteq> []" "\<forall>x \<in> set q'. key x = k'" "side_ok key s m1" using Cons.prems(2) m' by (auto simp: side_ok_Cons)
  have fl: "q @ flat m = q' @ flat m1" using Cons.prems(3) e m' by simp
  have kk: "k = k'" using fl q(1,2) q'(1,2) by (cases q; cases q') auto
  have head: "takeWhile (\<lambda>x. key x = k) (r @ flat n) = r"
    if "side_ok key s ((k, r) # n)" for r n
  proof -
    have "\<forall>y \<in> set (flat n). k < key y" using flat_around_key(2) [of key s "[]" k r n] that by simp
    moreover have "\<forall>x \<in> set r. key x = k" using that by (simp add: side_ok_Cons)
    ultimately show ?thesis by (cases "flat n") (auto simp: takeWhile_append)
  qed
  have "q = q'" using head [of q m] head [of q' m1] Cons.prems(1,2) e m' kk fl by simp
  with Cons.IH [OF q(3) q'(3)] fl kk e m' show ?case by simp
qed

lemma clob_ok_unique:
  assumes "clob_ok b" and "clob_ok b'" and "\<And>s. own_queue s b = own_queue s b'"
  shows "b = b'"
proof -
  have "cb_asks b = cb_asks b'" "cb_bids b = cb_bids b'"
    using clob_okD(1,2) [OF assms(1)] clob_okD(1,2) [OF assms(2)] assms(3) [of Long] assms(3) [of Short]
    by (auto simp: own_queue_def intro: side_ok_unique)
  moreover from this have "cb_index b = cb_index b'"
    using clob_okD(4) [OF assms(1)] clob_okD(4) [OF assms(2)] by (simp add: live_def)
  ultimately show ?thesis by simp
qed

section \<open>Facts about one accepted order\<close>

lemma process_rejected: "\<not> accepted b ord \<Longrightarrow> process_order b ord = Some ([], b)"
  by (simp add: process_order_def accepted_def)

lemma beyond_head:
  assumes "sides_ok b" and "o_side ord = Short"
  shows "(opp_queue Short b = [] \<or> beyond ord (hd (opp_queue Short b))) \<longleftrightarrow>
     (case clob_best_bid b of None \<Rightarrow> True | Some p \<Rightarrow> p < o_price ord)"
proof (cases "cb_bids b")
  case (Cons e m)
  obtain k q where e: "e = (k, q)" by (cases e)
  have "side_ok bid_key Long ((k, q) # m)" using assms(1) Cons e by (simp add: sides_ok_def)
  then have "q \<noteq> []" "\<forall>x \<in> set q. bid_key x = k" by (simp_all add: side_ok_Cons)
  then show ?thesis using Cons e assms(2)
    by (cases q) (auto simp: clob_best_bid_def opp_queue_def beyond_def bid_key_def)
qed (simp add: clob_best_bid_def opp_queue_def)

text \<open>More than \<open>i128::MAX\<close> can only be left of a short order of size \<open>i128::MIN\<close> that met no bid.\<close>

lemma swept_min_size:
  assumes ok: "clob_ok b" and acc: "accepted b ord" and rng: "in_i128 (o_size ord)" and sw: "swept b ord = (Q, rem, rs)"
  shows "2 ^ 127 \<le> rem \<longleftrightarrow> o_size ord = - (2 ^ 127) \<and>
    (case clob_best_bid b of None \<Rightarrow> True | Some p \<Rightarrow> p < o_price ord)"
proof -
  have ord: "order_ok (o_side ord) ord" using acc rng by (simp add: accepted_def validate_ok)
  have sides: "sides_ok b" using ok by (simp add: clob_ok_sides)
  note g = sw [unfolded swept_def]
  have le: "rem \<le> quantity ord" by (rule greedy_rem_le [OF g])
  have qm: "2 ^ 127 \<le> quantity ord \<longleftrightarrow> o_size ord = - (2 ^ 127)"
    using rng by (auto simp: quantity_def in_i128_def)
  have short: "o_side ord = Short" if "o_size ord = - (2 ^ 127)"
    using ord that by (cases "o_side ord") (auto simp: order_ok_def side_agrees_with_size_def)
  show ?thesis
  proof (cases "o_size ord = - (2 ^ 127)")
    case False
    with qm le show ?thesis by auto
  next
    case True
    then have q: "quantity ord = 2 ^ 127" by (simp add: quantity_def)
    have s: "o_side ord = Short" by (rule short [OF True])
    have "2 ^ 127 \<le> rem \<longleftrightarrow> opp_queue Short b = [] \<or> beyond ord (hd (opp_queue Short b))"
    proof (cases "opp_queue Short b")
      case (Cons mk q')
      have "order_ok Long mk" using sides Cons side_ok_flat unfolding sides_ok_def opp_queue_def
        by (metis Side.simps(4) list.set_intros(1))
      then have "0 < quantity mk" by (rule order_ok_quantity)
      then show ?thesis using g Cons s q
        by (auto split: if_splits prod.splits dest!: greedy_rem_le)
    qed (use g s q in simp)
    with beyond_head [OF sides s] True show ?thesis by simp
  qed
qed

lemma insert_resting_panics: "2 ^ 127 \<le> rem \<Longrightarrow> insert_resting b ord rem = None"
  by (simp add: insert_resting_def set_quantity_def)

lemma process_panics:
  assumes ok: "clob_ok b" and acc: "accepted b ord" and sw: "swept b ord = (Q, rem, rs)" and rem: "2 ^ 127 \<le> rem"
  shows "process_order b ord = None"
proof -
  obtain b1 where "(case o_side ord of
        Long \<Rightarrow> match_against_asks b (o_id ord) (o_price ord) (quantity ord) []
      | Short \<Rightarrow> match_against_bids b (o_id ord) (o_price ord) (quantity ord) []) = Some (b1, rem, rs)"
    using sweep_side_ok [OF ok sw] by blast
  then show ?thesis using acc rem by (simp add: process_order_def accepted_def insert_resting_panics)
qed

definition clob_uncrossed :: "ClobBook \<Rightarrow> bool" where
  "clob_uncrossed b \<longleftrightarrow> (\<forall>x \<in> set (own_queue Long b). \<forall>y \<in> set (own_queue Short b). o_price x < o_price y)"

lemma uncrossed_sub:
  assumes "clob_uncrossed b"
    and "\<And>s x'. x' \<in> set (own_queue s b') \<Longrightarrow> \<exists>x \<in> set (own_queue s b). o_price x' = o_price x"
  shows "clob_uncrossed b'"
  using assms unfolding clob_uncrossed_def by metis

text \<open>Everything a successful call of \<open>process_order\<close> on an accepted order does.\<close>

lemma process_accepted:
  assumes ok: "clob_ok b" and acc: "accepted b ord" and rng: "in_i128 (o_size ord)"
    and run: "process_order b ord = Some (rs, b')"
  obtains Q rem xs ys where "swept b ord = (Q, rem, rs)" "rem < 2 ^ 127" "clob_ok b'"
    "opp_queue (o_side ord) b' = Q" "own_queue (o_side ord) b = xs @ ys"
    "own_queue (o_side ord) b' = xs @ (if rem = 0 then [] else [shrink ord rem]) @ ys"
    "\<forall>y \<in> set xs. ahead (o_side ord) (o_price ord) (o_price y)"
    "\<forall>y \<in> set ys. 0 < rem \<longrightarrow> \<not> ahead (o_side ord) (o_price ord) (o_price y)"
proof -
  obtain Q rem rs' where sw: "swept b ord = (Q, rem, rs')" by (metis prod_cases3)
  have rem: "rem < 2 ^ 127" using process_panics [OF ok acc sw] run by (cases "rem < 2 ^ 127") auto
  from process_order_ok [OF ok acc rng sw rem] run that sw rem show thesis by auto
qed

section \<open>Reachable books\<close>

inductive clob_reachable :: "ClobBook \<Rightarrow> bool" where
  new: "clob_reachable clob_new"
| process: "clob_reachable b \<Longrightarrow> in_i128 (o_size ord) \<Longrightarrow> process_order b ord = Some (rs, b') \<Longrightarrow> clob_reachable b'"
| cancel: "clob_reachable b \<Longrightarrow> cancel_order b i = Some (r, b') \<Longrightarrow> clob_reachable b'"
| modify: "clob_reachable b \<Longrightarrow> in_i128 z \<Longrightarrow> modify_order b i p z = Some (u, b') \<Longrightarrow> clob_reachable b'"
| expire: "clob_reachable b \<Longrightarrow> cleanup_expired b n = Some (ids, b') \<Longrightarrow> clob_reachable b'"

lemma cancel_order_total:
  assumes "clob_ok b"
  shows "\<exists>r b'. cancel_order b i = Some (r, b') \<and> clob_ok b'"
proof (cases "i \<in> o_id ` set (live b)")
  case True
  then show ?thesis using cancel_order_ok [OF assms] by blast
qed (simp add: cancel_order_missing assms)

lemma live_price_nonzero_moved:
  "ord \<in> set (live b) \<Longrightarrow> clob_ok b \<Longrightarrow> side_agrees_with_size (o_side ord) z \<Longrightarrow> in_i128 z \<Longrightarrow> p \<noteq> 0 \<Longrightarrow>
   \<exists>b'. modify_order b (o_id ord) p z = Some (Inr (), b') \<and> clob_ok b'"
  using modify_in_place [of b ord z] modify_moved [of b ord z p] by (cases "p = o_price ord") auto

lemma modify_order_missing:
  "clob_ok b \<Longrightarrow> i \<notin> o_id ` set (live b) \<Longrightarrow> \<exists>e. modify_order b i p z = Some (Inl e, b)"
  using contains_iff [of b i] by (simp add: modify_order_def clob_contains_def)

lemma modify_order_total:
  assumes ok: "clob_ok b" and z: "in_i128 z"
  shows "\<exists>r b'. modify_order b i p z = Some (r, b') \<and> clob_ok b'"
proof (cases "i \<in> o_id ` set (live b)")
  case True
  then obtain ord where ord: "ord \<in> set (live b)" "i = o_id ord" by auto
  show ?thesis
  proof (cases "p \<noteq> 0 \<and> side_agrees_with_size (o_side ord) z")
    case True
    with live_price_nonzero_moved [OF ord(1) ok _ z] ord(2) show ?thesis by blast
  next
    case False
    with index_live [OF ok ord(1)] ord(2) ok show ?thesis
      by (auto simp: modify_order_def location_def)
  qed
next
  case False
  with modify_order_missing [OF ok] ok show ?thesis by fast
qed

lemma process_order_keeps_ok:
  assumes "clob_ok b" and "in_i128 (o_size ord)" and "process_order b ord = Some (rs, b')"
  shows "clob_ok b'"
proof (cases "accepted b ord")
  case True
  from process_accepted [OF assms(1) True assms(2,3)] show ?thesis by blast
qed (use assms process_rejected in auto)

lemma clob_reachable_ok: "clob_reachable b \<Longrightarrow> clob_ok b"
proof (induction rule: clob_reachable.induct)
  case (process b ord rs b')
  then show ?case using process_order_keeps_ok by blast
next
  case (cancel b i r b')
  then show ?case using cancel_order_total [of b i] by auto
next
  case (modify b z i p u b')
  then show ?case using modify_order_total [of b z i p] by auto
next
  case (expire b n ids b')
  then show ?case using cleanup_expired_ok [of b n] by auto
qed (rule clob_new_ok)

lemma find_level_by_id:
  assumes "side_ok key s m" and "distinct (map o_id (flat m))" and "ord \<in> set (flat m)"
  shows "\<exists>q. bt_get m (key ord) = Some q \<and> find (\<lambda>x. o_id x = o_id ord) q = Some ord"
proof -
  have inv: "bt_inv m" using assms(1) by (simp add: side_ok_def)
  obtain q where q: "bt_get m (key ord) = Some q" "ord \<in> set q" using side_ok_find_level [OF assms(1,3)] by blast
  obtain m1 m2 where m: "m = m1 @ (key ord, q) # m2" using bt_at_key [OF inv q(1)] by metis
  have "distinct (map o_id q)" using assms(2) m by simp
  with q split_by_id(1) show ?thesis by blast
qed

lemma clob_order_iff:
  assumes ok: "clob_ok b"
  shows "clob_order b i = Some ord \<longleftrightarrow> ord \<in> set (live b) \<and> o_id ord = i"
proof -
  note D = clob_okD [OF ok]
  have found: "clob_order b (o_id x) = Some x" if x: "x \<in> set (live b)" for x
  proof (cases "o_side x")
    case Long
    have "x \<in> set (flat (cb_bids b))" using own_side [of b x] ok x Long by (simp add: clob_ok_sides own_queue_def)
    with find_level_by_id [OF D(2), of x] D(3) index_live [OF ok x] Long show ?thesis
      by (auto simp: clob_order_def level_at_def location_def live_def bid_key_def)
  next
    case Short
    have "x \<in> set (flat (cb_asks b))" using own_side [of b x] ok x Short by (simp add: clob_ok_sides own_queue_def)
    with find_level_by_id [OF D(1), of x] D(3) index_live [OF ok x] Short show ?thesis
      by (auto simp: clob_order_def level_at_def location_def live_def)
  qed
  moreover have "cb_index b i = None" if "i \<notin> o_id ` set (live b)"
    using contains_iff [OF ok, of i] that by (simp add: clob_contains_def)
  ultimately have "clob_order b i = None" if "i \<notin> o_id ` set (live b)" using that by (simp add: clob_order_def)
  with found show ?thesis by (metis imageE option.distinct(1) option.inject)
qed

lemma process_uncrossed:
  assumes ok: "clob_ok b" and un: "clob_uncrossed b" and rng: "in_i128 (o_size ord)"
    and run: "process_order b ord = Some (rs, b')"
  shows "clob_uncrossed b'"
proof (cases "accepted b ord")
  case False
  then show ?thesis using process_rejected run un by simp
next
  case True
  let ?s = "o_side ord"
  obtain Q rem xs ys where P: "swept b ord = (Q, rem, rs)" "opp_queue ?s b' = Q" "own_queue ?s b = xs @ ys"
    "own_queue ?s b' = xs @ (if rem = 0 then [] else [shrink ord rem]) @ ys"
    using process_accepted [OF ok True rng run] by metis
  have sides: "sides_ok b" using ok by (simp add: clob_ok_sides)
  note g = P(1) [unfolded swept_def]
  have stops: "\<forall>x \<in> set Q. beyond ord x" if "0 < rem"
    by (rule greedy_remainder_stops [OF g that opp_queue_stops [OF sides]])
  obtain s where ok_opp: "\<forall>mk \<in> set (opp_queue ?s b). order_ok s mk"
    using side_ok_flat [of o_price Short "cb_asks b"] side_ok_flat [of bid_key Long "cb_bids b"] sides
    unfolding sides_ok_def opp_queue_def by (cases ?s) auto
  have opp: "\<exists>x \<in> set (opp_queue ?s b). o_price y = o_price x" if "y \<in> set Q" for y
    using greedy_keeps [OF g ok_opp] that by (fastforce simp: location_def)
  show ?thesis
  proof (cases ?s)
    case Long
    with P(2-4) opp stops un show ?thesis
      by (fastforce simp: clob_uncrossed_def own_queue_def opp_queue_def beyond_def shrink_def split: if_splits)
  next
    case Short
    with P(2-4) opp stops un show ?thesis
      by (fastforce simp: clob_uncrossed_def own_queue_def opp_queue_def beyond_def shrink_def split: if_splits)
  qed
qed

section \<open>The properties\<close>

definition ask1 :: Order where
  "ask1 = \<lparr>o_id = 1, o_side = Short, o_price = 100, o_size = - 5, o_expiry_block = 10, o_signature = []\<rparr>"

definition bid2 :: Order where
  "bid2 = \<lparr>o_id = 2, o_side = Long, o_price = 90, o_size = 3, o_expiry_block = 20, o_signature = []\<rparr>"

definition example_clob :: ClobBook where
  "example_clob = \<lparr>cb_asks = [(100, [ask1])], cb_bids = [(Reverse 90, [bid2])],
     cb_index = [1 \<mapsto> \<lparr>loc_side = Short, loc_price = 100\<rparr>, 2 \<mapsto> \<lparr>loc_side = Long, loc_price = 90\<rparr>]\<rparr>"

lemmas clob_eval = ask1_def bid2_def example_clob_def clob_new_def process_order_def validate_def
  side_agrees_with_size_def clob_contains_def match_against_asks_def match_against_bids_def quantity_def
  insert_resting_def set_quantity_def push_level_def bt_push_def bt_get_def Let_def in_i128_def

lemma example_clob_steps:
  "process_order clob_new ask1 = Some ([], clob_new\<lparr>cb_asks := [(100, [ask1])], cb_index := [1 \<mapsto> \<lparr>loc_side = Short, loc_price = 100\<rparr>]\<rparr>)"
  "process_order (clob_new\<lparr>cb_asks := [(100, [ask1])], cb_index := [1 \<mapsto> \<lparr>loc_side = Short, loc_price = 100\<rparr>]\<rparr>) bid2 = Some ([], example_clob)"
  by (simp_all add: clob_eval)

lemma example_clob_reachable: "clob_reachable example_clob"
proof -
  have "clob_reachable (clob_new\<lparr>cb_asks := [(100, [ask1])], cb_index := [1 \<mapsto> \<lparr>loc_side = Short, loc_price = 100\<rparr>]\<rparr>)"
    by (rule clob_reachable.process [OF clob_reachable.new _ example_clob_steps(1)]) (simp add: ask1_def in_i128_def)
  then show ?thesis
    by (rule clob_reachable.process [OF _ _ example_clob_steps(2)]) (simp add: bid2_def in_i128_def)
qed

lemmas example_clob_ok = clob_reachable_ok [OF example_clob_reachable]

lemma example_clob_live [simp]: "live example_clob = [ask1, bid2]"
  by (simp add: live_def example_clob_def)

text \<open>
  In every book reachable by any mix of process, cancel, modify and expiry calls, with arbitrary
  arguments, the maps and the id index agree: ids are unique, every level holds a non-empty queue of
  orders of its own side and price with the matching size sign, a lookup by id finds exactly the live
  order with that id, and cancel, modify and expiry return without a panic.
\<close>

theorem clob_index_agrees:
  assumes "clob_reachable b"
  shows "clob_ok b \<and> (\<forall>i ord. clob_order b i = Some ord \<longleftrightarrow> ord \<in> set (live b) \<and> o_id ord = i) \<and>
    (\<forall>i. cancel_order b i \<noteq> None) \<and> (\<forall>i p z. in_i128 z \<longrightarrow> modify_order b i p z \<noteq> None) \<and>
    (\<forall>n. cleanup_expired b n \<noteq> None)"
proof -
  note ok = clob_reachable_ok [OF assms]
  have "cancel_order b i \<noteq> None" for i using cancel_order_total [OF ok, of i] by auto
  moreover have "modify_order b i p z \<noteq> None" if "in_i128 z" for i p z using modify_order_total [OF ok that, of i p] by auto
  moreover have "cleanup_expired b n \<noteq> None" for n using cleanup_expired_ok [OF ok, of n] by auto
  ultimately show ?thesis using ok clob_order_iff [OF ok] by auto
qed

theorem clob_index_agrees_witness: "clob_order example_clob 2 = Some bid2 \<and> clob_order example_clob 3 = None"
proof -
  from clob_index_agrees [OF example_clob_reachable]
  have iff: "clob_order example_clob i = Some ord \<longleftrightarrow> ord \<in> set (live example_clob) \<and> o_id ord = i" for i ord by blast
  have "clob_order example_clob 2 = Some bid2" unfolding iff by (simp add: bid2_def)
  moreover have "clob_order example_clob 3 \<noteq> Some ord" for ord unfolding iff by (auto simp: ask1_def bid2_def)
  ultimately show ?thesis using not_None_eq by metis
qed

text \<open>
  C33: Processing an accepted order is the greedy walk down the opposite side's single queue in
  price-time order: the reported trades, the queue left behind and the unfilled remainder are those of
  the walk, and a remainder joins its own side behind every order at an equal or better price and in
  front of every worse one.  The one excluded input is a short order of size \<open>i128::MIN\<close> that meets
  no bid.
\<close>

theorem clob_process_refines_queue:
  assumes "clob_ok b" and "accepted b ord" and "in_i128 (o_size ord)" and "o_size ord \<noteq> - (2 ^ 127)"
  shows "\<exists>Q rem rs b' xs ys. swept b ord = (Q, rem, rs) \<and> process_order b ord = Some (rs, b') \<and>
     opp_queue (o_side ord) b' = Q \<and> own_queue (o_side ord) b = xs @ ys \<and>
     own_queue (o_side ord) b' = xs @ (if rem = 0 then [] else [shrink ord rem]) @ ys \<and>
     (\<forall>y \<in> set xs. ahead (o_side ord) (o_price ord) (o_price y)) \<and>
     (\<forall>y \<in> set ys. 0 < rem \<longrightarrow> \<not> ahead (o_side ord) (o_price ord) (o_price y))"
proof -
  obtain Q rem rs where sw: "swept b ord = (Q, rem, rs)" by (metis prod_cases3)
  have "rem < 2 ^ 127" using swept_min_size [OF assms(1-3) sw] assms(4) by auto
  from process_order_ok [OF assms(1-3) sw this] sw show ?thesis by blast
qed

theorem clob_process_refines_queue_witness:
  "\<exists>b'. process_order example_clob (bid2\<lparr>o_id := 7, o_price := 120, o_size := 2\<rparr>) =
     Some ([match_result (ask_trade 7 100 1 2) 1 3 0], b') \<and> opp_queue Long b' = [ask1\<lparr>o_size := - 3\<rparr>]"
proof -
  let ?ord = "bid2\<lparr>o_id := 7, o_price := 120, o_size := 2\<rparr>"
  have "accepted example_clob ?ord" "in_i128 (o_size ?ord)" "o_size ?ord \<noteq> - (2 ^ 127)"
    by (simp_all add: accepted_def clob_eval)
  from clob_process_refines_queue [OF example_clob_ok this] show ?thesis
    by (auto simp: swept_def opp_queue_def beyond_def maker_trade_def shrink_def clob_eval)
qed

text \<open>
  An accepted order that goes through without a panic trades exact positive quantities, each
  against a resting order of the other side that its limit reaches, at that order's price; the traded
  total plus what stays is the order's quantity, the other side loses exactly the traded total and the
  own side gains exactly the remainder.
\<close>

theorem clob_trades_conserve_quantity:
  assumes "clob_ok b" and "accepted b ord" and "in_i128 (o_size ord)" and "process_order b ord = Some (rs, b')"
  shows "\<exists>rem. quantity ord = rem + traded rs \<and>
     depth_of (opp_queue (o_side ord) b) = depth_of (opp_queue (o_side ord) b') + traded rs \<and>
     depth_of (own_queue (o_side ord) b') = depth_of (own_queue (o_side ord) b) + rem \<and>
     (\<forall>r \<in> set rs. exact_trade (opp_queue (o_side ord) b) (beyond ord) (maker_trade ord) r)"
proof -
  obtain Q rem xs ys where P: "swept b ord = (Q, rem, rs)" "opp_queue (o_side ord) b' = Q"
    "own_queue (o_side ord) b = xs @ ys" "own_queue (o_side ord) b' = xs @ (if rem = 0 then [] else [shrink ord rem]) @ ys"
    using process_accepted [OF assms] by metis
  define s where "s = (case o_side ord of Long \<Rightarrow> Short | Short \<Rightarrow> Long)"
  have ord: "order_ok (o_side ord) ord" using assms(2,3) by (simp add: accepted_def validate_ok)
  have "\<forall>mk \<in> set (opp_queue (o_side ord) b). order_ok s mk"
    using side_ok_flat [OF clob_okD(1) [OF assms(1)]] side_ok_flat [OF clob_okD(2) [OF assms(1)]]
    by (cases "o_side ord") (simp_all add: s_def opp_queue_def)
  moreover have "quantity ord \<le> 2 ^ 127" "s = Short \<Longrightarrow> quantity ord < 2 ^ 127"
    using order_ok_quantity(2,3) [OF ord] by (cases "o_side ord"; simp add: s_def)+
  moreover have "mt_size (maker_trade ord mk n) = wrap_i128 (int n)" for mk n
    by (cases "o_side ord") (simp_all add: maker_trade_def ask_trade_def bid_trade_def)
  ultimately have "quantity ord = rem + traded rs \<and>
      depth_of (opp_queue (o_side ord) b) = depth_of Q + traded rs \<and>
      (\<forall>r \<in> set rs. exact_trade (opp_queue (o_side ord) b) (beyond ord) (maker_trade ord) r)"
    using greedy_results [OF P(1) [unfolded swept_def]] by blast
  then show ?thesis using P(2-4) by (intro exI [of _ rem]) simp
qed

theorem clob_trades_conserve_quantity_witness:
  "\<exists>rs b'. process_order example_clob (bid2\<lparr>o_id := 7, o_price := 120, o_size := 9\<rparr>) = Some (rs, b') \<and>
     9 = 4 + traded rs \<and> depth_of (own_queue Long b') = 7"
proof -
  let ?ord = "bid2\<lparr>o_id := 7, o_price := 120, o_size := 9\<rparr>"
  have acc: "accepted example_clob ?ord" "in_i128 (o_size ?ord)" by (simp_all add: accepted_def clob_eval)
  obtain rs b' where run: "process_order example_clob ?ord = Some (rs, b')" "length rs = 1" "traded rs = 5"
    by (simp add: clob_eval match_result_def ask_trade_def traded_def wrap_i128_def)
  have "depth_of (own_queue Long example_clob) = 3" by (simp add: own_queue_def clob_eval)
  with clob_trades_conserve_quantity [OF example_clob_ok acc run(1)] run show ?thesis
    by (intro exI [of _ rs] exI [of _ b']) (auto simp: bid2_def quantity_def)
qed

text \<open>
  C40: On a well-formed book the only accepted order that makes \<open>process_order\<close> panic is a short order
  of size \<open>i128::MIN\<close> whose price is above every bid: nothing trades, and resting a quantity of
  \<open>2^127\<close> is not representable.
\<close>

theorem clob_process_panics_iff:
  assumes "clob_ok b" and "in_i128 (o_size ord)"
  shows "process_order b ord = None \<longleftrightarrow> accepted b ord \<and> o_size ord = - (2 ^ 127) \<and>
    (case clob_best_bid b of None \<Rightarrow> True | Some p \<Rightarrow> p < o_price ord)"
proof (cases "accepted b ord")
  case True
  obtain Q rem rs where sw: "swept b ord = (Q, rem, rs)" by (metis prod_cases3)
  note size = swept_min_size [OF assms(1) True assms(2) sw]
  show ?thesis
  proof (cases "2 ^ 127 \<le> rem")
    case big: True
    with process_panics [OF assms(1) True sw] size True show ?thesis by simp
  next
    case False
    then have "rem < 2 ^ 127" by simp
    with process_order_ok [OF assms(1) True assms(2) sw] size False show ?thesis by auto
  qed
qed (simp add: process_rejected)

theorem clob_process_panics_iff_witness:
  "process_order example_clob (ask1\<lparr>o_id := 9, o_size := - (2 ^ 127)\<rparr>) = None"
proof -
  let ?ord = "ask1\<lparr>o_id := 9, o_size := - (2 ^ 127)\<rparr>"
  have "in_i128 (o_size ?ord)" by (simp add: in_i128_def)
  from clob_process_panics_iff [OF example_clob_ok this] show ?thesis
    by (simp add: accepted_def clob_eval clob_best_bid_def)
qed

text \<open>
  An accepted order that trades nothing can be taken back: cancelling its id returns the order as
  it was sent and restores the book, both maps and the index, exactly.
\<close>

theorem clob_rest_cancel_round_trip:
  assumes "clob_ok b" and "accepted b ord" and "in_i128 (o_size ord)" and "process_order b ord = Some ([], b')"
  shows "cancel_order b' (o_id ord) = Some (Inr ord, b)"
proof -
  have ord: "order_ok (o_side ord) ord" using assms(2,3) by (simp add: accepted_def validate_ok)
  obtain Q rem xs ys where P: "swept b ord = (Q, rem, [])" "clob_ok b'" "opp_queue (o_side ord) b' = Q"
    "own_queue (o_side ord) b = xs @ ys" "own_queue (o_side ord) b' = xs @ (if rem = 0 then [] else [shrink ord rem]) @ ys"
    using process_accepted [OF assms] by metis
  have same: "Q = opp_queue (o_side ord) b" "rem = quantity ord"
    using greedy_no_results P(1) unfolding swept_def by blast+
  have "rem \<noteq> 0" "shrink ord rem = ord"
    using order_ok_quantity(1,4) [OF ord] same(2) by (auto simp: shrink_def)
  then have own: "own_queue (o_side ord) b' = xs @ ord # ys" using P(5) by simp
  then have "ord \<in> set (live b')" by (simp add: set_live [of b' "o_side ord"])
  then obtain b'' where c: "cancel_order b' (o_id ord) = Some (Inr ord, b'')" "clob_ok b''" "without (o_side ord) ord b' b''"
    using cancel_order_ok [OF P(2)] by blast
  have fresh: "o_id ord \<notin> o_id ` set (live b)" using assms(1,2) by (simp add: accepted_def contains_iff)
  have "own_queue s b'' = own_queue s b" for s
  proof -
    have "own_queue s b'' = filter (\<lambda>x. o_id x \<noteq> o_id ord) (own_queue s b')"
      by (rule without_filter [OF c(3) clob_okD(3) [OF P(2)]])
    also have "\<dots> = filter (\<lambda>x. o_id x \<noteq> o_id ord) (own_queue s b)"
      using own P(3,4) same(1) by (cases "s = o_side ord") (simp_all add: other_side)
    also have "\<dots> = own_queue s b" using fresh set_live [of b s] unfolding filter_id_conv by (metis UnI1 imageI)
    finally show ?thesis .
  qed
  then have "b'' = b" by (rule clob_ok_unique [OF c(2) assms(1)])
  with c(1) show ?thesis by simp
qed

theorem clob_rest_cancel_round_trip_witness:
  "\<exists>b'. process_order example_clob (bid2\<lparr>o_id := 7\<rparr>) = Some ([], b') \<and> cancel_order b' 7 = Some (Inr (bid2\<lparr>o_id := 7\<rparr>), example_clob)"
proof -
  let ?ord = "bid2\<lparr>o_id := 7\<rparr>"
  have acc: "accepted example_clob ?ord" "in_i128 (o_size ?ord)" by (simp_all add: accepted_def clob_eval)
  obtain b' where run: "process_order example_clob ?ord = Some ([], b')" by (simp add: clob_eval)
  from clob_rest_cancel_round_trip [OF example_clob_ok acc run] run show ?thesis by auto
qed

text \<open>
  A modification is rejected with the reported error and no change for a zero size, a zero price,
  an unknown id or a size of the wrong sign; at the same price it changes the size in place, keeping
  the order's position in its queue; at another price the order leaves its position and joins the end
  of the queue at the new price.
\<close>

theorem clob_modify_priority:
  assumes "clob_ok b" and "in_i128 z"
  shows "(z = 0 \<longrightarrow> modify_order b i p z = Some (Inl ZeroSize, b)) \<and>
    (z \<noteq> 0 \<and> p = 0 \<longrightarrow> modify_order b i p z = Some (Inl ZeroPrice, b)) \<and>
    (z \<noteq> 0 \<and> p \<noteq> 0 \<and> clob_order b i = None \<longrightarrow> modify_order b i p z = Some (Inl (OrderNotFound i), b)) \<and>
    (\<forall>ord. z \<noteq> 0 \<and> p \<noteq> 0 \<and> clob_order b i = Some ord \<longrightarrow>
       (if \<not> side_agrees_with_size (o_side ord) z
        then modify_order b i p z = Some (Inl (SideSizeSignMismatch i (o_side ord) z), b)
        else \<exists>b'. modify_order b i p z = Some (Inr (), b') \<and>
          (if p = o_price ord then resized (o_side ord) ord z b b'
           else requeued (o_side ord) ord (ord\<lparr>o_price := p, o_size := z\<rparr>) b b')))"
proof -
  have missing: "modify_order b i p z = Some (Inl (OrderNotFound i), b)"
    if "z \<noteq> 0" "p \<noteq> 0" "clob_order b i = None"
  proof -
    have "i \<notin> o_id ` set (live b)" using that(3) clob_order_iff [OF assms(1), of i] by fastforce
    then have "cb_index b i = None" using contains_iff [OF assms(1), of i] by (simp add: clob_contains_def)
    with that show ?thesis by (simp add: modify_order_def)
  qed
  have found: "if \<not> side_agrees_with_size (o_side ord) z
        then modify_order b i p z = Some (Inl (SideSizeSignMismatch i (o_side ord) z), b)
        else \<exists>b'. modify_order b i p z = Some (Inr (), b') \<and>
          (if p = o_price ord then resized (o_side ord) ord z b b'
           else requeued (o_side ord) ord (ord\<lparr>o_price := p, o_size := z\<rparr>) b b')"
    if "z \<noteq> 0" "p \<noteq> 0" "clob_order b i = Some ord" for ord
  proof -
    have ord: "ord \<in> set (live b)" "i = o_id ord" using that(3) clob_order_iff [OF assms(1)] by auto
    have "modify_order b i p z = Some (Inl (SideSizeSignMismatch i (o_side ord) z), b)"
      if "\<not> side_agrees_with_size (o_side ord) z"
      using that \<open>z \<noteq> 0\<close> \<open>p \<noteq> 0\<close> index_live [OF assms(1) ord(1)] ord(2)
      by (simp add: modify_order_def location_def)
    with modify_in_place [OF assms(1) ord(1) _ assms(2)] modify_moved [OF assms(1) ord(1) _ assms(2) that(2)] ord(2) that(2)
    show ?thesis by (cases "p = o_price ord") auto
  qed
  have "modify_order b i p z = Some (Inl ZeroSize, b)" if "z = 0" using that by (simp add: modify_order_def)
  moreover have "modify_order b i p z = Some (Inl ZeroPrice, b)" if "z \<noteq> 0" "p = 0" using that by (simp add: modify_order_def)
  ultimately show ?thesis using missing found by blast
qed

theorem clob_modify_priority_witness:
  "\<exists>b'. modify_order example_clob 2 95 4 = Some (Inr (), b') \<and>
     own_queue Long b' = [bid2\<lparr>o_price := 95, o_size := 4\<rparr>]"
proof -
  have "in_i128 4" by (simp add: in_i128_def)
  note P = clob_modify_priority [OF example_clob_ok this, of 2 95]
  have "clob_order example_clob 2 = Some bid2" unfolding clob_order_iff [OF example_clob_ok] by (simp add: bid2_def)
  with P have "\<exists>b'. modify_order example_clob 2 95 4 = Some (Inr (), b') \<and> requeued Long bid2 (bid2\<lparr>o_price := 95, o_size := 4\<rparr>) example_clob b'"
    by (auto simp: bid2_def side_agrees_with_size_def split: if_splits)
  moreover have "own_queue Long example_clob = [bid2]" by (simp add: own_queue_def example_clob_def)
  ultimately show ?thesis by (auto simp: requeued_def Cons_eq_append_conv)
qed

text \<open>
  Expiry at a block returns the ids of exactly the live orders whose expiry block has been
  reached, asks before bids and best price first, removes exactly those and keeps the rest in order;
  a second sweep at the same block finds nothing and changes nothing.
\<close>

theorem clob_cleanup_exact:
  assumes "clob_ok b"
  shows "\<exists>b'. cleanup_expired b n = Some (map o_id (filter (expired_at n) (live b)), b') \<and> clob_ok b' \<and>
     (\<forall>s. own_queue s b' = filter (\<lambda>ord. \<not> expired_at n ord) (own_queue s b)) \<and>
     cleanup_expired b' n = Some ([], b')"
proof -
  obtain b' where b': "cleanup_expired b n = Some (map o_id (filter (expired_at n) (live b)), b')" "clob_ok b'"
    "\<And>s. own_queue s b' = filter (\<lambda>ord. \<not> expired_at n ord) (own_queue s b)"
    using cleanup_expired_ok [OF assms] by blast
  have none: "filter (expired_at n) (live b') = []"
    using b'(3) [of Long] b'(3) [of Short] by (simp add: live_def own_queue_def filter_empty_conv)
  obtain b'' where b'': "cleanup_expired b' n = Some (map o_id (filter (expired_at n) (live b')), b'')" "clob_ok b''"
    "\<And>s. own_queue s b'' = filter (\<lambda>ord. \<not> expired_at n ord) (own_queue s b')"
    using cleanup_expired_ok [OF b'(2)] by blast
  have "b'' = b'" by (rule clob_ok_unique [OF b''(2) b'(2)]) (simp add: b''(3) b'(3))
  with b' b''(1) none show ?thesis by auto
qed

theorem clob_cleanup_exact_witness:
  "\<exists>b'. cleanup_expired example_clob 10 = Some ([1], b') \<and> own_queue Long b' = [bid2]"
proof -
  have "filter (expired_at 10) [ask1, bid2] = [ask1]" "filter (\<lambda>ord. \<not> expired_at 10 ord) [bid2] = [bid2]" "o_id ask1 = 1"
    by (simp_all add: expired_at_def ask1_def bid2_def)
  moreover have "own_queue Long example_clob = [bid2]" by (simp add: own_queue_def example_clob_def)
  ultimately show ?thesis using clob_cleanup_exact [OF example_clob_ok, of 10] by (simp del: filter.simps) metis
qed

text \<open>
  A book whose bids are all below its asks stays so under processing, cancelling and expiry.
  (A modification to a new price is the exception: see \<open>clob_modify_can_cross\<close>.)
\<close>

theorem clob_stays_uncrossed:
  assumes "clob_ok b" and "clob_uncrossed b"
  shows "(\<forall>ord rs b'. in_i128 (o_size ord) \<and> process_order b ord = Some (rs, b') \<longrightarrow> clob_uncrossed b') \<and>
    (\<forall>i r b'. cancel_order b i = Some (r, b') \<longrightarrow> clob_uncrossed b') \<and>
    (\<forall>n ids b'. cleanup_expired b n = Some (ids, b') \<longrightarrow> clob_uncrossed b')"
proof (intro conjI allI impI)
  fix ord rs b' assume *: "in_i128 (o_size ord) \<and> process_order b ord = Some (rs, b')"
  then show "clob_uncrossed b'" using process_uncrossed [OF assms] by blast
next
  fix i r b' assume run: "cancel_order b i = Some (r, b')"
  show "clob_uncrossed b'"
  proof (cases "i \<in> o_id ` set (live b)")
    case True
    then obtain ord where ord: "ord \<in> set (live b)" "i = o_id ord" by auto
    have "without (o_side ord) ord b b'" using cancel_order_ok [OF assms(1) ord(1)] run ord(2) by auto
    from without_filter [OF this clob_okD(3) [OF assms(1)]] show ?thesis
      by (intro uncrossed_sub [OF assms(2)]) auto
  next
    case False
    then show ?thesis using cancel_order_missing [OF assms(1)] run assms(2) by simp
  qed
next
  fix n ids b' assume "cleanup_expired b n = Some (ids, b')"
  then show "clob_uncrossed b'" using cleanup_expired_ok [OF assms(1), of n]
    by (intro uncrossed_sub [OF assms(2)]) auto
qed

theorem clob_stays_uncrossed_witness:
  "\<exists>r b'. cancel_order example_clob 1 = Some (r, b') \<and> clob_uncrossed b'"
proof -
  have "clob_uncrossed example_clob" by (simp add: clob_uncrossed_def own_queue_def example_clob_def ask1_def bid2_def)
  from clob_stays_uncrossed [OF example_clob_ok this] cancel_order_total [OF example_clob_ok, of 1] show ?thesis by blast
qed

text \<open>Moving a resting bid above the best ask leaves the book crossed: no trade takes place.\<close>

theorem clob_modify_can_cross:
  "\<exists>b'. modify_order example_clob 2 110 3 = Some (Inr (), b') \<and> clob_best_bid b' = Some 110 \<and> clob_best_ask b' = Some 100"
  by (simp add: clob_eval modify_order_def remove_from_level_def level_remove_def bt_remove_def
      clob_best_bid_def clob_best_ask_def)

end
