(* ===== verification/Results.thy ===== *)
theory Results
  imports Prelude
begin

text \<open>
  Fallible code that can also panic: \<open>('e + 'a) option\<close>, where \<open>None\<close> is a panic, \<open>Some (Inl e)\<close>
  an \<open>Err(e)\<close> and \<open>Some (Inr x)\<close> an \<open>Ok(x)\<close>.  \<open>and_then\<close> is the \<open>?\<close> operator, \<open>ok_or\<close> and
  \<open>checked\<close> turn an \<open>Option\<close> into a \<open>Result\<close>.  The last section is the interface of the 256-bit
  integers of the crates \<open>primitive_types\<close> and \<open>alloy_primitives\<close>, which are not part of the
  repository: a value is represented by the natural number it stands for, the operations are a
  parameter, and \<open>u256_ok\<close> states what their documentation promises (exact results, a panic on
  overflow and on division by zero, failing narrowing conversions).
\<close>

section \<open>Results\<close>

type_synonym ('e, 'a) res = "('e + 'a) option"

definition and_then :: "('e, 'a) res \<Rightarrow> ('a \<Rightarrow> ('e, 'b) res) \<Rightarrow> ('e, 'b) res" where
  "and_then r f = (case r of None \<Rightarrow> None | Some (Inl e) \<Rightarrow> Some (Inl e) | Some (Inr x) \<Rightarrow> f x)"

definition ok_or :: "'e \<Rightarrow> 'a option \<Rightarrow> ('e, 'a) res" where
  "ok_or e x = (case x of None \<Rightarrow> Some (Inl e) | Some v \<Rightarrow> Some (Inr v))"

definition no_panic :: "'a option \<Rightarrow> ('e, 'a) res" where
  "no_panic x = (case x of None \<Rightarrow> None | Some v \<Rightarrow> Some (Inr v))"

abbreviation Ok :: "'a \<Rightarrow> ('e, 'a) res" where "Ok x \<equiv> Some (Inr x)"
abbreviation Err :: "'e \<Rightarrow> ('e, 'a) res" where "Err e \<equiv> Some (Inl e)"

lemma and_then_simps [simp]:
  "and_then None f = None" "and_then (Err e) f = Err e" "and_then (Ok x) f = f x"
  by (simp_all add: and_then_def)

lemma ok_or_simps [simp]: "ok_or e None = Err e" "ok_or e (Some v) = Ok v"
  by (simp_all add: ok_or_def)

lemma no_panic_simps [simp]: "no_panic None = None" "no_panic (Some v) = Ok v"
  by (simp_all add: no_panic_def)

lemma and_then_cong [fundef_cong]:
  "r = r' \<Longrightarrow> (\<And>x. r' = Ok x \<Longrightarrow> f x = g x) \<Longrightarrow> and_then r f = and_then r' g"
  by (auto simp: and_then_def split: option.splits sum.splits)

lemma and_then_Ok_iff: "and_then r f = Ok y \<longleftrightarrow> (\<exists>x. r = Ok x \<and> f x = Ok y)"
  by (auto simp: and_then_def split: option.splits sum.splits)

lemma and_then_Err_iff: "and_then r f = Err e \<longleftrightarrow> r = Err e \<or> (\<exists>x. r = Ok x \<and> f x = Err e)"
  by (auto simp: and_then_def split: option.splits sum.splits)

lemma and_then_None_iff: "and_then r f = None \<longleftrightarrow> r = None \<or> (\<exists>x. r = Ok x \<and> f x = None)"
  by (auto simp: and_then_def split: option.splits sum.splits)

lemma ok_or_iff: "ok_or e x = Ok y \<longleftrightarrow> x = Some y" "ok_or e x = Err e' \<longleftrightarrow> x = None \<and> e = e'" "ok_or e x \<noteq> None"
  by (auto simp: ok_or_def split: option.splits)

lemma no_panic_iff: "no_panic x = Ok y \<longleftrightarrow> x = Some y" "no_panic x \<noteq> Err e'" "no_panic x = None \<longleftrightarrow> x = None"
  by (auto simp: no_panic_def split: option.splits)

lemmas res_iffs = and_then_Ok_iff and_then_Err_iff and_then_None_iff ok_or_iff no_panic_iff

section \<open>Checked 128-bit arithmetic\<close>

definition checked_i128 :: "int \<Rightarrow> int option" where
  "checked_i128 x = (if in_i128 x then Some x else None)"

definition checked_u128 :: "nat \<Rightarrow> nat option" where
  "checked_u128 x = (if in_u128 x then Some x else None)"

lemma checked_iff: "checked_i128 x = Some y \<longleftrightarrow> in_i128 x \<and> y = x" "checked_u128 n = Some m \<longleftrightarrow> in_u128 n \<and> m = n"
  by (auto simp: checked_i128_def checked_u128_def)

section \<open>256-bit integers\<close>

record u256_ops =
  u_add :: "nat \<Rightarrow> nat \<Rightarrow> nat option"
  u_mul :: "nat \<Rightarrow> nat \<Rightarrow> nat option"
  u_div :: "nat \<Rightarrow> nat \<Rightarrow> nat option"
  u_to_u128 :: "nat \<Rightarrow> nat option"
  u_to_i128 :: "nat \<Rightarrow> int option"

definition u256_ok :: "u256_ops \<Rightarrow> bool" where
  "u256_ok U \<longleftrightarrow> (\<forall>x < 2 ^ 256. \<forall>y < 2 ^ 256.
      u_add U x y = (if x + y < 2 ^ 256 then Some (x + y) else None) \<and>
      u_mul U x y = (if x * y < 2 ^ 256 then Some (x * y) else None) \<and>
      u_div U x y = (if y = 0 then None else Some (x div y)) \<and>
      u_to_u128 U x = (if x < 2 ^ 128 then Some x else None) \<and>
      u_to_i128 U x = (if x < 2 ^ 127 then Some (int x) else None))"

definition exact_u256 :: u256_ops where
  "exact_u256 = \<lparr>u_add = (\<lambda>x y. if x + y < 2 ^ 256 then Some (x + y) else None),
     u_mul = (\<lambda>x y. if x * y < 2 ^ 256 then Some (x * y) else None),
     u_div = (\<lambda>x y. if y = 0 then None else Some (x div y)),
     u_to_u128 = (\<lambda>x. if x < 2 ^ 128 then Some x else None),
     u_to_i128 = (\<lambda>x. if x < 2 ^ 127 then Some (int x) else None)\<rparr>"

lemma exact_u256_ok: "u256_ok exact_u256"
  by (simp add: u256_ok_def exact_u256_def)

lemma u256_add: "u256_ok U \<Longrightarrow> x + y < 2 ^ 256 \<Longrightarrow> u_add U x y = Some (x + y)"
  using add_lessD1 [of x y "2 ^ 256"] add_lessD1 [of y x "2 ^ 256"] by (simp add: u256_ok_def add.commute)

lemma u256_mul: "u256_ok U \<Longrightarrow> x < 2 ^ 256 \<Longrightarrow> y < 2 ^ 256 \<Longrightarrow>
    u_mul U x y = (if x * y < 2 ^ 256 then Some (x * y) else None)"
  by (simp add: u256_ok_def)

lemma u256_div: "u256_ok U \<Longrightarrow> x < 2 ^ 256 \<Longrightarrow> y < 2 ^ 256 \<Longrightarrow> 0 < y \<Longrightarrow> u_div U x y = Some (x div y)"
  by (simp add: u256_ok_def)

lemma u256_narrow:
  "u256_ok U \<Longrightarrow> x < 2 ^ 256 \<Longrightarrow> u_to_u128 U x = (if x < 2 ^ 128 then Some x else None)"
  "u256_ok U \<Longrightarrow> x < 2 ^ 256 \<Longrightarrow> u_to_i128 U x = (if x < 2 ^ 127 then Some (int x) else None)"
  by (simp_all add: u256_ok_def)

text \<open>A product of two 128-bit values always fits.\<close>

lemma u256_mul_u128:
  assumes "u256_ok U" and "in_u128 x" and "in_u128 y"
  shows "u_mul U x y = Some (x * y)" and "x * y < 2 ^ 256"
proof -
  have "x * y < 2 ^ 128 * 2 ^ 128" using assms(2,3) by (intro mult_strict_mono) (auto simp: in_u128_def)
  then show "x * y < 2 ^ 256" by simp
  moreover have "x < 2 ^ 256" "y < 2 ^ 256" using assms(2,3) by (simp_all add: in_u128_def)
  ultimately show "u_mul U x y = Some (x * y)" using u256_mul [OF assms(1)] by simp
qed

end
