(* ===== verification/Risk.thy ===== *)
theory Risk
  imports Results Common_Types
begin

text \<open>
  The margin engine of \<open>crates/risk/src/lib.rs\<close>: isolated maintenance margin, withdrawal safety, and
  the four terms of portfolio margin with their sum.  A hash map of prices, groups or coefficients is
  a map; the group totals, which the code iterates, are an association list in insertion order.
\<close>

definition MMR_BPS :: nat where "MMR_BPS = 300"
definition BPS_DENOMINATOR :: nat where "BPS_DENOMINATOR = 10000"
definition SCALE :: nat where "SCALE = 1000000000000000000"

lemmas risk_consts = MMR_BPS_def BPS_DENOMINATOR_def SCALE_def

datatype RiskError = MissingMarkPrice MarketId | RequirementOverflow

record PositionState =
  ps_market_id :: MarketId
  ps_size :: int

record AccountState =
  as_positions :: "PositionState list"
  as_effective_collateral :: nat

record MarginResult =
  mg_margin_requirement :: nat
  mg_effective_collateral :: nat
  mg_maintenance_breached :: bool

type_synonym Prices = "MarketId \<rightharpoonup> nat"

section \<open>Isolated margin\<close>

text \<open>One iteration of the loop: \<open>|size| * price * MMR_BPS / (SCALE * BPS_DENOMINATOR)\<close>.\<close>

definition margin_term :: "u256_ops \<Rightarrow> nat \<Rightarrow> nat \<Rightarrow> nat option" where
  "margin_term U sz price = do {
     p \<leftarrow> u_mul U sz price;
     q \<leftarrow> u_mul U p MMR_BPS;
     d \<leftarrow> u_mul U SCALE BPS_DENOMINATOR;
     u_div U q d
   }"

fun requirement_loop :: "u256_ops \<Rightarrow> Prices \<Rightarrow> PositionState list \<Rightarrow> nat \<Rightarrow> (RiskError, nat) res" where
  "requirement_loop U prices [] requirement = Ok requirement"
| "requirement_loop U prices (p # ps) requirement =
     (if ps_size p = 0 then requirement_loop U prices ps requirement
      else and_then (ok_or (MissingMarkPrice (ps_market_id p)) (prices (ps_market_id p))) (\<lambda>mark_price.
        and_then (no_panic (margin_term U (nat \<bar>ps_size p\<bar>) mark_price)) (\<lambda>t.
        and_then (no_panic (u_add U requirement t)) (\<lambda>requirement'.
        requirement_loop U prices ps requirement'))))"

definition current_margin_requirement :: "u256_ops \<Rightarrow> PositionState list \<Rightarrow> Prices \<Rightarrow> (RiskError, nat) res" where
  "current_margin_requirement U positions prices =
     and_then (requirement_loop U prices positions 0) (\<lambda>requirement.
       ok_or RequirementOverflow (u_to_u128 U requirement))"

definition risk_compute_margin :: "u256_ops \<Rightarrow> AccountState \<Rightarrow> Prices \<Rightarrow> (RiskError, MarginResult) res" where
  "risk_compute_margin U account prices =
     and_then (current_margin_requirement U (as_positions account) prices) (\<lambda>requirement.
       Ok \<lparr>mg_margin_requirement = requirement,
           mg_effective_collateral = as_effective_collateral account,
           mg_maintenance_breached = as_effective_collateral account < requirement\<rparr>)"

definition is_withdraw_safe :: "u256_ops \<Rightarrow> AccountState \<Rightarrow> Prices \<Rightarrow> nat \<Rightarrow> (RiskError, bool) res" where
  "is_withdraw_safe U account prices withdraw_value_usd =
     and_then (current_margin_requirement U (as_positions account) prices) (\<lambda>requirement.
       if as_effective_collateral account < withdraw_value_usd then Ok False
       else Ok (requirement \<le> as_effective_collateral account - withdraw_value_usd))"

section \<open>Portfolio margin\<close>

record Scenario =
  sc_label :: string
  sc_price_shifts_bps :: "MarketId \<rightharpoonup> int"

record CorrelationEntry =
  ce_market_a :: MarketId
  ce_market_b :: MarketId
  ce_rho_bps :: int

record PortfolioMarginParams =
  pp_scenarios :: "Scenario list"
  pp_asset_groups :: "MarketId \<rightharpoonup> string"
  pp_concentration_threshold_bps :: nat
  pp_concentration_kappa_bps :: nat
  pp_liquidity_bps :: "MarketId \<rightharpoonup> nat"
  pp_correlations :: "CorrelationEntry list"
  pp_beta_bps :: nat

record PortfolioMarginResult =
  pr_f_scenario :: nat
  pr_f_concentration :: nat
  pr_f_liquidity :: nat
  pr_f_correlation :: int
  pr_total :: nat

text \<open>\<open>|size| * price / SCALE\<close>, the notional every charge starts from.\<close>

definition notional_usd :: "u256_ops \<Rightarrow> int \<Rightarrow> nat \<Rightarrow> nat option" where
  "notional_usd U sz mark_price = do { p \<leftarrow> u_mul U (nat \<bar>sz\<bar>) mark_price; u_div U p SCALE }"

definition signed_exposure_usd :: "u256_ops \<Rightarrow> int \<Rightarrow> nat \<Rightarrow> (RiskError, int) res" where
  "signed_exposure_usd U sz mark_price =
     and_then (no_panic (notional_usd U sz mark_price)) (\<lambda>n.
     and_then (ok_or RequirementOverflow (u_to_i128 U n)) (\<lambda>magnitude.
     Ok (if sz < 0 then - magnitude else magnitude)))"

definition shifted_price :: "u256_ops \<Rightarrow> nat \<Rightarrow> int \<Rightarrow> (RiskError, int) res" where
  "shifted_price U mark_price shift_bps =
     and_then (no_panic (do { p \<leftarrow> u_mul U mark_price (nat \<bar>shift_bps\<bar>); u_div U p BPS_DENOMINATOR })) (\<lambda>d.
     and_then (ok_or RequirementOverflow (u_to_i128 U d)) (\<lambda>delta.
     Ok (if shift_bps < 0 then wrap_i128 (wrap_i128 (int mark_price) - delta)
         else wrap_i128 (wrap_i128 (int mark_price) + delta))))"

definition position_change :: "u256_ops \<Rightarrow> int \<Rightarrow> nat \<Rightarrow> int \<Rightarrow> (RiskError, int) res" where
  "position_change U sz mark_price shift_bps =
     and_then (shifted_price U mark_price shift_bps) (\<lambda>shifted.
     and_then (signed_exposure_usd U sz (nat (max shifted 0))) (\<lambda>after.
     and_then (signed_exposure_usd U sz mark_price) (\<lambda>before.
     ok_or RequirementOverflow (checked_i128 (after - before)))))"

fun scenario_change :: "u256_ops \<Rightarrow> Prices \<Rightarrow> Scenario \<Rightarrow> PositionState list \<Rightarrow> int \<Rightarrow> (RiskError, int) res" where
  "scenario_change U prices scenario [] change = Ok change"
| "scenario_change U prices scenario (p # ps) change =
     (if ps_size p = 0 then scenario_change U prices scenario ps change
      else and_then (ok_or (MissingMarkPrice (ps_market_id p)) (prices (ps_market_id p))) (\<lambda>mark_price.
        and_then (position_change U (ps_size p) mark_price
          (case sc_price_shifts_bps scenario (ps_market_id p) of None \<Rightarrow> 0 | Some s \<Rightarrow> s)) (\<lambda>c.
        and_then (ok_or RequirementOverflow (checked_i128 (change + c))) (\<lambda>change'.
        scenario_change U prices scenario ps change'))))"

definition saturating_neg_i128 :: "int \<Rightarrow> int" where
  "saturating_neg_i128 x = sat_i128 (- x)"

fun scenario_loop :: "u256_ops \<Rightarrow> Prices \<Rightarrow> PositionState list \<Rightarrow> Scenario list \<Rightarrow> int \<Rightarrow> (RiskError, int) res" where
  "scenario_loop U prices positions [] worst_loss = Ok worst_loss"
| "scenario_loop U prices positions (s # ss) worst_loss =
     and_then (scenario_change U prices s positions 0) (\<lambda>change.
     scenario_loop U prices positions ss (max worst_loss (saturating_neg_i128 change)))"

definition scenario_margin :: "u256_ops \<Rightarrow> PositionState list \<Rightarrow> Prices \<Rightarrow> Scenario list \<Rightarrow> (RiskError, nat) res" where
  "scenario_margin U positions prices scenarios =
     and_then (scenario_loop U prices positions scenarios 0) (\<lambda>worst_loss. Ok (nat (max worst_loss 0)))"

text \<open>The entry for a group grows by the notional of a position, starting from zero.\<close>

fun group_add :: "string \<Rightarrow> nat \<Rightarrow> (string \<times> nat) list \<Rightarrow> (string \<times> nat) list" where
  "group_add g n [] = [(g, n)]"
| "group_add g n ((h, m) # gs) = (if h = g then (h, wrap_u128 (int (m + n))) # gs else (h, m) # group_add g n gs)"

fun concentration_totals :: "u256_ops \<Rightarrow> Prices \<Rightarrow> (MarketId \<rightharpoonup> string) \<Rightarrow> PositionState list \<Rightarrow>
    (string \<times> nat) list \<Rightarrow> nat \<Rightarrow> (RiskError, (string \<times> nat) list \<times> nat) res" where
  "concentration_totals U prices groups [] gs tot = Ok (gs, tot)"
| "concentration_totals U prices groups (p # ps) gs tot =
     (if ps_size p = 0 then concentration_totals U prices groups ps gs tot
      else and_then (ok_or (MissingMarkPrice (ps_market_id p)) (prices (ps_market_id p))) (\<lambda>mark_price.
        and_then (no_panic (notional_usd U (ps_size p) mark_price)) (\<lambda>n.
        and_then (ok_or RequirementOverflow (u_to_u128 U n)) (\<lambda>notional.
        and_then (ok_or RequirementOverflow (checked_u128 (tot + notional))) (\<lambda>tot'.
        concentration_totals U prices groups ps
          (group_add (case groups (ps_market_id p) of None \<Rightarrow> ''ungrouped'' | Some g \<Rightarrow> g) notional gs) tot')))))"

definition group_charge :: "nat \<Rightarrow> nat \<Rightarrow> nat \<Rightarrow> nat \<Rightarrow> nat" where
  "group_charge threshold_notional kappa_bps notional charge =
     (if threshold_notional < notional
      then wrap_u128 (int (charge + wrap_u128 (int ((notional - threshold_notional) * kappa_bps)) div BPS_DENOMINATOR))
      else charge)"

definition concentration_charge :: "u256_ops \<Rightarrow> PositionState list \<Rightarrow> Prices \<Rightarrow> (MarketId \<rightharpoonup> string) \<Rightarrow> nat \<Rightarrow> nat \<Rightarrow>
    (RiskError, nat) res" where
  "concentration_charge U positions prices groups threshold_bps kappa_bps =
     and_then (concentration_totals U prices groups positions [] 0) (\<lambda>(gs, tot).
       if tot = 0 then Ok 0
       else
         let threshold_notional = wrap_u128 (int (tot * threshold_bps)) div BPS_DENOMINATOR in
         Ok (fold (group_charge threshold_notional kappa_bps) (map snd gs) 0))"

definition liquidity_term :: "u256_ops \<Rightarrow> int \<Rightarrow> nat \<Rightarrow> nat \<Rightarrow> nat option" where
  "liquidity_term U sz mark_price coefficient_bps = do {
     n \<leftarrow> notional_usd U sz mark_price;
     p \<leftarrow> u_mul U n coefficient_bps;
     u_div U p BPS_DENOMINATOR
   }"

fun liquidity_loop :: "u256_ops \<Rightarrow> Prices \<Rightarrow> (MarketId \<rightharpoonup> nat) \<Rightarrow> PositionState list \<Rightarrow> nat \<Rightarrow> (RiskError, nat) res" where
  "liquidity_loop U prices liquidity_bps [] charge = Ok charge"
| "liquidity_loop U prices liquidity_bps (p # ps) charge =
     (if ps_size p = 0 then liquidity_loop U prices liquidity_bps ps charge
      else and_then (ok_or (MissingMarkPrice (ps_market_id p)) (prices (ps_market_id p))) (\<lambda>mark_price.
        and_then (no_panic (liquidity_term U (ps_size p) mark_price
          (case liquidity_bps (ps_market_id p) of None \<Rightarrow> 0 | Some l \<Rightarrow> l))) (\<lambda>t.
        and_then (ok_or RequirementOverflow (u_to_u128 U t)) (\<lambda>term.
        liquidity_loop U prices liquidity_bps ps (wrap_u128 (int (charge + term)))))))"

definition liquidity_charge :: "u256_ops \<Rightarrow> PositionState list \<Rightarrow> Prices \<Rightarrow> (MarketId \<rightharpoonup> nat) \<Rightarrow> (RiskError, nat) res" where
  "liquidity_charge U positions prices liquidity_bps = liquidity_loop U prices liquidity_bps positions 0"

fun exposures_loop :: "u256_ops \<Rightarrow> Prices \<Rightarrow> PositionState list \<Rightarrow> (MarketId \<rightharpoonup> int) \<Rightarrow> (RiskError, MarketId \<rightharpoonup> int) res" where
  "exposures_loop U prices [] exposures = Ok exposures"
| "exposures_loop U prices (p # ps) exposures =
     (if ps_size p = 0 then exposures_loop U prices ps exposures
      else and_then (ok_or (MissingMarkPrice (ps_market_id p)) (prices (ps_market_id p))) (\<lambda>mark_price.
        and_then (signed_exposure_usd U (ps_size p) mark_price) (\<lambda>e.
        exposures_loop U prices ps (exposures(ps_market_id p \<mapsto> e)))))"

definition correlation_magnitude :: "u256_ops \<Rightarrow> nat \<Rightarrow> int \<Rightarrow> nat \<Rightarrow> nat option" where
  "correlation_magnitude U min_magnitude rho_bps beta_bps = do {
     p \<leftarrow> u_mul U min_magnitude (nat \<bar>rho_bps\<bar>);
     q \<leftarrow> u_mul U p beta_bps;
     d \<leftarrow> u_mul U BPS_DENOMINATOR BPS_DENOMINATOR;
     u_div U q d
   }"

definition correlation_term :: "u256_ops \<Rightarrow> nat \<Rightarrow> int \<Rightarrow> int \<Rightarrow> int \<Rightarrow> (RiskError, int) res" where
  "correlation_term U beta_bps rho_bps e_a e_b =
     and_then (no_panic (correlation_magnitude U (min (nat \<bar>e_a\<bar>) (nat \<bar>e_b\<bar>)) rho_bps beta_bps)) (\<lambda>m.
     and_then (ok_or RequirementOverflow (u_to_i128 U m)) (\<lambda>term.
       let sign = (if (0 \<le> e_a) = (0 \<le> e_b) then 1 else - 1);
           rho_sign = (if rho_bps < 0 then - 1 else 1) in
       Ok (sign * rho_sign * term)))"

fun correlation_loop :: "u256_ops \<Rightarrow> (MarketId \<rightharpoonup> int) \<Rightarrow> nat \<Rightarrow> CorrelationEntry list \<Rightarrow> int \<Rightarrow> (RiskError, int) res" where
  "correlation_loop U exposures beta_bps [] tot = Ok tot"
| "correlation_loop U exposures beta_bps (e # es) tot =
     (case (exposures (ce_market_a e), exposures (ce_market_b e)) of
        (Some e_a, Some e_b) \<Rightarrow>
          and_then (correlation_term U beta_bps (ce_rho_bps e) e_a e_b) (\<lambda>t.
          and_then (ok_or RequirementOverflow (checked_i128 (tot + t))) (\<lambda>tot'.
          correlation_loop U exposures beta_bps es tot'))
      | _ \<Rightarrow> correlation_loop U exposures beta_bps es tot)"

definition correlation_adjustment :: "u256_ops \<Rightarrow> PositionState list \<Rightarrow> Prices \<Rightarrow> CorrelationEntry list \<Rightarrow> nat \<Rightarrow>
    (RiskError, int) res" where
  "correlation_adjustment U positions prices correlations beta_bps =
     and_then (exposures_loop U prices positions Map.empty) (\<lambda>exposures.
     correlation_loop U exposures beta_bps correlations 0)"

definition compute_portfolio_margin :: "u256_ops \<Rightarrow> PositionState list \<Rightarrow> Prices \<Rightarrow> PortfolioMarginParams \<Rightarrow>
    (RiskError, PortfolioMarginResult) res" where
  "compute_portfolio_margin U positions prices params =
     and_then (scenario_margin U positions prices (pp_scenarios params)) (\<lambda>f_scenario.
     and_then (concentration_charge U positions prices (pp_asset_groups params)
       (pp_concentration_threshold_bps params) (pp_concentration_kappa_bps params)) (\<lambda>f_concentration.
     and_then (liquidity_charge U positions prices (pp_liquidity_bps params)) (\<lambda>f_liquidity.
     and_then (correlation_adjustment U positions prices (pp_correlations params) (pp_beta_bps params)) (\<lambda>f_correlation.
       let sum = wrap_i128 (wrap_i128 (wrap_i128 (wrap_i128 (int f_scenario) + wrap_i128 (int f_concentration)) +
                   wrap_i128 (int f_liquidity)) + f_correlation) in
       Ok \<lparr>pr_f_scenario = f_scenario, pr_f_concentration = f_concentration, pr_f_liquidity = f_liquidity,
           pr_f_correlation = f_correlation, pr_total = nat (max sum 0)\<rparr>))))"

end
