(* ===== verification/Risk_Properties.thy ===== *)
theory Risk_Properties
  imports Risk
begin

text \<open>
  What the margin engine computes, in unbounded arithmetic: the isolated requirement, withdrawal
  safety, the scenario term as a maximum of losses, the bound on the correlation term and the total.
\<close>

section \<open>Exact terms\<close>

definition position_ok :: "Prices \<Rightarrow> PositionState \<Rightarrow> bool" where
  "position_ok prices p \<longleftrightarrow> in_i128 (ps_size p) \<and>
     (ps_size p \<noteq> 0 \<longrightarrow> (\<exists>m. prices (ps_market_id p) = Some m \<and> in_u128 m))"

definition mark_of :: "Prices \<Rightarrow> PositionState \<Rightarrow> nat" where
  "mark_of prices p = (case prices (ps_market_id p) of None \<Rightarrow> 0 | Some m \<Rightarrow> m)"

definition margin_of :: "Prices \<Rightarrow> PositionState \<Rightarrow> nat" where
  "margin_of prices p = nat \<bar>ps_size p\<bar> * mark_of prices p * 300 div 10 ^ 22"

definition margin_product_fits :: "Prices \<Rightarrow> PositionState \<Rightarrow> bool" where
  "margin_product_fits prices p \<longleftrightarrow> nat \<bar>ps_size p\<bar> * mark_of prices p * 300 < 2 ^ 256"

lemma abs_i128: "in_i128 x \<Longrightarrow> in_u128 (nat \<bar>x\<bar>)"
  by (auto simp: in_i128_def in_u128_def nat_less_iff)

lemma margin_term_exact:
  assumes U: "u256_ok U" and "in_u128 n" and "in_u128 m" and fits: "n * m * 300 < 2 ^ 256"
  shows "margin_term U n m = Some (n * m * 300 div 10 ^ 22)"
  using u256_mul_u128 [OF U assms(2,3)] fits u256_mul [OF U, of "n * m" 300] u256_mul [OF U, of SCALE BPS_DENOMINATOR]
    u256_div [OF U, of "n * m * 300" "10 ^ 22"]
  by (simp add: margin_term_def risk_consts)

lemma margin_term_panics:
  assumes U: "u256_ok U" and "in_u128 n" and "in_u128 m" and "\<not> n * m * 300 < 2 ^ 256"
  shows "margin_term U n m = None"
  using u256_mul_u128 [OF U assms(2,3)] assms(4) u256_mul [OF U, of "n * m" 300]
  by (simp add: margin_term_def risk_consts)

definition requirement_of :: "Prices \<Rightarrow> PositionState list \<Rightarrow> nat" where
  "requirement_of prices ps = sum_list (map (margin_of prices) ps)"

lemma requirement_simps [simp]:
  "requirement_of prices [] = 0" "requirement_of prices (p # ps) = margin_of prices p + requirement_of prices ps"
  by (simp_all add: requirement_of_def)

lemma margin_of_bound: "margin_product_fits prices p \<Longrightarrow> margin_of prices p < 2 ^ 183"
proof -
  assume "margin_product_fits prices p"
  then have "margin_of prices p \<le> 2 ^ 256 div 10 ^ 22"
    unfolding margin_product_fits_def margin_of_def by (intro div_le_mono) simp
  then show ?thesis by simp
qed

lemma requirement_bound:
  "\<forall>p \<in> set ps. margin_product_fits prices p \<Longrightarrow> requirement_of prices ps \<le> length ps * 2 ^ 183"
proof (induction ps)
  case (Cons p ps)
  then show ?case using margin_of_bound [of prices p] by simp
qed simp

lemma requirement_loop_exact:
  assumes U: "u256_ok U" and "\<forall>p \<in> set ps. position_ok prices p \<and> margin_product_fits prices p"
    and "r + requirement_of prices ps < 2 ^ 256"
  shows "requirement_loop U prices ps r = Ok (r + requirement_of prices ps)"
  using assms(2,3)
proof (induction ps arbitrary: r)
  case (Cons p ps)
  show ?case
  proof (cases "ps_size p = 0")
    case True
    then have "margin_of prices p = 0" by (simp add: margin_of_def)
    with True Cons show ?thesis by simp
  next
    case False
    then obtain m where m: "prices (ps_market_id p) = Some m" "in_u128 m" "in_u128 (nat \<bar>ps_size p\<bar>)"
      using Cons.prems(1) by (auto simp: position_ok_def abs_i128)
    have mark: "mark_of prices p = m" using m(1) by (simp add: mark_of_def)
    have "nat \<bar>ps_size p\<bar> * m * 300 < 2 ^ 256"
      using Cons.prems(1) unfolding margin_product_fits_def mark [symmetric] by simp
    from margin_term_exact [OF U m(3,2) this]
    have t: "margin_term U (nat \<bar>ps_size p\<bar>) m = Some (margin_of prices p)" unfolding margin_of_def mark .
    have "u_add U r (margin_of prices p) = Some (r + margin_of prices p)"
      using Cons.prems(2) by (intro u256_add [OF U]) simp
    with t m(1) False Cons show ?thesis by (simp add: add.assoc)
  qed
qed simp

text \<open>
  C38: For priced positions whose products stay below \<open>2^256\<close> (at most \<open>2^64\<close> of them, a vector's
  length) the isolated requirement is the sum of the floored terms \<open>|size| * mark * 300 / 10^22\<close> when
  that fits the \<open>u128\<close> surface, and \<open>RequirementOverflow\<close> otherwise; a single position whose product
  reaches \<open>2^256\<close> makes the computation panic instead.
\<close>

theorem margin_requirement_exact:
  assumes "u256_ok U" and "\<forall>p \<in> set ps. position_ok prices p" and "length ps < 2 ^ 64"
  shows "((\<forall>p \<in> set ps. margin_product_fits prices p) \<longrightarrow>
       current_margin_requirement U ps prices =
         (if requirement_of prices ps < 2 ^ 128 then Ok (requirement_of prices ps) else Err RequirementOverflow)) \<and>
     (\<forall>p qs. ps = p # qs \<and> ps_size p \<noteq> 0 \<and> \<not> margin_product_fits prices p \<longrightarrow>
       current_margin_requirement U ps prices = None)"
proof (intro conjI impI allI)
  assume fits: "\<forall>p \<in> set ps. margin_product_fits prices p"
  have "requirement_of prices ps \<le> length ps * 2 ^ 183" by (rule requirement_bound [OF fits])
  also have "\<dots> < 2 ^ 64 * 2 ^ 183" using assms(3) by (intro mult_strict_right_mono) simp_all
  also have "\<dots> \<le> 2 ^ 256" by simp
  finally have b: "requirement_of prices ps < 2 ^ 256" .
  have "requirement_loop U prices ps 0 = Ok (requirement_of prices ps)"
    using requirement_loop_exact [OF assms(1), of ps prices 0] assms(2) fits b by simp
  then show "current_margin_requirement U ps prices =
      (if requirement_of prices ps < 2 ^ 128 then Ok (requirement_of prices ps) else Err RequirementOverflow)"
    using u256_narrow(1) [OF assms(1) b] by (simp add: current_margin_requirement_def)
next
  fix p qs assume *: "ps = p # qs \<and> ps_size p \<noteq> 0 \<and> \<not> margin_product_fits prices p"
  then obtain m where m: "prices (ps_market_id p) = Some m" "in_u128 m" "in_u128 (nat \<bar>ps_size p\<bar>)"
    using assms(2) by (auto simp: position_ok_def abs_i128)
  from margin_term_panics [OF assms(1) m(3,2)] * m(1) show "current_margin_requirement U ps prices = None"
    by (simp add: current_margin_requirement_def margin_product_fits_def mark_of_def)
qed

theorem margin_requirement_exact_witness:
  "current_margin_requirement exact_u256 [\<lparr>ps_market_id = ''BTC'', ps_size = - (10 * 10 ^ 18)\<rparr>] [''BTC'' \<mapsto> 100 * 10 ^ 18] =
     Ok (30 * 10 ^ 18)"
proof -
  let ?ps = "[\<lparr>ps_market_id = ''BTC'', ps_size = - (10 * 10 ^ 18)\<rparr>]" and ?prices = "[''BTC'' \<mapsto> 100 * 10 ^ 18]"
  have "\<forall>p \<in> set ?ps. position_ok ?prices p" "length ?ps < 2 ^ 64" "\<forall>p \<in> set ?ps. margin_product_fits ?prices p"
    by (simp_all add: position_ok_def in_i128_def in_u128_def margin_product_fits_def mark_of_def)
  moreover have "requirement_of ?prices ?ps = 30 * 10 ^ 18" by (simp add: margin_of_def mark_of_def)
  ultimately show ?thesis using margin_requirement_exact [OF exact_u256_ok, of ?ps ?prices] by simp
qed

text \<open>
  The withdrawal check is the liquidation check of the account after the withdrawal: it gives the
  same error or panic, and otherwise allows exactly the withdrawals that the effective collateral
  covers and that leave the account unflagged.
\<close>

theorem withdraw_safe_is_unflagged_after:
  "is_withdraw_safe U account prices w =
     and_then (risk_compute_margin U (account\<lparr>as_effective_collateral := as_effective_collateral account - w\<rparr>) prices)
       (\<lambda>r. Ok (w \<le> as_effective_collateral account \<and> \<not> mg_maintenance_breached r))"
  by (auto simp: is_withdraw_safe_def risk_compute_margin_def and_then_def split: option.split sum.split)

section \<open>The scenario term\<close>

text \<open>Exposure and scenario shift in unbounded arithmetic; both round towards zero.\<close>

definition exposure_of :: "int \<Rightarrow> nat \<Rightarrow> int" where
  "exposure_of sz price = sgn sz * int (nat \<bar>sz\<bar> * price div 10 ^ 18)"

definition shifted_of :: "nat \<Rightarrow> int \<Rightarrow> nat" where
  "shifted_of mark bps =
     (let d = mark * nat \<bar>bps\<bar> div 10000 in if bps < 0 then mark - d else mark + d)"

definition shift_in :: "Scenario \<Rightarrow> PositionState \<Rightarrow> int" where
  "shift_in sc p = (case sc_price_shifts_bps sc (ps_market_id p) of None \<Rightarrow> 0 | Some s \<Rightarrow> s)"

definition change_of :: "Prices \<Rightarrow> Scenario \<Rightarrow> PositionState list \<Rightarrow> int" where
  "change_of prices sc ps = sum_list (map (\<lambda>p. exposure_of (ps_size p) (shifted_of (mark_of prices p) (shift_in sc p)) -
     exposure_of (ps_size p) (mark_of prices p)) ps)"

lemma notional_exact:
  assumes U: "u256_ok U" and "in_i128 sz" and "in_u128 m"
  shows "notional_usd U sz m = Some (nat \<bar>sz\<bar> * m div 10 ^ 18)"
  using u256_mul_u128 [OF U abs_i128 [OF assms(2)] assms(3)] u256_div [OF U, of "nat \<bar>sz\<bar> * m" SCALE]
  by (simp add: notional_usd_def risk_consts)

lemma notional_fits: "in_i128 sz \<Longrightarrow> in_u128 m \<Longrightarrow> nat \<bar>sz\<bar> * m div 10 ^ 18 < 2 ^ 256"
  using div_le_dividend [of "nat \<bar>sz\<bar> * m" "10 ^ 18"] mult_strict_mono [of "nat \<bar>sz\<bar>" "2 ^ 128" m "2 ^ 128"] abs_i128 [of sz]
  by (simp add: in_u128_def)

lemma signed_exposure_exact:
  assumes U: "u256_ok U" and sz: "in_i128 sz" "sz \<noteq> 0" and m: "in_u128 m"
  shows "signed_exposure_usd U sz m =
    (if in_i128 (- \<bar>exposure_of sz m\<bar> - 1) then Ok (exposure_of sz m) else Err RequirementOverflow)"
proof -
  let ?n = "nat \<bar>sz\<bar> * m div 10 ^ 18"
  have "\<bar>exposure_of sz m\<bar> = int ?n" using sz(2) by (simp add: exposure_of_def abs_mult abs_sgn_eq)
  then have "in_i128 (- \<bar>exposure_of sz m\<bar> - 1) \<longleftrightarrow> ?n < 2 ^ 127" by (auto simp: in_i128_def)
  then show ?thesis using notional_exact [OF U sz(1) m] u256_narrow(2) [OF U notional_fits [OF sz(1) m]] sz(2)
    by (auto simp: signed_exposure_usd_def exposure_of_def)
qed

lemma shifted_exact:
  assumes U: "u256_ok U" and bps: "\<bar>bps\<bar> \<le> 10000" and m: "m < 2 ^ 126"
  shows "\<exists>x. shifted_price U m bps = Ok x \<and> nat (max x 0) = shifted_of m bps" and "in_u128 (shifted_of m bps)"
proof -
  define d where "d = m * nat \<bar>bps\<bar> div 10000"
  have "m * nat \<bar>bps\<bar> \<le> m * 10000" using bps by (intro mult_left_mono) auto
  then have d: "d \<le> m" unfolding d_def by (metis div_le_mono nonzero_mult_div_cancel_right zero_neq_numeral)
  have b: "in_u128 (nat \<bar>bps\<bar>)" "in_u128 m" using bps m by (simp_all add: in_u128_def nat_less_iff)
  have "(do { p \<leftarrow> u_mul U m (nat \<bar>bps\<bar>); u_div U p BPS_DENOMINATOR }) = Some d"
    using u256_mul_u128 [OF U b(2,1)] u256_div [OF U, of "m * nat \<bar>bps\<bar>" BPS_DENOMINATOR]
    by (simp add: risk_consts d_def)
  moreover have "u_to_i128 U d = Some (int d)" using u256_narrow(2) [OF U, of d] d m by simp
  moreover have "wrap_i128 (int m) = int m" using m by (intro wrap_i128_id) (simp add: in_i128_def)
  moreover have "in_i128 (int m - int d)" "in_i128 (int m + int d)" using d m by (simp_all add: in_i128_def)
  ultimately have "shifted_price U m bps = Ok (if bps < 0 then int m - int d else int m + int d)"
    unfolding shifted_price_def by (simp only: no_panic_simps ok_or_simps and_then_simps wrap_i128_id)
  moreover have sh: "shifted_of m bps = (if bps < 0 then m - d else m + d)"
    by (simp add: shifted_of_def Let_def d_def)
  ultimately show "\<exists>x. shifted_price U m bps = Ok x \<and> nat (max x 0) = shifted_of m bps"
    using d by auto
  show "in_u128 (shifted_of m bps)" using d m by (auto simp: sh in_u128_def intro: le_less_trans [OF diff_le_self])
qed

lemma signed_exposure_Ok:
  "u256_ok U \<Longrightarrow> in_i128 sz \<Longrightarrow> sz \<noteq> 0 \<Longrightarrow> in_u128 m \<Longrightarrow> signed_exposure_usd U sz m = Ok e \<Longrightarrow> e = exposure_of sz m"
  using signed_exposure_exact [of U sz m] by (auto split: if_splits)

lemma position_change_Ok:
  assumes U: "u256_ok U" and sz: "in_i128 sz" "sz \<noteq> 0" and m: "m < 2 ^ 126" and bps: "\<bar>bps\<bar> \<le> 10000"
    and run: "position_change U sz m bps = Ok c"
  shows "c = exposure_of sz (shifted_of m bps) - exposure_of sz m"
proof -
  note sh = shifted_exact [OF U bps m]
  obtain x after before where r: "shifted_price U m bps = Ok x" "signed_exposure_usd U sz (nat (max x 0)) = Ok after"
    "signed_exposure_usd U sz m = Ok before" "c = after - before"
    using run by (auto simp: position_change_def res_iffs checked_iff)
  have "nat (max x 0) = shifted_of m bps" using sh(1) r(1) by auto
  then have "after = exposure_of sz (shifted_of m bps)"
    using signed_exposure_Ok [OF U sz sh(2)] r(2) by simp
  moreover have "before = exposure_of sz m"
    using signed_exposure_Ok [OF U sz _ r(3)] m by (simp add: in_u128_def)
  ultimately show ?thesis using r(4) by simp
qed

definition scenario_inputs_ok :: "Prices \<Rightarrow> PositionState list \<Rightarrow> Scenario \<Rightarrow> bool" where
  "scenario_inputs_ok prices ps sc \<longleftrightarrow>
     (\<forall>p \<in> set ps. in_i128 (ps_size p) \<and> mark_of prices p < 2 ^ 126 \<and> \<bar>shift_in sc p\<bar> \<le> 10000)"

lemma scenario_change_Ok:
  assumes U: "u256_ok U" and "scenario_inputs_ok prices ps sc" and "scenario_change U prices sc ps ch = Ok x" and "in_i128 ch"
  shows "x = ch + change_of prices sc ps \<and> in_i128 x"
  using assms(2-4)
proof (induction ps arbitrary: ch)
  case Nil
  then show ?case by (simp add: change_of_def)
next
  case (Cons p ps)
  have ok: "scenario_inputs_ok prices ps sc" using Cons.prems(1) by (simp add: scenario_inputs_ok_def)
  show ?case
  proof (cases "ps_size p = 0")
    case True
    with Cons ok show ?thesis by (simp add: change_of_def exposure_of_def)
  next
    case False
    obtain m c where r: "prices (ps_market_id p) = Some m" "position_change U (ps_size p) m (shift_in sc p) = Ok c"
      "in_i128 (ch + c)" "scenario_change U prices sc ps (ch + c) = Ok x"
      using Cons.prems(2) False by (auto simp: res_iffs checked_iff shift_in_def)
    have "mark_of prices p = m" using r(1) by (simp add: mark_of_def)
    moreover from this have "c = exposure_of (ps_size p) (shifted_of m (shift_in sc p)) - exposure_of (ps_size p) m"
      using Cons.prems(1) False by (intro position_change_Ok [OF U _ _ _ _ r(2)]) (auto simp: scenario_inputs_ok_def)
    ultimately show ?thesis using Cons.IH [OF ok r(4,3)] by (elim conjE) (simp add: change_of_def)
  qed
qed

definition loss_of :: "Prices \<Rightarrow> PositionState list \<Rightarrow> Scenario \<Rightarrow> int" where
  "loss_of prices ps sc = min (2 ^ 127 - 1) (- change_of prices sc ps)"

lemma scenario_loop_Ok:
  assumes U: "u256_ok U" and "\<forall>sc \<in> set scs. scenario_inputs_ok prices ps sc" and "scenario_loop U prices ps scs w0 = Ok w"
  shows "w = Max (insert w0 (loss_of prices ps ` set scs))"
  using assms(2,3)
proof (induction scs arbitrary: w0)
  case (Cons sc scs)
  then obtain ch where ch: "scenario_change U prices sc ps 0 = Ok ch"
    "scenario_loop U prices ps scs (max w0 (saturating_neg_i128 ch)) = Ok w" by (auto simp: res_iffs)
  have "ch = change_of prices sc ps \<and> in_i128 ch"
    using scenario_change_Ok [OF U _ ch(1)] Cons.prems(1) by (simp add: in_i128_def)
  then have "saturating_neg_i128 ch = loss_of prices ps sc"
    by (auto simp: saturating_neg_i128_def sat_i128_def loss_of_def in_i128_def)
  then have "w = Max (insert (max w0 (loss_of prices ps sc)) (loss_of prices ps ` set scs))"
    using Cons.IH [OF _ ch(2)] Cons.prems(1) by simp
  also have "\<dots> = Max (insert w0 (loss_of prices ps ` set (sc # scs)))"
    by (cases "scs = []") (simp_all add: Max_insert max.assoc)
  finally show ?case .
qed simp

text \<open>
  When the scenario term is computed for marks below \<open>2^126\<close> and shifts of at most 100 percent,
  it is the largest loss over the scenarios, or zero when every scenario gains: no scenario loses more
  (up to the \<open>i128\<close> ceiling), and the value is attained.  Losses are exact sums of the floored
  exposures at the shifted price minus those at the mark.
\<close>

theorem scenario_margin_is_worst_loss:
  assumes "u256_ok U" and "\<forall>sc \<in> set scs. scenario_inputs_ok prices ps sc" and "scenario_margin U ps prices scs = Ok w"
  shows "int w = Max (insert 0 (loss_of prices ps ` set scs)) \<and>
     (\<forall>sc \<in> set scs. loss_of prices ps sc \<le> int w) \<and> (w = 0 \<or> (\<exists>sc \<in> set scs. loss_of prices ps sc = int w))"
proof -
  obtain w' where w': "scenario_loop U prices ps scs 0 = Ok w'" "w = nat (max w' 0)"
    using assms(3) by (auto simp: scenario_margin_def res_iffs)
  note mx = scenario_loop_Ok [OF assms(1,2) w'(1)]
  have fin: "finite (insert 0 (loss_of prices ps ` set scs))" by simp
  have "0 \<le> w'" unfolding mx using fin by (intro Max_ge) auto
  then have w: "int w = w'" using w'(2) by simp
  have "w' \<in> insert 0 (loss_of prices ps ` set scs)" unfolding mx by (rule Max_in) auto
  moreover have "loss_of prices ps sc \<le> w'" if "sc \<in> set scs" for sc
    unfolding mx using that by (intro Max_ge) auto
  ultimately show ?thesis using w mx by auto
qed

theorem scenario_margin_is_worst_loss_witness:
  "scenario_margin exact_u256 [\<lparr>ps_market_id = ''B'', ps_size = 10 ^ 18\<rparr>] [''B'' \<mapsto> 100]
     [\<lparr>sc_label = ''up'', sc_price_shifts_bps = [''B'' \<mapsto> 1000]\<rparr>, \<lparr>sc_label = ''down'', sc_price_shifts_bps = [''B'' \<mapsto> - 2000]\<rparr>] = Ok 20 \<and>
   Max {0, - 10, 20 :: int} = 20"
proof -
  let ?ps = "[\<lparr>ps_market_id = ''B'', ps_size = 10 ^ 18\<rparr>]" and ?prices = "[''B'' \<mapsto> 100 :: nat]"
    and ?scs = "[\<lparr>sc_label = ''up'', sc_price_shifts_bps = [''B'' \<mapsto> 1000]\<rparr>, \<lparr>sc_label = ''down'', sc_price_shifts_bps = [''B'' \<mapsto> - 2000]\<rparr>]"
  have run: "scenario_margin exact_u256 ?ps ?prices ?scs = Ok 20"
    by (simp add: scenario_margin_def position_change_def shifted_price_def signed_exposure_usd_def notional_usd_def
        exact_u256_def risk_consts checked_i128_def in_i128_def wrap_i128_def saturating_neg_i128_def sat_i128_def)
  have "\<forall>sc \<in> set ?scs. scenario_inputs_ok ?prices ?ps sc"
    by (simp add: scenario_inputs_ok_def in_i128_def mark_of_def shift_in_def)
  from scenario_margin_is_worst_loss [OF exact_u256_ok this run] have
    "Max (insert 0 (loss_of ?prices ?ps ` set ?scs)) = 20" by simp
  moreover have "loss_of ?prices ?ps ` set ?scs = {- 10, 20}"
    by (simp add: loss_of_def change_of_def exposure_of_def shifted_of_def mark_of_def shift_in_def Let_def)
  ultimately show ?thesis using run by simp
qed

section \<open>The correlation term and the total\<close>

definition pair_cap :: "(MarketId \<rightharpoonup> int) \<Rightarrow> CorrelationEntry \<Rightarrow> int" where
  "pair_cap ex e = (case (ex (ce_market_a e), ex (ce_market_b e)) of
     (Some a, Some b) \<Rightarrow> min \<bar>a\<bar> \<bar>b\<bar> | _ \<Rightarrow> 0)"

text \<open>A pair that lowers the margin: opposite directions with a correlation of at least zero, or the
  same direction with a negative one.\<close>

definition hedged_pair :: "(MarketId \<rightharpoonup> int) \<Rightarrow> CorrelationEntry \<Rightarrow> bool" where
  "hedged_pair ex e \<longleftrightarrow> (\<forall>a b. ex (ce_market_a e) = Some a \<and> ex (ce_market_b e) = Some b \<longrightarrow>
     ((0 \<le> a) = (0 \<le> b)) = (ce_rho_bps e < 0))"

lemma correlation_term_bound:
  assumes U: "u256_ok U" and beta: "beta \<le> 10000" and rho: "\<bar>rho\<bar> \<le> 10000"
    and e: "\<bar>a\<bar> < 2 ^ 127" and run: "correlation_term U beta rho a b = Ok t"
  shows "\<bar>t\<bar> \<le> min \<bar>a\<bar> \<bar>b\<bar>" and "((0 \<le> a) = (0 \<le> b)) = (rho < 0) \<Longrightarrow> t \<le> 0"
proof -
  define n where "n = min (nat \<bar>a\<bar>) (nat \<bar>b\<bar>)"
  define k where "k = nat \<bar>rho\<bar>"
  have n: "n < 2 ^ 127" using e by (simp add: n_def min_less_iff_disj nat_less_iff)
  have k: "k \<le> 10000" using rho by (simp add: k_def)
  have nk: "n * k \<le> 2 ^ 127 * 10000" using n k by (intro mult_mono) auto
  have nkb: "n * k * beta \<le> 2 ^ 127 * 10000 * 10000" by (rule mult_mono [OF nk beta]) simp_all
  have "n * k * beta \<le> n * 10000 * 10000" using k beta by (intro mult_mono mult_left_mono) auto
  then have "n * k * beta \<le> n * 100000000" by simp
  then have q: "n * k * beta div 100000000 \<le> n" by (metis div_le_mono nonzero_mult_div_cancel_right zero_neq_numeral)
  have "u_mul U n k = Some (n * k)" using u256_mul [OF U, of n k] n k nk by simp
  moreover have "u_mul U (n * k) beta = Some (n * k * beta)" using u256_mul [OF U, of "n * k" beta] nk nkb beta by simp
  moreover have "u_mul U BPS_DENOMINATOR BPS_DENOMINATOR = Some 100000000"
    using u256_mul [OF U, of BPS_DENOMINATOR BPS_DENOMINATOR] by (simp add: risk_consts)
  moreover have "u_div U (n * k * beta) 100000000 = Some (n * k * beta div 100000000)"
    using nkb by (intro u256_div [OF U]) simp_all
  ultimately have mag: "correlation_magnitude U n rho beta = Some (n * k * beta div 100000000)"
    by (simp add: correlation_magnitude_def k_def)
  have "u_to_i128 U (n * k * beta div 100000000) = Some (int (n * k * beta div 100000000))"
    using u256_narrow(2) [OF U, of "n * k * beta div 100000000"] q n by simp
  with mag run have t: "t = (if (0 \<le> a) = (0 \<le> b) then 1 else - 1) * (if rho < 0 then - 1 else 1) * int (n * k * beta div 100000000)"
    by (simp add: correlation_term_def n_def Let_def)
  then have "\<bar>t\<bar> = int (n * k * beta div 100000000)" by (simp add: abs_mult)
  also have "\<dots> \<le> int n" using q by (simp only: of_nat_le_iff)
  finally show "\<bar>t\<bar> \<le> min \<bar>a\<bar> \<bar>b\<bar>" by (simp add: n_def of_nat_min)
  show "t \<le> 0" if "((0 \<le> a) = (0 \<le> b)) = (rho < 0)"
    unfolding t using that by (cases "rho < 0") auto
qed

definition exposures_in_range :: "(MarketId \<rightharpoonup> int) \<Rightarrow> bool" where
  "exposures_in_range ex \<longleftrightarrow> (\<forall>m e. ex m = Some e \<longrightarrow> \<bar>e\<bar> < 2 ^ 127)"

lemma correlation_loop_bound:
  assumes U: "u256_ok U" and beta: "beta \<le> 10000" and ex: "exposures_in_range ex"
    and "\<forall>e \<in> set es. \<bar>ce_rho_bps e\<bar> \<le> 10000" and "correlation_loop U ex beta es t0 = Ok t"
  shows "\<bar>t - t0\<bar> \<le> sum_list (map (pair_cap ex) es) \<and> ((\<forall>e \<in> set es. hedged_pair ex e) \<longrightarrow> t \<le> t0)"
  using assms(4,5)
proof (induction es arbitrary: t0)
  case (Cons e es)
  show ?case
  proof (cases "\<exists>a b. ex (ce_market_a e) = Some a \<and> ex (ce_market_b e) = Some b")
    case False
    then have "correlation_loop U ex beta es t0 = Ok t" "pair_cap ex e = 0"
      using Cons.prems(2) by (auto simp: pair_cap_def split: option.splits)
    with Cons.IH Cons.prems(1) show ?thesis by simp
  next
    case True
    then obtain a b where ab: "ex (ce_market_a e) = Some a" "ex (ce_market_b e) = Some b" by blast
    then obtain d where d: "correlation_term U beta (ce_rho_bps e) a b = Ok d" "correlation_loop U ex beta es (t0 + d) = Ok t"
      using Cons.prems(2) by (auto simp: res_iffs checked_iff)
    have "\<bar>a\<bar> < 2 ^ 127" "\<bar>ce_rho_bps e\<bar> \<le> 10000" using ex ab(1) Cons.prems(1) by (auto simp: exposures_in_range_def)
    note bd = correlation_term_bound [OF U beta this(2,1) d(1)]
    have "hedged_pair ex e \<Longrightarrow> d \<le> 0" using bd(2) ab unfolding hedged_pair_def by blast
    moreover have "\<bar>d\<bar> \<le> pair_cap ex e" using bd(1) ab by (simp add: pair_cap_def)
    ultimately show ?thesis using Cons.IH [OF _ d(2)] Cons.prems(1) by fastforce
  qed
qed simp

lemma exposures_loop_range:
  assumes U: "u256_ok U" and "\<forall>p \<in> set ps. position_ok prices p" and "exposures_in_range ex0"
    and "exposures_loop U prices ps ex0 = Ok ex"
  shows "exposures_in_range ex"
  using assms(2-4)
proof (induction ps arbitrary: ex0)
  case (Cons p ps)
  show ?case
  proof (cases "ps_size p = 0")
    case True
    with Cons show ?thesis by simp
  next
    case False
    obtain m e where r: "prices (ps_market_id p) = Some m" "signed_exposure_usd U (ps_size p) m = Ok e"
      "exposures_loop U prices ps (ex0(ps_market_id p \<mapsto> e)) = Ok ex"
      using Cons.prems(3) False by (auto simp: res_iffs)
    have ok: "in_i128 (ps_size p)" "in_u128 m" using Cons.prems(1) False r(1) by (auto simp: position_ok_def)
    have "\<bar>e\<bar> < 2 ^ 127"
      using signed_exposure_exact [OF U ok(1) False ok(2)] r(2) by (auto simp: in_i128_def split: if_splits)
    then have "exposures_in_range (ex0(ps_market_id p \<mapsto> e))" using Cons.prems(2) by (simp add: exposures_in_range_def)
    from Cons.IH [OF _ this r(3)] Cons.prems(1) show ?thesis by simp
  qed
qed simp

text \<open>
  With correlations and a scaling factor of at most 100 percent, the correlation term is bounded by
  the sum over the listed pairs of the smaller leg's exposure, so a hedge never credits more than it
  offsets; and when every pair is a hedge (opposite directions with non-negative correlation, or the
  same direction with a negative one) the term never charges.
\<close>

theorem correlation_credit_bounded:
  assumes "u256_ok U" and "\<forall>p \<in> set ps. position_ok prices p" and "beta \<le> 10000"
    and "\<forall>e \<in> set es. \<bar>ce_rho_bps e\<bar> \<le> 10000" and "correlation_adjustment U ps prices es beta = Ok t"
  shows "\<exists>ex. exposures_loop U prices ps Map.empty = Ok ex \<and> \<bar>t\<bar> \<le> sum_list (map (pair_cap ex) es) \<and>
     ((\<forall>e \<in> set es. hedged_pair ex e) \<longrightarrow> t \<le> 0)"
proof -
  obtain ex where ex: "exposures_loop U prices ps Map.empty = Ok ex" "correlation_loop U ex beta es 0 = Ok t"
    using assms(5) by (auto simp: correlation_adjustment_def res_iffs)
  have "exposures_in_range ex"
    by (rule exposures_loop_range [OF assms(1,2) _ ex(1)]) (simp add: exposures_in_range_def)
  from correlation_loop_bound [OF assms(1,3) this assms(4) ex(2)] ex(1) show ?thesis by simp
qed

definition two_legs :: "PositionState list" where
  "two_legs = [\<lparr>ps_market_id = ''B'', ps_size = 3 * 10 ^ 18\<rparr>, \<lparr>ps_market_id = ''E'', ps_size = - (2 * 10 ^ 18)\<rparr>]"

definition two_marks :: Prices where
  "two_marks = [''B'' \<mapsto> 100, ''E'' \<mapsto> 50]"

lemmas risk_eval = two_legs_def two_marks_def exact_u256_def risk_consts signed_exposure_usd_def notional_usd_def
  correlation_adjustment_def correlation_term_def correlation_magnitude_def checked_i128_def in_i128_def

theorem correlation_credit_bounded_witness:
  "correlation_adjustment exact_u256 two_legs two_marks [\<lparr>ce_market_a = ''B'', ce_market_b = ''E'', ce_rho_bps = 8000\<rparr>] 5000 = Ok (- 40) \<and>
   \<bar>- 40 :: int\<bar> \<le> 100"
proof -
  let ?es = "[\<lparr>ce_market_a = ''B'', ce_market_b = ''E'', ce_rho_bps = 8000\<rparr>]"
  have run: "correlation_adjustment exact_u256 two_legs two_marks ?es 5000 = Ok (- 40)" by (simp add: risk_eval)
  have "\<forall>p \<in> set two_legs. position_ok two_marks p"
    by (simp add: two_legs_def two_marks_def position_ok_def in_i128_def in_u128_def)
  from correlation_credit_bounded [OF exact_u256_ok this _ _ run] obtain ex where
    ex: "exposures_loop exact_u256 two_marks two_legs Map.empty = Ok ex" "\<bar>- 40 :: int\<bar> \<le> sum_list (map (pair_cap ex) ?es)"
    by auto
  have "ex = [''B'' \<mapsto> 300, ''E'' \<mapsto> - 100]" using ex(1) by (simp add: risk_eval)
  then have "sum_list (map (pair_cap ex) ?es) = 100" by (simp add: pair_cap_def)
  with ex(2) run show ?thesis by simp
qed

text \<open>
  A portfolio evaluation reports the four terms it computed and, while each stays below \<open>2^125\<close> in
  magnitude, their exact sum floored at zero; it never reports a total above the three charges plus a
  positive correlation term, and fails with the first term's error or panic.
\<close>

theorem portfolio_total_exact:
  assumes "compute_portfolio_margin U ps prices params = Ok r"
    and "pr_f_scenario r < 2 ^ 125" and "pr_f_concentration r < 2 ^ 125" and "pr_f_liquidity r < 2 ^ 125"
    and "\<bar>pr_f_correlation r\<bar> < 2 ^ 125"
  shows "int (pr_total r) = max 0 (int (pr_f_scenario r) + int (pr_f_concentration r) + int (pr_f_liquidity r) + pr_f_correlation r) \<and>
     scenario_margin U ps prices (pp_scenarios params) = Ok (pr_f_scenario r) \<and>
     liquidity_charge U ps prices (pp_liquidity_bps params) = Ok (pr_f_liquidity r) \<and>
     correlation_adjustment U ps prices (pp_correlations params) (pp_beta_bps params) = Ok (pr_f_correlation r)"
proof -
  obtain s c l k where r: "scenario_margin U ps prices (pp_scenarios params) = Ok s"
    "liquidity_charge U ps prices (pp_liquidity_bps params) = Ok l"
    "correlation_adjustment U ps prices (pp_correlations params) (pp_beta_bps params) = Ok k"
    "r = \<lparr>pr_f_scenario = s, pr_f_concentration = c, pr_f_liquidity = l, pr_f_correlation = k,
       pr_total = nat (max (wrap_i128 (wrap_i128 (wrap_i128 (wrap_i128 (int s) + wrap_i128 (int c)) + wrap_i128 (int l)) + k)) 0)\<rparr>"
    using assms(1) by (auto simp: compute_portfolio_margin_def res_iffs Let_def)
  have b: "int s < 2 ^ 125" "int c < 2 ^ 125" "int l < 2 ^ 125" "\<bar>k\<bar> < 2 ^ 125" using assms(2-5) r(4) by simp_all
  have "wrap_i128 (int s) = int s" "wrap_i128 (int c) = int c" "wrap_i128 (int l) = int l"
    "wrap_i128 (int s + int c) = int s + int c" "wrap_i128 (int s + int c + int l) = int s + int c + int l"
    "wrap_i128 (int s + int c + int l + k) = int s + int c + int l + k"
    using b by (auto simp: in_i128_def intro!: wrap_i128_id)
  with r show ?thesis by simp
qed

theorem portfolio_total_exact_witness:
  "\<exists>r. compute_portfolio_margin exact_u256 two_legs two_marks
     \<lparr>pp_scenarios = [], pp_asset_groups = Map.empty, pp_concentration_threshold_bps = 5000, pp_concentration_kappa_bps = 1000,
      pp_liquidity_bps = [''B'' \<mapsto> 100], pp_correlations = [\<lparr>ce_market_a = ''B'', ce_market_b = ''E'', ce_rho_bps = 8000\<rparr>],
      pp_beta_bps = 500\<rparr> = Ok r \<and> pr_total r = 19"
proof -
  let ?params = "\<lparr>pp_scenarios = [], pp_asset_groups = Map.empty, pp_concentration_threshold_bps = 5000, pp_concentration_kappa_bps = 1000,
      pp_liquidity_bps = [''B'' \<mapsto> 100], pp_correlations = [\<lparr>ce_market_a = ''B'', ce_market_b = ''E'', ce_rho_bps = 8000\<rparr>],
      pp_beta_bps = 500\<rparr>"
  have "concentration_totals exact_u256 two_marks Map.empty two_legs [] 0 = Ok ([(''ungrouped'', 400)], 400)"
    by (simp add: checked_u128_def in_u128_def risk_eval wrap_u128_def)
  then have c: "concentration_charge exact_u256 two_legs two_marks Map.empty 5000 1000 = Ok 20"
    unfolding concentration_charge_def by (simp add: group_charge_def wrap_u128_def risk_consts)
  have l: "liquidity_charge exact_u256 two_legs two_marks [''B'' \<mapsto> 100] = Ok 3"
    by (simp add: liquidity_charge_def liquidity_term_def wrap_u128_def risk_eval)
  have k: "correlation_adjustment exact_u256 two_legs two_marks [\<lparr>ce_market_a = ''B'', ce_market_b = ''E'', ce_rho_bps = 8000\<rparr>] 500 = Ok (- 4)"
    by (simp add: risk_eval)
  have s: "scenario_margin exact_u256 two_legs two_marks [] = Ok 0" by (simp add: scenario_margin_def)
  have run: "compute_portfolio_margin exact_u256 two_legs two_marks ?params =
    Ok \<lparr>pr_f_scenario = 0, pr_f_concentration = 20, pr_f_liquidity = 3, pr_f_correlation = - 4, pr_total = 19\<rparr>"
    by (simp add: compute_portfolio_margin_def s c l k) (simp add: wrap_i128_def)
  from portfolio_total_exact [OF run] run show ?thesis by simp
qed

end
