(* ===== verification/Backstop_Maker.thy ===== *)
theory Backstop_Maker
  imports Risk
begin

text \<open>
  The kernel-owned backstop maker of \<open>crates/risk/src/backstop_maker.rs\<close>: the quote around a slow
  trailing mean, the spread that widens with inventory, the last-look check against a fast trailing
  mean, the size cap, and the break-even ledger.
\<close>

datatype BackstopMakerError = EmptyHistory | Overflow

datatype MakerSide = Buy | Sell

datatype SpreadModel = Flat
  | Dynamic (max_spread_bps: nat) (widen_per_unit_utilization_bps: nat) (inventory_reference: nat)

record BackstopMakerConfig =
  bm_spread_bps :: nat
  bm_spread_model :: SpreadModel
  bm_quote_twap_window :: nat
  bm_last_look_window :: nat
  bm_last_look_threshold_bps :: nat
  bm_notional_cap :: nat

record Quote =
  q_bid :: nat
  q_ask :: nat

datatype FillDecision = Accepted nat nat | RejectedStalePrice

text \<open>\<open>u128::try_from(a * b / c)\<close> with its error.\<close>

definition mul_div_u128 :: "u256_ops \<Rightarrow> nat \<Rightarrow> nat \<Rightarrow> nat \<Rightarrow> (BackstopMakerError, nat) res" where
  "mul_div_u128 U a b c =
     and_then (no_panic (do { p \<leftarrow> u_mul U a b; u_div U p c })) (\<lambda>q. ok_or Overflow (u_to_u128 U q))"

definition effective_spread_bps :: "u256_ops \<Rightarrow> BackstopMakerConfig \<Rightarrow> int \<Rightarrow> (BackstopMakerError, nat) res" where
  "effective_spread_bps U cfg inventory =
     (case bm_spread_model cfg of
        Flat \<Rightarrow> Ok (bm_spread_bps cfg)
      | Dynamic mx widen reference \<Rightarrow>
          if reference = 0 then Ok mx
          else and_then (mul_div_u128 U (nat \<bar>inventory\<bar>) BPS_DENOMINATOR reference) (\<lambda>u.
            let utilization_bps = min u BPS_DENOMINATOR in
            and_then (mul_div_u128 U widen utilization_bps BPS_DENOMINATOR) (\<lambda>extra.
            Ok (min (wrap_u128 (int (bm_spread_bps cfg + extra))) mx))))"

fun sum_prices :: "u256_ops \<Rightarrow> nat list \<Rightarrow> nat \<Rightarrow> nat option" where
  "sum_prices U [] acc = Some acc"
| "sum_prices U (p # ps) acc = do { acc' \<leftarrow> u_add U acc p; sum_prices U ps acc' }"

definition bm_mean :: "u256_ops \<Rightarrow> nat list \<Rightarrow> (BackstopMakerError, nat) res" where
  "bm_mean U history =
     (if history = [] then Err EmptyHistory
      else and_then (no_panic (do { s \<leftarrow> sum_prices U history 0; u_div U s (length history) })) (\<lambda>q.
        ok_or Overflow (u_to_u128 U q)))"

definition bm_trailing_mean :: "u256_ops \<Rightarrow> nat list \<Rightarrow> nat \<Rightarrow> (BackstopMakerError, nat) res" where
  "bm_trailing_mean U history window = bm_mean U (drop (length history - window) history)"

definition fair_value :: "u256_ops \<Rightarrow> nat list \<Rightarrow> BackstopMakerConfig \<Rightarrow> (BackstopMakerError, nat) res" where
  "fair_value U history cfg = bm_trailing_mean U history (bm_quote_twap_window cfg)"

definition compute_quote :: "u256_ops \<Rightarrow> nat list \<Rightarrow> BackstopMakerConfig \<Rightarrow> int \<Rightarrow> (BackstopMakerError, Quote) res" where
  "compute_quote U history cfg inventory =
     and_then (fair_value U history cfg) (\<lambda>center.
     and_then (effective_spread_bps U cfg inventory) (\<lambda>spread_bps.
     and_then (mul_div_u128 U center spread_bps BPS_DENOMINATOR) (\<lambda>half_spread.
     Ok \<lparr>q_bid = center - half_spread, q_ask = sat_u128 (center + half_spread)\<rparr>)))"

definition abs_diff :: "nat \<Rightarrow> nat \<Rightarrow> nat" where
  "abs_diff a b = (if a < b then b - a else a - b)"

definition evaluate_fill :: "u256_ops \<Rightarrow> nat list \<Rightarrow> BackstopMakerConfig \<Rightarrow> MakerSide \<Rightarrow> nat \<Rightarrow> int \<Rightarrow>
    (BackstopMakerError, FillDecision) res" where
  "evaluate_fill U history cfg side requested_size inventory =
     and_then (compute_quote U history cfg inventory) (\<lambda>quote.
       let price = (case side of Buy \<Rightarrow> q_ask quote | Sell \<Rightarrow> q_bid quote);
           sz = min requested_size (bm_notional_cap cfg) in
       and_then (ok_or EmptyHistory (if history = [] then None else Some (last history))) (\<lambda>live_print.
       and_then (bm_trailing_mean U history (bm_last_look_window cfg)) (\<lambda>reference.
       and_then (mul_div_u128 U (abs_diff live_print reference) BPS_DENOMINATOR reference) (\<lambda>deviation_bps.
       if bm_last_look_threshold_bps cfg < deviation_bps then Ok RejectedStalePrice
       else Ok (Accepted price sz)))))"

section \<open>The ledger\<close>

record PnlLedger =
  pl_cumulative :: int
  pl_inventory :: int

definition record_fill :: "PnlLedger \<Rightarrow> MakerSide \<Rightarrow> nat \<Rightarrow> nat \<Rightarrow> nat \<Rightarrow> PnlLedger" where
  "record_fill ledger side fill_price mark_price sz =
     (let price_diff = wrap_i128 (wrap_i128 (int mark_price) - wrap_i128 (int fill_price));
          signed_diff = (case side of Buy \<Rightarrow> wrap_i128 (- price_diff) | Sell \<Rightarrow> price_diff);
          trade_pnl = trunc_div (sat_i128 (signed_diff * wrap_i128 (int sz))) (int SCALE);
          inventory_delta = (case side of Buy \<Rightarrow> wrap_i128 (- wrap_i128 (int sz)) | Sell \<Rightarrow> wrap_i128 (int sz)) in
      \<lparr>pl_cumulative = sat_i128 (pl_cumulative ledger + trade_pnl),
       pl_inventory = sat_i128 (pl_inventory ledger + inventory_delta)\<rparr>)"

definition breakeven_subsidy_needed :: "PnlLedger \<Rightarrow> nat" where
  "breakeven_subsidy_needed ledger = (if 0 \<le> pl_cumulative ledger then 0 else nat \<bar>pl_cumulative ledger\<bar>)"

section \<open>Trailing means\<close>

lemma mul_div_exact:
  assumes U: "u256_ok U" and "in_u128 a" and "in_u128 b" and "in_u128 c" and "0 < c"
  shows "mul_div_u128 U a b c = (if a * b div c < 2 ^ 128 then Ok (a * b div c) else Err Overflow)"
proof -
  note m = u256_mul_u128 [OF U assms(2,3)]
  have "c < 2 ^ 256" using assms(4) by (simp add: in_u128_def)
  with m u256_div [OF U m(2) _ assms(5)] u256_narrow(1) [OF U, of "a * b div c"] show ?thesis
    using div_le_dividend [of "a * b" c] by (simp add: mul_div_u128_def)
qed

lemma sum_prices_exact:
  assumes U: "u256_ok U" and "acc + sum_list ps < 2 ^ 256"
  shows "sum_prices U ps acc = Some (acc + sum_list ps)"
  using assms(2)
proof (induction ps arbitrary: acc)
  case (Cons p ps)
  then have "u_add U acc p = Some (acc + p)" by (intro u256_add [OF U]) simp
  with Cons show ?case by (simp add: add.assoc)
qed simp

lemma mean_exact:
  assumes U: "u256_ok U" and "\<forall>p \<in> set ps. in_u128 p" and "length ps < 2 ^ 64" and ne: "ps \<noteq> []"
  shows "bm_mean U ps = Ok (sum_list ps div length ps)"
proof -
  have le: "sum_list ps \<le> length ps * (2 ^ 128 - 1)" using assms(2) by (intro sum_list_le) (auto simp: in_u128_def)
  also have "\<dots> \<le> 2 ^ 64 * (2 ^ 128 - 1)" using assms(3) by (intro mult_right_mono) simp_all
  also have "\<dots> < 2 ^ 256" by simp
  finally have b: "sum_list ps < 2 ^ 256" .
  have s: "sum_prices U ps 0 = Some (sum_list ps)" using sum_prices_exact [OF U, of 0 ps] b by simp
  have "sum_list ps div length ps \<le> length ps * (2 ^ 128 - 1) div length ps" using le by (rule div_le_mono)
  then have q: "sum_list ps div length ps < 2 ^ 128" using ne by simp
  have "u_div U (sum_list ps) (length ps) = Some (sum_list ps div length ps)"
    using assms(3) ne by (intro u256_div [OF U b]) simp_all
  with s q ne u256_narrow(1) [OF U, of "sum_list ps div length ps"] show ?thesis
    by (simp add: bm_mean_def)
qed

end
