(* ===== verification/Backstop_Maker_Properties.thy ===== *)
theory Backstop_Maker_Properties
  imports Backstop_Maker Risk_Properties
begin

text \<open>
  The three guards of the backstop maker (a smoothed quote, a size cap, last-look), the inventory
  spread, and the ledger.
\<close>

definition history_ok :: "nat list \<Rightarrow> bool" where
  "history_ok h \<longleftrightarrow> h \<noteq> [] \<and> (\<forall>p \<in> set h. in_u128 p) \<and> length h < 2 ^ 64"

definition recent :: "nat list \<Rightarrow> nat \<Rightarrow> nat list" where
  "recent h w = drop (length h - w) h"

lemma recent_ok: "history_ok h \<Longrightarrow> 0 < w \<Longrightarrow> recent h w \<noteq> [] \<and> (\<forall>p \<in> set (recent h w). in_u128 p) \<and> length (recent h w) < 2 ^ 64"
proof -
  assume *: "history_ok h" "0 < w"
  then have "0 < length h" by (simp add: history_ok_def)
  then have "length h - w < length h" using *(2) by (rule diff_less [rotated])
  then have "recent h w \<noteq> []" by (simp only: recent_def drop_eq_Nil not_le)
  with * show ?thesis by (auto simp: history_ok_def recent_def dest: in_set_dropD)
qed

lemma maker_trailing_mean_exact:
  assumes "u256_ok U" and "history_ok h" and "0 < w"
  shows "bm_trailing_mean U h w = Ok (sum_list (recent h w) div length (recent h w))"
  using mean_exact [OF assms(1), of "recent h w"] recent_ok [OF assms(2,3)]
  by (simp add: bm_trailing_mean_def recent_def)

lemma recent_snoc: "0 < w \<Longrightarrow> recent (hs @ [x]) w = drop (Suc (length hs) - w) hs @ [x]"
  by (simp add: recent_def)

lemma mean_step_aux:
  assumes "x \<le> y" and "0 < n"
  shows "(s + y) div n - (s + x) div n \<le> (y - x) div n + (1 :: nat)"
proof -
  have e: "s + y = (s + x) + (y - x)" using assms(1) by simp
  have "(s + x + (y - x)) div n = (s + x) div n + (y - x) div n + ((s + x) mod n + (y - x) mod n) div n"
    by (rule div_add1_eq)
  moreover have "((s + x) mod n + (y - x) mod n) div n \<le> 1"
  proof -
    have "(s + x) mod n + (y - x) mod n < 2 * n"
      using mod_less_divisor [OF assms(2), of "s + x"] mod_less_divisor [OF assms(2), of "y - x"] by linarith
    then have "((s + x) mod n + (y - x) mod n) div n < 2" by (rule less_mult_imp_div_less)
    then show ?thesis by simp
  qed
  ultimately show ?thesis unfolding e by linarith
qed

text \<open>
  On a non-empty price history a quote, when one is given, brackets the slow trailing mean
  (bid at most the mean, ask at least the mean), and that mean lies between the lowest and the highest
  print of the window; replacing only the latest print moves the mean by at most the change divided by
  the number of prints in the window, plus one for rounding.
\<close>

theorem quote_brackets_smoothed_price:
  assumes "u256_ok U" and "history_ok (hs @ [x])" and "0 < bm_quote_twap_window cfg"
    and "compute_quote U (hs @ [x]) cfg inventory = Ok q" and "in_u128 y"
  defines "w \<equiv> recent (hs @ [x]) (bm_quote_twap_window cfg)"
  shows "\<exists>c c'. fair_value U (hs @ [x]) cfg = Ok c \<and> q_bid q \<le> c \<and> c \<le> q_ask q \<and>
    Min (set w) \<le> c \<and> c \<le> Max (set w) \<and>
    fair_value U (hs @ [y]) cfg = Ok c' \<and> abs_diff c c' \<le> abs_diff x y div length w + 1"
proof -
  let ?w = "bm_quote_twap_window cfg" and ?pre = "drop (Suc (length hs) - bm_quote_twap_window cfg) hs"
  have oky: "history_ok (hs @ [y])" using assms(2,5) by (auto simp: history_ok_def)
  have w: "w = ?pre @ [x]" "recent (hs @ [y]) ?w = ?pre @ [y]" using assms(3) by (simp_all add: w_def recent_snoc)
  let ?c = "sum_list w div length w" and ?c' = "(sum_list ?pre + y) div length w"
  have c: "fair_value U (hs @ [x]) cfg = Ok ?c" "fair_value U (hs @ [y]) cfg = Ok ?c'"
    using maker_trailing_mean_exact [OF assms(1,2,3)] maker_trailing_mean_exact [OF assms(1) oky assms(3)] w
    by (simp_all add: fair_value_def w_def)
  have "w \<noteq> []" using w by simp
  note mb = mean_between [OF this]
  have "Max (set w) < 2 ^ 128" using recent_ok [OF assms(2,3)] w by (simp add: w_def in_u128_def)
  then have "?c < 2 ^ 128" using mb(2) by linarith
  then have q: "q_bid q \<le> ?c" "?c \<le> q_ask q"
    using assms(4) c(1) by (auto simp: compute_quote_def res_iffs sat_u128_def)
  have len: "0 < length w" using w by simp
  have cx: "?c = (sum_list ?pre + x) div length w" using w(1) by simp
  have "abs_diff ?c ?c' \<le> abs_diff x y div length w + 1"
  proof (cases "x \<le> y")
    case True
    then show ?thesis unfolding cx using mean_step_aux [OF True len, of "sum_list ?pre"]
        div_le_mono [of "sum_list ?pre + x" "sum_list ?pre + y" "length w"]
      by (auto simp: abs_diff_def)
  next
    case False
    then have "y \<le> x" by simp
    then show ?thesis unfolding cx using mean_step_aux [OF _ len, of y x "sum_list ?pre"]
        div_le_mono [of "sum_list ?pre + y" "sum_list ?pre + x" "length w"]
      by (auto simp: abs_diff_def)
  qed
  with c q mb show ?thesis by blast
qed

definition example_cfg :: BackstopMakerConfig where
  "example_cfg = \<lparr>bm_spread_bps = 50, bm_spread_model = Dynamic 400 300 1000, bm_quote_twap_window = 3, bm_last_look_window = 2,
     bm_last_look_threshold_bps = 100, bm_notional_cap = 500\<rparr>"

lemmas maker_eval = example_cfg_def compute_quote_def fair_value_def bm_trailing_mean_def bm_mean_def
  effective_spread_bps_def mul_div_u128_def exact_u256_def risk_consts Let_def

theorem quote_brackets_smoothed_price_witness:
  "\<exists>c'. fair_value exact_u256 ([10000, 10000] @ [40000]) example_cfg = Ok c' \<and> abs_diff 10000 c' \<le> 10001"
proof -
  have run: "compute_quote exact_u256 ([10000, 10000] @ [10000]) example_cfg 0 = Ok \<lparr>q_bid = 9950, q_ask = 10050\<rparr>"
    by (simp add: maker_eval) (simp add: wrap_u128_def sat_u128_def)
  have ok: "history_ok ([10000, 10000] @ [10000])" "0 < bm_quote_twap_window example_cfg" "in_u128 40000"
    by (simp_all add: history_ok_def in_u128_def example_cfg_def)
  have "fair_value exact_u256 ([10000, 10000] @ [10000]) example_cfg = Ok 10000" by (simp add: maker_eval)
  with quote_brackets_smoothed_price [OF exact_u256_ok ok(1,2) run ok(3)] show ?thesis
    by (auto simp: abs_diff_def recent_def example_cfg_def)
qed

text \<open>
  A fill decision on a priced history: it is accepted only at the maker's own quote for the taken
  side, for the requested size cut to the cap, and only when the live print deviates from the fast
  trailing mean by at most the threshold; a larger deviation is rejected as stale, and an empty
  history is an error.
\<close>

theorem evaluate_fill_guards:
  assumes "u256_ok U" and "history_ok h" and "0 < bm_last_look_window cfg"
    and "compute_quote U h cfg inventory = Ok q"
  defines "ref \<equiv> sum_list (recent h (bm_last_look_window cfg)) div length (recent h (bm_last_look_window cfg))"
  defines "dev \<equiv> abs_diff (last h) ref * 10000 div ref"
  shows "evaluate_fill U [] cfg side sz inventory = Err EmptyHistory \<and>
    (ref = 0 \<longrightarrow> evaluate_fill U h cfg side sz inventory = None) \<and>
    (0 < ref \<longrightarrow> evaluate_fill U h cfg side sz inventory =
       (if 2 ^ 128 \<le> dev then Err Overflow
        else if bm_last_look_threshold_bps cfg < dev then Ok RejectedStalePrice
        else Ok (Accepted (case side of Buy \<Rightarrow> q_ask q | Sell \<Rightarrow> q_bid q) (min sz (bm_notional_cap cfg)))))"
proof -
  have empty: "evaluate_fill U [] cfg side sz inventory = Err EmptyHistory"
    by (simp add: evaluate_fill_def compute_quote_def fair_value_def bm_trailing_mean_def bm_mean_def)
  have mean: "bm_trailing_mean U h (bm_last_look_window cfg) = Ok ref"
    using maker_trailing_mean_exact [OF assms(1-3)] by (simp add: ref_def)
  have w: "recent h (bm_last_look_window cfg) \<noteq> []" "\<forall>p \<in> set (recent h (bm_last_look_window cfg)). in_u128 p"
    using recent_ok [OF assms(2,3)] by auto
  have "ref \<le> Max (set (recent h (bm_last_look_window cfg)))" unfolding ref_def by (rule mean_between(2) [OF w(1)])
  moreover have "Max (set (recent h (bm_last_look_window cfg))) < 2 ^ 128" using w by (simp add: in_u128_def)
  ultimately have ref: "in_u128 ref" unfolding in_u128_def by linarith
  have ne: "h \<noteq> []" and last: "in_u128 (last h)" using assms(2) by (auto simp: history_ok_def)
  then have diff: "in_u128 (abs_diff (last h) ref)" using ref by (auto simp: abs_diff_def in_u128_def)
  have bps: "in_u128 BPS_DENOMINATOR" by (simp add: in_u128_def risk_consts)
  have zero: "mul_div_u128 U (abs_diff (last h) ref) BPS_DENOMINATOR ref = None" if "ref = 0"
    using that u256_mul_u128 [OF assms(1) diff bps] assms(1) by (simp add: mul_div_u128_def u256_ok_def)
  have pos: "mul_div_u128 U (abs_diff (last h) ref) BPS_DENOMINATOR ref = (if 2 ^ 128 \<le> dev then Err Overflow else Ok dev)" if "0 < ref"
    using mul_div_exact [OF assms(1) diff bps ref that] by (simp add: dev_def BPS_DENOMINATOR_def not_le)
  show ?thesis
    using empty zero pos mean ne assms(4) by (auto simp: evaluate_fill_def Let_def)
qed

theorem evaluate_fill_guards_witness:
  "evaluate_fill exact_u256 [10000, 10000, 10100] example_cfg Buy 900 0 = Ok (Accepted 10083 500) \<and>
   evaluate_fill exact_u256 [] example_cfg Buy 900 0 = Err EmptyHistory"
proof -
  have run: "compute_quote exact_u256 [10000, 10000, 10100] example_cfg 0 = Ok \<lparr>q_bid = 9983, q_ask = 10083\<rparr>"
    by (simp add: maker_eval) (simp add: wrap_u128_def sat_u128_def)
  have ok: "history_ok [10000, 10000, 10100]" "0 < bm_last_look_window example_cfg"
    by (simp_all add: history_ok_def in_u128_def example_cfg_def)
  have "recent [10000, 10000, 10100] (bm_last_look_window example_cfg) = [10000, 10100]"
    by (simp add: recent_def example_cfg_def)
  moreover have "sum_list [10000, 10100 :: nat] div length [10000, 10100 :: nat] = 10050"
    "abs_diff (last [10000, 10000, 10100]) 10050 * 10000 div 10050 = 49" by (simp_all add: abs_diff_def flip: numeral_2_eq_2)
  moreover have "bm_last_look_threshold_bps example_cfg = 100" "bm_notional_cap example_cfg = 500"
    by (simp_all add: example_cfg_def)
  ultimately show ?thesis using evaluate_fill_guards [OF exact_u256_ok ok run, of Buy 900]
    by (simp del: sum_list.Cons list.size)
qed

lemma spread_value:
  assumes U: "u256_ok U" and model: "bm_spread_model cfg = Dynamic mx widen reference" and ref: "reference \<noteq> 0"
    and ok: "in_u128 widen" "in_u128 reference" "bm_spread_bps cfg + widen < 2 ^ 128"
    and k: "in_i128 k" and run: "effective_spread_bps U cfg k = Ok x"
  shows "x = min (bm_spread_bps cfg + widen * min (nat \<bar>k\<bar> * 10000 div reference) 10000 div 10000) mx"
proof -
  define u where "u = nat \<bar>k\<bar> * BPS_DENOMINATOR div reference"
  define extra where "extra = widen * min u BPS_DENOMINATOR div BPS_DENOMINATOR"
  have bps: "in_u128 BPS_DENOMINATOR" "0 < BPS_DENOMINATOR" by (simp_all add: in_u128_def risk_consts)
  have util: "mul_div_u128 U (nat \<bar>k\<bar>) BPS_DENOMINATOR reference = (if u < 2 ^ 128 then Ok u else Err Overflow)"
    using mul_div_exact [OF U abs_i128 [OF k] bps(1) ok(2)] ref by (simp add: u_def)
  have mu: "in_u128 (min u BPS_DENOMINATOR)" using bps(1) by (auto simp: in_u128_def min_less_iff_disj)
  have "widen * min u BPS_DENOMINATOR \<le> widen * BPS_DENOMINATOR" by (intro mult_left_mono) simp_all
  then have "extra \<le> widen * BPS_DENOMINATOR div BPS_DENOMINATOR" unfolding extra_def by (rule div_le_mono)
  then have e: "extra \<le> widen" using bps(2) by simp
  have ext: "mul_div_u128 U widen (min u BPS_DENOMINATOR) BPS_DENOMINATOR = Ok extra"
    using mul_div_exact [OF U ok(1) mu bps] e ok(1) by (simp add: in_u128_def flip: extra_def)
  have wr: "wrap_u128 (int (bm_spread_bps cfg + extra)) = bm_spread_bps cfg + extra"
    using e ok(3) by (intro wrap_u128_id) (simp add: in_u128_def)
  have "u < 2 ^ 128"
    using run by (cases "u < 2 ^ 128") (simp_all add: effective_spread_bps_def model ref util)
  then have util': "mul_div_u128 U (nat \<bar>k\<bar>) BPS_DENOMINATOR reference = Ok u" using util by simp
  have "effective_spread_bps U cfg k = Ok (min (bm_spread_bps cfg + extra) mx)"
    unfolding effective_spread_bps_def model using ref by (simp add: util' ext wr Let_def del: of_nat_add)
  then show ?thesis unfolding run extra_def u_def BPS_DENOMINATOR_def by (simp only: option.inject sum.inject)
qed

text \<open>
  Under the dynamic model the spread never exceeds its ceiling and never falls as the maker's
  inventory grows in magnitude, as long as floor plus extra spread stay within \<open>u128\<close>; under the flat
  model it ignores the inventory.
\<close>

theorem dynamic_spread_monotone:
  assumes "u256_ok U" and "in_i128 i" and "in_i128 j" and "\<bar>i\<bar> \<le> \<bar>j\<bar>"
    and "effective_spread_bps U cfg i = Ok s" and "effective_spread_bps U cfg j = Ok t"
    and "\<forall>mx widen reference. bm_spread_model cfg = Dynamic mx widen reference \<longrightarrow>
      in_u128 widen \<and> in_u128 reference \<and> bm_spread_bps cfg + widen < 2 ^ 128"
  shows "s \<le> t \<and> (\<forall>mx widen reference. bm_spread_model cfg = Dynamic mx widen reference \<longrightarrow> t \<le> mx) \<and>
    (bm_spread_model cfg = Flat \<longrightarrow> s = bm_spread_bps cfg \<and> t = bm_spread_bps cfg)"
proof (cases "bm_spread_model cfg")
  case Flat
  with assms(5,6) show ?thesis by (simp add: effective_spread_bps_def)
next
  case (Dynamic mx widen reference)
  then have ok: "in_u128 widen" "in_u128 reference" "bm_spread_bps cfg + widen < 2 ^ 128" using assms(7) by blast+
  show ?thesis
  proof (cases "reference = 0")
    case True
    with Dynamic assms(5,6) show ?thesis by (simp add: effective_spread_bps_def)
  next
    case False
    let ?sp = "\<lambda>k :: int. min (bm_spread_bps cfg + widen * min (nat \<bar>k\<bar> * 10000 div reference) 10000 div 10000) mx"
    have val: "x = ?sp k" if k: "in_i128 k" "effective_spread_bps U cfg k = Ok x" for k x
      using spread_value [OF assms(1) Dynamic False ok k] .
    have "nat \<bar>i\<bar> * 10000 div reference \<le> nat \<bar>j\<bar> * 10000 div reference" using assms(4) by (intro div_le_mono) simp
    then have "widen * min (nat \<bar>i\<bar> * 10000 div reference) 10000 div 10000 \<le> widen * min (nat \<bar>j\<bar> * 10000 div reference) 10000 div 10000"
      by (intro div_le_mono mult_left_mono) auto
    then have "?sp i \<le> ?sp j" by (rule min.mono [OF add_left_mono order_refl])
    then have "s \<le> t" unfolding val [OF assms(2,5)] val [OF assms(3,6)] .
    moreover have "t \<le> mx" unfolding val [OF assms(3,6)] by (rule min.cobounded2)
    ultimately show ?thesis using Dynamic by simp
  qed
qed

theorem dynamic_spread_monotone_witness:
  "effective_spread_bps exact_u256 example_cfg (- 100) = Ok 80 \<and> effective_spread_bps exact_u256 example_cfg 500 = Ok 200 \<and> (80 :: nat) \<le> 200"
proof -
  have a: "effective_spread_bps exact_u256 example_cfg (- 100) = Ok 80" "effective_spread_bps exact_u256 example_cfg 500 = Ok 200"
    by (simp_all add: maker_eval) (simp_all add: wrap_u128_def)
  have "in_i128 (- 100)" "in_i128 500" "\<bar>- 100 :: int\<bar> \<le> \<bar>500\<bar>" by (simp_all add: in_i128_def)
  from dynamic_spread_monotone [OF exact_u256_ok this a] a show ?thesis by (simp add: example_cfg_def in_u128_def)
qed

text \<open>
  Recording a fill moves the inventory by the filled size against the taker's side and the
  cumulative result by the floored product of size and favourable mark move, as long as nothing
  saturates: a taker's buy and a taker's sell at the same prices cancel, a fill at the mark is free,
  and the subsidy is exactly what brings a loss back to zero.
\<close>

theorem ledger_record_exact:
  assumes "fill < 2 ^ 126" and "mark < 2 ^ 126" and "sz < 2 ^ 126"
    and "\<bar>int mark - int fill\<bar> * int sz < 2 ^ 127" and "\<bar>pl_inventory l\<bar> < 2 ^ 126" and "\<bar>pl_cumulative l\<bar> < 2 ^ 126"
    and "\<bar>(int mark - int fill) * int sz\<bar> div 10 ^ 18 < 2 ^ 126"
  shows "pl_inventory (record_fill l Buy fill mark sz) = pl_inventory l - int sz \<and>
    pl_inventory (record_fill l Sell fill mark sz) = pl_inventory l + int sz \<and>
    pl_cumulative (record_fill l Buy fill mark sz) = pl_cumulative l - trunc_div ((int mark - int fill) * int sz) (10 ^ 18) \<and>
    pl_cumulative (record_fill l Sell fill mark sz) = pl_cumulative l + trunc_div ((int mark - int fill) * int sz) (10 ^ 18) \<and>
    pl_cumulative l + int (breakeven_subsidy_needed l) = max 0 (pl_cumulative l)"
proof -
  define D where "D = int mark - int fill"
  define T where "T = trunc_div (D * int sz) (10 ^ 18)"
  have d: "\<bar>D * int sz\<bar> < 2 ^ 127" using assms(4) by (simp add: abs_mult D_def)
  have w: "wrap_i128 (int mark) = int mark" "wrap_i128 (int fill) = int fill" "wrap_i128 (int sz) = int sz"
    "wrap_i128 D = D" "wrap_i128 (- D) = - D" "wrap_i128 (- int sz) = - int sz"
    using assms(1-3) by (auto intro!: wrap_i128_id simp: in_i128_def D_def)
  have m: "sat_i128 (D * int sz) = D * int sz" "sat_i128 (- D * int sz) = - (D * int sz)"
    using d by (auto intro!: sat_i128_id simp: in_i128_def)
  have neg: "trunc_div (- (D * int sz)) (10 ^ 18) = - T" by (simp add: trunc_div_def T_def)
  have "\<bar>T\<bar> \<le> \<bar>D * int sz\<bar> div 10 ^ 18"
    by (simp add: T_def trunc_div_def abs_mult abs_sgn_eq pos_imp_zdiv_nonneg_iff)
  then have t: "\<bar>T\<bar> < 2 ^ 126" using assms(7) unfolding D_def by linarith
  have s: "sat_i128 (pl_cumulative l + T) = pl_cumulative l + T" "sat_i128 (pl_cumulative l + - T) = pl_cumulative l - T"
    "sat_i128 (pl_inventory l + int sz) = pl_inventory l + int sz" "sat_i128 (pl_inventory l + - int sz) = pl_inventory l - int sz"
    using t assms(3,5,6) by (simp_all add: sat_i128_id in_i128_def abs_less_iff)
  have scale: "int SCALE = 10 ^ 18" by (simp add: SCALE_def)
  have "record_fill l Buy fill mark sz = \<lparr>pl_cumulative = pl_cumulative l - T, pl_inventory = pl_inventory l - int sz\<rparr>"
    "record_fill l Sell fill mark sz = \<lparr>pl_cumulative = pl_cumulative l + T, pl_inventory = pl_inventory l + int sz\<rparr>"
    unfolding record_fill_def Let_def w(1-3) MakerSide.case D_def [symmetric] w(4-6) m neg scale T_def [symmetric] s by (rule refl)+
  moreover have "pl_cumulative l + int (breakeven_subsidy_needed l) = max 0 (pl_cumulative l)"
    by (simp add: breakeven_subsidy_needed_def)
  ultimately show ?thesis unfolding T_def D_def by simp
qed

theorem ledger_record_exact_witness:
  "pl_cumulative (record_fill \<lparr>pl_cumulative = 5, pl_inventory = 0\<rparr> Buy (100 * 10 ^ 9) (90 * 10 ^ 9) (2 * 10 ^ 9)) = 25 \<and>
   breakeven_subsidy_needed \<lparr>pl_cumulative = - 7, pl_inventory = 0\<rparr> = 7"
  using ledger_record_exact [of "100 * 10 ^ 9" "90 * 10 ^ 9" "2 * 10 ^ 9" "\<lparr>pl_cumulative = 5, pl_inventory = 0\<rparr>"]
  by (simp add: trunc_div_def breakeven_subsidy_needed_def)

end
