(* ===== verification/Backstop.thy ===== *)
theory Backstop
  imports Common_Types
begin

text \<open>
  The backstop maker of the matching engine, \<open>cerdic-tee-matcher/src/backstop.rs\<close>, in raw \<open>u64\<close>
  ticks: the bounded price history, the quote around its trailing mean, the guards of a fill, the
  inventory and the marked result.  \<open>i64\<close> and \<open>i128\<close> are integers with their saturation written out.
  \<open>None\<close> of \<open>quote\<close> and \<open>quote_and_check\<close> is the code's own \<open>None\<close>; the one panic, a mean over an
  empty window of a non-empty history, is the outer \<open>None\<close> of \<open>trailing_mean\<close>.
\<close>

definition BACKSTOP_OWNER_ID :: u64 where "BACKSTOP_OWNER_ID = - 1"
definition MAX_HISTORY :: nat where "MAX_HISTORY = 64"
definition TICK_BPS_DENOMINATOR :: nat where "TICK_BPS_DENOMINATOR = 10000"

datatype TickSpreadModel = TickFlat | TickDynamic u64 u64 u64

record BackstopConfig =
  bc_spread_bps :: u64
  bc_spread_model :: TickSpreadModel
  bc_quote_twap_window :: nat
  bc_last_look_window :: nat
  bc_last_look_threshold_bps :: u64
  bc_notional_cap :: u64

definition BackstopConfig_default :: BackstopConfig where
  "BackstopConfig_default = \<lparr>bc_spread_bps = 8, bc_spread_model = TickFlat, bc_quote_twap_window = 20,
     bc_last_look_window = 3, bc_last_look_threshold_bps = 15, bc_notional_cap = - 1\<rparr>"

record BackstopState =
  bs_history :: "u64 list"
  bs_inventory :: int
  bs_cumulative_pnl :: int

definition BackstopState_default :: BackstopState where
  "BackstopState_default = \<lparr>bs_history = [], bs_inventory = 0, bs_cumulative_pnl = 0\<rparr>"

definition in_i64 :: "int \<Rightarrow> bool" where
  "in_i64 x \<longleftrightarrow> - (2 ^ 63) \<le> x \<and> x < 2 ^ 63"

definition sat_i64 :: "int \<Rightarrow> int" where
  "sat_i64 x = max (- (2 ^ 63)) (min (2 ^ 63 - 1) x)"

definition mark_pnl_to :: "BackstopState \<Rightarrow> u64 \<Rightarrow> u64 \<Rightarrow> BackstopState" where
  "mark_pnl_to s from_price to_price =
     (if bs_inventory s = 0 then s
      else s\<lparr>bs_cumulative_pnl := sat_i128 (bs_cumulative_pnl s +
             sat_i128 ((int (unat to_price) - int (unat from_price)) * bs_inventory s))\<rparr>)"

definition record_price :: "BackstopState \<Rightarrow> u64 \<Rightarrow> BackstopState" where
  "record_price s price =
     (let s1 = (if bs_history s = [] then s else mark_pnl_to s (last (bs_history s)) price);
          h = bs_history s1 @ [price] in
      s1\<lparr>bs_history := if MAX_HISTORY < length h then tl h else h\<rparr>)"

definition trailing_mean :: "BackstopState \<Rightarrow> nat \<Rightarrow> u64 option option" where
  "trailing_mean s window =
     (if bs_history s = [] then Some None
      else
        let recent = drop (length (bs_history s) - window) (bs_history s) in
        if recent = [] then None
        else Some (Some (of_nat (sum_list (map unat recent) div length recent))))"

definition tick_effective_spread_bps :: "BackstopState \<Rightarrow> BackstopConfig \<Rightarrow> u64" where
  "tick_effective_spread_bps s cfg =
     (case bc_spread_model cfg of
        TickFlat \<Rightarrow> bc_spread_bps cfg
      | TickDynamic max_spread_bps widen inventory_reference \<Rightarrow>
          if inventory_reference = 0 then max_spread_bps
          else
            let utilization_bps = (of_nat (min (nat \<bar>bs_inventory s\<bar> * TICK_BPS_DENOMINATOR div unat inventory_reference)
                  TICK_BPS_DENOMINATOR) :: u64);
                extra = (of_nat (unat widen * unat utilization_bps div TICK_BPS_DENOMINATOR) :: u64) in
            min (bc_spread_bps cfg + extra) max_spread_bps)"

definition reference_price :: "BackstopState \<Rightarrow> BackstopConfig \<Rightarrow> u64 option option" where
  "reference_price s cfg = trailing_mean s (bc_quote_twap_window cfg)"

definition quote :: "BackstopState \<Rightarrow> BackstopConfig \<Rightarrow> Side \<Rightarrow> u64 option option" where
  "quote s cfg side = do {
     mean \<leftarrow> trailing_mean s (bc_quote_twap_window cfg);
     Some (case mean of
        None \<Rightarrow> None
      | Some center \<Rightarrow>
          let half_spread = of_nat (unat center * unat (tick_effective_spread_bps s cfg) div TICK_BPS_DENOMINATOR) in
          Some (case side of
              Long \<Rightarrow> saturating_add_u64 center half_spread
            | Short \<Rightarrow> saturating_sub_u64 center half_spread))
   }"

definition tick_abs_diff :: "u64 \<Rightarrow> u64 \<Rightarrow> u64" where
  "tick_abs_diff a b = (if a < b then b - a else a - b)"

definition quote_and_check :: "BackstopState \<Rightarrow> BackstopConfig \<Rightarrow> Side \<Rightarrow> u64 \<Rightarrow> (u64 \<times> u64) option option" where
  "quote_and_check s cfg side requested_qty = do {
     quoted \<leftarrow> quote s cfg side;
     case quoted of
       None \<Rightarrow> Some None
     | Some price \<Rightarrow>
         if bs_history s = [] then Some None
         else do {
           mean \<leftarrow> trailing_mean s (bc_last_look_window cfg);
           case mean of
             None \<Rightarrow> Some None
           | Some reference \<Rightarrow>
               if reference = 0 then Some None
               else
                 let deviation_bps = (of_nat (unat (tick_abs_diff (last (bs_history s)) reference) * TICK_BPS_DENOMINATOR
                       div unat reference) :: u64);
                     qty = min requested_qty (bc_notional_cap cfg) in
                 if bc_last_look_threshold_bps cfg < deviation_bps then Some None
                 else if qty = 0 then Some None
                 else Some (Some (price, qty))
         }
   }"

definition commit_fill :: "BackstopState \<Rightarrow> Side \<Rightarrow> u64 \<Rightarrow> BackstopState" where
  "commit_fill s side qty =
     s\<lparr>bs_inventory := (case side of
         Long \<Rightarrow> sat_i64 (bs_inventory s - sint qty)
       | Short \<Rightarrow> sat_i64 (bs_inventory s + sint qty))\<rparr>"

definition try_fill :: "BackstopState \<Rightarrow> BackstopConfig \<Rightarrow> Side \<Rightarrow> u64 \<Rightarrow> ((u64 \<times> u64) option \<times> BackstopState) option" where
  "try_fill s cfg side requested_qty = do {
     checked \<leftarrow> quote_and_check s cfg side requested_qty;
     Some (case checked of
        None \<Rightarrow> (None, s)
      | Some (price, qty) \<Rightarrow> (Some (price, qty), commit_fill s side qty))
   }"

definition tick_breakeven_subsidy_needed :: "BackstopState \<Rightarrow> nat" where
  "tick_breakeven_subsidy_needed s = (if 0 \<le> bs_cumulative_pnl s then 0 else nat \<bar>bs_cumulative_pnl s\<bar>)"

section \<open>Reachable states\<close>

inductive backstop_reachable :: "BackstopState \<Rightarrow> bool" where
  initial: "backstop_reachable BackstopState_default"
| price: "backstop_reachable s \<Longrightarrow> backstop_reachable (record_price s p)"
| commit: "backstop_reachable s \<Longrightarrow> backstop_reachable (commit_fill s side qty)"
| fill: "backstop_reachable s \<Longrightarrow> try_fill s cfg side qty = Some (r, s') \<Longrightarrow> backstop_reachable s'"

definition backstop_ok :: "BackstopState \<Rightarrow> bool" where
  "backstop_ok s \<longleftrightarrow> length (bs_history s) \<le> MAX_HISTORY \<and> in_i64 (bs_inventory s) \<and> in_i128 (bs_cumulative_pnl s)"

lemma sat_i64_bound: "in_i64 (sat_i64 x)"
  by (auto simp: sat_i64_def in_i64_def)

lemma commit_fill_ok: "backstop_ok s \<Longrightarrow> backstop_ok (commit_fill s side qty)"
  by (cases side) (auto simp: backstop_ok_def commit_fill_def sat_i64_bound)

lemma record_price_ok: "backstop_ok s \<Longrightarrow> backstop_ok (record_price s p)"
  by (auto simp: backstop_ok_def record_price_def mark_pnl_to_def Let_def machine_int)

lemma try_fill_cases:
  "try_fill s cfg side qty = Some (r, s') \<Longrightarrow>
     (r = None \<and> s' = s) \<or> (\<exists>price n. r = Some (price, n) \<and> s' = commit_fill s side n)"
  by (auto simp: try_fill_def bind_eq_Some_conv split: option.splits)

lemma backstop_reachable_ok: "backstop_reachable s \<Longrightarrow> backstop_ok s"
proof (induction rule: backstop_reachable.induct)
  case (fill s cfg side qty r s')
  then show ?case using try_fill_cases commit_fill_ok by blast
next
  case initial
  show ?case by (simp add: BackstopState_default_def backstop_ok_def in_i64_def in_i128_def)
qed (simp_all add: record_price_ok commit_fill_ok)

section \<open>The trailing mean does not overflow\<close>

lemma sum_list_unat_le: "sum_list (map unat (ps :: u64 list)) \<le> length ps * (2 ^ 64 - 1)"
proof (induction ps)
  case (Cons p ps)
  have "unat p < 2 ^ 64" using unsigned_less [of p] by simp
  then have "unat p \<le> 2 ^ 64 - 1" by simp
  then have "unat p + sum_list (map unat ps) \<le> (2 ^ 64 - 1) + length ps * (2 ^ 64 - 1)" using Cons.IH by (rule add_mono)
  then show ?case by (simp only: list.map sum_list.Cons list.size mult_Suc add_Suc plus_nat.add_0 mult.commute add.commute One_nat_def)
qed simp

definition window_of :: "BackstopState \<Rightarrow> nat \<Rightarrow> u64 list" where
  "window_of s w = drop (length (bs_history s) - w) (bs_history s)"

definition mean_of :: "BackstopState \<Rightarrow> nat \<Rightarrow> nat" where
  "mean_of s w = sum_list (map unat (window_of s w)) div length (window_of s w)"

lemma mean_of_less: "window_of s w \<noteq> [] \<Longrightarrow> mean_of s w < 2 ^ 64"
proof -
  assume ne: "window_of s w \<noteq> []"
  have "mean_of s w \<le> length (window_of s w) * (2 ^ 64 - 1) div length (window_of s w)"
    unfolding mean_of_def by (rule div_le_mono [OF sum_list_unat_le])
  also have "\<dots> = 2 ^ 64 - 1" using ne by simp
  finally show ?thesis by simp
qed

lemma window_nonempty: "bs_history s \<noteq> [] \<Longrightarrow> 0 < w \<Longrightarrow> window_of s w \<noteq> []"
proof -
  assume *: "bs_history s \<noteq> []" "0 < w"
  then have "length (bs_history s) - w < length (bs_history s)" by (intro diff_less) auto
  then show ?thesis by (simp only: window_of_def drop_eq_Nil not_le)
qed

lemma trailing_mean_exact:
  assumes "bs_history s \<noteq> []" and "0 < w"
  shows "\<exists>m. trailing_mean s w = Some (Some m) \<and> unat m = mean_of s w"
proof -
  have ne: "window_of s w \<noteq> []" by (rule window_nonempty [OF assms])
  have "unat (of_nat (mean_of s w) :: u64) = mean_of s w"
    using mean_of_less [OF ne] by (simp add: unat_of_nat)
  with ne assms(1) show ?thesis
    by (simp add: trailing_mean_def window_of_def mean_of_def Let_def)
qed

end
