(* ===== verification/Backstop_Properties.thy ===== *)
theory Backstop_Properties
  imports Backstop
begin

text \<open>
  What the engine's backstop maker guarantees: bounded state and no panic, the three guards of a fill
  without truncation in the deviation, and mark-to-market that telescopes over recorded prices.
\<close>

definition windows_ok :: "BackstopConfig \<Rightarrow> bool" where
  "windows_ok cfg \<longleftrightarrow> 0 < bc_quote_twap_window cfg \<and> 0 < bc_last_look_window cfg"

lemma quote_exact:
  assumes "bs_history s \<noteq> []" and "0 < bc_quote_twap_window cfg"
  shows "\<exists>p. quote s cfg side = Some (Some p) \<and>
     (case side of Long \<Rightarrow> mean_of s (bc_quote_twap_window cfg) \<le> unat p | Short \<Rightarrow> unat p \<le> mean_of s (bc_quote_twap_window cfg))"
proof -
  obtain m where m: "trailing_mean s (bc_quote_twap_window cfg) = Some (Some m)" "unat m = mean_of s (bc_quote_twap_window cfg)"
    using trailing_mean_exact [OF assms] by blast
  have "unat m \<le> unat (saturating_add_u64 m h)" for h
    using unat_u64_less [of m] by (simp add: unat_saturating_add_u64)
  moreover have "unat (saturating_sub_u64 m h) \<le> unat m" for h by (simp add: unat_saturating_sub_u64)
  ultimately show ?thesis using m(1) by (cases side) (simp_all add: quote_def Let_def flip: m(2))
qed

lemma last_in_window: "bs_history s \<noteq> [] \<Longrightarrow> 0 < w \<Longrightarrow> last (bs_history s) \<in> set (window_of s w)"
  using window_nonempty [of s w] by (metis last_drop last_in_set window_of_def drop_eq_Nil not_le)

lemma deviation_exact:
  assumes ok: "backstop_ok s" and h: "bs_history s \<noteq> []" "0 < w" and pos: "0 < mean_of s w"
  defines "d \<equiv> nat \<bar>int (unat (last (bs_history s))) - int (mean_of s w)\<bar>"
  shows "d * 10000 div mean_of s w < 2 ^ 64"
proof -
  let ?w = "window_of s w" and ?m = "mean_of s w" and ?l = "unat (last (bs_history s))"
  have ne: "?w \<noteq> []" by (rule window_nonempty [OF h])
  have "length ?w \<le> length (bs_history s)" by (simp add: window_of_def)
  then have "length ?w \<le> 64" using ok by (simp add: backstop_ok_def MAX_HISTORY_def)
  moreover have "sum_list (map unat ?w) < length ?w * (?m + 1)"
    using ne dividend_less_times_div [of "length ?w" "sum_list (map unat ?w)"] by (simp add: mean_of_def)
  ultimately have "sum_list (map unat ?w) \<le> 64 * (?m + 1)"
    by (meson le_trans less_imp_le mult_le_mono1)
  moreover have "?l \<le> sum_list (map unat ?w)"
    using last_in_window [OF h] by (intro member_le_sum_list) auto
  ultimately have "?l \<le> 64 * (?m + 1)" by (rule order_trans [rotated])
  also have "\<dots> \<le> 128 * ?m" using pos by simp
  finally have "?l \<le> 128 * ?m" .
  then have "d \<le> 128 * ?m" unfolding d_def by linarith
  then have "d * 10000 div ?m \<le> 128 * ?m * 10000 div ?m" by (intro div_le_mono) simp
  also have "\<dots> = 1280000" using pos by simp
  finally show ?thesis by simp
qed

lemma nat_abs_diff_less: "x < y \<Longrightarrow> y - x = nat \<bar>int x - int y\<bar>" "y \<le> x \<Longrightarrow> x - y = nat \<bar>int x - int y\<bar>"
  by simp_all

lemma unat_abs_diff: "unat (tick_abs_diff a b) = nat \<bar>int (unat a) - int (unat b)\<bar>"
proof (cases "a < b")
  case True
  then have "unat (b - a) = unat b - unat a" by (intro unat_sub) simp
  also have "\<dots> = nat \<bar>int (unat a) - int (unat b)\<bar>"
    by (rule nat_abs_diff_less) (use True in \<open>simp only: word_less_nat_alt\<close>)
  finally show ?thesis using True by (simp only: tick_abs_diff_def if_True)
next
  case False
  then have "unat (a - b) = unat a - unat b" by (intro unat_sub) simp
  also have "\<dots> = nat \<bar>int (unat a) - int (unat b)\<bar>"
    by (rule nat_abs_diff_less) (use False in \<open>simp add: word_less_nat_alt\<close>)
  finally show ?thesis using False by (simp only: tick_abs_diff_def if_False)
qed

text \<open>The whole behaviour of the read-only check on a state with history.\<close>

lemma quote_and_check_exact:
  assumes ok: "backstop_ok s" and h: "bs_history s \<noteq> []" and w: "windows_ok cfg"
  defines "ref \<equiv> mean_of s (bc_last_look_window cfg)"
  defines "dev \<equiv> nat \<bar>int (unat (last (bs_history s))) - int ref\<bar> * 10000 div ref"
  obtains p where "quote s cfg side = Some (Some p)"
    "quote_and_check s cfg side req =
       Some (if ref = 0 \<or> unat (bc_last_look_threshold_bps cfg) < dev \<or> min req (bc_notional_cap cfg) = 0 then None
             else Some (p, min req (bc_notional_cap cfg)))"
proof -
  obtain p where p: "quote s cfg side = Some (Some p)" using quote_exact [OF h] w unfolding windows_ok_def by blast
  obtain m where m: "trailing_mean s (bc_last_look_window cfg) = Some (Some m)" "unat m = ref"
    using trailing_mean_exact [OF h] w unfolding windows_ok_def ref_def by blast
  have zero: "m = 0 \<longleftrightarrow> ref = 0" unfolding m(2) [symmetric] by (simp add: unat_eq_zero)
  have "unat (of_nat (unat (tick_abs_diff (last (bs_history s)) m) * TICK_BPS_DENOMINATOR div unat m) :: u64) = dev" if "ref \<noteq> 0"
  proof -
    have "dev < 2 ^ 64" unfolding dev_def ref_def
      by (rule deviation_exact [OF ok h]) (use w that in \<open>auto simp: windows_ok_def ref_def\<close>)
    then show ?thesis by (simp add: unat_abs_diff m(2) TICK_BPS_DENOMINATOR_def dev_def unat_of_nat)
  qed
  then have less: "bc_last_look_threshold_bps cfg < of_nat (unat (tick_abs_diff (last (bs_history s)) m) * TICK_BPS_DENOMINATOR div unat m)
      \<longleftrightarrow> unat (bc_last_look_threshold_bps cfg) < dev" if "ref \<noteq> 0"
    using that by (simp add: word_less_nat_alt)
  show thesis
    by (rule that [OF p]) (use p m(1) zero less h in \<open>simp add: quote_and_check_def Let_def\<close>)
qed

definition example_backstop :: BackstopState where
  "example_backstop = fold (\<lambda>p s. record_price s p) [100000, 100000, 100030] BackstopState_default"

lemma example_backstop_reachable: "backstop_reachable example_backstop"
  by (simp add: example_backstop_def backstop_reachable.intros)

lemma example_backstop_eval: "example_backstop = \<lparr>bs_history = [100000, 100000, 100030], bs_inventory = 0, bs_cumulative_pnl = 0\<rparr>"
  by (simp add: example_backstop_def BackstopState_default_def record_price_def mark_pnl_to_def MAX_HISTORY_def)

text \<open>
  In every reachable state the history holds at most 64 prints and inventory and result are in
  range; with positive windows the check returns without a panic, and it quotes exactly when a price
  has been recorded.
\<close>

theorem backstop_state_bounded:
  assumes "backstop_reachable s" and "windows_ok cfg"
  shows "backstop_ok s \<and> quote_and_check s cfg side req \<noteq> None \<and>
    (\<exists>q. quote s cfg side = Some q \<and> (q = None \<longleftrightarrow> bs_history s = []))"
proof -
  have ok: "backstop_ok s" by (rule backstop_reachable_ok [OF assms(1)])
  show ?thesis
  proof (cases "bs_history s = []")
    case True
    then show ?thesis using ok by (simp add: quote_and_check_def quote_def trailing_mean_def)
  next
    case False
    obtain p where "quote s cfg side = Some (Some p)" "quote_and_check s cfg side req \<noteq> None"
      using quote_and_check_exact [OF ok False assms(2), of side req] by blast
    with ok False show ?thesis by simp
  qed
qed

theorem backstop_state_bounded_witness:
  "length (bs_history example_backstop) \<le> MAX_HISTORY \<and> quote_and_check example_backstop BackstopConfig_default Long 5 \<noteq> None"
  using backstop_state_bounded [OF example_backstop_reachable, of BackstopConfig_default Long 5]
  by (simp add: windows_ok_def BackstopConfig_default_def backstop_ok_def)

text \<open>
  A fill is taken only for a positive quantity, the requested one cut to the cap, at a price on
  the maker's side of the slow mean, and only while the live print deviates from the fast mean by at
  most the threshold (the 64-bit deviation never truncates); the inventory moves by that quantity, and
  a rejected fill changes nothing.
\<close>

theorem backstop_fill_guards:
  assumes "backstop_reachable s" and "windows_ok cfg" and "try_fill s cfg side req = Some (r, s')"
  shows "(r = None \<longrightarrow> s' = s) \<and>
    (\<forall>price qty. r = Some (price, qty) \<longrightarrow>
       qty = min req (bc_notional_cap cfg) \<and> 0 < qty \<and> s' = commit_fill s side qty \<and>
       (case side of Long \<Rightarrow> mean_of s (bc_quote_twap_window cfg) \<le> unat price
          | Short \<Rightarrow> unat price \<le> mean_of s (bc_quote_twap_window cfg)) \<and>
       0 < mean_of s (bc_last_look_window cfg) \<and>
       nat \<bar>int (unat (last (bs_history s))) - int (mean_of s (bc_last_look_window cfg))\<bar> * 10000
         div mean_of s (bc_last_look_window cfg) \<le> unat (bc_last_look_threshold_bps cfg))"
proof (cases "bs_history s = []")
  case True
  then have "quote_and_check s cfg side req = Some None" by (simp add: quote_and_check_def quote_def trailing_mean_def)
  with assms(3) show ?thesis by (auto simp: try_fill_def)
next
  case False
  have ok: "backstop_ok s" by (rule backstop_reachable_ok [OF assms(1)])
  obtain p where p: "quote s cfg side = Some (Some p)"
    "quote_and_check s cfg side req = Some (if mean_of s (bc_last_look_window cfg) = 0 \<or>
        unat (bc_last_look_threshold_bps cfg) < nat \<bar>int (unat (last (bs_history s))) - int (mean_of s (bc_last_look_window cfg))\<bar> * 10000
         div mean_of s (bc_last_look_window cfg) \<or> min req (bc_notional_cap cfg) = 0 then None
       else Some (p, min req (bc_notional_cap cfg)))"
    using quote_and_check_exact [OF ok False assms(2), of side req] by blast
  have "case side of Long \<Rightarrow> mean_of s (bc_quote_twap_window cfg) \<le> unat p | Short \<Rightarrow> unat p \<le> mean_of s (bc_quote_twap_window cfg)"
    using quote_exact [OF False, of cfg side] assms(2) p(1) by (auto simp: windows_ok_def)
  with p(2) assms(3) show ?thesis by (auto simp: try_fill_def not_le word_gt_0 split: if_splits)
qed

theorem backstop_fill_guards_witness:
  "try_fill example_backstop BackstopConfig_default Long 7 = Some (Some (100090, 7), commit_fill example_backstop Long 7) \<and>
   (0 :: u64) < 7 \<and> 100010 \<le> unat (100090 :: u64)"
proof -
  have run: "try_fill example_backstop BackstopConfig_default Long 7 = Some (Some (100090, 7), commit_fill example_backstop Long 7)"
    by (simp add: try_fill_def quote_and_check_def quote_def trailing_mean_def example_backstop_eval BackstopConfig_default_def
        tick_effective_spread_bps_def TICK_BPS_DENOMINATOR_def saturating_add_u64_def tick_abs_diff_def Let_def)
  have "windows_ok BackstopConfig_default" by (simp add: windows_ok_def BackstopConfig_default_def)
  from backstop_fill_guards [OF example_backstop_reachable this run] run show ?thesis
    by (simp add: mean_of_def window_of_def example_backstop_eval BackstopConfig_default_def)
qed

lemma unat_diff_bound: "\<bar>int (unat (a :: u64)) - int (unat (b :: u64))\<bar> < 2 ^ 64"
proof -
  have "int x < 2 ^ 64" if "x < 2 ^ 64" for x :: nat using that by simp
  then have "int (unat a) < 2 ^ 64" "int (unat b) < 2 ^ 64" using unat_u64_less by blast+
  moreover have "0 \<le> int (unat a)" "0 \<le> int (unat b)" by simp_all
  ultimately show ?thesis by linarith
qed

lemma record_price_marks:
  assumes h: "bs_history s \<noteq> []" and inv: "\<bar>bs_inventory s\<bar> \<le> 2 ^ 62"
    and pnl: "\<bar>bs_cumulative_pnl s + bs_inventory s * (int (unat p) - int (unat (last (bs_history s))))\<bar> < 2 ^ 127"
  shows "bs_history (record_price s p) \<noteq> [] \<and> last (bs_history (record_price s p)) = p \<and>
    bs_inventory (record_price s p) = bs_inventory s \<and>
    bs_cumulative_pnl (record_price s p) =
      bs_cumulative_pnl s + bs_inventory s * (int (unat p) - int (unat (last (bs_history s))))"
proof -
  define d where "d = int (unat p) - int (unat (last (bs_history s)))"
  have "\<bar>d\<bar> \<le> 2 ^ 64" unfolding d_def by (rule less_imp_le [OF unat_diff_bound])
  then have "\<bar>d * bs_inventory s\<bar> \<le> 2 ^ 64 * 2 ^ 62" unfolding abs_mult using inv by (intro mult_mono) auto
  then have "sat_i128 (d * bs_inventory s) = d * bs_inventory s" by (intro sat_i128_id) (auto simp: in_i128_def)
  moreover have "sat_i128 (bs_cumulative_pnl s + d * bs_inventory s) = bs_cumulative_pnl s + d * bs_inventory s"
    using pnl unfolding d_def [symmetric] by (intro sat_i128_id) (auto simp: in_i128_def mult.commute)
  ultimately show ?thesis using h
    unfolding record_price_def mark_pnl_to_def Let_def d_def [symmetric]
    by (auto simp: mult.commute [of _ d] MAX_HISTORY_def)
qed

lemma marking_telescopes:
  assumes "bs_history s \<noteq> []" and inv: "\<bar>bs_inventory s\<bar> \<le> 2 ^ 62" and pnl: "\<bar>bs_cumulative_pnl s\<bar> \<le> 2 ^ 126"
  shows "let s' = fold (\<lambda>p s. record_price s p) ps s in
      bs_history s' \<noteq> [] \<and> last (bs_history s') = last (bs_history s @ ps) \<and> bs_inventory s' = bs_inventory s \<and>
      bs_cumulative_pnl s' = bs_cumulative_pnl s +
        bs_inventory s * (int (unat (last (bs_history s @ ps))) - int (unat (last (bs_history s))))"
proof (induction ps rule: rev_induct)
  case (snoc p ps)
  define s1 where "s1 = fold (\<lambda>p s. record_price s p) ps s"
  define a where "a = int (unat (last (bs_history s)))"
  have IH: "bs_history s1 \<noteq> []" "last (bs_history s1) = last (bs_history s @ ps)" "bs_inventory s1 = bs_inventory s"
    "bs_cumulative_pnl s1 = bs_cumulative_pnl s + bs_inventory s * (int (unat (last (bs_history s @ ps))) - a)"
    using snoc.IH by (simp_all add: Let_def s1_def a_def)
  define d where "d = int (unat p) - a"
  have eq: "bs_cumulative_pnl s1 + bs_inventory s1 * (int (unat p) - int (unat (last (bs_history s1)))) =
      bs_cumulative_pnl s + bs_inventory s * d"
    unfolding IH d_def by (simp add: algebra_simps)
  have "\<bar>d\<bar> < 2 ^ 64" unfolding d_def a_def by (rule unat_diff_bound)
  then have "\<bar>bs_inventory s * d\<bar> \<le> 2 ^ 62 * (2 ^ 64 - 1)" unfolding abs_mult using inv by (intro mult_mono) auto
  also have "\<dots> < 2 ^ 126" by simp
  finally have "\<bar>bs_inventory s * d\<bar> < 2 ^ 126" .
  moreover have "(2 :: int) ^ 127 = 2 ^ 126 + 2 ^ 126" by simp
  ultimately have "\<bar>bs_cumulative_pnl s + bs_inventory s * d\<bar> < 2 ^ 127" using pnl by linarith
  then have "\<bar>bs_cumulative_pnl s1 + bs_inventory s1 * (int (unat p) - int (unat (last (bs_history s1))))\<bar> < 2 ^ 127"
    unfolding eq .
  from record_price_marks [OF IH(1) _ this] inv IH(3) eq show ?case
    by (simp add: Let_def d_def a_def flip: s1_def)
qed (use assms in simp)

text \<open>
  While no fill changes the inventory, recording prices marks it exactly from the last price before
  to the last price recorded: the result moves by inventory times the total price change, whatever the
  prices in between, and the subsidy is exactly what a loss needs to return to zero.
\<close>

theorem backstop_marking_telescopes:
  assumes "bs_history s \<noteq> []" and "\<bar>bs_inventory s\<bar> \<le> 2 ^ 62" and "\<bar>bs_cumulative_pnl s\<bar> \<le> 2 ^ 126"
  shows "let s' = fold (\<lambda>p s. record_price s p) ps s in
    bs_inventory s' = bs_inventory s \<and>
    bs_cumulative_pnl s' = bs_cumulative_pnl s +
      bs_inventory s * (int (unat (last (bs_history s @ ps))) - int (unat (last (bs_history s)))) \<and>
    bs_cumulative_pnl s' + int (tick_breakeven_subsidy_needed s') = max 0 (bs_cumulative_pnl s')"
proof -
  have "let s' = fold (\<lambda>p s. record_price s p) ps s in
      bs_history s' \<noteq> [] \<and> last (bs_history s') = last (bs_history s @ ps) \<and> bs_inventory s' = bs_inventory s \<and>
      bs_cumulative_pnl s' = bs_cumulative_pnl s +
        bs_inventory s * (int (unat (last (bs_history s @ ps))) - int (unat (last (bs_history s))))"
    by (rule marking_telescopes [OF assms])
  then show ?thesis by (simp add: Let_def tick_breakeven_subsidy_needed_def)
qed

theorem backstop_marking_telescopes_witness:
  "bs_cumulative_pnl (fold (\<lambda>p s. record_price s p) [90, 120] \<lparr>bs_history = [100], bs_inventory = - 3, bs_cumulative_pnl = 7\<rparr>) = - 53"
  using backstop_marking_telescopes [of "\<lparr>bs_history = [100], bs_inventory = - 3, bs_cumulative_pnl = 7\<rparr>" "[90, 120]"]
  by (simp add: Let_def)

end
