(* ===== verification/Fees.thy ===== *)
theory Fees
  imports Prelude
begin

text \<open>
  The volume-tiered fee schedule of \<open>cerdic-tee-matcher/src/fees.rs\<close>: the tier of a prior volume, the
  taker fee and the maker rebate, in \<open>u128\<close> with the product written out modulo \<open>2^128\<close>.
\<close>

definition FEE_BPS_DENOMINATOR :: nat where "FEE_BPS_DENOMINATOR = 10000"

definition FEE_TIERS :: "(nat \<times> nat \<times> nat) list" where
  "FEE_TIERS = [(0, 10, 2), (1000000, 8, 3), (10000000, 6, 4), (100000000, 4, 5)]"

fun tier_scan :: "nat \<Rightarrow> (nat \<times> nat \<times> nat) list \<Rightarrow> nat \<times> nat \<times> nat \<Rightarrow> nat \<times> nat \<times> nat" where
  "tier_scan prior_volume [] current = current"
| "tier_scan prior_volume (tier # tiers) current =
     (if fst tier \<le> prior_volume then tier_scan prior_volume tiers tier else current)"

definition tier_for_volume :: "nat \<Rightarrow> nat \<times> nat" where
  "tier_for_volume prior_volume = snd (tier_scan prior_volume FEE_TIERS (hd FEE_TIERS))"

definition taker_fee :: "nat \<Rightarrow> nat \<Rightarrow> nat" where
  "taker_fee notional prior_volume =
     (let (taker_bps, _) = tier_for_volume prior_volume in wrap_u128 (int (notional * taker_bps)) div FEE_BPS_DENOMINATOR)"

definition maker_rebate :: "nat \<Rightarrow> nat \<Rightarrow> nat" where
  "maker_rebate notional prior_volume =
     (let (_, maker_bps) = tier_for_volume prior_volume in wrap_u128 (int (notional * maker_bps)) div FEE_BPS_DENOMINATOR)"

lemma tier_values:
  "tier_for_volume v = (if v < 1000000 then (10, 2) else if v < 10000000 then (8, 3)
     else if v < 100000000 then (6, 4) else (4, 5))"
  by (auto simp: tier_for_volume_def FEE_TIERS_def)

lemma fee_exact:
  assumes "n < 2 ^ 124"
  shows "taker_fee n v = n * fst (tier_for_volume v) div 10000" and "maker_rebate n v = n * snd (tier_for_volume v) div 10000"
proof -
  have "fst (tier_for_volume v) \<le> 10" "snd (tier_for_volume v) \<le> 5" by (auto simp: tier_values)
  then have "n * fst (tier_for_volume v) \<le> 2 ^ 124 * 10" "n * snd (tier_for_volume v) \<le> 2 ^ 124 * 5"
    using assms by (intro mult_mono; simp)+
  then have "in_u128 (n * fst (tier_for_volume v))" "in_u128 (n * snd (tier_for_volume v))" by (simp_all add: in_u128_def)
  then show "taker_fee n v = n * fst (tier_for_volume v) div 10000" "maker_rebate n v = n * snd (tier_for_volume v) div 10000"
    unfolding taker_fee_def maker_rebate_def FEE_BPS_DENOMINATOR_def
    by (simp_all only: wrap_u128_id case_prod_beta Let_def)
qed

text \<open>
  For notionals below \<open>2^124\<close> the taker fee is at most a thousandth of the notional and never
  rises with the prior volume, the maker rebate never falls with it, and a rebate never exceeds the fee
  the trade pays unless maker and taker both have a prior volume of at least \<open>10^8\<close> (where the
  schedule pays 5 basis points against a fee of 4).
\<close>

theorem fee_schedule_monotone:
  assumes "n < 2 ^ 124" and "v \<le> w"
  shows "taker_fee n v \<le> n div 1000 \<and> taker_fee n w \<le> taker_fee n v \<and> maker_rebate n v \<le> maker_rebate n w \<and>
    (v < 10 ^ 8 \<longrightarrow> maker_rebate n w \<le> taker_fee n v \<and> maker_rebate n v \<le> taker_fee n w)"
proof -
  have le: "n * a div 10000 \<le> n * b div 10000" if "a \<le> b" for a b :: nat
    using that by (intro div_le_mono mult_left_mono) simp_all
  have "fst (tier_for_volume v) \<le> 10" "fst (tier_for_volume w) \<le> fst (tier_for_volume v)"
    "snd (tier_for_volume v) \<le> snd (tier_for_volume w)"
    "v < 10 ^ 8 \<Longrightarrow> snd (tier_for_volume w) \<le> fst (tier_for_volume v)"
    "v < 10 ^ 8 \<Longrightarrow> snd (tier_for_volume v) \<le> fst (tier_for_volume w)"
    using assms(2) by (auto simp: tier_values)
  note b = this
  have "n * 10 div 10000 = n div 1000" by simp
  then show ?thesis unfolding fee_exact [OF assms(1)] using le [OF b(1)] le [OF b(2)] le [OF b(3)] le [OF b(4)] le [OF b(5)]
    by simp
qed

theorem fee_schedule_monotone_witness:
  "taker_fee 50000 0 = 50 \<and> taker_fee 50000 (10 ^ 8) \<le> taker_fee 50000 0 \<and>
   taker_fee 50000 (10 ^ 8) < maker_rebate 50000 (10 ^ 8)"
  using fee_schedule_monotone [of 50000 0 "10 ^ 8"] by (simp add: fee_exact tier_values)

end
