(* ===== verification/Market_Hours.thy ===== *)
theory Market_Hours
  imports Prelude
begin

text \<open>
  The approximate FX calendar of \<open>cerdic-tee-matcher/src/market_hours.rs\<close>: a unix timestamp is split
  into a weekday and the seconds of its day.  \<open>fx_market_open_now\<close> only reads the clock and is not
  modelled.
\<close>

definition SECONDS_PER_DAY :: u64 where "SECONDS_PER_DAY = 86400"
definition EPOCH_WEEKDAY_OFFSET :: u64 where "EPOCH_WEEKDAY_OFFSET = 3"
definition FX_CLOSE_OPEN_UTC_SECONDS :: u64 where "FX_CLOSE_OPEN_UTC_SECONDS = 21 * 3600"

definition fx_market_open_at :: "u64 \<Rightarrow> bool" where
  "fx_market_open_at unix_seconds =
     (let day = unix_seconds div SECONDS_PER_DAY;
          weekday = (day + EPOCH_WEEKDAY_OFFSET) mod 7;
          seconds_in_day = unix_seconds mod SECONDS_PER_DAY in
      if weekday = 5 then False
      else if weekday = 4 then seconds_in_day < FX_CLOSE_OPEN_UTC_SECONDS
      else if weekday = 6 then FX_CLOSE_OPEN_UTC_SECONDS \<le> seconds_in_day
      else True)"

lemma fx_market_open_nat:
  "fx_market_open_at t =
     (let weekday = (unat t div 86400 + 3) mod 7; s = unat t mod 86400 in
      weekday \<noteq> 5 \<and> (weekday = 4 \<longrightarrow> s < 75600) \<and> (weekday = 6 \<longrightarrow> 75600 \<le> s))"
proof -
  have "unat t div 86400 < 2 ^ 64 - 3" using unat_u64_less [of t] by (simp add: less_mult_imp_div_less)
  then have "unat (t div 86400 + 3) = unat t div 86400 + 3" by (simp add: unat_word_ariths unat_div)
  then have w: "unat ((t div 86400 + 3) mod 7) = (unat t div 86400 + 3) mod 7" by (simp add: unat_mod)
  have s: "unat (t mod 86400) = unat t mod 86400" by (simp add: unat_mod)
  have k: "(t div 86400 + 3) mod 7 = c \<longleftrightarrow> (unat t div 86400 + 3) mod 7 = unat c" for c
    unfolding w [symmetric] by (rule word_unat_eq_iff)
  show ?thesis
    unfolding fx_market_open_at_def Let_def SECONDS_PER_DAY_def EPOCH_WEEKDAY_OFFSET_def FX_CLOSE_OPEN_UTC_SECONDS_def k
    by (simp add: word_less_nat_alt word_le_nat_alt s)
qed

text \<open>
  The calendar repeats weekly and is closed exactly from Friday 21:00 to Sunday 21:00 UTC: counting
  the week from the epoch's Thursday midnight, the market is closed from second 162000 up to, but not
  including, second 334800.
\<close>

theorem fx_week_is_one_interval:
  "fx_market_open_at t \<longleftrightarrow> \<not> (162000 \<le> unat t mod 604800 \<and> unat t mod 604800 < 334800)"
proof -
  define n where "n = unat t"
  define d where "d = n div 86400"
  define s where "s = n mod 86400"
  have s: "s < 86400" by (simp add: s_def)
  have n: "n = 86400 * d + s" by (simp add: d_def s_def)
  have split: "86400 * (7 * q + r) = 604800 * q + 86400 * (r :: nat)" for q r by simp
  have "n = 604800 * (d div 7) + (86400 * (d mod 7) + s)"
    unfolding n using split [of "d div 7" "d mod 7"] by (simp only: mult_div_mod_eq add.assoc)
  moreover have "86400 * (d mod 7) + s < 604800" using s mod_less_divisor [of 7 d] by simp
  ultimately have m: "n mod 604800 = 86400 * (d mod 7) + s" by simp
  have "d mod 7 < 7" by simp
  then consider "d mod 7 = 0" | "d mod 7 = 1" | "d mod 7 = 2" | "d mod 7 = 3" | "d mod 7 = 4" | "d mod 7 = 5" | "d mod 7 = 6"
    by linarith
  moreover have "(d + 3) mod 7 = (d mod 7 + 3) mod 7" by (simp add: mod_add_left_eq)
  ultimately show ?thesis
    unfolding fx_market_open_nat n_def [symmetric] Let_def d_def [symmetric] s_def [symmetric] m
    using s by cases (simp_all add: not_le not_less)
qed

end
