(* ===== verification/Market_Data.thy ===== *)
theory Market_Data
  imports Prelude
begin

text \<open>
  The public trade tape of \<open>cerdic-tee-matcher/src/market_data.rs\<close>: recording with pruning, the 24-hour
  snapshot, candles and recent prints.  Prices, quantities and times are \<open>u64\<close>; a sum of quantities
  wraps, the change in basis points is computed in \<open>i128\<close> and cast to \<open>i64\<close>.
\<close>

definition WINDOW_SECONDS :: u64 where "WINDOW_SECONDS = 14 * 24 * 60 * 60"

record TradeRecord =
  tr_timestamp :: u64
  tr_price :: u64
  tr_qty :: u64

type_synonym TradeTape = "TradeRecord list"

record MarketSnapshot =
  ms_last_price :: "u64 option"
  ms_last_trade_at :: "u64 option"
  ms_change_24h_bps :: "int option"
  ms_volume_24h :: u64
  ms_high_24h :: "u64 option"
  ms_low_24h :: "u64 option"

record Candle =
  cn_open_time :: u64
  cn_open :: u64
  cn_high :: u64
  cn_low :: u64
  cn_close :: u64
  cn_volume :: u64

definition prune :: "TradeTape \<Rightarrow> u64 \<Rightarrow> TradeTape" where
  "prune trades now = dropWhile (\<lambda>t. tr_timestamp t < saturating_sub_u64 now WINDOW_SECONDS) trades"

definition tape_record :: "TradeTape \<Rightarrow> u64 \<Rightarrow> u64 \<Rightarrow> u64 \<Rightarrow> TradeTape" where
  "tape_record trades timestamp price qty =
     prune (trades @ [\<lparr>tr_timestamp = timestamp, tr_price = price, tr_qty = qty\<rparr>]) timestamp"

definition max_price :: "TradeRecord list \<Rightarrow> u64 option" where
  "max_price w = (case w of [] \<Rightarrow> None | t # ts \<Rightarrow> Some (fold (\<lambda>t m. max m (tr_price t)) ts (tr_price t)))"

definition min_price :: "TradeRecord list \<Rightarrow> u64 option" where
  "min_price w = (case w of [] \<Rightarrow> None | t # ts \<Rightarrow> Some (fold (\<lambda>t m. min m (tr_price t)) ts (tr_price t)))"

definition wrap_i64 :: "int \<Rightarrow> int" where
  "wrap_i64 x = (x + 2 ^ 63) mod 2 ^ 64 - 2 ^ 63"

definition tape_snapshot :: "TradeTape \<Rightarrow> MarketSnapshot" where
  "tape_snapshot trades =
     (let last_trade = (if trades = [] then None else Some (last trades));
          window_start = (case last_trade of None \<Rightarrow> 0 | Some l \<Rightarrow> saturating_sub_u64 (tr_timestamp l) (24 * 60 * 60));
          window = filter (\<lambda>t. window_start \<le> tr_timestamp t) trades;
          first = (if window = [] then None else Some (hd window));
          change = (case (first, last_trade) of
              (Some f, Some l) \<Rightarrow>
                if 0 < tr_price f \<and> tr_timestamp f \<noteq> tr_timestamp l
                then Some (wrap_i64 (trunc_div ((int (unat (tr_price l)) - int (unat (tr_price f))) * 10000)
                       (int (unat (tr_price f)))))
                else None
            | _ \<Rightarrow> None) in
      \<lparr>ms_last_price = map_option tr_price last_trade, ms_last_trade_at = map_option tr_timestamp last_trade,
       ms_change_24h_bps = change, ms_volume_24h = sum_list (map tr_qty window),
       ms_high_24h = max_price window, ms_low_24h = min_price window\<rparr>)"

definition bucket_of :: "u64 \<Rightarrow> TradeRecord \<Rightarrow> u64" where
  "bucket_of interval_secs t = tr_timestamp t div interval_secs * interval_secs"

definition new_candle :: "u64 \<Rightarrow> TradeRecord \<Rightarrow> Candle" where
  "new_candle bucket_start t = \<lparr>cn_open_time = bucket_start, cn_open = tr_price t, cn_high = tr_price t,
     cn_low = tr_price t, cn_close = tr_price t, cn_volume = tr_qty t\<rparr>"

definition grow_candle :: "Candle \<Rightarrow> TradeRecord \<Rightarrow> Candle" where
  "grow_candle c t = c\<lparr>cn_high := max (cn_high c) (tr_price t), cn_low := min (cn_low c) (tr_price t),
     cn_close := tr_price t, cn_volume := cn_volume c + tr_qty t\<rparr>"

definition candle_step :: "u64 \<Rightarrow> TradeRecord \<Rightarrow> Candle list \<Rightarrow> Candle list" where
  "candle_step interval_secs t cs =
     (let bucket_start = bucket_of interval_secs t in
      if cs \<noteq> [] \<and> cn_open_time (last cs) = bucket_start
      then butlast cs @ [grow_candle (last cs) t]
      else cs @ [new_candle bucket_start t])"

definition candles :: "TradeTape \<Rightarrow> u64 \<Rightarrow> nat \<Rightarrow> Candle list" where
  "candles trades interval_secs limit =
     (if interval_secs = 0 \<or> trades = [] then []
      else
        let cs = fold (candle_step interval_secs) trades [] in
        drop (length cs - limit) cs)"

definition recent_trades :: "TradeTape \<Rightarrow> nat \<Rightarrow> TradeRecord list" where
  "recent_trades trades limit = take limit (rev trades)"

section \<open>The tape in time order\<close>

definition tape_ok :: "TradeTape \<Rightarrow> bool" where
  "tape_ok trades \<longleftrightarrow> sorted_wrt (\<le>) (map tr_timestamp trades)"

lemma tape_ok_filter: "tape_ok trades \<Longrightarrow> tape_ok (filter P trades)"
  by (simp add: tape_ok_def sorted_wrt_map sorted_wrt_filter)

lemma prune_is_filter:
  "tape_ok trades \<Longrightarrow> prune trades now = filter (\<lambda>t. saturating_sub_u64 now WINDOW_SECONDS \<le> tr_timestamp t) trades"
proof (induction trades)
  case (Cons t trades)
  let ?c = "saturating_sub_u64 now WINDOW_SECONDS"
  show ?case
  proof (cases "?c \<le> tr_timestamp t")
    case True
    then have "\<forall>x \<in> set trades. ?c \<le> tr_timestamp x"
      using Cons.prems order_trans [of ?c "tr_timestamp t"] by (auto simp: tape_ok_def)
    then have "filter (\<lambda>t. ?c \<le> tr_timestamp t) trades = trades" by (simp add: filter_id_conv)
    with True show ?thesis by (simp add: prune_def not_less)
  next
    case False
    with Cons show ?thesis by (simp add: prune_def tape_ok_def not_le)
  qed
qed (simp add: prune_def)

section \<open>Candles as summaries of their buckets\<close>

text \<open>The bar of a non-empty list of trades: first and last price, extremes and (wrapping) volume.\<close>

definition bar :: "u64 \<Rightarrow> TradeRecord list \<Rightarrow> Candle" where
  "bar b ts = \<lparr>cn_open_time = b, cn_open = tr_price (hd ts), cn_high = Max (tr_price ` set ts),
     cn_low = Min (tr_price ` set ts), cn_close = tr_price (last ts), cn_volume = sum_list (map tr_qty ts)\<rparr>"

lemma bar_single: "bar b [t] = new_candle b t"
  by (simp add: bar_def new_candle_def)

lemma bar_snoc: "ts \<noteq> [] \<Longrightarrow> bar b (ts @ [t]) = grow_candle (bar b ts) t"
  by (simp add: bar_def grow_candle_def Max_insert2 Min_insert2 image_Un max.commute min.commute)

definition buckets :: "u64 \<Rightarrow> TradeTape \<Rightarrow> u64 list" where
  "buckets iv trades = remdups_adj (map (bucket_of iv) trades)"

definition in_bucket :: "u64 \<Rightarrow> u64 \<Rightarrow> TradeTape \<Rightarrow> TradeRecord list" where
  "in_bucket iv b trades = filter (\<lambda>t. bucket_of iv t = b) trades"

lemma unat_bucket: "0 < iv \<Longrightarrow> unat (bucket_of iv t) = unat (tr_timestamp t) div unat iv * unat iv"
proof -
  assume "0 < iv"
  have "unat (tr_timestamp t) div unat iv * unat iv \<le> unat (tr_timestamp t)" by simp
  also have "\<dots> < 2 ^ 64" by (rule unat_u64_less)
  finally have "unat (tr_timestamp t) div unat iv * unat iv < 2 ^ 64" .
  moreover have "unat (tr_timestamp t) div unat iv < 2 ^ 64"
    by (rule le_less_trans [OF div_le_dividend unat_u64_less])
  ultimately show ?thesis by (simp add: bucket_of_def unat_word_ariths unat_div)
qed

lemma bucket_mono: "0 < iv \<Longrightarrow> tr_timestamp t \<le> tr_timestamp u \<Longrightarrow> bucket_of iv t \<le> bucket_of iv u"
  by (simp add: word_le_nat_alt unat_bucket div_le_mono)

lemma buckets_sorted: "0 < iv \<Longrightarrow> tape_ok trades \<Longrightarrow> sorted (map (bucket_of iv) trades)"
  unfolding tape_ok_def by (induction trades) (auto intro: bucket_mono)

lemma buckets_snoc:
  "buckets iv (trades @ [t]) = (if trades \<noteq> [] \<and> last (buckets iv trades) = bucket_of iv t then buckets iv trades
     else buckets iv trades @ [bucket_of iv t])"
proof (cases trades rule: rev_cases)
  case (snoc us u)
  have "remdups_adj (map (bucket_of iv) us @ [bucket_of iv u, bucket_of iv t]) =
      remdups_adj (map (bucket_of iv) us @ [bucket_of iv u]) @ (if bucket_of iv u = bucket_of iv t then [] else [bucket_of iv t])"
    by (rule remdups_adj_append_two)
  with snoc show ?thesis by (simp add: buckets_def)
qed (simp add: buckets_def)

lemma buckets_Nil [simp]: "buckets iv trades = [] \<longleftrightarrow> trades = []"
  by (simp add: buckets_def)

lemma set_buckets: "set (buckets iv trades) = bucket_of iv ` set trades"
  by (simp add: buckets_def)

lemma distinct_buckets: "0 < iv \<Longrightarrow> tape_ok trades \<Longrightarrow> distinct (buckets iv trades)"
proof -
  have "sorted xs \<Longrightarrow> distinct (remdups_adj xs)" for xs :: "u64 list"
    by (induction xs rule: remdups_adj.induct) auto
  then show "0 < iv \<Longrightarrow> tape_ok trades \<Longrightarrow> distinct (buckets iv trades)" by (simp add: buckets_def buckets_sorted)
qed

lemma in_bucket_nonempty: "b \<in> set (buckets iv trades) \<Longrightarrow> in_bucket iv b trades \<noteq> []"
  by (auto simp: set_buckets in_bucket_def filter_empty_conv)

lemma tape_ok_snoc: "tape_ok (trades @ [t]) \<longleftrightarrow> tape_ok trades \<and> (\<forall>u \<in> set trades. tr_timestamp u \<le> tr_timestamp t)"
  by (auto simp: tape_ok_def sorted_wrt_append)

definition bars :: "u64 \<Rightarrow> TradeTape \<Rightarrow> Candle list" where
  "bars iv trades = map (\<lambda>b. bar b (in_bucket iv b trades)) (buckets iv trades)"

lemma bars_snoc_same:
  assumes iv: "0 < iv" and ok: "tape_ok (trades @ [t])" and ne: "trades \<noteq> []"
    and same: "last (buckets iv trades) = bucket_of iv t"
  shows "bars iv (trades @ [t]) = butlast (bars iv trades) @ [grow_candle (last (bars iv trades)) t]"
proof -
  let ?b = "bucket_of iv t"
  have bs: "buckets iv trades = butlast (buckets iv trades) @ [?b]"
    using ne same by (metis append_butlast_last_id buckets_Nil)
  have "distinct (buckets iv trades)" using distinct_buckets [OF iv] ok by (simp add: tape_ok_snoc)
  then have "?b \<notin> set (butlast (buckets iv trades))" by (subst (asm) bs) simp
  then have others: "in_bucket iv b (trades @ [t]) = in_bucket iv b trades" if "b \<in> set (butlast (buckets iv trades))" for b
    using that by (auto simp: in_bucket_def)
  have "in_bucket iv ?b trades \<noteq> []" by (rule in_bucket_nonempty) (subst bs, simp)
  then have grown: "bar ?b (in_bucket iv ?b (trades @ [t])) = grow_candle (bar ?b (in_bucket iv ?b trades)) t"
    using bar_snoc [of "in_bucket iv ?b trades" ?b t] by (simp add: in_bucket_def)
  have old: "bars iv trades = map (\<lambda>b. bar b (in_bucket iv b trades)) (butlast (buckets iv trades)) @ [bar ?b (in_bucket iv ?b trades)]"
    unfolding bars_def by (subst bs) simp
  have "bars iv (trades @ [t]) =
      map (\<lambda>b. bar b (in_bucket iv b (trades @ [t]))) (butlast (buckets iv trades)) @ [bar ?b (in_bucket iv ?b (trades @ [t]))]"
    unfolding bars_def buckets_snoc using ne same by simp (subst bs, simp)
  then show ?thesis unfolding old grown using others by simp
qed

lemma bars_snoc_new:
  assumes iv: "0 < iv" and ok: "tape_ok (trades @ [t])" and new: "trades = [] \<or> last (buckets iv trades) \<noteq> bucket_of iv t"
  shows "bars iv (trades @ [t]) = bars iv trades @ [new_candle (bucket_of iv t) t]"
proof -
  let ?b = "bucket_of iv t"
  have bs: "buckets iv (trades @ [t]) = buckets iv trades @ [?b]" using new by (auto simp: buckets_snoc)
  have "distinct (buckets iv (trades @ [t]))" by (rule distinct_buckets [OF iv ok])
  then have fresh: "?b \<notin> bucket_of iv ` set trades" unfolding bs by (simp add: set_buckets)
  then have "in_bucket iv ?b trades = []" unfolding in_bucket_def filter_empty_conv by (metis imageI)
  moreover have "in_bucket iv b (trades @ [t]) = in_bucket iv b trades" if "b \<in> set (buckets iv trades)" for b
    using that fresh by (auto simp: in_bucket_def set_buckets)
  ultimately show ?thesis by (simp add: bars_def bs bar_single [symmetric]) (simp add: in_bucket_def)
qed

lemma candle_fold_bars:
  "0 < iv \<Longrightarrow> tape_ok trades \<Longrightarrow> fold (candle_step iv) trades [] = bars iv trades"
proof (induction trades rule: rev_induct)
  case (snoc t trades)
  then have IH: "fold (candle_step iv) trades [] = bars iv trades" by (simp add: tape_ok_snoc)
  have last: "trades \<noteq> [] \<Longrightarrow> cn_open_time (last (bars iv trades)) = last (buckets iv trades)"
    by (simp add: bars_def last_map bar_def)
  have empty: "bars iv trades = [] \<longleftrightarrow> trades = []" by (simp add: bars_def)
  have step: "fold (candle_step iv) (trades @ [t]) [] = candle_step iv t (bars iv trades)" by (simp add: IH)
  note cs = candle_step_def [of iv t "bars iv trades", unfolded Let_def]
  show ?case
  proof (cases "trades \<noteq> [] \<and> last (buckets iv trades) = bucket_of iv t")
    case True
    then show ?thesis unfolding step cs
      using bars_snoc_same [OF snoc.prems] last empty by simp
  next
    case False
    then show ?thesis unfolding step cs
      using bars_snoc_new [OF snoc.prems] last empty by auto
  qed
qed (simp add: bars_def buckets_def)

lemma bars_ascending:
  assumes "0 < iv" and "tape_ok trades"
  shows "sorted_wrt (<) (map cn_open_time (bars iv trades))"
proof -
  have "map cn_open_time (bars iv trades) = buckets iv trades" by (simp add: bars_def bar_def comp_def)
  moreover have "sorted (buckets iv trades)" using buckets_sorted [OF assms] by (simp add: buckets_def)
  ultimately show ?thesis using distinct_buckets [OF assms] by (simp add: strict_sorted_iff)
qed

section \<open>Properties\<close>

text \<open>
  On a tape in time order with a positive interval, the candles are the most recent bars of the
  tape: one bar per interval that has a trade, in strictly ascending order of opening time, with the
  first and last price of the interval's trades, their extremes, and their summed quantity; intervals
  without a trade have no bar.
\<close>

theorem candles_are_interval_bars:
  assumes "0 < iv" and "tape_ok trades"
  shows "\<exists>cs. candles trades iv limit = drop (length cs - limit) cs \<and> sorted_wrt (<) (map cn_open_time cs) \<and>
    cs = map (\<lambda>b. bar b (in_bucket iv b trades)) (buckets iv trades) \<and>
    set (map cn_open_time cs) = bucket_of iv ` set trades"
proof -
  have "candles trades iv limit = drop (length (bars iv trades) - limit) (bars iv trades)"
    using assms candle_fold_bars [OF assms] by (auto simp: candles_def Let_def bars_def buckets_def)
  moreover have "map cn_open_time (bars iv trades) = buckets iv trades" by (simp add: bars_def bar_def comp_def)
  ultimately show ?thesis using bars_ascending [OF assms]
    by (intro exI [of _ "bars iv trades"]) (simp only: bars_def set_buckets simp_thms)
qed

definition example_tape :: TradeTape where
  "example_tape = [\<lparr>tr_timestamp = 100, tr_price = 50, tr_qty = 2\<rparr>, \<lparr>tr_timestamp = 110, tr_price = 70, tr_qty = 3\<rparr>,
     \<lparr>tr_timestamp = 190, tr_price = 60, tr_qty = 1\<rparr>]"

lemma example_tape_ok: "tape_ok example_tape"
  by (simp add: tape_ok_def example_tape_def)

theorem candles_are_interval_bars_witness:
  "candles example_tape 60 5 =
     [\<lparr>cn_open_time = 60, cn_open = 50, cn_high = 70, cn_low = 50, cn_close = 70, cn_volume = 5\<rparr>,
      \<lparr>cn_open_time = 180, cn_open = 60, cn_high = 60, cn_low = 60, cn_close = 60, cn_volume = 1\<rparr>]"
proof -
  have "buckets 60 example_tape = [60, 180]" by (simp add: buckets_def bucket_of_def example_tape_def)
  then have "map (\<lambda>b. bar b (in_bucket 60 b example_tape)) (buckets 60 example_tape) =
     [\<lparr>cn_open_time = 60, cn_open = 50, cn_high = 70, cn_low = 50, cn_close = 70, cn_volume = 5\<rparr>,
      \<lparr>cn_open_time = 180, cn_open = 60, cn_high = 60, cn_low = 60, cn_close = 60, cn_volume = 1\<rparr>]"
    by (simp add: bar_def in_bucket_def bucket_of_def example_tape_def)
  with candles_are_interval_bars [OF _ example_tape_ok, of 60 5] show ?thesis by auto
qed

text \<open>Recording a whole run of trades.\<close>

definition record_all :: "TradeRecord list \<Rightarrow> TradeTape" where
  "record_all ts = fold (\<lambda>t tape. tape_record tape (tr_timestamp t) (tr_price t) (tr_qty t)) ts []"

lemma record_all_filter:
  "tape_ok ts \<Longrightarrow> ts \<noteq> [] \<Longrightarrow>
   record_all ts = filter (\<lambda>t. saturating_sub_u64 (tr_timestamp (last ts)) WINDOW_SECONDS \<le> tr_timestamp t) ts"
proof (induction ts rule: rev_induct)
  case (snoc t ts)
  let ?c = "\<lambda>u. saturating_sub_u64 (tr_timestamp u) WINDOW_SECONDS"
  have le: "\<forall>u \<in> set ts. tr_timestamp u \<le> tr_timestamp t" and ok: "tape_ok ts" using snoc.prems by (simp_all add: tape_ok_snoc)
  have mono: "?c u \<le> ?c t" if "u \<in> set ts" for u
    using le that by (simp add: word_le_nat_alt unat_saturating_sub_u64 diff_le_mono)
  have old: "record_all ts = filter (\<lambda>u. ts = [] \<or> ?c (last ts) \<le> tr_timestamp u) ts"
    using snoc.IH [OF ok] by (cases "ts = []") (simp_all add: record_all_def)
  have "record_all (ts @ [t]) = prune (record_all ts @ [t]) (tr_timestamp t)"
    by (cases t) (simp add: record_all_def tape_record_def)
  also have "\<dots> = filter (\<lambda>u. ?c t \<le> tr_timestamp u) (record_all ts @ [t])"
    using tape_ok_filter [OF ok] le old by (intro prune_is_filter) (auto simp: tape_ok_snoc)
  also have "\<dots> = filter (\<lambda>u. ?c t \<le> tr_timestamp u) (ts @ [t])"
    unfolding old using mono [of "last ts"] by (cases "ts = []") (auto intro!: filter_cong intro: order_trans)
  finally show ?case by simp
qed simp

text \<open>
  After any run of records in time order the tape is, in order, exactly the recorded trades of the
  last fourteen days before the latest one; in particular it is itself in time order and keeps the
  latest trade.
\<close>

theorem tape_retains_window:
  assumes "tape_ok ts" and "ts \<noteq> []"
  shows "record_all ts = filter (\<lambda>t. unat (tr_timestamp (last ts)) \<le> unat (tr_timestamp t) + 1209600) ts \<and>
    tape_ok (record_all ts) \<and> record_all ts \<noteq> [] \<and> last (record_all ts) = last ts"
proof -
  have cut: "saturating_sub_u64 a WINDOW_SECONDS \<le> b \<longleftrightarrow> unat a \<le> unat b + 1209600" for a b
    by (simp add: word_le_nat_alt unat_saturating_sub_u64 WINDOW_SECONDS_def le_diff_conv)
  have eq: "record_all ts = filter (\<lambda>t. unat (tr_timestamp (last ts)) \<le> unat (tr_timestamp t) + 1209600) ts"
    using record_all_filter [OF assms] by (simp add: cut)
  moreover obtain us u where "ts = us @ [u]" using assms(2) by (metis append_butlast_last_id)
  moreover have "tape_ok (record_all ts)" unfolding eq by (rule tape_ok_filter [OF assms(1)])
  ultimately show ?thesis by simp
qed

theorem tape_retains_window_witness:
  "record_all (\<lparr>tr_timestamp = 5, tr_price = 1, tr_qty = 1\<rparr> # [\<lparr>tr_timestamp = 1209700, tr_price = 2, tr_qty = 1\<rparr>]) =
     [\<lparr>tr_timestamp = 1209700, tr_price = 2, tr_qty = 1\<rparr>]"
  using tape_retains_window [of "\<lparr>tr_timestamp = 5, tr_price = 1, tr_qty = 1\<rparr> # [\<lparr>tr_timestamp = 1209700, tr_price = 2, tr_qty = 1\<rparr>]"]
  by (simp add: tape_ok_def)

lemma Max_insert_max: "finite A \<Longrightarrow> Max (insert (max a b) A) = Max (insert a (insert (b :: u64) A))"
  by (cases "A = {}") (simp_all add: max.assoc)

lemma Min_insert_min: "finite A \<Longrightarrow> Min (insert (min a b) A) = Min (insert a (insert (b :: u64) A))"
  by (cases "A = {}") (simp_all add: min.assoc)

lemma max_price_Max: "w \<noteq> [] \<Longrightarrow> max_price w = Some (Max (tr_price ` set w))"
proof -
  have "fold (\<lambda>t m. max m (tr_price t)) ts k = Max (insert k (tr_price ` set ts))" for ts k
    by (induction ts arbitrary: k) (simp_all add: Max_insert_max)
  then show "w \<noteq> [] \<Longrightarrow> max_price w = Some (Max (tr_price ` set w))" by (cases w) (simp_all add: max_price_def)
qed

lemma min_price_Min: "w \<noteq> [] \<Longrightarrow> min_price w = Some (Min (tr_price ` set w))"
proof -
  have "fold (\<lambda>t m. min m (tr_price t)) ts k = Min (insert k (tr_price ` set ts))" for ts k
    by (induction ts arbitrary: k) (simp_all add: Min_insert_min)
  then show "w \<noteq> [] \<Longrightarrow> min_price w = Some (Min (tr_price ` set w))" by (cases w) (simp_all add: min_price_def)
qed

definition trailing_day :: "TradeTape \<Rightarrow> TradeRecord list" where
  "trailing_day trades = filter (\<lambda>t. unat (tr_timestamp (last trades)) \<le> unat (tr_timestamp t) + 86400) trades"

text \<open>
  The snapshot of a non-empty tape reports its last trade, and its day figures range over exactly
  the trades of the trailing 24 hours: the highest and lowest price, which enclose the last price, the
  (wrapping) volume, and the change from the window's first trade, absent when that trade is free or as
  old as the last.
\<close>

theorem snapshot_covers_trailing_day:
  assumes "trades \<noteq> []"
  defines "w \<equiv> trailing_day trades"
  shows "ms_last_price (tape_snapshot trades) = Some (tr_price (last trades)) \<and>
    ms_high_24h (tape_snapshot trades) = Some (Max (tr_price ` set w)) \<and>
    ms_low_24h (tape_snapshot trades) = Some (Min (tr_price ` set w)) \<and>
    Min (tr_price ` set w) \<le> tr_price (last trades) \<and> tr_price (last trades) \<le> Max (tr_price ` set w) \<and>
    ms_volume_24h (tape_snapshot trades) = sum_list (map tr_qty w) \<and>
    (ms_change_24h_bps (tape_snapshot trades) = None \<longleftrightarrow>
       tr_price (hd w) = 0 \<or> tr_timestamp (hd w) = tr_timestamp (last trades))"
proof -
  have cut: "saturating_sub_u64 a 86400 \<le> b \<longleftrightarrow> unat a \<le> unat b + 86400" for a b
    by (simp add: word_le_nat_alt unat_saturating_sub_u64 le_diff_conv)
  have win: "filter (\<lambda>t. saturating_sub_u64 (tr_timestamp (last trades)) 86400 \<le> tr_timestamp t) trades = w"
    by (simp add: w_def trailing_day_def cut)
  have last: "last trades \<in> set w" using assms(1) by (simp add: w_def trailing_day_def)
  then have ne: "w \<noteq> []" by auto
  have "Min (tr_price ` set w) \<le> tr_price (last trades)" "tr_price (last trades) \<le> Max (tr_price ` set w)"
    using last by simp_all
  then show ?thesis using assms(1) ne
    by (auto simp: tape_snapshot_def Let_def win max_price_Max min_price_Min word_gt_0)
qed

theorem snapshot_covers_trailing_day_witness:
  "ms_high_24h (tape_snapshot example_tape) = Some 70 \<and> ms_volume_24h (tape_snapshot example_tape) = 6"
  using snapshot_covers_trailing_day [of example_tape] by (simp add: trailing_day_def example_tape_def)

end
