(* ===== verification/Position.thy ===== *)
theory Position
  imports Common_Types
begin

text \<open>
  A position in one market and how fills change it, from \<open>cerdic-tee-matcher/src/api.rs\<close>: the margin
  formulas, the realized result of a close, and \<open>PositionFold\<close>.  Prices, quantities and leverages are
  \<open>u64\<close>, sizes and funding indices \<open>i128\<close>.  A collateral is an \<open>I256\<close> of \<open>alloy_primitives\<close>, which is
  not part of the repository: it is represented by the integer it stands for and its addition is the
  parameter \<open>A\<close>, of which \<open>i256_ok\<close> states the documented behaviour within the 256-bit range.
  Conversions of 128-bit values to \<open>I256\<close> cannot fail.  \<open>None\<close> is the panic of a division by zero.
\<close>

definition IMR_BPS :: nat where "IMR_BPS = 500"
definition API_BPS_DENOMINATOR :: nat where "API_BPS_DENOMINATOR = 10000"
definition MAX_LEVERAGE :: u64 where "MAX_LEVERAGE = 50"
definition USD_SCALE :: nat where "USD_SCALE = 1000000000000000000"

definition in_i256 :: "int \<Rightarrow> bool" where
  "in_i256 x \<longleftrightarrow> - (2 ^ 255) \<le> x \<and> x < 2 ^ 255"

definition i256_ok :: "(int \<Rightarrow> int \<Rightarrow> int) \<Rightarrow> bool" where
  "i256_ok A \<longleftrightarrow> (\<forall>x y. in_i256 x \<longrightarrow> in_i256 y \<longrightarrow> in_i256 (x + y) \<longrightarrow> A x y = x + y)"

definition wrapping_i256_add :: "int \<Rightarrow> int \<Rightarrow> int" where
  "wrapping_i256_add x y = (x + y + 2 ^ 255) mod 2 ^ 256 - 2 ^ 255"

lemma wrapping_i256_ok: "i256_ok wrapping_i256_add"
  by (auto simp: i256_ok_def in_i256_def wrapping_i256_add_def)

section \<open>Margin\<close>

definition price_scale_for_market :: "MarketId \<Rightarrow> u64" where
  "price_scale_for_market market_id =
     (if market_id \<in> {''EURC/USDC'', ''GBP/USD'', ''AUD/USD'', ''USD/JPY''} then 100000 else 100)"

definition clamp_u64 :: "u64 \<Rightarrow> u64 \<Rightarrow> u64 \<Rightarrow> u64" where
  "clamp_u64 x lo hi = (if x < lo then lo else if hi < x then hi else x)"

definition required_margin :: "u64 \<Rightarrow> u64 \<Rightarrow> u64 \<Rightarrow> nat" where
  "required_margin tick qty leverage =
     (let imr_bps = API_BPS_DENOMINATOR div unat (clamp_u64 leverage 1 MAX_LEVERAGE) in
      wrap_u128 (int (unat tick * unat qty * imr_bps)) div API_BPS_DENOMINATOR)"

definition required_margin_usd :: "u64 \<Rightarrow> u64 \<Rightarrow> MarketId \<Rightarrow> u64 \<Rightarrow> nat" where
  "required_margin_usd tick qty market_id leverage =
     sat_u128 (required_margin tick qty leverage * USD_SCALE) div unat (price_scale_for_market market_id)"

definition realized_delta_to_usd :: "int \<Rightarrow> MarketId \<Rightarrow> int" where
  "realized_delta_to_usd delta market_id =
     (let raw = (if in_i128 delta then delta else if delta < 0 then - (2 ^ 127) else 2 ^ 127 - 1) in
      trunc_div (sat_i128 (raw * int USD_SCALE)) (int (unat (price_scale_for_market market_id))))"

section \<open>Closing\<close>

definition realized_close_delta :: "int \<Rightarrow> u64 \<Rightarrow> int \<Rightarrow> u64 \<Rightarrow> u64 \<Rightarrow> int \<Rightarrow> int" where
  "realized_close_delta signed_size entry_price entry_funding_index close_size current_tick current_funding_index =
     (let size_abs = nat \<bar>signed_size\<bar> in
      if size_abs = 0 \<or> close_size = 0 then 0
      else
        let close_size' = min close_size (of_nat size_abs);
            signed_close = (if 0 \<le> signed_size then int (unat close_size') else - int (unat close_size'));
            spot_pnl = wrap_i128 (signed_close * (int (unat current_tick) - int (unat entry_price)));
            funding_pnl = wrap_i128 (signed_close * wrap_i128 (current_funding_index - entry_funding_index)) in
        wrap_i128 (spot_pnl + funding_pnl))"

section \<open>Folding fills\<close>

record PositionFold =
  pf_signed_size :: int
  pf_entry_price :: u64
  pf_entry_funding_index :: int
  pf_collateral :: int
  pf_leverage :: u64
  pf_take_profit :: "u64 option"
  pf_stop_loss :: "u64 option"

record PortfolioMarketState =
  pm_market_id :: MarketId
  pm_signed_size :: int
  pm_entry_price :: u64
  pm_collateral :: int
  pm_leverage :: u64
  pm_take_profit :: "u64 option"
  pm_stop_loss :: "u64 option"
  pm_entry_funding_index :: int

definition from_existing :: "PortfolioMarketState option \<Rightarrow> u64 \<Rightarrow> PositionFold" where
  "from_existing existing default_leverage =
     (case existing of
        Some m \<Rightarrow> \<lparr>pf_signed_size = pm_signed_size m, pf_entry_price = pm_entry_price m,
          pf_entry_funding_index = pm_entry_funding_index m, pf_collateral = pm_collateral m,
          pf_leverage = pm_leverage m, pf_take_profit = pm_take_profit m, pf_stop_loss = pm_stop_loss m\<rparr>
      | None \<Rightarrow> \<lparr>pf_signed_size = 0, pf_entry_price = 0, pf_entry_funding_index = 0, pf_collateral = 0,
          pf_leverage = default_leverage, pf_take_profit = None, pf_stop_loss = None\<rparr>)"

text \<open>The two branches of \<open>apply_fill\<close>: the position after the branch, and (total, realized).\<close>

definition add_branch :: "PositionFold \<Rightarrow> int \<Rightarrow> u64 \<Rightarrow> u64 \<Rightarrow> int \<Rightarrow> ((int \<times> int) \<times> PositionFold) option" where
  "add_branch p fill_signed fill_price fill_qty current_funding_index =
     (let old_abs = nat \<bar>pf_signed_size p\<bar>;
          new_abs = wrap_u128 (int (old_abs + unat fill_qty)) in
      if new_abs = 0 then None
      else
        let weighted = wrap_u128 (int (wrap_u128 (int (old_abs * unat (pf_entry_price p))) + unat fill_qty * unat fill_price));
            weighted_funding = wrap_i128 (wrap_i128 (pf_entry_funding_index p * wrap_i128 (int old_abs)) +
              wrap_i128 (current_funding_index * int (unat fill_qty))) in
        Some ((int (required_margin fill_price fill_qty (pf_leverage p)), 0),
          p\<lparr>pf_entry_price := of_nat (weighted div new_abs),
            pf_entry_funding_index := trunc_div weighted_funding (wrap_i128 (int new_abs)),
            pf_signed_size := wrap_i128 (pf_signed_size p + fill_signed)\<rparr>))"

definition close_branch :: "(int \<Rightarrow> int \<Rightarrow> int) \<Rightarrow> PositionFold \<Rightarrow> bool \<Rightarrow> u64 \<Rightarrow> u64 \<Rightarrow> int \<Rightarrow> (int \<times> int) \<times> PositionFold" where
  "close_branch A p fill_is_buy fill_price fill_qty current_funding_index =
     (let existing_abs = nat \<bar>pf_signed_size p\<bar>;
          close_size = (of_nat (min (unat fill_qty) existing_abs) :: u64);
          close_delta = realized_close_delta (pf_signed_size p) (pf_entry_price p) (pf_entry_funding_index p)
            close_size fill_price current_funding_index;
          p1 = p\<lparr>pf_signed_size := wrap_i128 (pf_signed_size p +
            (if 0 \<le> pf_signed_size p then - int (unat close_size) else int (unat close_size)))\<rparr>;
          flip_qty = fill_qty - close_size in
      if flip_qty = 0 then ((close_delta, close_delta), p1)
      else
        let p2 = p1\<lparr>pf_signed_size := (if fill_is_buy then int (unat flip_qty) else - int (unat flip_qty)),
              pf_entry_price := fill_price, pf_entry_funding_index := current_funding_index,
              pf_take_profit := None, pf_stop_loss := None\<rparr>;
            open_delta = int (required_margin fill_price flip_qty (pf_leverage p)) in
        ((A close_delta open_delta, close_delta), p2))"

definition apply_fill :: "(int \<Rightarrow> int \<Rightarrow> int) \<Rightarrow> PositionFold \<Rightarrow> bool \<Rightarrow> u64 \<Rightarrow> u64 \<Rightarrow> int \<Rightarrow> ((int \<times> int) \<times> PositionFold) option" where
  "apply_fill A p fill_is_buy fill_price fill_qty current_funding_index =
     (let fill_signed = (if fill_is_buy then int (unat fill_qty) else - int (unat fill_qty));
          same_direction = (pf_signed_size p = 0 \<or> (0 < pf_signed_size p) = (0 < fill_signed)) in
      do {
        ((delta, realized), p') \<leftarrow>
          (if same_direction then add_branch p fill_signed fill_price fill_qty current_funding_index
           else Some (close_branch A p fill_is_buy fill_price fill_qty current_funding_index));
        Some ((delta, realized), p'\<lparr>pf_collateral := A (pf_collateral p') delta\<rparr>)
      })"

section \<open>Margin bounds\<close>

definition leverage_of :: "u64 \<Rightarrow> nat" where
  "leverage_of l = max 1 (min 50 (unat l))"

lemma clamp_leverage: "unat (clamp_u64 l 1 MAX_LEVERAGE) = leverage_of l"
proof (cases "l < 1")
  case True
  then have "unat l = 0" by (simp add: word_less_nat_alt)
  with True show ?thesis by (simp add: clamp_u64_def leverage_of_def)
next
  case False
  then have "1 \<le> unat l" by (simp add: word_less_nat_alt)
  with False show ?thesis by (auto simp: clamp_u64_def leverage_of_def MAX_LEVERAGE_def word_less_nat_alt)
qed

lemma leverage_of_bounds: "1 \<le> leverage_of l" "leverage_of l \<le> 50"
  by (auto simp: leverage_of_def)

lemma margin_exact:
  assumes "unat t * unat q < 2 ^ 114"
  shows "required_margin t q l = unat t * unat q * (10000 div leverage_of l) div 10000"
proof -
  have "10000 div leverage_of l \<le> 10000" by (rule div_le_dividend)
  then have "unat t * unat q * (10000 div leverage_of l) \<le> 2 ^ 114 * 10000"
    using assms by (intro mult_mono) auto
  then have "in_u128 (unat t * unat q * (10000 div leverage_of l))" by (simp add: in_u128_def)
  then show ?thesis
    unfolding required_margin_def Let_def clamp_leverage API_BPS_DENOMINATOR_def by (simp only: wrap_u128_id)
qed

lemma required_margin_bound: "required_margin t q l < 2 ^ 128"
proof -
  have "wrap_u128 x div API_BPS_DENOMINATOR \<le> wrap_u128 x" for x by (rule div_le_dividend)
  moreover have "wrap_u128 x < 2 ^ 128" for x using wrap_u128_bound by (simp add: in_u128_def)
  ultimately show ?thesis unfolding required_margin_def Let_def by (rule le_less_trans)
qed

end
