(* ===== verification/Position_Properties.thy ===== *)
theory Position_Properties
  imports Position
begin

text \<open>
  What a fill does to a position, exactly: net size, realized result, margin, collateral, the average
  entry, and a flip as a close followed by an opening.
\<close>

section \<open>Ranges in which nothing wraps\<close>

definition position_in_range :: "PositionFold \<Rightarrow> bool" where
  "position_in_range p \<longleftrightarrow> \<bar>pf_signed_size p\<bar> < 2 ^ 62 \<and> \<bar>pf_entry_funding_index p\<bar> < 2 ^ 62 \<and>
     \<bar>pf_collateral p\<bar> < 2 ^ 200 \<and> unat (pf_entry_price p) < 2 ^ 40"

definition fill_in_range :: "u64 \<Rightarrow> u64 \<Rightarrow> int \<Rightarrow> bool" where
  "fill_in_range price qty funding \<longleftrightarrow> 0 < unat qty \<and> unat qty < 2 ^ 62 \<and> unat price < 2 ^ 40 \<and> \<bar>funding\<bar> < 2 ^ 62"

definition signed_fill :: "bool \<Rightarrow> u64 \<Rightarrow> int" where
  "signed_fill buy qty = (if buy then int (unat qty) else - int (unat qty))"

definition adds :: "PositionFold \<Rightarrow> bool \<Rightarrow> bool" where
  "adds p buy \<longleftrightarrow> pf_signed_size p = 0 \<or> (0 < pf_signed_size p) = buy"

definition closed_result :: "PositionFold \<Rightarrow> nat \<Rightarrow> u64 \<Rightarrow> int \<Rightarrow> int" where
  "closed_result p c price funding = sgn (pf_signed_size p) * int c *
     ((int (unat price) - int (unat (pf_entry_price p))) + (funding - pf_entry_funding_index p))"

lemma mult_bound: "\<bar>a\<bar> \<le> m \<Longrightarrow> \<bar>b\<bar> \<le> n \<Longrightarrow> \<bar>a * b\<bar> \<le> m * (n :: int)"
  unfolding abs_mult by (rule mult_mono) auto

lemma in_i128_bound: "\<bar>x\<bar> \<le> 2 ^ 126 \<Longrightarrow> in_i128 x"
  by (auto simp: in_i128_def)

lemma int_unat_bound: "unat x < 2 ^ n \<Longrightarrow> \<bar>int (unat (x :: u64))\<bar> \<le> 2 ^ n"
  by (metis abs_of_nat less_imp_le of_nat_le_iff of_nat_numeral of_nat_power)

lemma i256_add: "i256_ok A \<Longrightarrow> in_i256 x \<Longrightarrow> in_i256 y \<Longrightarrow> in_i256 (x + y) \<Longrightarrow> A x y = x + y"
  by (simp add: i256_ok_def)

lemma margin_small: "unat p < 2 ^ 40 \<Longrightarrow> unat q < 2 ^ 62 \<Longrightarrow> unat p * unat q < 2 ^ 114"
  using mult_strict_mono [of "unat p" "2 ^ 40" "unat q" "2 ^ 62"] by simp

lemma realized_close_exact:
  assumes size: "\<bar>sz\<bar> < 2 ^ 62" "sz \<noteq> 0" and c: "unat c \<le> nat \<bar>sz\<bar>"
    and "unat e < 2 ^ 40" "unat t < 2 ^ 40" and f: "\<bar>fe\<bar> < 2 ^ 62" "\<bar>ft\<bar> < 2 ^ 62"
  shows "realized_close_delta sz e fe c t ft = sgn sz * int (unat c) * ((int (unat t) - int (unat e)) + (ft - fe))"
    and "\<bar>sgn sz * int (unat c) * ((int (unat t) - int (unat e)) + (ft - fe))\<bar> < 2 ^ 127"
proof -
  define k where "k = sgn sz * int (unat c)"
  define d where "d = int (unat t) - int (unat e)"
  define g where "g = ft - fe"
  have n: "nat \<bar>sz\<bar> < 2 ^ 62" using size(1) by (simp add: nat_less_iff)
  have "unat c < 2 ^ 62" using c n by linarith
  then have k: "\<bar>k\<bar> \<le> 2 ^ 62" using int_unat_bound [of c 62] by (simp add: k_def abs_mult abs_sgn_eq)
  have "(2 :: int) ^ 41 = 2 ^ 40 + 2 ^ 40" by simp
  then have d: "\<bar>d\<bar> \<le> 2 ^ 41" using int_unat_bound [OF assms(4)] int_unat_bound [OF assms(5)] unfolding d_def by linarith
  have g: "\<bar>g\<bar> \<le> 2 ^ 63" using f by (simp add: g_def)
  have kd: "\<bar>k * d\<bar> \<le> 2 ^ 62 * 2 ^ 41" by (rule mult_bound [OF k d])
  have kg: "\<bar>k * g\<bar> \<le> 2 ^ 62 * 2 ^ 63" by (rule mult_bound [OF k g])
  have w: "wrap_i128 g = g" "wrap_i128 (k * d) = k * d" "wrap_i128 (k * g) = k * g" "wrap_i128 (k * d + k * g) = k * d + k * g"
    using g kd kg by (auto intro!: wrap_i128_id in_i128_bound)
  have "nat \<bar>sz\<bar> < 2 ^ 64" by (rule less_trans [OF n]) simp
  then have "unat (of_nat (nat \<bar>sz\<bar>) :: u64) = nat \<bar>sz\<bar>" by (rule unat_of_nat_u64)
  then have cl: "min c (of_nat (nat \<bar>sz\<bar>)) = c" using c by (simp add: min_def word_le_nat_alt)
  have sg: "(if 0 \<le> sz then int (unat c) else - int (unat c)) = k" using size(2) by (auto simp: k_def sgn_if)
  have "realized_close_delta sz e fe c t ft = k * d + k * g"
  proof (cases "c = 0")
    case True
    then show ?thesis by (simp add: realized_close_delta_def k_def)
  next
    case False
    then show ?thesis using size(2)
      by (simp only: realized_close_delta_def Let_def cl sg d_def [symmetric] g_def [symmetric] w nat_eq_iff) simp
  qed
  then show "realized_close_delta sz e fe c t ft = k * (d + g)" by (simp add: distrib_left)
  show "\<bar>k * (d + g)\<bar> < 2 ^ 127" using kd kg by (simp add: distrib_left)
qed

section \<open>The branches\<close>

lemma add_branch_exact:
  assumes p: "position_in_range p" and f: "fill_in_range price qty funding" and dir: "adds p buy"
  obtains e g where "add_branch p (signed_fill buy qty) price qty funding =
      Some ((int (required_margin price qty (pf_leverage p)), 0),
        p\<lparr>pf_entry_price := e, pf_entry_funding_index := g, pf_signed_size := pf_signed_size p + signed_fill buy qty\<rparr>)"
    and "unat e = (nat \<bar>pf_signed_size p\<bar> * unat (pf_entry_price p) + unat qty * unat price) div (nat \<bar>pf_signed_size p\<bar> + unat qty)"
    and "g = trunc_div (pf_entry_funding_index p * \<bar>pf_signed_size p\<bar> + funding * int (unat qty)) (\<bar>pf_signed_size p\<bar> + int (unat qty))"
proof -
  define a where "a = nat \<bar>pf_signed_size p\<bar>"
  define q where "q = unat qty"
  define x where "x = unat (pf_entry_price p)"
  define y where "y = unat price"
  have a: "a < 2 ^ 62" "int a = \<bar>pf_signed_size p\<bar>" and q: "0 < q" "q < 2 ^ 62" and x: "x < 2 ^ 40" and y: "y < 2 ^ 40"
    using p f by (simp_all add: position_in_range_def fill_in_range_def a_def q_def x_def y_def nat_less_iff)
  have ax: "a * x \<le> 2 ^ 62 * 2 ^ 40" and qy: "q * y \<le> 2 ^ 62 * 2 ^ 40" using a q x y by (intro mult_mono; simp)+
  have w: "wrap_u128 (int (a + q)) = a + q" "wrap_u128 (int (a * x)) = a * x" "wrap_u128 (int (a * x + q * y)) = a * x + q * y"
    using a q ax qy by (auto intro!: wrap_u128_id simp: in_u128_def simp del: of_nat_add of_nat_mult)
  have fn: "\<bar>pf_entry_funding_index p\<bar> \<le> 2 ^ 62" "\<bar>funding\<bar> \<le> 2 ^ 62" "\<bar>int a\<bar> \<le> 2 ^ 62" "\<bar>int q\<bar> \<le> 2 ^ 62"
    using p f a q by (simp_all add: position_in_range_def fill_in_range_def)
  have fa: "\<bar>pf_entry_funding_index p * int a\<bar> \<le> 2 ^ 62 * 2 ^ 62" by (rule mult_bound [OF fn(1,3)])
  have fq: "\<bar>funding * int q\<bar> \<le> 2 ^ 62 * 2 ^ 62" by (rule mult_bound [OF fn(2,4)])
  have "in_i128 (pf_entry_funding_index p * int a)" "in_i128 (funding * int q)"
    "in_i128 (pf_entry_funding_index p * int a + funding * int q)"
    using fa fq by (intro in_i128_bound; simp)+
  note wf = this [THEN wrap_i128_id]
  have sf: "signed_fill buy qty = (if buy then int q else - int q)" by (simp add: signed_fill_def q_def)
  have small: "in_i128 (int a)" "in_i128 (int (a + q))" "in_i128 (pf_signed_size p + signed_fill buy qty)"
    unfolding sf using a q by (auto intro!: in_i128_bound)
  note ws = small [THEN wrap_i128_id]
  have "a * x + q * y \<le> (a + q) * 2 ^ 40" using x y by (simp only: add_mult_distrib) (intro add_mono mult_left_mono; simp)
  then have "(a * x + q * y) div (a + q) \<le> (a + q) * 2 ^ 40 div (a + q)" by (rule div_le_mono)
  also have "\<dots> = 2 ^ 40" using q by (intro nonzero_mult_div_cancel_left) simp
  finally have "(a * x + q * y) div (a + q) < 2 ^ 64" by simp
  then have e: "unat (of_nat ((a * x + q * y) div (a + q)) :: u64) = (a * x + q * y) div (a + q)" by (rule unat_of_nat_u64)
  show thesis
  proof (rule that)
    show "add_branch p (signed_fill buy qty) price qty funding = Some ((int (required_margin price qty (pf_leverage p)), 0),
        p\<lparr>pf_entry_price := of_nat ((a * x + q * y) div (a + q)),
          pf_entry_funding_index := trunc_div (pf_entry_funding_index p * int a + funding * int q) (int (a + q)),
          pf_signed_size := pf_signed_size p + signed_fill buy qty\<rparr>)"
      using q by (simp only: add_branch_def Let_def a_def [symmetric] q_def [symmetric] x_def [symmetric] y_def [symmetric] w wf ws) simp
    show "unat (of_nat ((a * x + q * y) div (a + q)) :: u64) =
      (nat \<bar>pf_signed_size p\<bar> * unat (pf_entry_price p) + unat qty * unat price) div (nat \<bar>pf_signed_size p\<bar> + unat qty)"
      using e by (simp only: a_def q_def x_def y_def)
    show "trunc_div (pf_entry_funding_index p * int a + funding * int q) (int (a + q)) =
      trunc_div (pf_entry_funding_index p * \<bar>pf_signed_size p\<bar> + funding * int (unat qty)) (\<bar>pf_signed_size p\<bar> + int (unat qty))"
      by (simp only: of_nat_add a(2) q_def)
  qed
qed

lemma close_branch_exact:
  assumes A: "i256_ok A" and p: "position_in_range p" and f: "fill_in_range price qty funding" and dir: "\<not> adds p buy"
  defines "c \<equiv> min (unat qty) (nat \<bar>pf_signed_size p\<bar>)"
  defines "r \<equiv> closed_result p c price funding"
  obtains p' where "close_branch A p buy price qty funding =
      ((r + (if unat qty \<le> nat \<bar>pf_signed_size p\<bar> then 0 else int (required_margin price (qty - of_nat c) (pf_leverage p))), r), p')"
    and "p' = (if unat qty \<le> nat \<bar>pf_signed_size p\<bar> then p\<lparr>pf_signed_size := pf_signed_size p + signed_fill buy qty\<rparr>
      else p\<lparr>pf_signed_size := pf_signed_size p + signed_fill buy qty, pf_entry_price := price,
        pf_entry_funding_index := funding, pf_take_profit := None, pf_stop_loss := None\<rparr>)"
    and "\<bar>r\<bar> < 2 ^ 127"
proof -
  have nz: "pf_signed_size p \<noteq> 0" and opp: "(0 < pf_signed_size p) \<noteq> buy" using dir by (auto simp: adds_def)
  define cs where "cs = (of_nat c :: u64)"
  have c: "c \<le> unat qty" "c \<le> nat \<bar>pf_signed_size p\<bar>" by (simp_all add: c_def)
  have "c < 2 ^ 64" using c(1) unat_u64_less [of qty] by linarith
  then have uc: "unat cs = c" by (simp add: cs_def unat_of_nat)
  have rng: "\<bar>pf_signed_size p\<bar> < 2 ^ 62" "unat (pf_entry_price p) < 2 ^ 40" "unat price < 2 ^ 40"
    "\<bar>pf_entry_funding_index p\<bar> < 2 ^ 62" "\<bar>funding\<bar> < 2 ^ 62" "unat qty < 2 ^ 62"
    using p f by (simp_all add: position_in_range_def fill_in_range_def)
  have le: "unat cs \<le> nat \<bar>pf_signed_size p\<bar>" using uc c(2) by simp
  note close = realized_close_exact [OF rng(1) nz le rng(2-5), unfolded uc]
  have rc: "realized_close_delta (pf_signed_size p) (pf_entry_price p) (pf_entry_funding_index p) cs price funding = r"
    using close(1) by (simp add: r_def closed_result_def)
  have rb: "\<bar>r\<bar> < 2 ^ 127" using close(2) by (simp add: r_def closed_result_def)
  have "unat (qty - cs) = unat qty - c" using c(1) uc by (simp add: unat_sub word_le_nat_alt)
  then have flip: "qty - cs = 0 \<longleftrightarrow> unat qty \<le> nat \<bar>pf_signed_size p\<bar>" "unat (qty - cs) = unat qty - c"
    using c by (auto simp: c_def simp flip: unat_eq_zero)
  have sz: "wrap_i128 (pf_signed_size p + (if 0 \<le> pf_signed_size p then - int c else int c)) =
      pf_signed_size p + (if 0 \<le> pf_signed_size p then - int c else int c)"
    using c rng(1) by (intro wrap_i128_id in_i128_bound) auto
  have mb: "required_margin price (qty - cs) (pf_leverage p) < 2 ^ 128" by (rule required_margin_bound)
  have Aok: "A r (int (required_margin price (qty - cs) (pf_leverage p))) = r + int (required_margin price (qty - cs) (pf_leverage p))"
    using rb mb by (intro i256_add [OF A]) (auto simp: in_i256_def)
  let ?part = "unat qty \<le> nat \<bar>pf_signed_size p\<bar>"
  have part: "(if 0 \<le> pf_signed_size p then - int c else int c) = signed_fill buy qty" if ?part
    using that nz opp by (auto simp: signed_fill_def c_def)
  have "int (unat (qty - cs)) = int (unat qty) - int c" using c(1) flip(2) by (simp only: of_nat_diff)
  then have rest: "(if buy then int (unat (qty - cs)) else - int (unat (qty - cs))) = pf_signed_size p + signed_fill buy qty" if "\<not> ?part"
    using that nz opp by (auto simp: signed_fill_def c_def)
  have m: "qty - of_nat c = qty - cs" by (simp add: cs_def)
  show thesis
  proof (rule that [OF _ refl rb])
    show "close_branch A p buy price qty funding =
      ((r + (if ?part then 0 else int (required_margin price (qty - of_nat c) (pf_leverage p))), r),
       if ?part then p\<lparr>pf_signed_size := pf_signed_size p + signed_fill buy qty\<rparr>
       else p\<lparr>pf_signed_size := pf_signed_size p + signed_fill buy qty, pf_entry_price := price,
        pf_entry_funding_index := funding, pf_take_profit := None, pf_stop_loss := None\<rparr>)"
    proof (cases ?part)
      case True
      then show ?thesis
        by (simp only: close_branch_def Let_def c_def [symmetric] cs_def [symmetric] rc uc flip(1) if_True part [OF True]
            sz [unfolded part [OF True]] add_0_right)
    next
      case False
      then show ?thesis
        by (simp only: close_branch_def Let_def c_def [symmetric] cs_def [symmetric] rc uc sz flip(1) if_False Aok m rest [OF False]) simp
    qed
  qed
qed

section \<open>Properties\<close>

definition fill_margin :: "PositionFold \<Rightarrow> u64 \<Rightarrow> nat \<Rightarrow> nat" where
  "fill_margin p price n = unat price * n * (10000 div leverage_of (pf_leverage p)) div 10000"

lemma fill_margin_eq: "unat q < 2 ^ 62 \<Longrightarrow> unat price < 2 ^ 40 \<Longrightarrow> required_margin price q (pf_leverage p) = fill_margin p price (unat q)"
  unfolding fill_margin_def by (intro margin_exact margin_small)

lemma apply_fill_dir:
  assumes "fill_in_range price qty funding"
  shows "apply_fill A p buy price qty funding = do {
      ((delta, realized), p') \<leftarrow> (if adds p buy then add_branch p (signed_fill buy qty) price qty funding
        else Some (close_branch A p buy price qty funding));
      Some ((delta, realized), p'\<lparr>pf_collateral := A (pf_collateral p') delta\<rparr>) }"
proof -
  define n where "n = unat qty"
  have "0 < n" using assms by (simp add: fill_in_range_def n_def)
  then have "(0 < signed_fill buy qty) = buy" by (simp add: signed_fill_def n_def [symmetric])
  then show ?thesis by (simp only: apply_fill_def adds_def Let_def signed_fill_def)
qed

lemma collateral_add:
  assumes "i256_ok A" and "position_in_range p" and "\<bar>d\<bar> < 2 ^ 130"
  shows "A (pf_collateral p) d = pf_collateral p + d"
  using assms(2,3) by (intro i256_add [OF assms(1)]) (auto simp: in_i256_def position_in_range_def)

lemma margin_bound_int: "\<bar>int (required_margin a b l)\<bar> < 2 ^ 128"
  using required_margin_bound [of a b l] by simp

text \<open>
  C34: A fill of a position in range returns without a panic; the size moves by exactly the signed fill
  and the collateral by exactly the reported delta.  Adding realizes nothing and locks the margin of the
  fill; closing realizes, on the closed quantity, the price move from the entry plus the funding move,
  keeps the entry while something stays open, and beyond the old size opens the rest at the fill's own
  price with its margin and without stop orders.
\<close>

theorem fill_settles_position:
  assumes "i256_ok A" and "position_in_range p" and "fill_in_range price qty funding"
  shows "\<exists>delta realized p'. apply_fill A p buy price qty funding = Some ((delta, realized), p') \<and>
    pf_signed_size p' = pf_signed_size p + signed_fill buy qty \<and>
    pf_collateral p' = pf_collateral p + delta \<and>
    (if adds p buy then realized = 0 \<and> delta = int (fill_margin p price (unat qty))
     else let c = min (unat qty) (nat \<bar>pf_signed_size p\<bar>) in
       realized = closed_result p c price funding \<and>
       delta = realized + int (fill_margin p price (unat qty - c)) \<and>
       (unat qty \<le> nat \<bar>pf_signed_size p\<bar> \<longrightarrow> pf_entry_price p' = pf_entry_price p \<and> pf_stop_loss p' = pf_stop_loss p) \<and>
       (nat \<bar>pf_signed_size p\<bar> < unat qty \<longrightarrow> pf_entry_price p' = price \<and> pf_stop_loss p' = None))"
proof (cases "adds p buy")
  case True
  obtain e g where b: "add_branch p (signed_fill buy qty) price qty funding =
      Some ((int (required_margin price qty (pf_leverage p)), 0),
        p\<lparr>pf_entry_price := e, pf_entry_funding_index := g, pf_signed_size := pf_signed_size p + signed_fill buy qty\<rparr>)"
    using add_branch_exact [OF assms(2,3) True] by metis
  have "A (pf_collateral p) (int (required_margin price qty (pf_leverage p))) =
      pf_collateral p + int (required_margin price qty (pf_leverage p))"
    using margin_bound_int [of price qty] by (intro collateral_add [OF assms(1,2)]) (simp add: less_trans [of _ "2 ^ 128"])
  then show ?thesis using True b assms(3)
    by (simp add: apply_fill_dir [OF assms(3)] fill_margin_eq fill_in_range_def)
next
  case False
  define c where "c = min (unat qty) (nat \<bar>pf_signed_size p\<bar>)"
  define r where "r = closed_result p c price funding"
  define m where "m = fill_margin p price (unat qty - c)"
  let ?part = "unat qty \<le> nat \<bar>pf_signed_size p\<bar>"
  define p' where "p' = (if ?part then p\<lparr>pf_signed_size := pf_signed_size p + signed_fill buy qty\<rparr>
      else p\<lparr>pf_signed_size := pf_signed_size p + signed_fill buy qty, pf_entry_price := price,
        pf_entry_funding_index := funding, pf_take_profit := None, pf_stop_loss := None\<rparr>)"
  have q: "unat qty < 2 ^ 62" "unat price < 2 ^ 40" using assms(3) by (simp_all add: fill_in_range_def)
  have "c < 2 ^ 64" using q(1) by (simp add: c_def min_less_iff_disj)
  then have "unat (of_nat c :: u64) = c" by (rule unat_of_nat_u64)
  then have u: "unat (qty - of_nat c) = unat qty - c" by (simp add: unat_sub word_le_nat_alt c_def)
  then have mq: "required_margin price (qty - of_nat c) (pf_leverage p) = m" using q by (simp add: m_def fill_margin_eq)
  have mz: "?part \<Longrightarrow> m = 0" by (simp add: m_def c_def fill_margin_def)
  have mi: "(if ?part then 0 else int m) = int m" using mz by simp
  have br: "close_branch A p buy price qty funding = ((r + int m, r), p') \<and> \<bar>r\<bar> < 2 ^ 127"
    by (rule close_branch_exact [OF assms False, folded c_def r_def, unfolded mq mi]) (simp only: p'_def simp_thms)
  note br = this [THEN conjunct1] this [THEN conjunct2]
  have "\<bar>int m\<bar> < 2 ^ 128" using margin_bound_int mq by metis
  then have "\<bar>r + int m\<bar> < 2 ^ 130" using br(2) by simp
  note add = collateral_add [OF assms(1,2) this]
  have p': "pf_collateral p' = pf_collateral p" "pf_signed_size p' = pf_signed_size p + signed_fill buy qty"
    "?part \<Longrightarrow> pf_entry_price p' = pf_entry_price p \<and> pf_stop_loss p' = pf_stop_loss p"
    "\<not> ?part \<Longrightarrow> pf_entry_price p' = price \<and> pf_stop_loss p' = None"
    by (simp_all add: p'_def)
  have run: "apply_fill A p buy price qty funding = Some ((r + int m, r), p'\<lparr>pf_collateral := pf_collateral p + (r + int m)\<rparr>)"
    unfolding apply_fill_dir [OF assms(3)] using False by (simp add: br(1) p'(1) add)
  show ?thesis unfolding Let_def c_def [symmetric] r_def [symmetric] m_def [symmetric] if_not_P [OF False]
    using p' by (intro exI conjI) (rule run, simp_all)
qed

definition example_position :: PositionFold where
  "example_position = \<lparr>pf_signed_size = 10, pf_entry_price = 100, pf_entry_funding_index = 0, pf_collateral = 50, pf_leverage = 20,
     pf_take_profit = None, pf_stop_loss = Some 80\<rparr>"

theorem fill_settles_position_witness:
  "\<exists>p'. apply_fill wrapping_i256_add example_position False 110 15 2 = Some ((147, 120), p') \<and>
     pf_signed_size p' = - 5 \<and> pf_collateral p' = 197 \<and> pf_stop_loss p' = None"
proof -
  have "position_in_range example_position" "fill_in_range 110 15 2" "\<not> adds example_position False"
    by (simp_all add: position_in_range_def fill_in_range_def adds_def example_position_def)
  note c = this
  have v: "signed_fill False 15 = - 15" "closed_result example_position 10 110 2 = 120" "fill_margin example_position 110 5 = 27"
    by (simp_all add: signed_fill_def closed_result_def fill_margin_def leverage_of_def example_position_def)
  have s: "pf_signed_size example_position = 10" "pf_collateral example_position = 50" by (simp_all add: example_position_def)
  have u: "unat (15 :: u64) = 15" "nat \<bar>10\<bar> = 10" "min 15 10 = (10 :: nat)" "(15 :: nat) - 10 = 5" by simp_all
  obtain p' where "apply_fill wrapping_i256_add example_position False 110 15 2 = Some ((120 + int 27, 120), p')"
    and "pf_signed_size p' = 10 + - 15" "pf_collateral p' = 50 + (120 + int 27)" "pf_stop_loss p' = None"
    using fill_settles_position [OF wrapping_i256_ok c(1,2), of False, unfolded if_not_P [OF c(3)] Let_def s u v] by auto
  then show ?thesis by simp
qed


section \<open>Average entry\<close>

lemma weighted_between:
  fixes a q x y :: nat
  assumes "0 < q"
  shows "min x y \<le> (a * x + q * y) div (a + q)" and "(a * x + q * y) div (a + q) \<le> max x y"
proof -
  have "a * min x y + q * min x y \<le> a * x + q * y" by (intro add_mono mult_left_mono) auto
  then have "(a + q) * min x y \<le> a * x + q * y" by (simp only: add_mult_distrib)
  then show "min x y \<le> (a * x + q * y) div (a + q)" using assms
    by (metis add_is_0 div_le_mono neq0_conv nonzero_mult_div_cancel_left)
  have "a * x + q * y \<le> a * max x y + q * max x y" by (intro add_mono mult_left_mono) auto
  then have "a * x + q * y \<le> (a + q) * max x y" by (simp only: add_mult_distrib)
  then show "(a * x + q * y) div (a + q) \<le> max x y" using assms
    by (metis add_is_0 div_le_mono neq0_conv nonzero_mult_div_cancel_left)
qed

text \<open>
  The entry after adding is the quantity-weighted average of the old entry and the fill price
  rounded down: the cost basis (entry times size) is at most the sum of the two costs and short of it by
  less than one unit per contract; the entry lies between the two prices and is the fill price on a flat
  position.  The stop orders stay.
\<close>

theorem average_entry_exact:
  assumes "i256_ok A" and "position_in_range p" and "fill_in_range price qty funding" and "adds p buy"
  shows "\<exists>r p'. apply_fill A p buy price qty funding = Some (r, p') \<and>
    (let old = nat \<bar>pf_signed_size p\<bar>; new = nat \<bar>pf_signed_size p'\<bar>;
         cost = old * unat (pf_entry_price p) + unat qty * unat price; e = unat (pf_entry_price p') in
     new = old + unat qty \<and> new * e \<le> cost \<and> cost < new * e + new \<and>
     min (unat (pf_entry_price p)) (unat price) \<le> e \<and> e \<le> max (unat (pf_entry_price p)) (unat price) \<and>
     (old = 0 \<longrightarrow> e = unat price)) \<and>
    pf_take_profit p' = pf_take_profit p \<and> pf_stop_loss p' = pf_stop_loss p"
proof -
  define a where "a = nat \<bar>pf_signed_size p\<bar>"
  define q where "q = unat qty"
  have q: "0 < q" using assms(3) by (simp add: fill_in_range_def q_def)
  obtain e g where b: "add_branch p (signed_fill buy qty) price qty funding =
      Some ((int (required_margin price qty (pf_leverage p)), 0),
        p\<lparr>pf_entry_price := e, pf_entry_funding_index := g, pf_signed_size := pf_signed_size p + signed_fill buy qty\<rparr>)"
    and e: "unat e = (a * unat (pf_entry_price p) + q * unat price) div (a + q)"
    using add_branch_exact [OF assms(2-4)] unfolding a_def q_def by metis
  have run: "\<exists>r c. apply_fill A p buy price qty funding = Some (r,
      p\<lparr>pf_entry_price := e, pf_entry_funding_index := g, pf_signed_size := pf_signed_size p + signed_fill buy qty, pf_collateral := c\<rparr>)"
    unfolding apply_fill_dir [OF assms(3)] using assms(4) by (simp add: b) (rule exI, rule refl)
  have size: "nat \<bar>pf_signed_size p + signed_fill buy qty\<bar> = a + q"
    using assms(4) unfolding a_def signed_fill_def q_def [symmetric] adds_def by (cases buy) auto
  have dm: "(a + q) * unat e \<le> a * unat (pf_entry_price p) + q * unat price"
    "a * unat (pf_entry_price p) + q * unat price < (a + q) * unat e + (a + q)"
    unfolding e using dividend_less_times_div [of "a + q" "a * unat (pf_entry_price p) + q * unat price"] q by (simp_all add: add.commute)
  note bt = weighted_between [OF q, where x = "unat (pf_entry_price p)" and y = "unat price" and a = a, folded e]
  have z: "a = 0 \<Longrightarrow> unat e = unat price" using e q by simp
  obtain r c where run: "apply_fill A p buy price qty funding = Some (r,
      p\<lparr>pf_entry_price := e, pf_entry_funding_index := g, pf_signed_size := pf_signed_size p + signed_fill buy qty, pf_collateral := c\<rparr>)"
    using run by blast
  show ?thesis unfolding Let_def a_def [symmetric] q_def [symmetric]
    by (intro exI conjI, rule run) (use size dm bt z in simp_all)
qed


theorem average_entry_exact_witness:
  "\<exists>r p'. apply_fill wrapping_i256_add example_position True 115 5 2 = Some (r, p') \<and>
    nat \<bar>pf_signed_size p'\<bar> = 15 \<and> 15 * unat (pf_entry_price p') \<le> 1575 \<and> pf_stop_loss p' = Some 80"
proof -
  have c: "position_in_range example_position" "fill_in_range 115 5 2" "adds example_position True"
    by (simp_all add: position_in_range_def fill_in_range_def adds_def example_position_def)
  have s: "pf_signed_size example_position = 10" "unat (pf_entry_price example_position) = 100"
    "pf_stop_loss example_position = Some 80" by (simp_all add: example_position_def)
  have u: "unat (5 :: u64) = 5" "unat (115 :: u64) = 115" "nat \<bar>10\<bar> = 10" "10 + 5 = (15 :: nat)" "10 * 100 + 5 * 115 = (1575 :: nat)"
    by simp_all
  show ?thesis using average_entry_exact [OF wrapping_i256_ok c, unfolded Let_def s u] by (metis u(4))
qed

section \<open>A flip is a close and an opening\<close>

lemma trunc_div_mult: "0 < b \<Longrightarrow> trunc_div (a * b) b = a"
  by (simp add: trunc_div_def abs_mult abs_sgn_eq sgn_mult) (metis mult_sgn_abs)

lemma add_branch_collateral:
  "add_branch (p\<lparr>pf_collateral := c\<rparr>) s price qty funding = map_option (map_prod id (pf_collateral_update (\<lambda>_. c))) (add_branch p s price qty funding)"
  by (simp add: add_branch_def Let_def)

lemma open_branch:
  assumes "pf_signed_size p = 0" and p: "\<bar>pf_entry_funding_index p\<bar> < 2 ^ 62 \<and> unat (pf_entry_price p) < 2 ^ 40"
    and f: "fill_in_range price qty funding"
  shows "add_branch p (signed_fill buy qty) price qty funding = Some ((int (required_margin price qty (pf_leverage p)), 0),
      p\<lparr>pf_entry_price := price, pf_entry_funding_index := funding, pf_signed_size := signed_fill buy qty\<rparr>)"
proof -
  define p0 where "p0 = p\<lparr>pf_collateral := 0\<rparr>"
  define n where "n = unat qty"
  have n: "0 < n" using f by (simp add: fill_in_range_def n_def)
  have p0: "position_in_range p0" "adds p0 buy" "pf_signed_size p0 = 0" "pf_leverage p0 = pf_leverage p"
    "p = p0\<lparr>pf_collateral := pf_collateral p\<rparr>"
    using assms(1,2) by (simp_all add: p0_def position_in_range_def adds_def)
  obtain e' g' where b: "add_branch p0 (signed_fill buy qty) price qty funding = Some ((int (required_margin price qty (pf_leverage p)), 0),
      p0\<lparr>pf_entry_price := e', pf_entry_funding_index := g', pf_signed_size := 0 + signed_fill buy qty\<rparr>)"
    and e': "unat e' = (nat \<bar>0\<bar> * unat (pf_entry_price p0) + n * unat price) div (nat \<bar>0\<bar> + n)"
    and g': "g' = trunc_div (pf_entry_funding_index p0 * \<bar>0\<bar> + funding * int n) (\<bar>0\<bar> + int n)"
    using add_branch_exact [OF p0(1) f p0(2), unfolded p0(3,4)] unfolding n_def by metis
  have "unat e' = unat price" using e' n by simp
  then have e': "e' = price" by (simp only: word_unat_eq_iff)
  have "g' = trunc_div (funding * int n) (int n)" using g' by (simp add: n_def)
  then have g': "g' = funding" using n by (simp add: trunc_div_mult)
  have "add_branch p (signed_fill buy qty) price qty funding =
      map_option (map_prod id (pf_collateral_update (\<lambda>_. pf_collateral p))) (add_branch p0 (signed_fill buy qty) price qty funding)"
    by (metis add_branch_collateral p0(5))
  then show ?thesis using b e' g' by (simp add: p0_def)
qed

text \<open>
  A fill larger than the opposite position is the fill of exactly that position followed by the fill
  of the rest at the same price and funding index: the deltas and realized results add up, and the final
  position is the same except that the flip drops the stop orders.
\<close>

theorem flip_is_close_then_open:
  assumes "i256_ok A" and "position_in_range p" and "fill_in_range price qty funding" and "\<not> adds p buy"
    and "nat \<bar>pf_signed_size p\<bar> < unat qty"
  shows "\<exists>d1 r1 p1 d2 p2. let c = (of_nat (nat \<bar>pf_signed_size p\<bar>) :: u64) in
    apply_fill A p buy price c funding = Some ((d1, r1), p1) \<and> pf_signed_size p1 = 0 \<and>
    apply_fill A p1 buy price (qty - c) funding = Some ((d2, 0), p2) \<and>
    apply_fill A p buy price qty funding = Some ((d1 + d2, r1), p2\<lparr>pf_take_profit := None, pf_stop_loss := None\<rparr>)"
proof -
  define a where "a = nat \<bar>pf_signed_size p\<bar>"
  define c where "c = (of_nat a :: u64)"
  define r where "r = closed_result p a price funding"
  define m where "m = int (required_margin price (qty - c) (pf_leverage p))"
  have nz: "pf_signed_size p \<noteq> 0" and opp: "(0 < pf_signed_size p) \<noteq> buy" using assms(4) by (auto simp: adds_def)
  have aq: "a < unat qty" "0 < a" using assms(5) nz by (auto simp: a_def)
  then have ac: "unat c = a" using unat_u64_less [of qty] unfolding c_def by (intro unat_of_nat_u64) linarith
  have rest: "unat (qty - c) = unat qty - a" using aq ac by (simp add: unat_sub word_le_nat_alt)
  have f1: "fill_in_range price c funding" and f2: "fill_in_range price (qty - c) funding"
    using assms(3) aq ac rest by (auto simp: fill_in_range_def)
  have sg: "pf_signed_size p + signed_fill buy c = 0"
    using opp nz unfolding signed_fill_def ac a_def by (cases buy) auto
  have sg2: "pf_signed_size p + signed_fill buy qty = signed_fill buy (qty - c)"
  proof -
    have "int (unat (qty - c)) = int (unat qty) - int a" using aq rest by (simp only: of_nat_diff)
    moreover have "pf_signed_size p = (if buy then - int a else int a)" using opp nz by (auto simp: a_def)
    ultimately show ?thesis by (cases buy) (simp_all only: signed_fill_def if_True if_False)
  qed
  have mina: "min (unat c) (nat \<bar>pf_signed_size p\<bar>) = a" "min (unat qty) (nat \<bar>pf_signed_size p\<bar>) = a"
    "unat c \<le> nat \<bar>pf_signed_size p\<bar>" "\<not> unat qty \<le> nat \<bar>pf_signed_size p\<bar>"
    using ac aq by (simp_all flip: a_def)
  have br1: "close_branch A p buy price c funding = ((r, r), p\<lparr>pf_signed_size := 0\<rparr>) \<and> \<bar>r\<bar> < 2 ^ 127"
    by (rule close_branch_exact [OF assms(1,2) f1 assms(4), unfolded mina(1), folded r_def])
      (simp only: mina(3) if_True sg add_0_right simp_thms)
  have br: "close_branch A p buy price qty funding = ((r + m, r), p\<lparr>pf_signed_size := signed_fill buy (qty - c), pf_entry_price := price,
      pf_entry_funding_index := funding, pf_take_profit := None, pf_stop_loss := None\<rparr>)"
    by (rule close_branch_exact [OF assms(1-4), unfolded mina(2), folded r_def c_def])
      (simp only: mina(4) if_False sg2 m_def simp_thms)
  have rb: "\<bar>r\<bar> < 2 ^ 127" using br1 by blast
  have mb: "\<bar>m\<bar> < 2 ^ 128" unfolding m_def by (rule margin_bound_int)
  have A1: "A (pf_collateral p) r = pf_collateral p + r"
    using rb by (intro collateral_add [OF assms(1,2)]) simp
  have A3: "A (pf_collateral p) (r + m) = pf_collateral p + r + m"
    using rb mb by (subst collateral_add [OF assms(1,2)]) simp_all
  have A2: "A (pf_collateral p + r) m = pf_collateral p + r + m"
    using rb mb assms(2) by (intro i256_add [OF assms(1)]) (auto simp: position_in_range_def in_i256_def)
  define p1 where "p1 = p\<lparr>pf_signed_size := 0, pf_collateral := pf_collateral p + r\<rparr>"
  have run1: "apply_fill A p buy price c funding = Some ((r, r), p1)"
    unfolding apply_fill_dir [OF f1] using assms(4) br1 by (simp add: A1 p1_def)
  have b1: "add_branch p1 (signed_fill buy (qty - c)) price (qty - c) funding = Some ((m, 0),
      p1\<lparr>pf_entry_price := price, pf_entry_funding_index := funding, pf_signed_size := signed_fill buy (qty - c)\<rparr>)"
    using open_branch [of p1, OF _ _ f2] assms(2) by (simp add: p1_def m_def position_in_range_def)
  have run2: "apply_fill A p1 buy price (qty - c) funding = Some ((m, 0),
      p1\<lparr>pf_entry_price := price, pf_entry_funding_index := funding, pf_signed_size := signed_fill buy (qty - c),
        pf_collateral := pf_collateral p + r + m\<rparr>)"
    unfolding apply_fill_dir [OF f2] using b1 A2 by (simp add: adds_def p1_def)
  have run3: "apply_fill A p buy price qty funding = Some ((r + m, r), p\<lparr>pf_signed_size := signed_fill buy (qty - c), pf_entry_price := price,
      pf_entry_funding_index := funding, pf_take_profit := None, pf_stop_loss := None, pf_collateral := pf_collateral p + r + m\<rparr>)"
    unfolding apply_fill_dir [OF assms(3)] using assms(4) by (simp add: br A3)
  show ?thesis unfolding Let_def a_def [symmetric] c_def [symmetric]
    by (intro exI conjI, rule run1, simp add: p1_def, rule run2) (simp add: run3 p1_def)
qed

theorem flip_is_close_then_open_witness:
  "\<exists>d1 r1 p1 d2 p2. apply_fill wrapping_i256_add example_position False 110 10 2 = Some ((d1, r1), p1) \<and>
    apply_fill wrapping_i256_add p1 False 110 5 2 = Some ((d2, 0), p2) \<and>
    apply_fill wrapping_i256_add example_position False 110 15 2 =
      Some ((d1 + d2, r1), p2\<lparr>pf_take_profit := None, pf_stop_loss := None\<rparr>)"
proof -
  have c: "position_in_range example_position" "fill_in_range 110 15 2" "\<not> adds example_position False"
    "nat \<bar>pf_signed_size example_position\<bar> < unat (15 :: u64)"
    by (simp_all add: position_in_range_def fill_in_range_def adds_def example_position_def)
  have u: "(of_nat (nat \<bar>pf_signed_size example_position\<bar>) :: u64) = 10" "(15 - 10 :: u64) = 5" by (simp_all add: example_position_def)
  show ?thesis using flip_is_close_then_open [OF wrapping_i256_ok c, unfolded Let_def u] by metis
qed

end
