(* ===== verification/Wire.thy ===== *)
theory Wire
  imports Book Results
begin

text \<open>
  What crosses the wire of the engine: the signed payloads of \<open>cerdic-tee-matcher/src/api.rs\<close> with the
  bytes their signatures cover, the derived identifiers (owner id, portfolio key, match id), and the
  decrypt-and-authenticate step of \<open>decrypt.rs\<close>.  Base64, the box, the JSON reader, signature recovery
  and keccak are third-party code: they are parameters, and nothing is assumed of them.  A Rust
  \<open>String\<close> is its list of UTF-8 bytes, a \<open>char\<close> list.
\<close>

type_synonym Address = "160 word"
type_synonym Hash = "256 word"
type_synonym bytes = "8 word list"

section \<open>Payloads\<close>

datatype OrderSide = BuySide | SellSide

definition OrderSide_into :: "OrderSide \<Rightarrow> Side" where
  "OrderSide_into s = (case s of BuySide \<Rightarrow> Long | SellSide \<Rightarrow> Short)"

record OrderPayload =
  op_market_id :: MarketId
  op_side :: OrderSide
  op_tick :: Tick
  op_qty :: Qty
  op_tif :: TimeInForce
  op_post_only :: bool
  op_nonce :: u64
  op_leverage :: u64
  op_signature :: bytes

record PortfolioKeyRequest =
  kr_nonce :: u64
  kr_signature :: bytes

record OfferPayload =
  fp_market_id :: MarketId
  fp_side :: OrderSide
  fp_tick :: Tick
  fp_max_size :: Qty
  fp_expiry :: "Timestamp option"
  fp_group :: "u64 option"
  fp_reduce_only :: bool
  fp_nonce :: u64
  fp_signature :: bytes

record CancelPayload =
  cp_market_id :: MarketId
  cp_order_id :: OrderId
  cp_nonce :: u64
  cp_signature :: bytes

section \<open>Signing bytes\<close>

text \<open>\<open>to_string\<close> of an unsigned integer, and of a \<open>bool\<close> and an \<open>OrderSide\<close>.\<close>

fun decimal :: "nat \<Rightarrow> string" where
  "decimal n = (if n < 10 then [char_of (48 + n)] else decimal (n div 10) @ [char_of (48 + n mod 10)])"

declare decimal.simps [simp del]

definition show_u64 :: "u64 \<Rightarrow> string" where "show_u64 w = decimal (unat w)"

definition show_bool :: "bool \<Rightarrow> string" where
  "show_bool b = (if b then ''true'' else ''false'')"

definition show_side :: "OrderSide \<Rightarrow> string" where
  "show_side s = (case s of BuySide \<Rightarrow> ''Buy'' | SellSide \<Rightarrow> ''Sell'')"

definition tif_tag :: "TimeInForce \<Rightarrow> string" where
  "tif_tag t = (case t of GoodTilCancel \<Rightarrow> ''GTC'' | GoodTilTime u \<Rightarrow> ''GTT'' @ show_u64 u
     | ImmediateOrCancel \<Rightarrow> ''IOC'' | FillOrKill \<Rightarrow> ''FOK'')"

definition option_tag :: "u64 option \<Rightarrow> string" where
  "option_tag x = (case x of Some e \<Rightarrow> show_u64 e | None \<Rightarrow> ''none'')"

text \<open>\<open>format!("s|{}|{}", f, g)\<close>: each field behind a bar.\<close>

fun barred :: "string \<Rightarrow> string list \<Rightarrow> string" where
  "barred s [] = s"
| "barred s (f # fs) = barred (s @ ''|'' @ f) fs"

definition order_signing_bytes :: "OrderPayload \<Rightarrow> string" where
  "order_signing_bytes p = barred ''order'' [op_market_id p, show_side (op_side p), show_u64 (op_tick p), show_u64 (op_qty p),
     tif_tag (op_tif p), show_bool (op_post_only p), show_u64 (op_nonce p), show_u64 (op_leverage p)]"

definition portfolio_key_signing_bytes :: "PortfolioKeyRequest \<Rightarrow> string" where
  "portfolio_key_signing_bytes p = barred ''portfolio_key_request'' [show_u64 (kr_nonce p)]"

definition offer_signing_bytes :: "OfferPayload \<Rightarrow> string" where
  "offer_signing_bytes p = barred ''offer'' [fp_market_id p, show_side (fp_side p), show_u64 (fp_tick p), show_u64 (fp_max_size p),
     option_tag (fp_expiry p), option_tag (fp_group p), show_bool (fp_reduce_only p), show_u64 (fp_nonce p)]"

definition cancel_signing_bytes :: "CancelPayload \<Rightarrow> string" where
  "cancel_signing_bytes p = barred ''cancel'' [cp_market_id p, decimal (cp_order_id p), show_u64 (cp_nonce p)]"

section \<open>Derived identifiers\<close>

text \<open>\<open>to_be_bytes\<close>: the \<open>n\<close> bytes of a word, most significant first.\<close>

definition be_bytes :: "nat \<Rightarrow> 'a :: len word \<Rightarrow> bytes" where
  "be_bytes n w = map (\<lambda>i. ucast (drop_bit (8 * i) w)) (rev [0..<n])"

definition string_bytes :: "string \<Rightarrow> bytes" where
  "string_bytes s = map (\<lambda>c. of_nat (of_char c)) s"

definition from_be_bytes :: "bytes \<Rightarrow> u64" where
  "from_be_bytes bs = of_nat (foldl (\<lambda>n b. 256 * n + unat b) 0 bs)"

definition signer_owner_id :: "Address \<Rightarrow> OwnerId" where
  "signer_owner_id signer = from_be_bytes (take 8 (drop 12 (be_bytes 20 signer)))"

definition portfolio_key :: "(bytes \<Rightarrow> Hash) \<Rightarrow> bytes \<Rightarrow> Address \<Rightarrow> Hash" where
  "portfolio_key keccak256 secret address = keccak256 (secret @ be_bytes 20 address)"

definition match_preimage :: "Address \<Rightarrow> OwnerId \<Rightarrow> MarketId \<Rightarrow> Tick \<Rightarrow> nat \<Rightarrow> u64 \<Rightarrow> bytes" where
  "match_preimage taker maker_owner market_id tick fill_index taker_nonce =
     be_bytes 20 taker @ be_bytes 8 maker_owner @ string_bytes market_id @ be_bytes 8 tick @
     be_bytes 8 taker_nonce @ be_bytes 8 (of_nat fill_index :: u64)"

definition match_id_for :: "(bytes \<Rightarrow> Hash) \<Rightarrow> Address \<Rightarrow> OwnerId \<Rightarrow> MarketId \<Rightarrow> Tick \<Rightarrow> nat \<Rightarrow> u64 \<Rightarrow> Hash" where
  "match_id_for keccak256 taker maker_owner market_id tick fill_index taker_nonce =
     keccak256 (match_preimage taker maker_owner market_id tick fill_index taker_nonce)"

section \<open>Decryption and authentication\<close>

datatype DecryptError = BadEphemeralKey | BadNonce | AuthenticationFailed | BadPayload | BadSignature

record Envelope =
  en_ephemeral_pubkey_b64 :: string
  en_nonce_b64 :: string
  en_ciphertext_b64 :: string

text \<open>
  \<open>b64\<close> decodes base64, \<open>open_box\<close> opens the box of an ephemeral key under the enclave's secret key,
  \<open>parse\<close> reads the JSON payload and \<open>recover\<close> the address that signed a message.
\<close>

definition decrypt :: "(string \<Rightarrow> bytes option) \<Rightarrow> (bytes \<Rightarrow> bytes \<Rightarrow> bytes \<Rightarrow> bytes option) \<Rightarrow> (bytes \<Rightarrow> 'p option) \<Rightarrow>
    Envelope \<Rightarrow> DecryptError + 'p" where
  "decrypt b64 open_box parse envelope =
     (case b64 (en_ephemeral_pubkey_b64 envelope) of None \<Rightarrow> Inl BadEphemeralKey
      | Some ephemeral_bytes \<Rightarrow>
     if length ephemeral_bytes \<noteq> 32 then Inl BadEphemeralKey
     else case b64 (en_nonce_b64 envelope) of None \<Rightarrow> Inl BadNonce
      | Some nonce_bytes \<Rightarrow>
     if length nonce_bytes \<noteq> 24 then Inl BadNonce
     else case b64 (en_ciphertext_b64 envelope) of None \<Rightarrow> Inl AuthenticationFailed
      | Some ciphertext \<Rightarrow>
     (case open_box ephemeral_bytes nonce_bytes ciphertext of None \<Rightarrow> Inl AuthenticationFailed
      | Some plaintext \<Rightarrow>
     (case parse plaintext of None \<Rightarrow> Inl BadPayload | Some payload \<Rightarrow> Inr payload)))"

definition decrypt_and_authenticate :: "(string \<Rightarrow> bytes option) \<Rightarrow> (bytes \<Rightarrow> bytes \<Rightarrow> bytes \<Rightarrow> bytes option) \<Rightarrow> (bytes \<Rightarrow> 'p option) \<Rightarrow>
    ('p \<Rightarrow> string) \<Rightarrow> ('p \<Rightarrow> bytes) \<Rightarrow> (bytes \<Rightarrow> bytes \<Rightarrow> Address option) \<Rightarrow> Envelope \<Rightarrow> DecryptError + 'p \<times> Address" where
  "decrypt_and_authenticate b64 open_box parse signing_bytes signature recover envelope =
     (case decrypt b64 open_box parse envelope of Inl e \<Rightarrow> Inl e
      | Inr payload \<Rightarrow>
     (case recover (signature payload) (string_bytes (signing_bytes payload)) of None \<Rightarrow> Inl BadSignature
      | Some signer \<Rightarrow> Inr (payload, signer)))"

section \<open>The signing bytes determine the payload\<close>

definition plain :: "string \<Rightarrow> bool" where
  "plain s \<longleftrightarrow> CHR ''|'' \<notin> set s"

lemma first_bar:
  assumes "CHR ''|'' \<notin> set x" and "CHR ''|'' \<notin> set y"
  shows "x @ CHR ''|'' # a = y @ CHR ''|'' # b \<longleftrightarrow> x = y \<and> a = b"
proof
  assume e: "x @ CHR ''|'' # a = y @ CHR ''|'' # b"
  have "takeWhile (\<lambda>c. c \<noteq> CHR ''|'') (z @ CHR ''|'' # c) = z" if "CHR ''|'' \<notin> set z" for z c
    using that by (subst takeWhile_append2) auto
  then have "x = y" using e assms by metis
  with e show "x = y \<and> a = b" by simp
qed simp

lemma last_bar: "plain x \<Longrightarrow> plain y \<Longrightarrow> a @ ''|'' @ x = b @ ''|'' @ y \<longleftrightarrow> a = b \<and> x = y"
  using first_bar [of "rev x" "rev y" "rev a" "rev b"] rev_is_rev_conv [of "a @ ''|'' @ x" "b @ ''|'' @ y"]
  by (auto simp: plain_def)

lemma barred_eq:
  assumes "length fs = length gs" and "list_all plain fs" and "list_all plain gs"
  shows "barred s fs = barred t gs \<longleftrightarrow> s = t \<and> fs = gs"
  using assms by (induction fs gs arbitrary: s t rule: list_induct2) (auto simp: last_bar simp del: append_Cons append_Nil)

lemma barred_prefix: "\<exists>r. barred s fs = s @ r"
proof (induction fs arbitrary: s)
  case (Cons f fs)
  show ?case using Cons.IH [of "s @ ''|'' @ f"] by auto
qed simp

lemma decimal_digits: "c \<in> set (decimal n) \<Longrightarrow> of_char c < (58 :: nat)"
proof (induction n rule: decimal.induct)
  case (1 n)
  have digit: "of_char (char_of (48 + d)) = 48 + d" if "d < 10" for d :: nat using that by simp
  show ?case
  proof (cases "n < 10")
    case True
    with 1 digit [of n] show ?thesis by (simp add: decimal.simps [of n])
  next
    case False
    with 1 digit [of "n mod 10"] show ?thesis by (auto simp: decimal.simps [of n])
  qed
qed

lemma decimal_plain: "plain (decimal n)"
  using decimal_digits [of "CHR ''|''" n] by (auto simp: plain_def)

definition decimal_value :: "string \<Rightarrow> nat" where
  "decimal_value s = foldl (\<lambda>n c. 10 * n + (of_char c - 48)) 0 s"

lemma decimal_inverse: "decimal_value (decimal n) = n"
proof (induction n rule: decimal.induct)
  case (1 n)
  show ?case
  proof (cases "n < 10")
    case True
    then show ?thesis by (subst decimal.simps) (simp add: decimal_value_def)
  next
    case False
    then have "decimal_value (decimal n) = 10 * decimal_value (decimal (n div 10)) + n mod 10"
      by (subst decimal.simps) (simp add: decimal_value_def)
    with False 1 show ?thesis by simp
  qed
qed

lemma decimal_eq_iff [simp]: "decimal m = decimal n \<longleftrightarrow> m = n"
  by (metis decimal_inverse)

lemma decimal_not_none: "decimal n \<noteq> ''none''"
  using decimal_digits [of "CHR ''n''" n] by auto

lemma show_plain:
  "plain (show_u64 w)" "plain (show_bool b)" "plain (show_side s)" "plain (tif_tag t)" "plain (option_tag x)" "plain (decimal n)"
  by (auto simp: show_u64_def show_bool_def show_side_def tif_tag_def option_tag_def decimal_plain
      split: OrderSide.splits TimeInForce.splits option.splits)
    (auto simp: plain_def decimal_plain [unfolded plain_def])

lemma show_u64_eq: "show_u64 v = show_u64 w \<longleftrightarrow> v = w"
  by (auto simp: show_u64_def intro: unsigned_word_eqI)

lemma show_bool_eq: "show_bool b = show_bool c \<longleftrightarrow> b = c"
  by (simp add: show_bool_def)

lemma show_side_eq: "show_side s = show_side t \<longleftrightarrow> s = t"
  by (simp add: show_side_def split: OrderSide.splits)

lemma tif_tag_eq: "tif_tag s = tif_tag t \<longleftrightarrow> s = t"
  by (simp add: tif_tag_def show_u64_eq split: TimeInForce.splits)

lemma option_tag_eq: "option_tag x = option_tag y \<longleftrightarrow> x = y"
proof -
  have "show_u64 w \<noteq> ''none''" for w by (simp add: show_u64_def decimal_not_none)
  then show ?thesis by (auto simp: option_tag_def show_u64_eq split: option.splits dest: sym)
qed

lemmas show_eqs = show_u64_eq show_bool_eq show_side_eq tif_tag_eq option_tag_eq decimal_eq_iff

text \<open>The market id is not \<open>plain\<close>: it is split off as part of the head.\<close>

lemma barred_market_eq:
  assumes "length fs = length gs" and "list_all plain fs" and "list_all plain gs"
  shows "barred s (m # fs) = barred s (n # gs) \<longleftrightarrow> m = n \<and> fs = gs"
  using barred_eq [OF assms, of "s @ ''|'' @ m" "s @ ''|'' @ n"] by simp

lemma barred_head_neq: "take 2 s \<noteq> take 2 t \<Longrightarrow> 2 \<le> length s \<Longrightarrow> 2 \<le> length t \<Longrightarrow> barred s fs \<noteq> barred t gs"
  by (metis barred_prefix take_append diff_is_0_eq take0 append_Nil2)

lemma order_signing_eq:
  "order_signing_bytes p = order_signing_bytes q \<longleftrightarrow> p\<lparr>op_signature := []\<rparr> = q\<lparr>op_signature := []\<rparr>"
  by (cases p; cases q) (simp add: order_signing_bytes_def barred_market_eq show_plain show_eqs del: barred.simps)

lemma offer_signing_eq:
  "offer_signing_bytes p = offer_signing_bytes q \<longleftrightarrow> p\<lparr>fp_signature := []\<rparr> = q\<lparr>fp_signature := []\<rparr>"
  by (cases p; cases q) (simp add: offer_signing_bytes_def barred_market_eq show_plain show_eqs del: barred.simps)

lemma cancel_signing_eq:
  "cancel_signing_bytes p = cancel_signing_bytes q \<longleftrightarrow> p\<lparr>cp_signature := []\<rparr> = q\<lparr>cp_signature := []\<rparr>"
  by (cases p; cases q) (simp add: cancel_signing_bytes_def barred_market_eq show_plain show_eqs del: barred.simps)

lemma key_signing_eq:
  "portfolio_key_signing_bytes p = portfolio_key_signing_bytes q \<longleftrightarrow> p\<lparr>kr_signature := []\<rparr> = q\<lparr>kr_signature := []\<rparr>"
  by (cases p; cases q) (simp add: portfolio_key_signing_bytes_def show_eqs)

lemmas signing_defs = order_signing_bytes_def offer_signing_bytes_def cancel_signing_bytes_def portfolio_key_signing_bytes_def

text \<open>
  C36: The bytes a signature covers determine the whole payload, whatever characters the market id holds,
  and the four kinds of payload never share their bytes: a signature made for one request
  authenticates no other request.
\<close>

theorem signing_bytes_bind_payload:
  "(order_signing_bytes p = order_signing_bytes p' \<longleftrightarrow> p\<lparr>op_signature := []\<rparr> = p'\<lparr>op_signature := []\<rparr>) \<and>
   (offer_signing_bytes f = offer_signing_bytes f' \<longleftrightarrow> f\<lparr>fp_signature := []\<rparr> = f'\<lparr>fp_signature := []\<rparr>) \<and>
   (cancel_signing_bytes c = cancel_signing_bytes c' \<longleftrightarrow> c\<lparr>cp_signature := []\<rparr> = c'\<lparr>cp_signature := []\<rparr>) \<and>
   (portfolio_key_signing_bytes k = portfolio_key_signing_bytes k' \<longleftrightarrow> k\<lparr>kr_signature := []\<rparr> = k'\<lparr>kr_signature := []\<rparr>) \<and>
   distinct [order_signing_bytes p, offer_signing_bytes f, cancel_signing_bytes c, portfolio_key_signing_bytes k]"
proof (intro conjI)
  show "distinct [order_signing_bytes p, offer_signing_bytes f, cancel_signing_bytes c, portfolio_key_signing_bytes k]"
    unfolding signing_defs by (simp add: barred_head_neq del: barred.simps)
qed (rule order_signing_eq offer_signing_eq cancel_signing_eq key_signing_eq)+

section \<open>Identifiers\<close>

lemma length_be_bytes [simp]: "length (be_bytes n w) = n"
  by (simp add: be_bytes_def)

lemma be_bytes_inject:
  fixes v w :: "'a :: len word"
  assumes "be_bytes n v = be_bytes n w" and "LENGTH('a) \<le> 8 * n"
  shows "v = w"
proof (rule bit_word_eqI)
  fix i assume "i < LENGTH('a)"
  then have "i div 8 < n" using assms(2) by (simp add: div_less_iff_less_mult)
  then have "i div 8 \<in> set (rev [0..<n])" by simp
  then have "(ucast (drop_bit (8 * (i div 8)) v) :: 8 word) = ucast (drop_bit (8 * (i div 8)) w)"
    using assms(1) by (simp add: be_bytes_def)
  then have "bit (ucast (drop_bit (8 * (i div 8)) v) :: 8 word) (i mod 8) = bit (ucast (drop_bit (8 * (i div 8)) w) :: 8 word) (i mod 8)"
    by simp
  then show "bit v i = bit w i" by (simp add: bit_ucast_iff bit_drop_bit_eq)
qed

lemma string_bytes_inject: "string_bytes s = string_bytes t \<longleftrightarrow> s = t"
proof -
  have "inj (\<lambda>c. of_nat (of_char c) :: 8 word)"
  proof (rule injI)
    fix c d :: char
    assume "(of_nat (of_char c) :: 8 word) = of_nat (of_char d)"
    moreover have "unat (of_nat (of_char e) :: 8 word) = of_char e" for e :: char
      by (simp add: unat_of_nat of_char_mod_256)
    ultimately show "c = d" by (metis char_of_char)
  qed
  then show ?thesis unfolding string_bytes_def by (rule inj_map_eq_map)
qed

text \<open>
  Two fills that differ in taker, maker, market, price, nonce or position in the sweep hash different
  byte strings, so the match ids the settlement contract sees can only coincide by a collision of the hash.
\<close>

theorem match_preimage_injective:
  assumes "i < 2 ^ 64" and "j < 2 ^ 64"
  shows "match_preimage taker maker market tick i nonce = match_preimage taker' maker' market' tick' j nonce' \<longleftrightarrow>
    taker = taker' \<and> maker = maker' \<and> market = market' \<and> tick = tick' \<and> i = j \<and> nonce = nonce'"
proof
  assume e: "match_preimage taker maker market tick i nonce = match_preimage taker' maker' market' tick' j nonce'"
  have s: "(x @ y = x' @ y') = (x = x' \<and> y = y')" if "length y = length y'" for x y x' y' :: bytes
    using that by simp
  have h: "be_bytes 20 taker = be_bytes 20 taker'" "be_bytes 8 maker = be_bytes 8 maker'" "string_bytes market = string_bytes market'"
    "be_bytes 8 tick = be_bytes 8 tick'" "be_bytes 8 nonce = be_bytes 8 nonce'" "be_bytes 8 (of_nat i :: u64) = be_bytes 8 (of_nat j :: u64)"
    using e by (simp_all add: match_preimage_def s)
  have "(of_nat i :: u64) = of_nat j" using h(6) by (rule be_bytes_inject) simp
  then have "i = j" by (metis assms unat_of_nat_u64)
  with h show "taker = taker' \<and> maker = maker' \<and> market = market' \<and> tick = tick' \<and> i = j \<and> nonce = nonce'"
    by (simp add: string_bytes_inject be_bytes_inject [OF h(1)] be_bytes_inject [OF h(2)] be_bytes_inject [OF h(4)] be_bytes_inject [OF h(5)])
qed simp

theorem match_preimage_injective_witness:
  "match_preimage 1 2 ''A'' 3 0 4 \<noteq> match_preimage 1 2 ''A'' 3 1 4"
  by (subst match_preimage_injective) simp_all

lemma horner_bytes:
  "foldl (\<lambda>n d. 256 * n + d) a (map (\<lambda>i. x div 256 ^ i mod 256) (rev [0..<n])) = a * 256 ^ n + x mod 256 ^ n"
  for a x :: nat
proof (induction n arbitrary: a)
  case (Suc n)
  have "x mod 256 ^ Suc n = 256 ^ n * (x div 256 ^ n mod 256) + x mod 256 ^ n" using mod_mult2_eq [of x "256 ^ n" 256] by (simp add: mult.commute)
  moreover have "foldl (\<lambda>n d. 256 * n + d) a (map (\<lambda>i. x div 256 ^ i mod 256) (rev [0..<Suc n])) =
      (256 * a + x div 256 ^ n mod 256) * 256 ^ n + x mod 256 ^ n" using Suc.IH by simp
  ultimately show ?case by (simp only:) (simp add: algebra_simps)
qed simp

lemma signer_owner_id_low_bits: "signer_owner_id signer = ucast signer"
proof -
  have "take 8 (drop 12 (be_bytes 20 signer)) = map (\<lambda>i. ucast (drop_bit (8 * i) signer)) (rev [0..<8])"
    unfolding be_bytes_def by (simp add: upt_rec take_map drop_map)
  moreover have "unat signer < 2 ^ LENGTH(160)" by (rule unsigned_less)
  then have "unat (ucast (drop_bit (8 * i) signer) :: 8 word) = unat signer div 256 ^ i mod 256" for i
    unfolding unsigned_ucast_eq unsigned_drop_bit_eq by (simp add: take_bit_eq_mod drop_bit_eq_div power_mult)
  ultimately have "signer_owner_id signer = of_nat (unat signer mod 256 ^ 8)"
    using horner_bytes [of 0 "unat signer" 8] by (simp add: signer_owner_id_def from_be_bytes_def foldl_map)
  then have "unat (signer_owner_id signer) = unat (ucast signer :: u64)"
    by (simp add: unsigned_ucast_eq take_bit_eq_mod unat_of_nat)
  then show ?thesis by (rule unsigned_word_eqI)
qed

end
