(* ===== verification/Engine_State.thy ===== *)
theory Engine_State
  imports Wire Position Backstop Market_Data "HOL-Library.AList"
begin

text \<open>
  The state of the engine (\<open>AppState\<close> of \<open>cerdic-tee-matcher/src/api.rs\<close>) and the operations that only
  keep its books: configuration, on-chain market ids, the queue of realized results, and the part that is
  persisted.  A hash map is a map, or an association list where the code iterates over it (one of the
  orders the hash map could yield); a hash set the code iterates is a list without duplicates.  A mutex is
  the value it guards: every operation of the model is one critical section or one request.

  \<open>Host\<close> gathers what the engine calls outside the repository: keccak, the sealing of position
  parameters (AES-GCM over JSON), the reads of the settlement and account contracts, the price service
  with its float conversion, and 256-bit arithmetic.  The funding index is a float accumulated from the
  clock; the state holds its rounded reading, which is what every operation here uses.
\<close>

record SealedParams =
  sl_side_is_buy :: bool
  sl_entry_price :: u64
  sl_size :: u64
  sl_leverage :: u64
  sl_take_profit :: "u64 option"
  sl_stop_loss :: "u64 option"
  sl_entry_funding_index :: int

record SealedPosition =
  sp_sealed_params :: bytes
  sp_collateral :: int

record Host =
  h_keccak256 :: "bytes \<Rightarrow> Hash"
  h_seal :: "SealedParams \<Rightarrow> bytes"
  h_unseal :: "bytes \<Rightarrow> SealedParams option"
  h_load_sealed :: "Hash \<Rightarrow> Hash \<Rightarrow> Address option \<Rightarrow> SealedPosition option"
  h_load_deposited :: "Address \<Rightarrow> Address \<Rightarrow> Address \<Rightarrow> nat option"
  h_fetch_prices :: "string list \<Rightarrow> (string \<times> int \<times> int) list option"
  h_price_to_tick :: "int \<Rightarrow> int \<Rightarrow> u64 \<Rightarrow> u64"
  h_i256_add :: "int \<Rightarrow> int \<Rightarrow> int"
  h_u256 :: u256_ops

type_synonym PositionKey = "Hash \<times> MarketId"

record AppState =
  st_books :: "MarketId \<rightharpoonup> OrderBook"
  st_market_data :: "MarketId \<rightharpoonup> TradeTape"
  st_last_nonce :: "Address \<rightharpoonup> u64"
  st_owner_addresses :: "OwnerId \<rightharpoonup> Address"
  st_portfolio_markets :: "Hash \<rightharpoonup> MarketId list"
  st_portfolio_key_secret :: bytes
  st_backstop :: "MarketId \<rightharpoonup> BackstopState"
  st_backstop_config :: BackstopConfig
  st_oracle_feed_mapping :: "(MarketId \<times> string) list"
  st_settlement_contracts :: "(MarketId \<times> Address) list"
  st_collateral_check :: "(Address \<times> Address) option"
  st_pending_realized_pnl :: "((Address \<times> Address) \<times> int) list"
  st_risk_monitor_contract :: "Address option"
  st_market_id_overrides :: "MarketId \<rightharpoonup> Hash"
  st_trader_volume :: "Address \<rightharpoonup> nat"
  st_debug_seed_enabled :: bool
  st_funding_index :: "MarketId \<rightharpoonup> int"
  st_oi_index :: "MarketId \<rightharpoonup> Hash list \<times> u64"
  st_position_cache :: "PositionKey \<rightharpoonup> PortfolioMarketState"
  st_settlement_tx_hashes :: "Address \<times> u64 \<rightharpoonup> Hash option"

section \<open>Construction and configuration\<close>

definition AppState_new :: "bytes \<Rightarrow> AppState" where
  "AppState_new portfolio_key_secret =
     \<lparr>st_books = Map.empty, st_market_data = Map.empty, st_last_nonce = Map.empty,
      st_owner_addresses = [BACKSTOP_OWNER_ID \<mapsto> 0], st_portfolio_markets = Map.empty,
      st_portfolio_key_secret = portfolio_key_secret, st_backstop = Map.empty,
      st_backstop_config = BackstopConfig_default, st_oracle_feed_mapping = [], st_settlement_contracts = [],
      st_collateral_check = None, st_pending_realized_pnl = [], st_risk_monitor_contract = None,
      st_market_id_overrides = Map.empty, st_trader_volume = Map.empty, st_debug_seed_enabled = False,
      st_funding_index = Map.empty, st_oi_index = Map.empty, st_position_cache = Map.empty,
      st_settlement_tx_hashes = Map.empty\<rparr>"

text \<open>The secrets that survive a restart; only the portfolio key secret is read by the operations below.\<close>

record EnclaveSecrets =
  es_sealed_key :: bytes
  es_settlement_signer_seed :: bytes
  es_portfolio_key_secret :: bytes

definition AppState_from_secrets :: "EnclaveSecrets \<Rightarrow> AppState" where
  "AppState_from_secrets secrets =
     \<lparr>st_books = Map.empty, st_market_data = Map.empty, st_last_nonce = Map.empty,
      st_owner_addresses = [BACKSTOP_OWNER_ID \<mapsto> 0], st_portfolio_markets = Map.empty,
      st_portfolio_key_secret = es_portfolio_key_secret secrets, st_backstop = Map.empty,
      st_backstop_config = BackstopConfig_default, st_oracle_feed_mapping = [], st_settlement_contracts = [],
      st_collateral_check = None, st_pending_realized_pnl = [], st_risk_monitor_contract = None,
      st_market_id_overrides = Map.empty, st_trader_volume = Map.empty, st_debug_seed_enabled = False,
      st_funding_index = Map.empty, st_oi_index = Map.empty, st_position_cache = Map.empty,
      st_settlement_tx_hashes = Map.empty\<rparr>"

definition configure_oracle_feed :: "AppState \<Rightarrow> MarketId \<Rightarrow> string \<Rightarrow> AppState" where
  "configure_oracle_feed st market_id feed_id =
     st\<lparr>st_oracle_feed_mapping := AList.update market_id feed_id (st_oracle_feed_mapping st)\<rparr>"

definition configure_settlement_contract :: "AppState \<Rightarrow> MarketId \<Rightarrow> Address \<Rightarrow> AppState" where
  "configure_settlement_contract st market_id contract =
     st\<lparr>st_settlement_contracts := AList.update market_id contract (st_settlement_contracts st)\<rparr>"

definition configure_collateral_check :: "AppState \<Rightarrow> Address \<Rightarrow> Address \<Rightarrow> AppState" where
  "configure_collateral_check st account asset = st\<lparr>st_collateral_check := Some (account, asset)\<rparr>"

definition account_contract :: "AppState \<Rightarrow> Address option" where
  "account_contract st = map_option fst (st_collateral_check st)"

definition configure_risk_monitor :: "AppState \<Rightarrow> Address \<Rightarrow> AppState" where
  "configure_risk_monitor st contract = st\<lparr>st_risk_monitor_contract := Some contract\<rparr>"

definition configure_market_id_override :: "AppState \<Rightarrow> MarketId \<Rightarrow> Hash \<Rightarrow> AppState" where
  "configure_market_id_override st market_id onchain_id =
     st\<lparr>st_market_id_overrides := (st_market_id_overrides st)(market_id \<mapsto> onchain_id)\<rparr>"

definition configure_backstop_notional_cap :: "AppState \<Rightarrow> u64 \<Rightarrow> AppState" where
  "configure_backstop_notional_cap st cap =
     st\<lparr>st_backstop_config := (st_backstop_config st)\<lparr>bc_notional_cap := cap\<rparr>\<rparr>"

definition configure_debug_seed :: "AppState \<Rightarrow> bool \<Rightarrow> AppState" where
  "configure_debug_seed st enabled = st\<lparr>st_debug_seed_enabled := enabled\<rparr>"

definition onchain_market_id :: "Host \<Rightarrow> AppState \<Rightarrow> MarketId \<Rightarrow> Hash" where
  "onchain_market_id H st market_id =
     (case st_market_id_overrides st market_id of Some h \<Rightarrow> h | None \<Rightarrow> h_keccak256 H (string_bytes market_id))"

definition funding_index_for :: "AppState \<Rightarrow> MarketId \<Rightarrow> int" where
  "funding_index_for st market_id = (case st_funding_index st market_id of Some i \<Rightarrow> i | None \<Rightarrow> 0)"

definition settlement_contract :: "AppState \<Rightarrow> MarketId \<Rightarrow> Address option" where
  "settlement_contract st market_id = map_of (st_settlement_contracts st) market_id"

definition trader_portfolio_key :: "Host \<Rightarrow> AppState \<Rightarrow> Address \<Rightarrow> Hash" where
  "trader_portfolio_key H st address = portfolio_key (h_keccak256 H) (st_portfolio_key_secret st) address"

section \<open>Realized results\<close>

definition queue_realized_pnl :: "Host \<Rightarrow> AppState \<Rightarrow> Address \<Rightarrow> int \<Rightarrow> AppState" where
  "queue_realized_pnl H st trader delta =
     (if delta = 0 \<or> trader = 0 then st
      else case st_collateral_check st of None \<Rightarrow> st
       | Some (_, asset) \<Rightarrow>
           let pending = st_pending_realized_pnl st;
               old = (case map_of pending (trader, asset) of Some d \<Rightarrow> d | None \<Rightarrow> 0) in
           st\<lparr>st_pending_realized_pnl := AList.update (trader, asset) (h_i256_add H old delta) pending\<rparr>)"

definition drain_realized_pnl :: "AppState \<Rightarrow> (Address \<times> Address \<times> int) list \<times> AppState" where
  "drain_realized_pnl st =
     (map (\<lambda>((trader, asset), delta). (trader, asset, delta)) (st_pending_realized_pnl st),
      st\<lparr>st_pending_realized_pnl := []\<rparr>)"

section \<open>Persistence\<close>

record PersistedState =
  pe_market_data :: "MarketId \<rightharpoonup> TradeTape"
  pe_last_nonce :: "Address \<rightharpoonup> u64"
  pe_portfolio_markets :: "Hash \<rightharpoonup> MarketId list"
  pe_trader_volume :: "Address \<rightharpoonup> nat"
  pe_oi_index :: "MarketId \<rightharpoonup> Hash list \<times> u64"

definition apply_persisted_state :: "AppState \<Rightarrow> PersistedState \<Rightarrow> AppState" where
  "apply_persisted_state st persisted =
     st\<lparr>st_market_data := pe_market_data persisted, st_last_nonce := pe_last_nonce persisted,
        st_portfolio_markets := pe_portfolio_markets persisted, st_trader_volume := pe_trader_volume persisted,
        st_oi_index := pe_oi_index persisted\<rparr>"

definition snapshot_for_persistence :: "AppState \<Rightarrow> PersistedState" where
  "snapshot_for_persistence st =
     \<lparr>pe_market_data = st_market_data st, pe_last_nonce = st_last_nonce st,
      pe_portfolio_markets = st_portfolio_markets st, pe_trader_volume = st_trader_volume st,
      pe_oi_index = st_oi_index st\<rparr>"

section \<open>A host for the examples\<close>

text \<open>No chain behind it: positions and deposits cannot be read and no prices arrive.\<close>

definition offline_host :: Host where
  "offline_host = \<lparr>h_keccak256 = foldl (\<lambda>h b. 257 * h + ucast b + 1) 0, h_seal = (\<lambda>p. be_bytes 8 (sl_size p)),
     h_unseal = (\<lambda>_. None), h_load_sealed = (\<lambda>_ _ _. None), h_load_deposited = (\<lambda>_ _ _. None),
     h_fetch_prices = (\<lambda>_. None), h_price_to_tick = (\<lambda>_ _ _. 0), h_i256_add = wrapping_i256_add, h_u256 = exact_u256\<rparr>"

end
