(* ===== verification/Position_Store.thy ===== *)
theory Position_Store
  imports Engine_State
begin

text \<open>
  Where positions live (\<open>cerdic-tee-matcher/src/api.rs\<close>): the write-through cache in front of the sealed
  on-chain state, the folding of a fill under the lock of its position, the parameters sealed after a
  sweep, eviction after a failed settlement, and the live prices of the oracle.
\<close>

section \<open>Reading\<close>

definition load_single_market_state :: "Host \<Rightarrow> AppState \<Rightarrow> Hash \<Rightarrow> MarketId \<Rightarrow> PortfolioMarketState option" where
  "load_single_market_state H st key market_id =
     (case h_load_sealed H key (onchain_market_id H st market_id) (settlement_contract st market_id) of None \<Rightarrow> None
      | Some sealed \<Rightarrow>
          if sp_sealed_params sealed = [] then None
          else (case h_unseal H (sp_sealed_params sealed) of None \<Rightarrow> None
            | Some params \<Rightarrow> Some
                \<lparr>pm_market_id = market_id,
                 pm_signed_size = (if sl_side_is_buy params then int (unat (sl_size params)) else - int (unat (sl_size params))),
                 pm_entry_price = sl_entry_price params, pm_collateral = sp_collateral sealed,
                 pm_leverage = sl_leverage params, pm_take_profit = sl_take_profit params,
                 pm_stop_loss = sl_stop_loss params, pm_entry_funding_index = sl_entry_funding_index params\<rparr>))"

definition load_single_market_state_cached :: "Host \<Rightarrow> AppState \<Rightarrow> Hash \<Rightarrow> MarketId \<Rightarrow> PortfolioMarketState option" where
  "load_single_market_state_cached H st key market_id =
     (case st_position_cache st (key, market_id) of Some m \<Rightarrow> Some m
      | None \<Rightarrow> load_single_market_state H st key market_id)"

definition known_markets :: "AppState \<Rightarrow> Hash \<Rightarrow> MarketId list" where
  "known_markets st key = (case st_portfolio_markets st key of Some ms \<Rightarrow> ms | None \<Rightarrow> [])"

definition add_known_markets :: "AppState \<Rightarrow> Hash \<Rightarrow> MarketId list \<Rightarrow> AppState" where
  "add_known_markets st key hints =
     st\<lparr>st_portfolio_markets := (st_portfolio_markets st)(key \<mapsto> fold List.insert hints (known_markets st key))\<rparr>"

definition load_portfolio_state :: "Host \<Rightarrow> AppState \<Rightarrow> Hash \<Rightarrow> MarketId list \<Rightarrow> PortfolioMarketState list \<times> AppState" where
  "load_portfolio_state H st key market_hints =
     (let st' = add_known_markets st key market_hints in
      (List.map_filter (load_single_market_state_cached H st' key) (known_markets st' key), st'))"

section \<open>Folding a fill\<close>

definition position_of_fold :: "MarketId \<Rightarrow> PositionFold \<Rightarrow> PortfolioMarketState" where
  "position_of_fold market_id f =
     \<lparr>pm_market_id = market_id, pm_signed_size = pf_signed_size f, pm_entry_price = pf_entry_price f,
      pm_collateral = pf_collateral f, pm_leverage = pf_leverage f, pm_take_profit = pf_take_profit f,
      pm_stop_loss = pf_stop_loss f, pm_entry_funding_index = pf_entry_funding_index f\<rparr>"

definition cache_put :: "AppState \<Rightarrow> PositionKey \<Rightarrow> PortfolioMarketState option \<Rightarrow> AppState" where
  "cache_put st key x = st\<lparr>st_position_cache := (st_position_cache st)(key := x)\<rparr>"

definition load_and_fold :: "Host \<Rightarrow> AppState \<Rightarrow> Hash \<Rightarrow> MarketId \<Rightarrow> bool \<Rightarrow> u64 \<Rightarrow> u64 \<Rightarrow> int \<Rightarrow> u64 \<Rightarrow> int \<Rightarrow>
    ((int \<times> int) \<times> AppState) option" where
  "load_and_fold H st key market_id fill_is_buy price qty current_funding_index default_leverage extra_delta =
     (let existing = load_single_market_state_cached H st key market_id in
      do {
        ((fill_delta, realized_delta), f) \<leftarrow>
          apply_fill (h_i256_add H) (from_existing existing default_leverage) fill_is_buy price qty current_funding_index;
        let delta = h_i256_add H fill_delta extra_delta;
            f' = f\<lparr>pf_collateral := h_i256_add H (pf_collateral f) extra_delta\<rparr> in
        Some ((delta, realized_delta),
          cache_put st (key, market_id) (if pf_signed_size f' = 0 then None else Some (position_of_fold market_id f')))
      })"

definition invalidate_position :: "AppState \<Rightarrow> Hash \<Rightarrow> MarketId \<Rightarrow> AppState" where
  "invalidate_position st key market_id = cache_put st (key, market_id) None"

definition cached_sealed_params :: "AppState \<Rightarrow> Hash \<Rightarrow> MarketId \<Rightarrow> SealedParams option" where
  "cached_sealed_params st key market_id =
     map_option (\<lambda>m. \<lparr>sl_side_is_buy = 0 < pm_signed_size m, sl_entry_price = pm_entry_price m,
         sl_size = of_nat (nat \<bar>pm_signed_size m\<bar>), sl_leverage = pm_leverage m, sl_take_profit = pm_take_profit m,
         sl_stop_loss = pm_stop_loss m, sl_entry_funding_index = pm_entry_funding_index m\<rparr>)
       (st_position_cache st (key, market_id))"

text \<open>The blob submitted for a position: its sealed parameters, or no bytes when it is flat.\<close>

definition sealed_position_bytes :: "Host \<Rightarrow> AppState \<Rightarrow> Hash \<Rightarrow> MarketId \<Rightarrow> bytes" where
  "sealed_position_bytes H st key market_id =
     (case cached_sealed_params st key market_id of Some params \<Rightarrow> h_seal H params | None \<Rightarrow> [])"

section \<open>Oracle prices\<close>

definition live_mark_prices :: "Host \<Rightarrow> AppState \<Rightarrow> MarketId list \<Rightarrow> (MarketId \<times> nat) list" where
  "live_mark_prices H st market_ids =
     (let feed_to_market = fold (\<lambda>market_id m. case map_of (st_oracle_feed_mapping st) market_id of
            Some feed_id \<Rightarrow> AList.update feed_id market_id m | None \<Rightarrow> m) market_ids [] in
      if feed_to_market = [] then []
      else case h_fetch_prices H (map fst feed_to_market) of None \<Rightarrow> []
       | Some prices \<Rightarrow> fold (\<lambda>(feed_id, price, expo) m. case map_of feed_to_market feed_id of None \<Rightarrow> m
           | Some market_id \<Rightarrow>
               AList.update market_id (unat (h_price_to_tick H price expo (price_scale_for_market market_id))) m) prices [])"

definition backstop_of :: "AppState \<Rightarrow> MarketId \<Rightarrow> BackstopState" where
  "backstop_of st market_id = (case st_backstop st market_id of Some s \<Rightarrow> s | None \<Rightarrow> BackstopState_default)"

definition backstop_put :: "AppState \<Rightarrow> MarketId \<Rightarrow> BackstopState \<Rightarrow> AppState" where
  "backstop_put st market_id s = st\<lparr>st_backstop := (st_backstop st)(market_id \<mapsto> s)\<rparr>"

definition poll_oracle_prices :: "Host \<Rightarrow> AppState \<Rightarrow> AppState" where
  "poll_oracle_prices H st =
     (if st_oracle_feed_mapping st = [] then st
      else fold (\<lambda>(market_id, price) st. backstop_put st market_id (record_price (backstop_of st market_id) (of_nat price)))
        (live_mark_prices H st (map fst (st_oracle_feed_mapping st))) st)"

section \<open>The cache as an interface\<close>

text \<open>
  Settlement and liquidation rely on one law of the cache: an entry reads back what was last put there, and
  nothing else changes.  Eviction puts nothing.
\<close>

locale position_cache =
  fixes get :: "'s \<Rightarrow> 'k \<Rightarrow> 'v option"
    and put :: "'s \<Rightarrow> 'k \<Rightarrow> 'v option \<Rightarrow> 's"
  assumes get_put: "get (put s k x) j = (if j = k then x else get s j)"
begin

lemma get_put_all:
  "get (foldl (\<lambda>s x. put s (key x) (val x)) s xs) j =
     (case find (\<lambda>x. key x = j) (rev xs) of Some x \<Rightarrow> val x | None \<Rightarrow> get s j)"
  by (induction xs rule: rev_induct) (auto simp: get_put)

lemma get_evict_all:
  "get (foldl (\<lambda>s x. put s (key x) None) s xs) j = (if j \<in> key ` set xs then None else get s j)"
  by (induction xs rule: rev_induct) (auto simp: get_put)

end

interpretation cache: position_cache st_position_cache cache_put
  by unfold_locales (simp add: cache_put_def)

end
