(* ===== verification/Collateral_Gate.thy ===== *)
theory Collateral_Gate
  imports Position_Store
begin

text \<open>
  Admission of a request (\<open>cerdic-tee-matcher/src/api.rs\<close>): the errors of the API with their status
  codes, the nonce that protects against replay, and the pre-trade check of the deposited collateral.
\<close>

datatype ApiError =
    Decrypt DecryptError
  | NonceReplay u64 u64
  | InvalidTick Tick
  | InsufficientCollateral string string
  | NotOrderOwner OrderId

definition MAX_SANE_TICK :: Tick where "MAX_SANE_TICK = 100000000000"

text \<open>The HTTP status of an error.\<close>

definition status_code :: "ApiError \<Rightarrow> nat" where
  "status_code e = (case e of
       Decrypt d \<Rightarrow> (case d of BadPayload \<Rightarrow> 400 | BadEphemeralKey \<Rightarrow> 400 | BadNonce \<Rightarrow> 400
         | AuthenticationFailed \<Rightarrow> 401 | BadSignature \<Rightarrow> 401)
     | NonceReplay _ _ \<Rightarrow> 409 | InvalidTick _ \<Rightarrow> 400 | InsufficientCollateral _ _ \<Rightarrow> 402 | NotOrderOwner _ \<Rightarrow> 403)"

definition accept_nonce :: "AppState \<Rightarrow> Address \<Rightarrow> u64 \<Rightarrow> ApiError + AppState" where
  "accept_nonce st signer nonce =
     (case st_last_nonce st signer of
        Some l \<Rightarrow> if nonce \<le> l then Inl (NonceReplay nonce l)
                  else Inr (st\<lparr>st_last_nonce := (st_last_nonce st)(signer \<mapsto> nonce)\<rparr>)
      | None \<Rightarrow> Inr (st\<lparr>st_last_nonce := (st_last_nonce st)(signer \<mapsto> nonce)\<rparr>))"

section \<open>Deposited collateral\<close>

text \<open>\<open>{whole}.{frac:02}\<close>.\<close>

definition format_usd :: "nat \<Rightarrow> string" where
  "format_usd amount =
     (let whole = amount div USD_SCALE; frac = amount mod USD_SCALE div (USD_SCALE div 100) in
      decimal whole @ ''.'' @ (if frac < 10 then ''0'' else '''') @ decimal frac)"

definition raw_collateral :: "PortfolioMarketState \<Rightarrow> nat" where
  "raw_collateral m = (if in_i128 (pm_collateral m) then nat (max (pm_collateral m) 0) else 0)"

definition locked_usd :: "PortfolioMarketState list \<Rightarrow> nat" where
  "locked_usd existing = foldl (\<lambda>s m. wrap_u128 (int (s +
     sat_u128 (raw_collateral m * USD_SCALE) div unat (price_scale_for_market (pm_market_id m))))) 0 existing"

definition closing_qty :: "int \<Rightarrow> OrderSide \<Rightarrow> u64 \<Rightarrow> u64" where
  "closing_qty existing_signed_size side qty =
     (let order_signed = (case side of BuySide \<Rightarrow> int (unat qty) | SellSide \<Rightarrow> - int (unat qty)) in
      if existing_signed_size \<noteq> 0 \<and> sgn existing_signed_size \<noteq> sgn order_signed
      then min qty (of_nat (nat \<bar>existing_signed_size\<bar>)) else 0)"

definition existing_size :: "MarketId \<Rightarrow> PortfolioMarketState list \<Rightarrow> int" where
  "existing_size market_id existing =
     (case find (\<lambda>m. pm_market_id m = market_id) existing of Some m \<Rightarrow> pm_signed_size m | None \<Rightarrow> 0)"

definition opening_qty :: "int \<Rightarrow> OrderSide \<Rightarrow> u64 \<Rightarrow> u64" where
  "opening_qty existing_signed_size side qty = saturating_sub_u64 qty (closing_qty existing_signed_size side qty)"

definition check_deposited_collateral ::
  "Host \<Rightarrow> AppState \<Rightarrow> Address \<Rightarrow> MarketId \<Rightarrow> OrderSide \<Rightarrow> Tick \<Rightarrow> Qty \<Rightarrow> u64 \<Rightarrow> ApiError option \<times> AppState" where
  "check_deposited_collateral H st signer market_id side tick qty leverage =
     (case st_collateral_check st of None \<Rightarrow> (None, st)
      | Some (account, asset) \<Rightarrow>
          let (existing, st') = load_portfolio_state H st (trader_portfolio_key H st signer) [];
              opening = opening_qty (existing_size market_id existing) side qty in
          if opening = 0 then (None, st')
          else
            let new_order_usd = required_margin_usd tick opening market_id leverage;
                required_usd = sat_u128 (locked_usd existing + new_order_usd) in
            (case h_load_deposited H signer asset account of None \<Rightarrow> (None, st')
             | Some balance \<Rightarrow>
                 let deposited_usd = (if in_u128 balance then balance else 2 ^ 128 - 1) in
                 if deposited_usd < required_usd
                 then (Some (InsufficientCollateral (format_usd required_usd) (format_usd deposited_usd)), st')
                 else (None, st')))"

end
