(* ===== verification/Order_Entry.thy ===== *)
theory Order_Entry
  imports Collateral_Gate Fees
begin

text \<open>
  The request handlers that change the books (\<open>post_order\<close>, \<open>post_offer\<close>,
  \<open>post_cancel\<close> and \<open>post_portfolio_key\<close> of
  \<open>cerdic-tee-matcher/src/api.rs\<close>), each a function of the state, the clock and the outcome
  of \<open>decrypt_and_authenticate\<close>.  The result is a panic (\<open>None\<close>) or the response
  with the state after it, which keeps what the handler had already stored when it fails.  A handler is
  one uninterrupted step here.  The code takes and releases a lock per access, so other handlers can run
  between those of an order; one such gap is visible in the result, between the submission and the cancel
  in \<open>serve_resting\<close>, whose answer the code ignores, and \<open>Rescue\<close> says what that
  permits.  Pushing snapshots to subscribers, logging and spawning the proof task change no state of the
  engine and are left out; the settlement task ends in \<open>settlement_landed\<close> or
  \<open>settlement_failed\<close>, and \<open>Liquidation\<close> has the whole of it.
\<close>

datatype OrderResponse = OrderResting OrderId | OrderFilled "OrderId option" nat | OrderRejected string
datatype OfferResponse = OfferResting OrderId | OfferRejected string
datatype CancelResponse = OrderCancelled Tick Qty | CancelNotFound

record MakerFill =
  mf_match_id :: Hash
  mf_portfolio_key :: Hash
  mf_collateral_delta :: int
  mf_sealed_params :: bytes

record TakerSweep =
  ts_market_id :: Hash
  ts_portfolio_key_taker :: Hash
  ts_collateral_delta_taker :: int
  ts_sealed_params_taker :: bytes
  ts_maker_legs :: "MakerFill list"

section \<open>The book of a market\<close>

definition book_of :: "AppState \<Rightarrow> MarketId \<Rightarrow> OrderBook" where
  "book_of st market_id = (case st_books st market_id of Some b \<Rightarrow> b | None \<Rightarrow> book_new)"

definition book_put :: "AppState \<Rightarrow> MarketId \<Rightarrow> OrderBook \<Rightarrow> AppState" where
  "book_put st market_id b = st\<lparr>st_books := (st_books st)(market_id \<mapsto> b)\<rparr>"

definition book_submit :: "AppState \<Rightarrow> MarketId \<Rightarrow> NewOrder \<Rightarrow> Timestamp \<Rightarrow> (SubmitResult \<times> AppState) option" where
  "book_submit st market_id order now = do {
     (result, b) \<leftarrow> submit (book_of st market_id) order now;
     Some (result, book_put st market_id b)
   }"

definition register_owner :: "AppState \<Rightarrow> Address \<Rightarrow> AppState" where
  "register_owner st signer = st\<lparr>st_owner_addresses := (st_owner_addresses st)(signer_owner_id signer \<mapsto> signer)\<rparr>"

definition order_of :: "OrderPayload \<Rightarrow> Address \<Rightarrow> NewOrder" where
  "order_of payload signer =
     \<lparr>no_side = OrderSide_into (op_side payload), no_tick = op_tick payload, no_qty = op_qty payload,
      no_owner = signer_owner_id signer, no_tif = op_tif payload, no_post_only = op_post_only payload\<rparr>"

section \<open>The backstop rescue\<close>

definition backstop_fill :: "Tick \<Rightarrow> Qty \<Rightarrow> Qty \<Rightarrow> Fill" where
  "backstop_fill price filled taker_size_before =
     \<lparr>fill_maker_id = NIL, fill_maker_owner = BACKSTOP_OWNER_ID, fill_tick = price, fill_qty = filled,
      fill_maker_filled = True, fill_maker_size_before = filled, fill_taker_size_before = taker_size_before\<rparr>"

text \<open>All or nothing: the quote is only committed when it covers the whole quantity.\<close>

definition fill_whole :: "BackstopState \<Rightarrow> BackstopConfig \<Rightarrow> Side \<Rightarrow> Qty \<Rightarrow> ((Tick \<times> Qty) option \<times> BackstopState) option" where
  "fill_whole s cfg side requested = do {
     checked \<leftarrow> quote_and_check s cfg side requested;
     Some (case checked of
        None \<Rightarrow> (None, s)
      | Some (price, filled) \<Rightarrow>
          if filled = requested then (Some (price, filled), commit_fill s side filled) else (None, s))
   }"

definition serve_leftover :: "AppState \<Rightarrow> MarketId \<Rightarrow> Side \<Rightarrow> Qty \<Rightarrow> SubmitResult \<Rightarrow> (SubmitResult \<times> AppState) option" where
  "serve_leftover st market_id side requested result = do {
     (accepted, s) \<leftarrow> (if sr_fill_or_kill_failed result
        then fill_whole (backstop_of st market_id) (st_backstop_config st) side requested
        else try_fill (backstop_of st market_id) (st_backstop_config st) side requested);
     Some (case accepted of None \<Rightarrow> result
        | Some (price, filled) \<Rightarrow> result\<lparr>sr_fills := sr_fills result @ [backstop_fill price filled requested],
            sr_fill_or_kill_failed := False\<rparr>,
       backstop_put st market_id s)
   }"

definition serve_resting :: "AppState \<Rightarrow> MarketId \<Rightarrow> Side \<Rightarrow> OrderId \<Rightarrow> SubmitResult \<Rightarrow> (SubmitResult \<times> AppState) option" where
  "serve_resting st market_id side resting_id result = do {
     (accepted, s) \<leftarrow> fill_whole (backstop_of st market_id) (st_backstop_config st) side (sr_resting_qty result);
     let st1 = backstop_put st market_id s;
     case accepted of None \<Rightarrow> Some (result, st1)
      | Some (price, filled) \<Rightarrow> do {
          (_, b) \<leftarrow> cancel (book_of st1 market_id) resting_id;
          Some (result\<lparr>sr_fills := sr_fills result @ [backstop_fill price filled (sr_resting_qty result)],
              sr_resting_id := None, sr_resting_qty := 0\<rparr>, book_put st1 market_id b)
        }
   }"

definition backstop_rescue :: "AppState \<Rightarrow> OrderPayload \<Rightarrow> SubmitResult \<Rightarrow> (SubmitResult \<times> AppState) option" where
  "backstop_rescue st payload result =
     (let filled_qty = sum_list (map fill_qty (sr_fills result));
          leftover = saturating_sub_u64 (op_qty payload) filled_qty;
          side = OrderSide_into (op_side payload) in
      if op_tif payload = ImmediateOrCancel \<and> 0 < leftover \<or> sr_fill_or_kill_failed result
      then serve_leftover st (op_market_id payload) side
        (if sr_fill_or_kill_failed result then op_qty payload else leftover) result
      else case sr_resting_id result of None \<Rightarrow> Some (result, st)
       | Some resting_id \<Rightarrow> serve_resting st (op_market_id payload) side resting_id result)"

section \<open>Prints\<close>

definition tape_of :: "AppState \<Rightarrow> MarketId \<Rightarrow> TradeTape" where
  "tape_of st market_id = (case st_market_data st market_id of Some t \<Rightarrow> t | None \<Rightarrow> [])"

definition record_prints :: "AppState \<Rightarrow> MarketId \<Rightarrow> u64 \<Rightarrow> Fill list \<Rightarrow> AppState" where
  "record_prints st market_id now fills =
     (if fills = [] then st
      else
        let tape = foldl (\<lambda>t f. tape_record t now (fill_tick f) (fill_qty f)) (tape_of st market_id) fills;
            s = foldl (\<lambda>s f. record_price s (fill_tick f)) (backstop_of st market_id) fills in
        backstop_put (st\<lparr>st_market_data := (st_market_data st)(market_id \<mapsto> tape)\<rparr>) market_id s)"

section \<open>Settling the fills\<close>

definition build_maker_leg :: "Host \<Rightarrow> AppState \<Rightarrow> Address \<Rightarrow> u64 \<Rightarrow> nat \<Rightarrow> MarketId \<Rightarrow> Fill \<Rightarrow> bool \<Rightarrow> Address \<Rightarrow> int \<Rightarrow>
    (MakerFill \<times> AppState) option" where
  "build_maker_leg H st taker taker_nonce fill_index market_id f taker_is_buy maker_address current_funding_index =
     (let key = trader_portfolio_key H st maker_address in do {
        ((collateral_delta, realized_delta), st1) \<leftarrow>
          load_and_fold H st key market_id (\<not> taker_is_buy) (fill_tick f) (fill_qty f) current_funding_index 20 0;
        let st2 = queue_realized_pnl H st1 maker_address (realized_delta_to_usd realized_delta market_id);
        Some (\<lparr>mf_match_id = match_id_for (h_keccak256 H) taker (fill_maker_owner f) market_id (fill_tick f) fill_index taker_nonce,
            mf_portfolio_key = key, mf_collateral_delta = collateral_delta,
            mf_sealed_params = sealed_position_bytes H st2 key market_id\<rparr>, st2)
      })"

definition index_market :: "AppState \<Rightarrow> Hash \<Rightarrow> MarketId \<Rightarrow> AppState" where
  "index_market st key market_id = add_known_markets st key [market_id]"

record Sweep =
  sw_taker_delta :: int
  sw_maker_legs :: "MakerFill list"
  sw_maker_traders :: "Address list"
  sw_weighted_price :: nat

definition Sweep_empty :: Sweep where
  "Sweep_empty = \<lparr>sw_taker_delta = 0, sw_maker_legs = [], sw_maker_traders = [], sw_weighted_price = 0\<rparr>"

definition settle_fill :: "Host \<Rightarrow> Address \<Rightarrow> OrderPayload \<Rightarrow> int \<Rightarrow> nat \<Rightarrow> nat \<Rightarrow> Fill \<Rightarrow> Sweep \<times> AppState \<Rightarrow> (Sweep \<times> AppState) option" where
  "settle_fill H signer payload current_funding_index taker_prior_volume fill_index f = (\<lambda>(sw, st).
     case st_owner_addresses st (fill_maker_owner f) of None \<Rightarrow> Some (sw, st)
      | Some maker_address \<Rightarrow> do {
          let market_id = op_market_id payload;
          let taker_is_buy = (op_side payload = BuySide);
          (leg, st1) \<leftarrow> build_maker_leg H st signer (op_nonce payload) fill_index market_id f taker_is_buy maker_address current_funding_index;
          let st2 = index_market st1 (mf_portfolio_key leg) market_id;
          let notional = unat (fill_tick f) * unat (fill_qty f);
          let fee = int (taker_fee notional taker_prior_volume);
          ((fold_delta, realized_delta), st3) \<leftarrow> load_and_fold H st2 (trader_portfolio_key H st2 signer) market_id taker_is_buy
            (fill_tick f) (fill_qty f) current_funding_index (op_leverage payload) fee;
          let st4 = queue_realized_pnl H st3 signer (realized_delta_to_usd realized_delta market_id);
          Some (\<lparr>sw_taker_delta = h_i256_add H (sw_taker_delta sw) fold_delta,
              sw_maker_legs = sw_maker_legs sw @ [leg],
              sw_maker_traders = sw_maker_traders sw @ [maker_address],
              sw_weighted_price = wrap_u128 (int (sw_weighted_price sw + notional))\<rparr>, st4)
        })"

fun settle_fills :: "Host \<Rightarrow> Address \<Rightarrow> OrderPayload \<Rightarrow> int \<Rightarrow> nat \<Rightarrow> nat \<Rightarrow> Fill list \<Rightarrow> Sweep \<times> AppState \<Rightarrow> (Sweep \<times> AppState) option" where
  "settle_fills H signer payload funding volume i [] acc = Some acc"
| "settle_fills H signer payload funding volume i (f # fs) acc = do {
     acc' \<leftarrow> settle_fill H signer payload funding volume i f acc;
     settle_fills H signer payload funding volume (Suc i) fs acc'
   }"

definition trader_volume_of :: "AppState \<Rightarrow> Address \<Rightarrow> nat" where
  "trader_volume_of st trader = (case st_trader_volume st trader of Some v \<Rightarrow> v | None \<Rightarrow> 0)"

definition add_volume :: "AppState \<Rightarrow> Address \<Rightarrow> nat \<Rightarrow> AppState" where
  "add_volume st trader weighted =
     (if 0 < weighted
      then st\<lparr>st_trader_volume := (st_trader_volume st)(trader \<mapsto> wrap_u128 (int (trader_volume_of st trader + weighted)))\<rparr>
      else st)"

definition build_sweep :: "Host \<Rightarrow> AppState \<Rightarrow> Address \<Rightarrow> MarketId \<Rightarrow> Sweep \<Rightarrow> TakerSweep option \<times> AppState" where
  "build_sweep H st signer market_id sw =
     (if sw_maker_legs sw = [] then (None, st)
      else
        let key = trader_portfolio_key H st signer in
        (Some \<lparr>ts_market_id = onchain_market_id H st market_id, ts_portfolio_key_taker = key,
           ts_collateral_delta_taker = sw_taker_delta sw,
           ts_sealed_params_taker = sealed_position_bytes H st key market_id,
           ts_maker_legs = sw_maker_legs sw\<rparr>, index_market st key market_id))"

section \<open>Orders\<close>

definition order_response :: "SubmitResult \<Rightarrow> OrderResponse" where
  "order_response result =
     (if sr_post_only_rejected result then OrderRejected ''post_only order would have crossed''
      else if sr_fill_or_kill_failed result then OrderRejected ''insufficient liquidity for fill-or-kill''
      else case sr_resting_id result of Some order_id \<Rightarrow> OrderResting order_id
       | None \<Rightarrow> OrderFilled None (length (sr_fills result)))"

definition settle_order :: "Host \<Rightarrow> AppState \<Rightarrow> Address \<Rightarrow> OrderPayload \<Rightarrow> Fill list \<Rightarrow> ((TakerSweep \<times> Address list) option \<times> AppState) option" where
  "settle_order H st signer payload fills = do {
     (sw, st1) \<leftarrow> settle_fills H signer payload (funding_index_for st (op_market_id payload)) (trader_volume_of st signer) 0 fills (Sweep_empty, st);
     let (sweep, st2) = build_sweep H (add_volume st1 signer (sw_weighted_price sw)) signer (op_market_id payload) sw;
     Some (map_option (\<lambda>s. (s, sw_maker_traders sw)) sweep, st2)
   }"

definition execute_order :: "Host \<Rightarrow> AppState \<Rightarrow> u64 \<Rightarrow> OrderPayload \<Rightarrow> Address \<Rightarrow>
    ((SubmitResult \<times> (TakerSweep \<times> Address list) option) \<times> AppState) option" where
  "execute_order H st now payload signer = do {
     (result, st1) \<leftarrow> book_submit (register_owner st signer) (op_market_id payload) (order_of payload signer) now;
     (result', st2) \<leftarrow> backstop_rescue st1 payload result;
     (sweep, st3) \<leftarrow> settle_order H (record_prints st2 (op_market_id payload) now (sr_fills result')) signer payload (sr_fills result');
     Some ((result', sweep), st3)
   }"

definition post_order :: "Host \<Rightarrow> AppState \<Rightarrow> u64 \<Rightarrow> DecryptError + OrderPayload \<times> Address \<Rightarrow>
    ((ApiError + OrderResponse \<times> (TakerSweep \<times> Address list) option) \<times> AppState) option" where
  "post_order H st now request =
     (case request of Inl e \<Rightarrow> Some (Inl (Decrypt e), st)
      | Inr (payload, signer) \<Rightarrow>
     (case accept_nonce st signer (op_nonce payload) of Inl e \<Rightarrow> Some (Inl e, st)
      | Inr st1 \<Rightarrow>
     if MAX_SANE_TICK < op_tick payload then Some (Inl (InvalidTick (op_tick payload)), st1)
     else case check_deposited_collateral H st1 signer (op_market_id payload) (op_side payload) (op_tick payload) (op_qty payload) (op_leverage payload) of
       (Some e, st2) \<Rightarrow> Some (Inl e, st2)
     | (None, st2) \<Rightarrow> do {
         ((result, sweep), st3) \<leftarrow> execute_order H st2 now payload signer;
         Some (Inr (order_response result, sweep), st3)
       }))"

section \<open>After the settlement\<close>

definition settlement_landed :: "AppState \<Rightarrow> Address \<Rightarrow> u64 \<Rightarrow> Hash \<Rightarrow> AppState" where
  "settlement_landed st signer nonce tx_hash =
     st\<lparr>st_settlement_tx_hashes := (st_settlement_tx_hashes st)((signer, nonce) \<mapsto> Some tx_hash)\<rparr>"

definition settlement_failed :: "AppState \<Rightarrow> Address \<Rightarrow> u64 \<Rightarrow> MarketId \<Rightarrow> TakerSweep \<Rightarrow> AppState" where
  "settlement_failed st signer nonce market_id sweep =
     (let st1 = invalidate_position st (ts_portfolio_key_taker sweep) market_id;
          st2 = foldl (\<lambda>st leg. invalidate_position st (mf_portfolio_key leg) market_id) st1 (ts_maker_legs sweep) in
      st2\<lparr>st_settlement_tx_hashes := (st_settlement_tx_hashes st2)((signer, nonce) \<mapsto> None)\<rparr>)"

section \<open>Offers, cancels and portfolio keys\<close>

definition offer_order :: "OfferPayload \<Rightarrow> Address \<Rightarrow> NewOrder" where
  "offer_order payload signer =
     \<lparr>no_side = OrderSide_into (fp_side payload), no_tick = fp_tick payload, no_qty = fp_max_size payload,
      no_owner = signer_owner_id signer,
      no_tif = (case fp_expiry payload of Some expiry \<Rightarrow> GoodTilTime expiry | None \<Rightarrow> GoodTilCancel),
      no_post_only = True\<rparr>"

definition post_offer :: "AppState \<Rightarrow> u64 \<Rightarrow> DecryptError + OfferPayload \<times> Address \<Rightarrow> ((ApiError + OfferResponse) \<times> AppState) option" where
  "post_offer st now request =
     (case request of Inl e \<Rightarrow> Some (Inl (Decrypt e), st)
      | Inr (payload, signer) \<Rightarrow>
     (case accept_nonce st signer (fp_nonce payload) of Inl e \<Rightarrow> Some (Inl e, st)
      | Inr st1 \<Rightarrow>
     if MAX_SANE_TICK < fp_tick payload then Some (Inl (InvalidTick (fp_tick payload)), st1)
     else do {
       (result, st2) \<leftarrow> book_submit (register_owner st1 signer) (fp_market_id payload) (offer_order payload signer) now;
       if sr_post_only_rejected result then Some (Inr (OfferRejected ''offer would have crossed the book''), st2)
       else do {
         offer_id \<leftarrow> sr_resting_id result;
         Some (Inr (OfferResting offer_id), st2)
       }
     }))"

definition post_cancel :: "AppState \<Rightarrow> DecryptError + CancelPayload \<times> Address \<Rightarrow> ((ApiError + CancelResponse) \<times> AppState) option" where
  "post_cancel st request =
     (case request of Inl e \<Rightarrow> Some (Inl (Decrypt e), st)
      | Inr (payload, signer) \<Rightarrow>
     (case accept_nonce st signer (cp_nonce payload) of Inl e \<Rightarrow> Some (Inl e, st)
      | Inr st1 \<Rightarrow>
     (case st_books st1 (cp_market_id payload) of None \<Rightarrow> Some (Inr CancelNotFound, st1)
      | Some book \<Rightarrow>
     (case owner_of book (cp_order_id payload) of None \<Rightarrow> Some (Inr CancelNotFound, st1)
      | Some existing_owner \<Rightarrow>
     if existing_owner \<noteq> signer_owner_id signer then Some (Inl (NotOrderOwner (cp_order_id payload)), st1)
     else do {
       (cancelled, book') \<leftarrow> cancel book (cp_order_id payload);
       Some (Inr (case cancelled of Some (tick, qty) \<Rightarrow> OrderCancelled tick qty | None \<Rightarrow> CancelNotFound),
         book_put st1 (cp_market_id payload) book')
     }))))"

definition post_portfolio_key :: "Host \<Rightarrow> AppState \<Rightarrow> DecryptError + PortfolioKeyRequest \<times> Address \<Rightarrow> (ApiError + Hash) \<times> AppState" where
  "post_portfolio_key H st request =
     (case request of Inl e \<Rightarrow> (Inl (Decrypt e), st)
      | Inr (payload, signer) \<Rightarrow>
     (case accept_nonce st signer (kr_nonce payload) of Inl e \<Rightarrow> (Inl e, st)
      | Inr st1 \<Rightarrow> (Inr (trader_portfolio_key H st1 signer), st1)))"

end
