(* ===== verification/Replay_Protection.thy ===== *)
theory Replay_Protection
  imports Order_Entry
begin

text \<open>
  The nonce of a signer across all four signed requests: what each handler leaves unchanged, the run of a
  sequence of requests, and the order of the accepted nonces.
\<close>

section \<open>What the handlers leave alone\<close>

named_theorems nonce_frame

lemma cache_put_nonce [nonce_frame]: "st_last_nonce (cache_put st k x) = st_last_nonce st"
  by (simp add: cache_put_def)

lemma add_known_markets_nonce [nonce_frame]: "st_last_nonce (add_known_markets st k ms) = st_last_nonce st"
  by (simp add: add_known_markets_def)

lemma load_portfolio_state_nonce [nonce_frame]: "load_portfolio_state H st k ms = (x, st') \<Longrightarrow> st_last_nonce st' = st_last_nonce st"
  by (auto simp: load_portfolio_state_def Let_def nonce_frame)

lemma backstop_put_nonce [nonce_frame]: "st_last_nonce (backstop_put st m s) = st_last_nonce st"
  by (simp add: backstop_put_def)

lemma book_put_nonce [nonce_frame]: "st_last_nonce (book_put st m b) = st_last_nonce st"
  by (simp add: book_put_def)

lemma register_owner_nonce [nonce_frame]: "st_last_nonce (register_owner st s) = st_last_nonce st"
  by (simp add: register_owner_def)

lemma queue_realized_pnl_nonce [nonce_frame]: "st_last_nonce (queue_realized_pnl H st t d) = st_last_nonce st"
  by (simp add: queue_realized_pnl_def Let_def split: option.splits prod.splits)

lemma record_prints_nonce [nonce_frame]: "st_last_nonce (record_prints st m now fs) = st_last_nonce st"
  by (simp add: record_prints_def Let_def nonce_frame)

lemma add_volume_nonce [nonce_frame]: "st_last_nonce (add_volume st t w) = st_last_nonce st"
  by (simp add: add_volume_def)

lemma index_market_nonce [nonce_frame]: "st_last_nonce (index_market st k m) = st_last_nonce st"
  by (simp add: index_market_def nonce_frame)

lemma check_collateral_nonce [nonce_frame]:
  "check_deposited_collateral H st s m side t q l = (e, st') \<Longrightarrow> st_last_nonce st' = st_last_nonce st"
  by (auto simp: check_deposited_collateral_def Let_def split: option.splits prod.splits if_splits dest: load_portfolio_state_nonce)

lemma book_submit_nonce [nonce_frame]: "book_submit st m o' now = Some (r, st') \<Longrightarrow> st_last_nonce st' = st_last_nonce st"
  by (auto simp: book_submit_def bind_eq_Some_conv nonce_frame)

lemma backstop_rescue_nonce [nonce_frame]: "backstop_rescue st p r = Some (r', st') \<Longrightarrow> st_last_nonce st' = st_last_nonce st"
  by (auto simp: backstop_rescue_def serve_leftover_def serve_resting_def Let_def bind_eq_Some_conv nonce_frame
      split: option.splits if_splits)

lemma load_and_fold_nonce [nonce_frame]:
  "load_and_fold H st k m b p q c l x = Some (r, st') \<Longrightarrow> st_last_nonce st' = st_last_nonce st"
  by (auto simp: load_and_fold_def Let_def bind_eq_Some_conv nonce_frame)

lemma build_maker_leg_nonce [nonce_frame]:
  "build_maker_leg H st t n i m f b a c = Some (leg, st') \<Longrightarrow> st_last_nonce st' = st_last_nonce st"
  by (auto simp: build_maker_leg_def Let_def bind_eq_Some_conv nonce_frame dest!: load_and_fold_nonce)

lemma settle_fill_nonce [nonce_frame]:
  "settle_fill H s p c v i f (sw, st) = Some (sw', st') \<Longrightarrow> st_last_nonce st' = st_last_nonce st"
  by (auto simp: settle_fill_def Let_def bind_eq_Some_conv nonce_frame split: option.splits
      dest!: build_maker_leg_nonce load_and_fold_nonce)

lemma settle_fills_nonce [nonce_frame]:
  "settle_fills H s p c v i fs (sw, st) = Some (sw', st') \<Longrightarrow> st_last_nonce st' = st_last_nonce st"
proof (induction fs arbitrary: i sw st)
  case (Cons f fs)
  from Cons.prems obtain sw1 st1 where "settle_fill H s p c v i f (sw, st) = Some (sw1, st1)"
    and "settle_fills H s p c v (Suc i) fs (sw1, st1) = Some (sw', st')"
    by (auto simp: bind_eq_Some_conv)
  then show ?case using Cons.IH settle_fill_nonce by metis
qed simp

lemma build_sweep_nonce [nonce_frame]: "build_sweep H st s m sw = (x, st') \<Longrightarrow> st_last_nonce st' = st_last_nonce st"
  by (auto simp: build_sweep_def Let_def nonce_frame split: if_splits)

lemma settle_order_nonce [nonce_frame]:
  assumes "settle_order H st s p fs = Some (r, st')"
  shows "st_last_nonce st' = st_last_nonce st"
proof -
  have sweep: "st_last_nonce (snd (build_sweep H t s m sw)) = st_last_nonce t" for t m sw
    by (metis build_sweep_nonce prod.collapse)
  show ?thesis using assms
    by (auto simp: settle_order_def Let_def bind_eq_Some_conv nonce_frame split_beta sweep dest!: settle_fills_nonce)
qed

lemma execute_order_nonce [nonce_frame]: "execute_order H st now p s = Some (r, st') \<Longrightarrow> st_last_nonce st' = st_last_nonce st"
  by (auto simp: execute_order_def bind_eq_Some_conv nonce_frame dest!: book_submit_nonce backstop_rescue_nonce settle_order_nonce)

section \<open>Runs\<close>

datatype Request =
    Order u64 "DecryptError + OrderPayload \<times> Address"
  | Offer u64 "DecryptError + OfferPayload \<times> Address"
  | Cancel "DecryptError + CancelPayload \<times> Address"
  | Key "DecryptError + PortfolioKeyRequest \<times> Address"

definition failure :: "ApiError + 'a \<Rightarrow> ApiError option" where
  "failure r = (case r of Inl e \<Rightarrow> Some e | Inr _ \<Rightarrow> None)"

text \<open>A request as the engine serves it: the error it answers with, if any, and the state after it.\<close>

definition serve :: "Host \<Rightarrow> AppState \<Rightarrow> Request \<Rightarrow> (ApiError option \<times> AppState) option" where
  "serve H st r = (case r of
       Order now x \<Rightarrow> map_option (map_prod failure id) (post_order H st now x)
     | Offer now x \<Rightarrow> map_option (map_prod failure id) (post_offer st now x)
     | Cancel x \<Rightarrow> map_option (map_prod failure id) (post_cancel st x)
     | Key x \<Rightarrow> Some (map_prod failure id (post_portfolio_key H st x)))"

definition credentials :: "Request \<Rightarrow> (Address \<times> u64) option" where
  "credentials r = (case r of
       Order _ (Inr (p, s)) \<Rightarrow> Some (s, op_nonce p) | Offer _ (Inr (p, s)) \<Rightarrow> Some (s, fp_nonce p)
     | Cancel (Inr (p, s)) \<Rightarrow> Some (s, cp_nonce p) | Key (Inr (p, s)) \<Rightarrow> Some (s, kr_nonce p) | _ \<Rightarrow> None)"

definition is_replay :: "ApiError option \<Rightarrow> bool" where
  "is_replay e = (case e of Some (NonceReplay _ _) \<Rightarrow> True | _ \<Rightarrow> False)"

text \<open>The credentials accepted while serving a sequence of requests.\<close>

fun accepted :: "Host \<Rightarrow> AppState \<Rightarrow> Request list \<Rightarrow> (Address \<times> u64) list option" where
  "accepted H st [] = Some []"
| "accepted H st (r # rs) = do {
     (e, st') \<leftarrow> serve H st r;
     cs \<leftarrow> accepted H st' rs;
     Some (case credentials r of Some c \<Rightarrow> if is_replay e then cs else c # cs | None \<Rightarrow> cs)
   }"

definition above :: "u64 option \<Rightarrow> u64 \<Rightarrow> bool" where
  "above floor n = (case floor of None \<Rightarrow> True | Some l \<Rightarrow> l < n)"

lemma accept_nonce_cases:
  "accept_nonce st s n = (if above (st_last_nonce st s) n then Inr (st\<lparr>st_last_nonce := (st_last_nonce st)(s \<mapsto> n)\<rparr>)
     else Inl (NonceReplay n (the (st_last_nonce st s))))"
  by (auto simp: accept_nonce_def above_def split: option.splits)

text \<open>What serving one request does to the nonce floor.\<close>

definition floor_step :: "AppState \<Rightarrow> (Address \<times> u64) option \<Rightarrow> ApiError option \<Rightarrow> AppState \<Rightarrow> bool" where
  "floor_step st c e st' = (case c of None \<Rightarrow> st' = st \<and> \<not> is_replay e
     | Some (s, n) \<Rightarrow> if is_replay e then st' = st \<and> \<not> above (st_last_nonce st s) n
         else above (st_last_nonce st s) n \<and> st_last_nonce st' = (st_last_nonce st)(s \<mapsto> n))"

lemma post_order_floor:
  "post_order H st now (Inr (p, s)) = Some (r, st') \<Longrightarrow> floor_step st (Some (s, op_nonce p)) (failure r) st'"
  by (auto simp: post_order_def accept_nonce_cases floor_step_def failure_def is_replay_def bind_eq_Some_conv
      check_deposited_collateral_def Let_def split: if_splits option.splits prod.splits
      dest!: load_portfolio_state_nonce execute_order_nonce)

lemma post_offer_floor:
  "post_offer st now (Inr (p, s)) = Some (r, st') \<Longrightarrow> floor_step st (Some (s, fp_nonce p)) (failure r) st'"
  by (auto simp: post_offer_def accept_nonce_cases floor_step_def failure_def is_replay_def bind_eq_Some_conv nonce_frame
      split: if_splits option.splits dest!: book_submit_nonce)

lemma post_cancel_floor:
  "post_cancel st (Inr (p, s)) = Some (r, st') \<Longrightarrow> floor_step st (Some (s, cp_nonce p)) (failure r) st'"
  by (auto simp: post_cancel_def accept_nonce_cases floor_step_def failure_def is_replay_def bind_eq_Some_conv nonce_frame
      split: if_splits option.splits)

lemma post_portfolio_key_floor:
  "floor_step st (Some (s, kr_nonce p)) (failure (fst (post_portfolio_key H st (Inr (p, s))))) (snd (post_portfolio_key H st (Inr (p, s))))"
  by (auto simp: post_portfolio_key_def accept_nonce_cases floor_step_def failure_def is_replay_def split: if_splits sum.splits)

lemma unauthenticated:
  "post_order H st now (Inl d) = Some (Inl (Decrypt d), st)" "post_offer st now (Inl d) = Some (Inl (Decrypt d), st)"
  "post_cancel st (Inl d) = Some (Inl (Decrypt d), st)" "post_portfolio_key H st (Inl d) = (Inl (Decrypt d), st)"
  by (simp_all add: post_order_def post_offer_def post_cancel_def post_portfolio_key_def)

lemma floor_step_unauthenticated: "floor_step st None (Some (Decrypt d)) st"
  by (simp add: floor_step_def is_replay_def)

lemma serve_floor:
  assumes "serve H st r = Some (e, st')"
  shows "floor_step st (credentials r) e st'"
proof (cases r)
  case (Order now x)
  with assms show ?thesis
    by (cases x) (auto simp: serve_def credentials_def unauthenticated failure_def [of "Inl _"] floor_step_unauthenticated dest: post_order_floor)
next
  case (Offer now x)
  with assms show ?thesis
    by (cases x) (auto simp: serve_def credentials_def unauthenticated failure_def [of "Inl _"] floor_step_unauthenticated dest: post_offer_floor)
next
  case (Cancel x)
  with assms show ?thesis
    by (cases x) (auto simp: serve_def credentials_def unauthenticated failure_def [of "Inl _"] floor_step_unauthenticated dest: post_cancel_floor)
next
  case (Key x)
  with assms show ?thesis
    by (cases x) (auto simp: serve_def credentials_def unauthenticated failure_def [of "Inl _"] floor_step_unauthenticated
        map_prod_def split_beta post_portfolio_key_floor)
qed

definition nonces :: "Address \<Rightarrow> (Address \<times> u64) list \<Rightarrow> u64 list" where
  "nonces s cs = map snd (filter (\<lambda>c. fst c = s) cs)"

text \<open>The nonces accepted in a run exceed the floor before it and ascend.\<close>

lemma above_trans: "above (Some n) k \<Longrightarrow> above f n \<Longrightarrow> above f k"
  by (auto simp: above_def split: option.splits)

lemma accepted_ascend:
  "accepted H st rs = Some cs \<Longrightarrow> sorted_wrt (<) (nonces s cs) \<and> list_all (above (st_last_nonce st s)) (nonces s cs)"
proof (induction rs arbitrary: st cs)
  case (Cons r rs)
  from Cons.prems obtain e st1 cs1 where step: "serve H st r = Some (e, st1)" and rest: "accepted H st1 rs = Some cs1"
    and cs: "cs = (case credentials r of Some c \<Rightarrow> if is_replay e then cs1 else c # cs1 | None \<Rightarrow> cs1)"
    by (auto simp: bind_eq_Some_conv)
  note IH = Cons.IH [OF rest] and fl = serve_floor [OF step]
  show ?case
  proof (cases "credentials r")
    case None
    with IH fl cs show ?thesis by (simp add: floor_step_def)
  next
    case (Some c)
    with IH fl cs show ?thesis
      by (cases c) (auto simp: floor_step_def nonces_def list_all_iff above_def split: if_splits option.splits)
  qed
qed (simp add: nonces_def)

text \<open>
  C7: Whatever requests arrive, orders, offers, cancels and key requests mixed, the nonces the engine
  accepts from one signer are strictly increasing and above the floor it started with, and a request
  refused as a replay leaves the whole state as it was.
\<close>

theorem accepted_nonces_increase:
  "(accepted H st rs = Some cs \<longrightarrow> sorted_wrt (<) (nonces s cs) \<and> list_all (above (st_last_nonce st s)) (nonces s cs)) \<and>
   (serve H st r = Some (Some (NonceReplay n l), st') \<longrightarrow> st' = st)"
  using accepted_ascend [of H st rs cs s] serve_floor [of H st r "Some (NonceReplay n l)" st']
  by (auto simp: floor_step_def is_replay_def split: option.splits)

definition example_key_request :: "u64 \<Rightarrow> Request" where
  "example_key_request n = Key (Inr (\<lparr>kr_nonce = n, kr_signature = []\<rparr>, 7))"

text \<open>One key request, served: accepted exactly above the floor of its signer.\<close>

lemma serve_key_request:
  "serve H st (example_key_request n) = Some (if above (st_last_nonce st 7) n
     then (None, st\<lparr>st_last_nonce := (st_last_nonce st)(7 \<mapsto> n)\<rparr>)
     else (Some (NonceReplay n (the (st_last_nonce st 7))), st))"
  by (simp add: serve_def example_key_request_def post_portfolio_key_def accept_nonce_cases failure_def)

lemma key_credentials: "credentials (example_key_request n) = Some (7, n)"
  by (simp add: credentials_def example_key_request_def)

theorem accepted_nonces_increase_witness:
  "accepted offline_host (AppState_new []) (map example_key_request [5, 3, 9]) = Some [(7, 5), (7, 9)] \<and>
   sorted_wrt (<) (nonces 7 [(7, 5), (7, 9)])"
proof -
  have run: "accepted offline_host (AppState_new []) (map example_key_request [5, 3, 9]) = Some [(7, 5), (7, 9)]"
    by (simp add: serve_key_request above_def AppState_new_def key_credentials is_replay_def)
  then show ?thesis using accepted_nonces_increase [of offline_host "AppState_new []" "map example_key_request [5, 3, 9]" "[(7, 5), (7, 9)]" 7]
    by blast
qed

end
