(* ===== verification/Book_Use.thy ===== *)
theory Book_Use
  imports Book_Properties
begin

text \<open>
  What the engine relies on when it uses a reachable book: calls return, the arena grows by at most one
  slot per submission, resting orders and fills have positive quantities, and a post-only submission of a
  positive quantity rests or is rejected.
\<close>

section \<open>Resting quantities are positive\<close>

definition positive :: "Resting list \<Rightarrow> bool" where
  "positive q \<longleftrightarrow> (\<forall>r \<in> set q. r_qty r \<noteq> 0)"

definition positive_book :: "SpecBook \<Rightarrow> bool" where
  "positive_book S \<longleftrightarrow> (\<forall>s. positive (queue S s))"

lemma positive_simps [simp]:
  "positive []" "positive (r # q) \<longleftrightarrow> r_qty r \<noteq> 0 \<and> positive q" "positive (xs @ ys) \<longleftrightarrow> positive xs \<and> positive ys"
  by (auto simp: positive_def)

lemma positive_sub: "positive q \<Longrightarrow> set q' \<subseteq> set q \<Longrightarrow> positive q'"
  by (auto simp: positive_def)

lemma positive_insert: "positive (spec_insert s r q) \<longleftrightarrow> r_qty r \<noteq> 0 \<and> positive q"
  by (auto simp: positive_def)

lemma queue_spec_take: "queue (spec_take S s q ids) t = (if t = s then q else queue S t)"
  by (simp add: spec_take_def)

lemma spec_match_positive:
  "positive q \<Longrightarrow> spec_match order now q qty res = (q', ids, qty', res') \<Longrightarrow> positive q'"
proof (induction q arbitrary: qty res q' ids qty' res')
  case (Cons r q)
  then show ?case
    by (auto simp: Let_def not_le word_less_nat_alt split: if_splits prod.splits dest: Cons.IH)
qed simp

lemma spec_rest_positive:
  "positive_book S \<Longrightarrow> positive_book (snd (spec_rest order S qty res))"
  by (auto simp: spec_rest_def positive_book_def positive_insert queue_spec_alloc [of S] split: prod.splits
      dest: queue_spec_alloc)

lemma spec_submit_positive:
  assumes "positive_book S" and run: "spec_submit S order now = (res, S')"
  shows "positive_book S'"
proof -
  obtain q pruned where g: "guarded_queue S order now = (q, pruned)" by (meson surj_pair)
  obtain ds where "queue S (opposite_side (no_side order)) = ds @ q" using guarded_queue_split [OF g] by blast
  then have "positive q" using assms(1) by (metis positive_book_def positive_simps(3))
  then have take: "positive_book (spec_take S (opposite_side (no_side order)) q' ids)" if "positive q'" for q' ids
    using assms(1) that by (simp add: positive_book_def queue_spec_take)
  from run g show ?thesis
  proof (cases rule: spec_submit_cases)
    case (matched q' ids qty res1)
    have "positive_book (spec_take S (opposite_side (no_side order)) q' (pruned @ ids))"
      by (rule take [OF spec_match_positive [OF \<open>positive q\<close> matched(1)]])
    with matched(2) show ?thesis by (metis snd_conv spec_rest_positive)
  qed (use take \<open>positive q\<close> in simp_all)
qed

lemma spec_cancel_positive: "positive_book S \<Longrightarrow> positive_book (snd (spec_cancel S i))"
  by (auto simp: spec_cancel_def positive_book_def spec_remove_def positive_def split: option.splits if_splits)

lemma reachable_positive:
  "book_reachable b \<Longrightarrow> \<exists>S. book_rel b S \<and> positive_book S \<and> uncrossed_spec S"
proof (induction rule: book_reachable.induct)
  case new
  then show ?case using book_rel_new
    by (auto simp: uncrossed_spec_def spec_new_def positive_book_def queue_def split: Side.splits)
next
  case (submitted b order now res b')
  then obtain S where S: "book_rel b S" "positive_book S" "uncrossed_spec S" by blast
  have room: "sb_next S < NIL" "unat (no_tick order) < tick_limit"
    using submitted(2) S(1) by (auto simp: submittable_def book_rel_def book_core_def)
  obtain res' S' where spec: "spec_submit S order now = (res', S')" by (meson surj_pair)
  have "in_priority s (queue S s)" for s using S(1) book_coreD(5) by (auto simp: book_rel_def)
  from submit_uncrossed [OF spec S(3) this] spec_submit_positive [OF S(2) spec]
    submit_sim [OF S(1) room, of now] spec submitted(3)
  show ?case by auto
next
  case (cancelled b i res b')
  then obtain S where S: "book_rel b S" "positive_book S" "uncrossed_spec S" by blast
  from cancel_sim [OF S(1), of i] cancelled(2) cancel_uncrossed [OF S(3), of i] spec_cancel_positive [OF S(2), of i]
  show ?case by auto
qed

section \<open>Calls on a reachable book\<close>

lemma post_only_rests:
  assumes run: "spec_submit S order now = (res, S')" and "no_post_only order" and "no_qty order \<noteq> 0"
    and "no_tif order \<notin> {ImmediateOrCancel, FillOrKill}" and "\<not> sr_post_only_rejected res"
  shows "sr_resting_id res \<noteq> None"
proof -
  obtain q pruned where g: "guarded_queue S order now = (q, pruned)" by (meson surj_pair)
  from run g show ?thesis
  proof (cases rule: spec_submit_cases)
    case (matched q' ids qty res1)
    from match_out_of_reach_id [OF matched(4) [OF assms(2)]] matched(1) have "qty = no_qty order" by auto
    with matched(2) assms(3,4) show ?thesis by (auto simp: spec_rest_def word_neq_0_conv split: prod.splits)
  qed (use assms in auto)
qed

lemma spec_submit_immediate:
  assumes run: "spec_submit S order now = (res, S')" and "no_tif order \<in> {ImmediateOrCancel, FillOrKill}"
  shows "sr_resting_id res = None"
proof -
  obtain q pruned where g: "guarded_queue S order now = (q, pruned)" by (meson surj_pair)
  from run g show ?thesis
  proof (cases rule: spec_submit_cases)
    case (matched q' ids qty res1)
    from spec_match_report [OF matched(1)] extends_fields have "sr_resting_id res1 = None" by force
    with matched(2) assms(2) show ?thesis by (auto simp: spec_rest_def)
  qed simp_all
qed

lemma spec_submit_kill:
  assumes run: "spec_submit S order now = (res, S')" and "sr_fill_or_kill_failed res"
  shows "no_tif order = FillOrKill"
proof -
  obtain q pruned where g: "guarded_queue S order now = (q, pruned)" by (meson surj_pair)
  from run g show ?thesis
  proof (cases rule: spec_submit_cases)
    case (matched q' ids qty res1)
    from spec_match_report [OF matched(1)] extends_fields have "\<not> sr_fill_or_kill_failed res1" by force
    with spec_rest_eq [OF matched(2) [symmetric]] assms(2) show ?thesis by auto
  qed (use assms(2) in simp_all)
qed

lemma spec_submit_flags:
  assumes run: "spec_submit S order now = (res, S')"
  shows "(sr_resting_id res = None \<longrightarrow> sr_resting_qty res = 0) \<and>
    (sr_post_only_rejected res \<longrightarrow> \<not> sr_fill_or_kill_failed res \<and> sr_fills res = [])"
proof -
  obtain q pruned where g: "guarded_queue S order now = (q, pruned)" by (meson surj_pair)
  from run g show ?thesis
  proof (cases rule: spec_submit_cases)
    case (matched q' ids qty res1)
    from spec_match_report [OF matched(1)] have "sr_resting_id res1 = None \<and> sr_resting_qty res1 = 0 \<and> \<not> sr_post_only_rejected res1"
      by (auto simp: extends_def SubmitResult_default_def)
    with matched(2) show ?thesis by (auto simp: spec_rest_def split: prod.splits if_splits)
  qed (simp_all add: SubmitResult_default_def)
qed

lemma submit_on_reachable:
  assumes "book_reachable b" and "length (arena b) < NIL" and "unat (no_tick order) < tick_limit"
  obtains res b' where "submit b order now = Some (res, b')" and "book_reachable b'"
    and "length (arena b') \<le> Suc (length (arena b))" and "\<forall>f \<in> set (sr_fills res). fill_qty f \<noteq> 0"
    and "no_post_only order \<Longrightarrow> no_qty order \<noteq> 0 \<Longrightarrow> no_tif order \<notin> {ImmediateOrCancel, FillOrKill} \<Longrightarrow>
      \<not> sr_post_only_rejected res \<Longrightarrow> sr_resting_id res \<noteq> None"
proof -
  obtain S where S: "book_rel b S" "positive_book S" using reachable_positive [OF assms(1)] by blast
  obtain res S' where run: "spec_submit S order now = (res, S')" by (meson surj_pair)
  have nxt: "sb_next S = length (arena b)" using S(1) by (simp add: book_rel_def book_core_def)
  from submit_sim [OF S(1) _ assms(3), of now] assms(2) nxt run obtain b' where
    b': "submit b order now = Some (res, b')" "book_rel b' S'" by auto
  have "sb_next S' = length (arena b')" using b'(2) by (simp add: book_rel_def book_core_def)
  then have grow: "length (arena b') \<le> Suc (length (arena b))" using sb_next_submit [of S order now] run nxt by simp
  have "fill_qty f \<noteq> 0" if f: "f \<in> set (sr_fills res)" for f
  proof -
    obtain r where "r \<in> set (queue S (opposite_side (no_side order)))" "good_fill order now r f"
      using spec_submit_fills [OF run f] by blast
    with S(2) show ?thesis by (auto simp: positive_book_def positive_def good_fill_def min_def)
  qed
  with b'(1) grow show thesis
    using that book_reachable.submitted [OF assms(1) _ b'(1)] assms(2,3) post_only_rests [OF run]
    by (auto simp: submittable_def)
qed

lemma cancel_on_reachable:
  assumes "book_reachable b"
  obtains res b' where "cancel b i = Some (res, b')" and "book_reachable b'" and "length (arena b') = length (arena b)"
proof -
  obtain S where S: "book_rel b S" using reachable_rel [OF assms] by blast
  from cancel_sim [OF S, of i] obtain b' where
    b': "cancel b i = Some (fst (spec_cancel S i), b')" "book_rel b' (snd (spec_cancel S i))" by blast
  have "length (arena b') = length (arena b)"
    using S b'(2) sb_next_cancel [of S i] by (simp add: book_rel_def book_core_def)
  with b'(1) that book_reachable.cancelled [OF assms b'(1)] show thesis by blast
qed

lemma reachable_uncrossed:
  assumes "book_reachable b" and "best b Long = Some x" and "best b Short = Some y"
  shows "x < y"
proof -
  obtain S where S: "book_rel b S" "uncrossed_spec S" using reachable_rel [OF assms(1)] by blast
  then have "spec_best (queue S Long) = Some x" "spec_best (queue S Short) = Some y"
    using assms(2,3) by (auto simp: book_rel_def)
  with S(2) show ?thesis
    by (auto simp: spec_best_def uncrossed_spec_def queue_def split: list.splits)
qed

lemma slot_of_queued:
  assumes "book_rel b S" and "r \<in> set (queue S s)"
  obtains n where "slot b (r_id r) = Some n" and "node_is s r n"
  using assms book_coreD(3) [of b S r s] by (auto simp: book_rel_def live_as_def slot_eq_Some_iff)

text \<open>What an order is, apart from its links in the level.\<close>

definition order_data :: "OrderNode \<Rightarrow> Side \<times> Tick \<times> Qty \<times> OwnerId \<times> Timestamp option" where
  "order_data n = (node_side n, node_tick n, node_qty n, node_owner n, node_expiry n)"

lemma node_is_data: "node_is s r n \<Longrightarrow> node_is s r n' \<Longrightarrow> order_data n = order_data n'"
  by (auto simp: node_is_def order_data_def)

lemma cancel_live_on_reachable:
  assumes "book_reachable b" and w: "owner_of b i = Some w"
  obtains n b' where "slot b i = Some n" and "node_owner n = w" and "cancel b i = Some (Some (node_tick n, node_qty n), b')"
    and "owner_of b' i = None" and "\<forall>j. j \<noteq> i \<longrightarrow> map_option order_data (slot b' j) = map_option order_data (slot b j)"
proof -
  obtain S where S: "book_rel b S" using reachable_rel [OF assms(1)] by blast
  then have core: "book_core b S" by (simp add: book_rel_def)
  obtain n where n: "slot b i = Some n" "node_owner n = w"
    using w by (auto simp: owner_of_def slot_eq_Some_iff not_le split: if_splits)
  obtain r where r: "r \<in> set (queue S (node_side n))" "r_id r = i" "node_is (node_side n) r n"
    using live_slot_queued [OF core n(1)] by blast
  have sc: "spec_cancel S i = (Some (node_tick n, node_qty n), spec_remove S (node_side n) i)"
    using spec_cancel_live [OF core r(1)] r(2,3) by (simp add: node_is_def)
  obtain b' where b': "cancel b i = Some (Some (node_tick n, node_qty n), b')" "book_rel b' (spec_remove S (node_side n) i)"
    using cancel_sim [OF S, of i] sc by auto
  then have core': "book_core b' (spec_remove S (node_side n) i)" by (simp add: book_rel_def)
  have keep: "set (queue (spec_remove S (node_side n) i) s) \<subseteq> set (queue S s)" for s
    by (auto simp: spec_remove_def)
  have "map_option order_data (slot b' j) = map_option order_data (slot b j)" if j: "j \<noteq> i" for j
  proof (cases "slot b j")
    case (Some m)
    obtain x where x: "x \<in> set (queue S (node_side m))" "r_id x = j" "node_is (node_side m) x m"
      using live_slot_queued [OF core Some] by blast
    then have "x \<in> set (queue (spec_remove S (node_side n) i) (node_side m))" using j by (auto simp: spec_remove_def)
    then obtain m' where m': "slot b' j = Some m'" "node_is (node_side m) x m'" using slot_of_queued [OF b'(2)] x(2) by metis
    from node_is_data [OF m'(2) x(3)] Some m'(1) show ?thesis by simp
  next
    case None
    have "slot b' j = None"
    proof (rule ccontr)
      assume "slot b' j \<noteq> None"
      then obtain m where m: "slot b' j = Some m" by blast
      obtain x where "x \<in> set (queue (spec_remove S (node_side n) i) (node_side m))" and x: "r_id x = j"
        by (rule live_slot_queued [OF core' m])
      then have "x \<in> set (queue S (node_side m))" using keep by blast
      then obtain m2 where "slot b (r_id x) = Some m2" by (rule slot_of_queued [OF S])
      with x None show False by simp
    qed
    with None show ?thesis by simp
  qed
  with n b'(1) that dead_after_remove [OF core'] show thesis by blast
qed

end
