(* ===== verification/Engine_Safety.thy ===== *)
theory Engine_Safety
  imports Replay_Protection Book_Use Backstop_Properties Position_Properties
begin

text \<open>
  The invariant of the engine state under any sequence of requests, and with it the absence of panics:
  every book is reachable through \<open>submit\<close> and \<open>cancel\<close>, the backstop windows are positive and cached
  sizes are in range.
\<close>

definition engine_ok :: "nat \<Rightarrow> AppState \<Rightarrow> bool" where
  "engine_ok n st \<longleftrightarrow> (\<forall>m b. st_books st m = Some b \<longrightarrow> book_reachable b \<and> length (arena b) \<le> n) \<and>
     windows_ok (st_backstop_config st) \<and> (\<forall>k x. st_position_cache st k = Some x \<longrightarrow> in_i128 (pm_signed_size x))"

lemma engine_ok_new: "engine_ok 0 (AppState_new secret)"
  by (simp add: engine_ok_def AppState_new_def windows_ok_def BackstopConfig_default_def)

lemma engine_ok_mono: "engine_ok n st \<Longrightarrow> n \<le> k \<Longrightarrow> engine_ok k st"
  by (auto simp: engine_ok_def intro: le_trans)

lemma engine_ok_frame [simp]:
  "engine_ok n (add_known_markets st k ms) \<longleftrightarrow> engine_ok n st"
  "engine_ok n (index_market st k m) \<longleftrightarrow> engine_ok n st"
  "engine_ok n (backstop_put st m s) \<longleftrightarrow> engine_ok n st"
  "engine_ok n (register_owner st a) \<longleftrightarrow> engine_ok n st"
  "engine_ok n (add_volume st a w) \<longleftrightarrow> engine_ok n st"
  "engine_ok n (record_prints st m now fs) \<longleftrightarrow> engine_ok n st"
  "engine_ok n (queue_realized_pnl H st a d) \<longleftrightarrow> engine_ok n st"
  "engine_ok n (st\<lparr>st_last_nonce := l\<rparr>) \<longleftrightarrow> engine_ok n st"
  "engine_ok n (snd (build_sweep H st a m sw)) \<longleftrightarrow> engine_ok n st"
  by (simp_all add: engine_ok_def add_known_markets_def index_market_def backstop_put_def register_owner_def add_volume_def
      record_prints_def queue_realized_pnl_def build_sweep_def Let_def split: option.splits prod.splits)

section \<open>Books\<close>

lemma book_of_ok: "engine_ok n st \<Longrightarrow> book_reachable (book_of st m) \<and> length (arena (book_of st m)) \<le> n"
  by (auto simp: engine_ok_def book_of_def book_reachable.new book_new_def split: option.splits)
    (metis book_new_def book_reachable.new)

lemma book_put_ok: "engine_ok n st \<Longrightarrow> book_reachable b \<Longrightarrow> length (arena b) \<le> n \<Longrightarrow> engine_ok n (book_put st m b)"
  by (simp add: engine_ok_def book_put_def)

lemma book_submit_ok:
  assumes "engine_ok n st" and "n < NIL" and "unat (no_tick order) < tick_limit"
  obtains res st' where "book_submit st m order now = Some (res, st')" and "engine_ok (Suc n) st'"
    and "\<forall>f \<in> set (sr_fills res). fill_qty f \<noteq> 0"
    and "no_post_only order \<Longrightarrow> no_qty order \<noteq> 0 \<Longrightarrow> no_tif order \<notin> {ImmediateOrCancel, FillOrKill} \<Longrightarrow>
      \<not> sr_post_only_rejected res \<Longrightarrow> sr_resting_id res \<noteq> None"
proof -
  have b: "book_reachable (book_of st m)" "length (arena (book_of st m)) \<le> n" using book_of_ok [OF assms(1)] by auto
  then have "length (arena (book_of st m)) < NIL" using assms(2) by simp
  then show thesis
  proof (rule submit_on_reachable [OF b(1) _ assms(3), of now])
    fix res b'
    assume r: "submit (book_of st m) order now = Some (res, b')" "book_reachable b'"
      and len: "length (arena b') \<le> Suc (length (arena (book_of st m)))"
      and rest: "\<forall>f \<in> set (sr_fills res). fill_qty f \<noteq> 0"
      "no_post_only order \<Longrightarrow> no_qty order \<noteq> 0 \<Longrightarrow> no_tif order \<notin> {ImmediateOrCancel, FillOrKill} \<Longrightarrow>
        \<not> sr_post_only_rejected res \<Longrightarrow> sr_resting_id res \<noteq> None"
    have "length (arena b') \<le> Suc n" using len b(2) by simp
    with r(2) have "engine_ok (Suc n) (book_put st m b')"
      by (intro book_put_ok [OF engine_ok_mono [OF assms(1)]]) simp_all
    with r(1) show thesis by (intro that [OF _ _ rest]) (simp_all add: book_submit_def)
  qed
qed

section \<open>The backstop\<close>

lemma trailing_mean_total: "0 < w \<Longrightarrow> trailing_mean s w \<noteq> None"
  using trailing_mean_exact [of s w] by (cases "bs_history s = []") (auto simp: trailing_mean_def)

lemma quote_and_check_total:
  assumes "windows_ok cfg"
  shows "quote_and_check s cfg side q \<noteq> None"
    and "quote_and_check s cfg side q = Some (Some (p, n)) \<Longrightarrow> n \<noteq> 0"
proof -
  have w: "trailing_mean s (bc_quote_twap_window cfg) \<noteq> None" "trailing_mean s (bc_last_look_window cfg) \<noteq> None"
    using assms by (simp_all add: windows_ok_def trailing_mean_total)
  then have "quote s cfg side \<noteq> None" by (auto simp: quote_def)
  with w(2) show "quote_and_check s cfg side q \<noteq> None"
    by (auto simp: quote_and_check_def Let_def split: option.splits)
  show "quote_and_check s cfg side q = Some (Some (p, n)) \<Longrightarrow> n \<noteq> 0"
    by (auto simp: quote_and_check_def Let_def bind_eq_Some_conv split: option.splits if_splits)
qed

lemma fill_whole_total:
  assumes "windows_ok cfg"
  obtains r s' where "fill_whole s cfg side q = Some (r, s')"
    and "r = None \<and> s' = s \<or> (\<exists>p. r = Some (p, q) \<and> q \<noteq> 0 \<and> s' = commit_fill s side q)"
proof -
  obtain c where c: "quote_and_check s cfg side q = Some c" using quote_and_check_total(1) [OF assms] by (meson option.exhaust)
  show thesis
  proof (cases c)
    case None
    then show ?thesis using that c by (simp add: fill_whole_def)
  next
    case (Some pn)
    obtain p k where pk: "pn = (p, k)" by (cases pn)
    with Some c have c: "quote_and_check s cfg side q = Some (Some (p, k))" by simp
    with quote_and_check_total(2) [OF assms c] that [of None s] that [of "Some (p, k)"] show ?thesis
      by (cases "k = q") (simp_all add: fill_whole_def)
  qed
qed

lemma try_fill_total:
  assumes "windows_ok cfg"
  obtains r s' where "try_fill s cfg side q = Some (r, s')"
    and "r = None \<and> s' = s \<or> (\<exists>p n. r = Some (p, n) \<and> n \<noteq> 0 \<and> s' = commit_fill s side n)"
proof -
  obtain c where c: "quote_and_check s cfg side q = Some c" using quote_and_check_total(1) [OF assms] by (meson option.exhaust)
  then show thesis using that quote_and_check_total(2) [OF assms, of s side q]
    by (cases c) (auto simp: try_fill_def)
qed

definition positive_fills :: "SubmitResult \<Rightarrow> bool" where
  "positive_fills res \<longleftrightarrow> (\<forall>f \<in> set (sr_fills res). fill_qty f \<noteq> 0)"

lemma serve_leftover_ok:
  assumes "engine_ok n st" and "positive_fills res"
  shows "\<exists>res' st'. serve_leftover st m side q res = Some (res', st') \<and> engine_ok n st' \<and> positive_fills res'"
proof -
  let ?s = "backstop_of st m" and ?cfg = "st_backstop_config st"
  have w: "windows_ok ?cfg" using assms(1) by (simp add: engine_ok_def)
  have "\<exists>r s'. (if sr_fill_or_kill_failed res then fill_whole ?s ?cfg side q else try_fill ?s ?cfg side q) = Some (r, s') \<and>
      (r = None \<or> (\<exists>p k. r = Some (p, k) \<and> k \<noteq> 0))"
  proof (cases "sr_fill_or_kill_failed res")
    case True
    then show ?thesis by (rule_tac fill_whole_total [OF w, of ?s side q]) auto
  next
    case False
    then show ?thesis by (rule_tac try_fill_total [OF w, of ?s side q]) auto
  qed
  then show ?thesis using assms by (auto simp: serve_leftover_def positive_fills_def backstop_fill_def)
qed

lemma serve_resting_ok:
  assumes ok: "engine_ok n st" and pos: "positive_fills res"
  shows "\<exists>res' st'. serve_resting st m side i res = Some (res', st') \<and> engine_ok n st' \<and> positive_fills res'"
proof -
  let ?s = "backstop_of st m" and ?cfg = "st_backstop_config st" and ?q = "sr_resting_qty res"
  have w: "windows_ok ?cfg" using ok by (simp add: engine_ok_def)
  obtain r s' where f: "fill_whole ?s ?cfg side ?q = Some (r, s')" and r: "r = None \<or> (\<exists>p. r = Some (p, ?q) \<and> ?q \<noteq> 0)"
    using fill_whole_total [OF w] by metis
  let ?st1 = "backstop_put st m s'"
  have ok1: "engine_ok n ?st1" using ok by simp
  then have b: "book_reachable (book_of ?st1 m)" "length (arena (book_of ?st1 m)) \<le> n" using book_of_ok by blast+
  obtain c b' where "cancel (book_of ?st1 m) i = Some (c, b')" "book_reachable b'" "length (arena b') \<le> n"
    using cancel_on_reachable [OF b(1), of i] b(2) by metis
  then show ?thesis using f r ok1 pos book_put_ok [OF ok1]
    by (auto simp: serve_resting_def Let_def backstop_fill_def positive_fills_def)
qed

lemma backstop_rescue_ok:
  "engine_ok n st \<Longrightarrow> positive_fills res \<Longrightarrow>
    \<exists>res' st'. backstop_rescue st p res = Some (res', st') \<and> engine_ok n st' \<and> positive_fills res'"
  by (auto simp: backstop_rescue_def Let_def intro: serve_leftover_ok serve_resting_ok split: option.splits)

section \<open>Positions\<close>

lemma in_i128_u64: "in_i128 (int (unat (w :: u64)))" "in_i128 (- int (unat (w :: u64)))"
proof -
  have "\<bar>int (unat w)\<bar> \<le> 2 ^ 64" by (rule int_unat_bound [OF unat_u64_less])
  also have "(2 :: int) ^ 64 \<le> 2 ^ 126" by simp
  finally have b: "\<bar>int (unat w)\<bar> \<le> 2 ^ 126" .
  then show "in_i128 (int (unat w))" by (rule in_i128_bound)
  from b have "\<bar>- int (unat w)\<bar> \<le> 2 ^ 126" by (simp only: abs_minus)
  then show "in_i128 (- int (unat w))" by (rule in_i128_bound)
qed

lemma in_i128_uint: "in_i128 (uint (w :: u64))" "in_i128 (- uint (w :: u64))"
  using in_i128_u64 [of w] by simp_all

lemma apply_fill_total:
  assumes "in_i128 (pf_signed_size p)" and "qty \<noteq> 0"
  obtains r f where "apply_fill A p buy price qty funding = Some (r, f)" and "in_i128 (pf_signed_size f)"
proof -
  have q: "0 < unat qty" "unat qty < 2 ^ 64" using assms(2) unat_u64_less by (auto simp: unat_gt_0)
  have "\<bar>pf_signed_size p\<bar> \<le> 2 ^ 127" using assms(1) by (auto simp: in_i128_def)
  then have "nat \<bar>pf_signed_size p\<bar> \<le> 2 ^ 127" by (simp add: nat_le_iff)
  then have "in_u128 (nat \<bar>pf_signed_size p\<bar> + unat qty)" using q(2) by (simp add: in_u128_def)
  then have nz: "wrap_u128 (int (nat \<bar>pf_signed_size p\<bar> + unat qty)) \<noteq> 0" using q(1) by (simp only: wrap_u128_id)
  have add: "\<exists>r f. add_branch p s price qty funding = Some (r, f) \<and> in_i128 (pf_signed_size f)" for s
    using nz by (simp add: add_branch_def Let_def wrap_i128_bound)
  have close: "in_i128 (pf_signed_size (snd (close_branch A p buy price qty funding)))"
    by (simp add: close_branch_def Let_def wrap_i128_bound in_i128_uint)
  obtain r1 f1 where "close_branch A p buy price qty funding = (r1, f1)" by (meson surj_pair)
  with close have close: "close_branch A p buy price qty funding = (r1, f1)" "in_i128 (pf_signed_size f1)" by simp_all
  define same where "same = (pf_signed_size p = 0 \<or> (0 < pf_signed_size p) = (0 < (if buy then int (unat qty) else - int (unat qty))))"
  show thesis
  proof (cases same)
    case True
    obtain d z f where "add_branch p (if buy then int (unat qty) else - int (unat qty)) price qty funding = Some ((d, z), f)"
      "in_i128 (pf_signed_size f)" using add by (metis surj_pair)
    with True that show ?thesis by (simp add: apply_fill_def Let_def same_def)
  next
    case False
    with close that show ?thesis by (cases r1) (simp add: apply_fill_def Let_def same_def)
  qed
qed

lemma existing_in_range:
  assumes "engine_ok n st"
  shows "in_i128 (pf_signed_size (from_existing (load_single_market_state_cached H st key m) l))"
  using assms in_i128_u64
  by (auto simp: from_existing_def load_single_market_state_cached_def load_single_market_state_def engine_ok_def in_i128_def [of 0]
      split: option.splits)

lemma cache_put_ok: "engine_ok n st \<Longrightarrow> (\<And>x. c = Some x \<Longrightarrow> in_i128 (pm_signed_size x)) \<Longrightarrow> engine_ok n (cache_put st k c)"
  by (auto simp: engine_ok_def cache_put_def)

lemma load_and_fold_ok:
  assumes "engine_ok n st" and "qty \<noteq> 0"
  shows "\<exists>d r st'. load_and_fold H st key m buy price qty funding l x = Some ((d, r), st') \<and> engine_ok n st'"
proof -
  obtain dr f where f: "apply_fill (h_i256_add H) (from_existing (load_single_market_state_cached H st key m) l) buy price qty funding = Some (dr, f)"
    "in_i128 (pf_signed_size f)" using apply_fill_total [OF existing_in_range [OF assms(1)] assms(2)] by metis
  then show ?thesis
    by (cases dr) (auto simp: load_and_fold_def Let_def position_of_fold_def intro!: cache_put_ok assms(1))
qed

lemma build_maker_leg_ok:
  assumes "engine_ok n st" and "fill_qty f \<noteq> 0"
  shows "\<exists>leg st'. build_maker_leg H st t k i m f buy a funding = Some (leg, st') \<and> engine_ok n st'"
  using load_and_fold_ok [OF assms, of H "trader_portfolio_key H st a" m "\<not> buy" "fill_tick f" funding 20 0]
  by (auto simp: build_maker_leg_def Let_def)

lemma settle_fill_ok:
  assumes "engine_ok n st" and "fill_qty f \<noteq> 0"
  shows "\<exists>sw' st'. settle_fill H s p funding v i f (sw, st) = Some (sw', st') \<and> engine_ok n st'"
proof (cases "st_owner_addresses st (fill_maker_owner f)")
  case None
  then show ?thesis using assms(1) by (simp add: settle_fill_def)
next
  case (Some a)
  obtain leg st1 where leg: "build_maker_leg H st s (op_nonce p) i (op_market_id p) f (op_side p = BuySide) a funding = Some (leg, st1)"
    and ok: "engine_ok n st1" using build_maker_leg_ok [OF assms] by blast
  let ?st2 = "index_market st1 (mf_portfolio_key leg) (op_market_id p)"
  have "engine_ok n ?st2" using ok by simp
  from load_and_fold_ok [OF this assms(2)] obtain d r st3 where
    "load_and_fold H ?st2 (trader_portfolio_key H ?st2 s) (op_market_id p) (op_side p = BuySide) (fill_tick f) (fill_qty f) funding
      (op_leverage p) (int (taker_fee (unat (fill_tick f) * unat (fill_qty f)) v)) = Some ((d, r), st3)" "engine_ok n st3" by blast
  then show ?thesis using Some leg by (simp add: settle_fill_def Let_def)
qed

lemma settle_fills_ok:
  "engine_ok n st \<Longrightarrow> (\<forall>f \<in> set fs. fill_qty f \<noteq> 0) \<Longrightarrow>
    \<exists>sw' st'. settle_fills H s p funding v i fs (sw, st) = Some (sw', st') \<and> engine_ok n st'"
proof (induction fs arbitrary: i sw st)
  case (Cons f fs)
  from settle_fill_ok [OF Cons.prems(1), of f] Cons.prems(2) obtain sw1 st1 where
    "settle_fill H s p funding v i f (sw, st) = Some (sw1, st1)" "engine_ok n st1" by (metis list.set_intros(1))
  with Cons.IH [of st1] Cons.prems(2) show ?case by auto
qed simp

lemma settle_order_ok:
  assumes "engine_ok n st" and "\<forall>f \<in> set fs. fill_qty f \<noteq> 0"
  shows "\<exists>sweep st'. settle_order H st s p fs = Some (sweep, st') \<and> engine_ok n st'"
proof -
  obtain sw st1 where "settle_fills H s p (funding_index_for st (op_market_id p)) (trader_volume_of st s) 0 fs (Sweep_empty, st) = Some (sw, st1)"
    and ok: "engine_ok n st1" using settle_fills_ok [OF assms] by blast
  moreover have "engine_ok n (snd (build_sweep H (add_volume st1 s (sw_weighted_price sw)) s (op_market_id p) sw))" using ok by simp
  ultimately show ?thesis by (auto simp: settle_order_def Let_def split_beta)
qed

section \<open>Requests\<close>

lemma execute_order_ok:
  assumes "engine_ok n st" and "n < NIL" and "unat (op_tick p) < tick_limit"
  shows "\<exists>res sweep st'. execute_order H st now p s = Some ((res, sweep), st') \<and> engine_ok (Suc n) st'"
proof -
  let ?st0 = "register_owner st s"
  have ok0: "engine_ok n ?st0" and t: "unat (no_tick (order_of p s)) < tick_limit" using assms by (simp_all add: order_of_def)
  obtain res st1 where r1: "book_submit ?st0 (op_market_id p) (order_of p s) now = Some (res, st1)" "engine_ok (Suc n) st1" "positive_fills res"
    using book_submit_ok [OF ok0 assms(2) t, of "op_market_id p" now] by (metis positive_fills_def)
  obtain res' st2 where r2: "backstop_rescue st1 p res = Some (res', st2)" "engine_ok (Suc n) st2" "positive_fills res'"
    using backstop_rescue_ok [OF r1(2,3)] by blast
  have "engine_ok (Suc n) (record_prints st2 (op_market_id p) now (sr_fills res'))" using r2(2) by simp
  from settle_order_ok [OF this, of "sr_fills res'" H s p] r2(3) obtain sweep st3 where
    "settle_order H (record_prints st2 (op_market_id p) now (sr_fills res')) s p (sr_fills res') = Some (sweep, st3)" "engine_ok (Suc n) st3"
    by (auto simp: positive_fills_def)
  with r1(1) r2(1) show ?thesis by (simp add: execute_order_def)
qed

lemma sane_tick: "\<not> MAX_SANE_TICK < t \<Longrightarrow> unat t < tick_limit"
  by (simp add: not_less word_le_nat_alt MAX_SANE_TICK_def tick_limit_def)

lemma check_collateral_ok:
  "check_deposited_collateral H st s m side t q l = (e, st') \<Longrightarrow> engine_ok n st' \<longleftrightarrow> engine_ok n st"
  by (auto simp: check_deposited_collateral_def load_portfolio_state_def Let_def split: option.splits prod.splits if_splits)

lemma post_order_ok:
  assumes "engine_ok n st" and "n < NIL"
  shows "\<exists>r st'. post_order H st now x = Some (r, st') \<and> engine_ok (Suc n) st'"
proof (cases x)
  case (Inl e)
  then show ?thesis using engine_ok_mono [OF assms(1)] by (simp add: unauthenticated)
next
  case (Inr ps)
  obtain p s where ps: "ps = (p, s)" by (cases ps)
  let ?st1 = "st\<lparr>st_last_nonce := (st_last_nonce st)(s \<mapsto> op_nonce p)\<rparr>"
  obtain e st2 where c: "check_deposited_collateral H ?st1 s (op_market_id p) (op_side p) (op_tick p) (op_qty p) (op_leverage p) = (e, st2)"
    by (meson surj_pair)
  have ok2: "engine_ok n st2" using check_collateral_ok [OF c, of n] assms(1) by simp
  have m: "engine_ok (Suc n) st" "engine_ok (Suc n) st2" using engine_ok_mono [OF assms(1)] engine_ok_mono [OF ok2] by simp_all
  show ?thesis
  proof (cases "MAX_SANE_TICK < op_tick p")
    case True
    then show ?thesis using Inr ps m by (simp add: post_order_def accept_nonce_cases)
  next
    case False
    from execute_order_ok [OF ok2 assms(2) sane_tick [OF False], of H now s] obtain res sweep st3 where
      "execute_order H st2 now p s = Some ((res, sweep), st3)" "engine_ok (Suc n) st3" by blast
    then show ?thesis using Inr ps m c False by (cases e) (simp_all add: post_order_def accept_nonce_cases)
  qed
qed

lemma post_offer_ok:
  assumes "engine_ok n st" and "n < NIL" and "\<And>p s. x = Inr (p, s) \<Longrightarrow> fp_max_size p \<noteq> 0"
  shows "\<exists>r st'. post_offer st now x = Some (r, st') \<and> engine_ok (Suc n) st'"
proof (cases x)
  case (Inl e)
  then show ?thesis using engine_ok_mono [OF assms(1)] by (simp add: unauthenticated)
next
  case (Inr ps)
  obtain p s where ps: "ps = (p, s)" by (cases ps)
  let ?st1 = "st\<lparr>st_last_nonce := (st_last_nonce st)(s \<mapsto> fp_nonce p)\<rparr>" and ?o = "offer_order p s"
  have ok1: "engine_ok n (register_owner ?st1 s)" using assms(1) by simp
  have m: "engine_ok (Suc n) st" using engine_ok_mono [OF assms(1)] by simp
  have o: "no_post_only ?o" "no_qty ?o \<noteq> 0" "no_tif ?o \<notin> {ImmediateOrCancel, FillOrKill}"
    using assms(3) Inr ps by (auto simp: offer_order_def split: option.splits)
  show ?thesis
  proof (cases "MAX_SANE_TICK < fp_tick p")
    case True
    then show ?thesis using Inr ps m by (simp add: post_offer_def accept_nonce_cases)
  next
    case False
    then have t: "unat (no_tick ?o) < tick_limit" using sane_tick by (simp add: offer_order_def)
    obtain res st2 where "book_submit (register_owner ?st1 s) (fp_market_id p) ?o now = Some (res, st2)" "engine_ok (Suc n) st2"
      "sr_post_only_rejected res \<or> sr_resting_id res \<noteq> None"
      using book_submit_ok [OF ok1 assms(2) t, of "fp_market_id p" now] o by metis
    then show ?thesis using Inr ps m False by (auto simp: post_offer_def accept_nonce_cases)
  qed
qed

lemma post_cancel_ok:
  assumes "engine_ok n st"
  shows "\<exists>r st'. post_cancel st x = Some (r, st') \<and> engine_ok n st'"
proof (cases x)
  case (Inl e)
  then show ?thesis using assms by (simp add: unauthenticated)
next
  case (Inr ps)
  obtain p s where ps: "ps = (p, s)" by (cases ps)
  let ?st1 = "st\<lparr>st_last_nonce := (st_last_nonce st)(s \<mapsto> cp_nonce p)\<rparr>"
  have ok1: "engine_ok n ?st1" using assms by simp
  have "\<exists>c b'. cancel b (cp_order_id p) = Some (c, b') \<and> engine_ok n (book_put ?st1 (cp_market_id p) b')"
    if "st_books st (cp_market_id p) = Some b" for b
  proof -
    have b: "book_reachable b" "length (arena b) \<le> n" using assms that by (auto simp: engine_ok_def)
    then show ?thesis using cancel_on_reachable [OF b(1), of "cp_order_id p"] book_put_ok [OF ok1] by metis
  qed
  then show ?thesis using Inr ps assms by (fastforce simp: post_cancel_def accept_nonce_cases split: option.splits)
qed

end
