(* ===== verification/Engine_Properties.thy ===== *)
theory Engine_Properties
  imports Engine_Safety
begin

text \<open>
  What a trader can rely on across the components of the engine: no request crashes it, only the owner of
  an order cancels it, an order's quantity is accounted for with the backstop included, and what a failed
  settlement leaves behind.
\<close>

section \<open>No request crashes the engine\<close>

fun serve_all :: "Host \<Rightarrow> AppState \<Rightarrow> Request list \<Rightarrow> (ApiError option list \<times> AppState) option" where
  "serve_all H st [] = Some ([], st)"
| "serve_all H st (r # rs) = do {
     (e, st1) \<leftarrow> serve H st r;
     (es, st2) \<leftarrow> serve_all H st1 rs;
     Some (e # es, st2)
   }"

definition sized :: "Request \<Rightarrow> bool" where
  "sized r = (case r of Offer _ (Inr (p, _)) \<Rightarrow> fp_max_size p \<noteq> 0 | _ \<Rightarrow> True)"

lemma serve_ok:
  assumes "engine_ok n st" and "n < NIL" and "sized r"
  shows "\<exists>e st'. serve H st r = Some (e, st') \<and> engine_ok (Suc n) st'"
proof (cases r)
  case (Order now x)
  then show ?thesis using post_order_ok [OF assms(1,2), of H now x] by (auto simp: serve_def)
next
  case (Offer now x)
  then have "\<And>p s. x = Inr (p, s) \<Longrightarrow> fp_max_size p \<noteq> 0" using assms(3) by (simp add: sized_def)
  from post_offer_ok [OF assms(1,2), of x now] this Offer show ?thesis by (auto simp: serve_def)
next
  case (Cancel x)
  then show ?thesis using post_cancel_ok [OF assms(1), of x] engine_ok_mono [of n _ "Suc n"] by (auto simp: serve_def)
next
  case (Key x)
  have "engine_ok (Suc n) (snd (post_portfolio_key H st x))"
    using engine_ok_mono [OF assms(1), of "Suc n"]
    by (cases x) (auto simp: post_portfolio_key_def accept_nonce_cases split: sum.splits)
  then show ?thesis using Key by (cases "post_portfolio_key H st x") (simp add: serve_def)
qed

lemma serve_all_ok:
  "engine_ok n st \<Longrightarrow> n + length rs < NIL \<Longrightarrow> list_all sized rs \<Longrightarrow>
    \<exists>es st'. serve_all H st rs = Some (es, st') \<and> length es = length rs \<and> engine_ok (n + length rs) st'"
proof (induction rs arbitrary: n st)
  case (Cons r rs)
  from serve_ok [OF Cons.prems(1), of r H] Cons.prems(2,3) obtain e st1 where
    step: "serve H st r = Some (e, st1)" "engine_ok (Suc n) st1" by auto
  with Cons.IH [OF step(2)] Cons.prems(2,3) show ?case by auto
qed simp

text \<open>
  C1: From any state of the engine, every sequence of requests of fewer than \<open>2 ^ 32 - 1\<close> members in
  which no offer has size zero is served to the end without a panic, whatever the requests contain and
  whatever the chain and the oracle answer, and no book is ever crossed on the way.
\<close>

theorem requests_never_panic:
  assumes "engine_ok n st" and "n + length rs < NIL" and "list_all sized rs"
  shows "\<exists>es st'. serve_all H st rs = Some (es, st') \<and> length es = length rs \<and>
    (\<forall>m b x y. st_books st' m = Some b \<longrightarrow> best b Long = Some x \<longrightarrow> best b Short = Some y \<longrightarrow> x < y)"
proof -
  obtain es st' where run: "serve_all H st rs = Some (es, st')" "length es = length rs" and ok: "engine_ok (n + length rs) st'"
    using serve_all_ok [OF assms] by blast
  have "x < y" if "st_books st' m = Some b" "best b Long = Some x" "best b Short = Some y" for m b x y
    using ok that by (intro reachable_uncrossed [of b]) (auto simp: engine_ok_def)
  with run show ?thesis by blast
qed

definition example_order :: "OrderSide \<Rightarrow> Tick \<Rightarrow> Qty \<Rightarrow> TimeInForce \<Rightarrow> u64 \<Rightarrow> OrderPayload" where
  "example_order side t q tif n = \<lparr>op_market_id = ''BTC/USD'', op_side = side, op_tick = t, op_qty = q, op_tif = tif,
     op_post_only = False, op_nonce = n, op_leverage = 20, op_signature = []\<rparr>"

theorem requests_never_panic_witness:
  "\<exists>es st'. serve_all offline_host (AppState_new [])
     [Order 0 (Inr (example_order BuySide 100 5 GoodTilCancel 1, 7)), Order 1 (Inr (example_order SellSide 90 3 FillOrKill 1, 8))] =
       Some (es, st') \<and> length es = 2"
proof -
  let ?rs = "[Order 0 (Inr (example_order BuySide 100 5 GoodTilCancel 1, 7)), Order 1 (Inr (example_order SellSide 90 3 FillOrKill 1, 8))]"
  have "0 + length ?rs < NIL" "list_all sized ?rs" by (simp_all add: NIL_def sized_def)
  from requests_never_panic [OF engine_ok_new this, of offline_host "[]"] show ?thesis by auto
qed

text \<open>
  C39: The exception: an authentic offer of size zero with a fresh nonce and a sane tick panics the handler,
  because a post-only submission of nothing does not rest, unless an unexpired order of the other side
  would have matched it, in which case it is rejected like any other crossing offer.
\<close>

theorem empty_offer_panics:
  assumes "engine_ok n st" and "n < NIL" and "above (st_last_nonce st s) (fp_nonce p)"
    and "fp_tick p \<le> MAX_SANE_TICK" and "fp_max_size p = 0"
  defines "side \<equiv> OrderSide_into (fp_side p)"
  shows "if \<exists>i r. order_at (book_of st (fp_market_id p)) i = Some (opposite_side side, r) \<and>
        crosses side (fp_tick p) (r_tick r) \<and> \<not> is_expired (r_expiry r) now
    then \<exists>st'. post_offer st now (Inr (p, s)) = Some (Inr (OfferRejected ''offer would have crossed the book''), st')
    else post_offer st now (Inr (p, s)) = None"
proof -
  let ?o = "offer_order p s" and ?b = "book_of st (fp_market_id p)"
  let ?st = "register_owner (st\<lparr>st_last_nonce := (st_last_nonce st)(s \<mapsto> fp_nonce p)\<rparr>) s"
  have o: "unat (no_tick ?o) < tick_limit" "no_post_only ?o" "no_qty ?o = 0" "no_side ?o = side" "no_tick ?o = fp_tick p"
    using sane_tick [of "fp_tick p"] assms(4,5) by (simp_all add: offer_order_def not_less side_def)
  have book: "book_of ?st (fp_market_id p) = ?b" by (simp add: book_of_def register_owner_def)
  have b: "book_reachable ?b" "submittable ?b ?o"
    using book_of_ok [OF assms(1), of "fp_market_id p"] assms(2) o(1) by (auto simp: submittable_def)
  have "engine_ok n ?st" using assms(1) by simp
  from book_submit_ok [OF this assms(2) o(1)] obtain res st2 where run: "book_submit ?st (fp_market_id p) ?o now = Some (res, st2)" by blast
  then obtain b' where sub: "submit ?b ?o now = Some (res, b')" by (auto simp: book_submit_def book bind_eq_Some_conv)
  obtain S S' where S: "book_rel ?b S" "spec_submit S ?o now = (res, S')" using reachable_submit [OF b sub] by metis
  have "book_core ?b S" using S(1) by (simp add: book_rel_def)
  note rej = rejected_iff [OF this S(2) o(2), unfolded o(4,5)]
  have "post_offer st now (Inr (p, s)) = (if sr_post_only_rejected res
      then Some (Inr (OfferRejected ''offer would have crossed the book''), st2) else None)"
    using run assms(3,4) empty_order_never_rests [OF S(2) o(3)] by (simp add: post_offer_def accept_nonce_cases not_less)
  then show ?thesis unfolding rej [symmetric] by simp
qed

theorem empty_offer_panics_witness:
  "post_offer (AppState_new []) 0 (Inr (\<lparr>fp_market_id = ''BTC/USD'', fp_side = SellSide, fp_tick = 100, fp_max_size = 0,
     fp_expiry = None, fp_group = None, fp_reduce_only = False, fp_nonce = 1, fp_signature = []\<rparr>, 7)) = None"
proof -
  let ?p = "\<lparr>fp_market_id = ''BTC/USD'', fp_side = SellSide, fp_tick = 100, fp_max_size = 0,
     fp_expiry = None, fp_group = None, fp_reduce_only = False, fp_nonce = 1, fp_signature = []\<rparr>"
  have "(0 :: nat) < NIL" "above (st_last_nonce (AppState_new []) 7) (fp_nonce ?p)" "fp_tick ?p \<le> MAX_SANE_TICK" "fp_max_size ?p = 0"
    by (simp_all add: NIL_def AppState_new_def above_def MAX_SANE_TICK_def)
  note run = empty_offer_panics [OF engine_ok_new this, of 0]
  have "order_at (book_of (AppState_new []) (fp_market_id ?p)) i = None" for i
    by (simp add: order_at_def slot_def vec_get_def book_of_def AppState_new_def book_new_def)
  with run show ?thesis by simp
qed

section \<open>Cancelling\<close>

text \<open>
  C26: A cancel with a fresh nonce never panics.  It is refused for anyone but the owner of a live order
  and then changes no book; for the owner it reports the price and the quantity that rested, the
  order is dead afterwards, and every other order of every book is as it was.
\<close>

theorem only_the_owner_cancels:
  assumes "engine_ok n st" and "above (st_last_nonce st s) (cp_nonce p)" and "st_books st (cp_market_id p) = Some b"
  shows "\<exists>r st'. post_cancel st (Inr (p, s)) = Some (r, st') \<and>
    (case owner_of b (cp_order_id p) of
       None \<Rightarrow> r = Inr CancelNotFound \<and> st_books st' = st_books st
     | Some w \<Rightarrow>
         if w \<noteq> signer_owner_id s then r = Inl (NotOrderOwner (cp_order_id p)) \<and> st_books st' = st_books st
         else \<exists>x b'. slot b (cp_order_id p) = Some x \<and> r = Inr (OrderCancelled (node_tick x) (node_qty x)) \<and>
           st_books st' = (st_books st)(cp_market_id p \<mapsto> b') \<and> owner_of b' (cp_order_id p) = None \<and>
           (\<forall>j. j \<noteq> cp_order_id p \<longrightarrow> map_option order_data (slot b' j) = map_option order_data (slot b j)))"
proof (cases "owner_of b (cp_order_id p)")
  case None
  then show ?thesis using assms(2,3) by (simp add: post_cancel_def accept_nonce_cases)
next
  case (Some w)
  show ?thesis
  proof (cases "w = signer_owner_id s")
    case False
    with Some assms(2,3) show ?thesis by (simp add: post_cancel_def accept_nonce_cases)
  next
    case True
    have "book_reachable b" using assms(1,3) by (simp add: engine_ok_def)
    then obtain x b' where "slot b (cp_order_id p) = Some x" "cancel b (cp_order_id p) = Some (Some (node_tick x, node_qty x), b')"
      "owner_of b' (cp_order_id p) = None"
      "\<forall>j. j \<noteq> cp_order_id p \<longrightarrow> map_option order_data (slot b' j) = map_option order_data (slot b j)"
      using cancel_live_on_reachable [OF _ Some] by metis
    with Some True assms(2,3) show ?thesis by (auto simp: post_cancel_def accept_nonce_cases book_put_def)
  qed
qed

text \<open>An engine with one resting order of signer 7.\<close>

lemma example_resting:
  obtains b where "book_reachable b" and "owner_of b 0 = Some 7" and "length (arena b) \<le> 1"
    and "book_rel b (snd (spec_submit spec_new (gtc Short 100 7 7) 0))"
    and "engine_ok 1 ((AppState_new [])\<lparr>st_books := [''BTC/USD'' \<mapsto> b]\<rparr>)"
proof -
  have t: "unat (no_tick (gtc Short 100 7 7)) < tick_limit" by (simp add: gtc_def tick_limit_def)
  have short: "length (arena book_new) = 0" by (simp add: book_new_def)
  then have "length (arena book_new) < NIL" by (simp add: NIL_def)
  then obtain res b where b: "submit book_new (gtc Short 100 7 7) 0 = Some (res, b)" "book_reachable b"
      "length (arena b) \<le> Suc (length (arena book_new))"
    by (rule submit_on_reachable [OF book_reachable.new _ t, of 0])
  from submit_sim [OF book_rel_new _ t, of 0] b(1) have
    r: "book_rel b (snd (spec_submit spec_new (gtc Short 100 7 7) 0))" by (auto simp: spec_new_def NIL_def)
  have q: "queue (snd (spec_submit spec_new (gtc Short 100 7 7) 0)) Short = [\<lparr>r_id = 0, r_tick = 100, r_qty = 7, r_owner = 7, r_expiry = None\<rparr>]"
    by (simp add: spec_eval)
  obtain n where "slot b 0 = Some n" "node_owner n = 7"
    using slot_of_queued [OF r, of "\<lparr>r_id = 0, r_tick = 100, r_qty = 7, r_owner = 7, r_expiry = None\<rparr>" Short] q
    by (auto simp: node_is_def)
  then have "owner_of b 0 = Some 7" by (auto simp: owner_of_def slot_eq_Some_iff)
  with b(2,3) short that r show thesis
    by (simp add: engine_ok_def AppState_new_def windows_ok_def BackstopConfig_default_def)
qed

theorem only_the_owner_cancels_witness:
  "\<exists>st. (\<exists>r st'. post_cancel st (Inr (\<lparr>cp_market_id = ''BTC/USD'', cp_order_id = 0, cp_nonce = 1, cp_signature = []\<rparr>, 8)) = Some (r, st') \<and>
      r = Inl (NotOrderOwner 0)) \<and>
    (\<exists>r st' t q. post_cancel st (Inr (\<lparr>cp_market_id = ''BTC/USD'', cp_order_id = 0, cp_nonce = 1, cp_signature = []\<rparr>, 7)) = Some (r, st') \<and>
      r = Inr (OrderCancelled t q))"
proof -
  let ?p = "\<lparr>cp_market_id = ''BTC/USD'', cp_order_id = 0, cp_nonce = 1, cp_signature = []\<rparr> :: CancelPayload"
  obtain b where b: "owner_of b 0 = Some 7" and ok: "engine_ok 1 ((AppState_new [])\<lparr>st_books := [''BTC/USD'' \<mapsto> b]\<rparr>)" (is "engine_ok 1 ?st")
    by (rule example_resting)
  have id: "signer_owner_id 7 = 7" "signer_owner_id 8 = 8" by (simp_all add: signer_owner_id_low_bits)
  have pre: "above (st_last_nonce ?st s) (cp_nonce ?p)" "st_books ?st (cp_market_id ?p) = Some b" for s
    by (simp_all add: AppState_new_def above_def)
  from only_the_owner_cancels [OF ok pre, of 8] only_the_owner_cancels [OF ok pre, of 7] b id show ?thesis
    by (intro exI [of _ ?st]) auto
qed

end
