(* ===== verification/Rescue.thy ===== *)
theory Rescue
  imports Engine_Properties
begin

text \<open>
  The quantity of an order from the book through the backstop rescue, and what the rescue does not look
  at: the limit price, and what became of the book in the meantime.
\<close>

section \<open>The quantity of an order\<close>

text \<open>What the book reported, and what the rescue makes of it.\<close>

definition accounted :: "OrderPayload \<Rightarrow> SubmitResult \<Rightarrow> bool" where
  "accounted p res \<longleftrightarrow> sum_fills (sr_fills res) + unat (sr_resting_qty res) \<le> unat (op_qty p) \<and>
     (op_tif p \<in> {ImmediateOrCancel, FillOrKill} \<longrightarrow> sr_resting_id res = None) \<and>
     (op_tif p = FillOrKill \<longrightarrow> (if sr_fill_or_kill_failed res \<or> sr_post_only_rejected res then sr_fills res = []
        else sum_fills (sr_fills res) = unat (op_qty p))) \<and>
     (op_tif p \<noteq> FillOrKill \<longrightarrow> \<not> sr_fill_or_kill_failed res) \<and>
     (sr_resting_id res = None \<longrightarrow> sr_resting_qty res = 0) \<and> (sr_post_only_rejected res \<longrightarrow> \<not> sr_fill_or_kill_failed res) \<and>
     (op_tif p \<notin> {ImmediateOrCancel, FillOrKill} \<longrightarrow> sr_post_only_rejected res \<or>
        sum_fills (sr_fills res) + unat (sr_resting_qty res) = unat (op_qty p))"

lemma book_submit_accounted:
  assumes "engine_ok n st" and "n < NIL" and "unat (op_tick p) < tick_limit"
    and "book_submit st m (order_of p s) now = Some (res, st')"
  shows "accounted p res"
proof -
  have b: "book_reachable (book_of st m)" "submittable (book_of st m) (order_of p s)"
    using book_of_ok [OF assms(1), of m] assms(2,3) by (auto simp: submittable_def order_of_def)
  obtain b' where sub: "submit (book_of st m) (order_of p s) now = Some (res, b')"
    using assms(4) by (auto simp: book_submit_def bind_eq_Some_conv)
  obtain S S' where run: "spec_submit S (order_of p s) now = (res, S')" using reachable_submit [OF b sub] by metis
  have f: "no_tif (order_of p s) = op_tif p" "no_qty (order_of p s) = op_qty p" by (simp_all add: order_of_def)
  have ioc: "sr_resting_id res = None" if "op_tif p \<in> {ImmediateOrCancel, FillOrKill}" 
    using spec_submit_immediate [OF run] that f by simp
  have kill: "\<not> sr_fill_or_kill_failed res" if "op_tif p \<noteq> FillOrKill" using spec_submit_kill [OF run] that f by auto
  show ?thesis unfolding accounted_def
    using taker_quantity_spec [OF run] fok_spec [OF run] spec_submit_flags [OF run] ioc kill f by auto
qed

section \<open>The rescue\<close>

lemma sum_fills_append [simp]: "sum_fills (fs @ gs) = sum_fills fs + sum_fills gs"
  by (simp add: sum_fills_def)

lemma sum_fills_simps [simp]: "sum_fills [] = 0" "sum_fills (f # fs) = unat (fill_qty f) + sum_fills fs"
  by (simp_all add: sum_fills_def)

lemma backstop_fill_qty [simp]: "fill_qty (backstop_fill p q r) = q" "fill_tick (backstop_fill p q r) = p"
  by (simp_all add: backstop_fill_def)

lemma sum_list_fill_qty: "sum_list (map fill_qty fs) = of_nat (sum_fills fs)"
  by (induction fs) simp_all

lemma leftover_exact:
  assumes "sum_fills fs \<le> unat q"
  shows "unat (saturating_sub_u64 q (sum_list (map fill_qty fs))) = unat q - sum_fills fs"
proof -
  have "sum_fills fs < 2 ^ 64" using assms unat_u64_less [of q] by linarith
  then show ?thesis by (simp add: sum_list_fill_qty unat_saturating_sub_u64 unat_of_nat)
qed

lemma fill_whole_cases:
  assumes "fill_whole s cfg side q = Some (r, s')"
  obtains "r = None" "s' = s" | price where "r = Some (price, q)" "s' = commit_fill s side q"
  using assms by (auto simp: fill_whole_def bind_eq_Some_conv split: option.splits if_splits)

lemma quote_and_check_le:
  assumes "quote_and_check s cfg side q = Some (Some (price, n))"
  shows "n \<le> q"
proof -
  obtain c where c: "quote s cfg side = Some c" using assms by (cases "quote s cfg side") (simp_all add: quote_and_check_def)
  obtain p where p: "quote s cfg side = Some (Some p)" using assms c by (cases c) (simp_all add: quote_and_check_def)
  then have h: "bs_history s \<noteq> []" using assms by (auto simp: quote_and_check_def)
  obtain d where d: "trailing_mean s (bc_last_look_window cfg) = Some d"
    using assms p h by (cases "trailing_mean s (bc_last_look_window cfg)") (simp_all add: quote_and_check_def)
  show ?thesis using assms p h d by (cases d) (auto simp: quote_and_check_def Let_def split: if_split_asm)
qed

lemma try_fill_part:
  assumes "try_fill s cfg side q = Some (r, s')"
  shows "r = None \<and> s' = s \<or> (\<exists>price n. r = Some (price, n) \<and> n \<le> q \<and> s' = commit_fill s side n)"
proof (cases r)
  case None
  with assms try_fill_cases [OF assms] show ?thesis by simp
next
  case (Some pn)
  obtain price n where pn: "pn = (price, n)" by (cases pn)
  obtain c where c: "quote_and_check s cfg side q = Some c" using assms by (auto simp: try_fill_def bind_eq_Some_conv)
  with assms Some pn have "c = Some (price, n)" by (simp add: try_fill_def split: option.split_asm prod.split_asm)
  then have "n \<le> q" using c by (intro quote_and_check_le [of s cfg side q price]) simp
  with try_fill_cases [OF assms] Some pn show ?thesis by auto
qed

lemma serve_leftover_accounted:
  assumes "accounted p res" and "serve_leftover st m side req res = Some (res', st')"
    and "op_tif p = ImmediateOrCancel \<and> unat req = unat (op_qty p) - sum_fills (sr_fills res) \<and> \<not> sr_fill_or_kill_failed res \<or>
      sr_fill_or_kill_failed res \<and> req = op_qty p"
  shows "accounted p res'"
proof (cases "sr_fill_or_kill_failed res")
  case True
  then have k: "op_tif p = FillOrKill" "sr_fills res = []" "req = op_qty p" using assms(1,3) by (auto simp: accounted_def split: if_splits)
  from assms(2) True obtain r s where w: "fill_whole (backstop_of st m) (st_backstop_config st) side req = Some (r, s)"
    and res': "res' = (case r of None \<Rightarrow> res | Some (price, filled) \<Rightarrow>
      res\<lparr>sr_fills := sr_fills res @ [backstop_fill price filled req], sr_fill_or_kill_failed := False\<rparr>)"
    by (auto simp: serve_leftover_def bind_eq_Some_conv)
  show ?thesis using w
  proof (cases rule: fill_whole_cases)
    case 1
    with res' assms(1) show ?thesis by simp
  next
    case (2 price)
    with res' k assms(1) show ?thesis by (auto simp: accounted_def True)
  qed
next
  case False
  then have k: "op_tif p = ImmediateOrCancel" "unat req = unat (op_qty p) - sum_fills (sr_fills res)" using assms(3) by auto
  from assms(2) False obtain r s where w: "try_fill (backstop_of st m) (st_backstop_config st) side req = Some (r, s)"
    and res': "res' = (case r of None \<Rightarrow> res | Some (price, filled) \<Rightarrow>
      res\<lparr>sr_fills := sr_fills res @ [backstop_fill price filled req], sr_fill_or_kill_failed := False\<rparr>)"
    by (auto simp: serve_leftover_def bind_eq_Some_conv)
  from try_fill_part [OF w] show ?thesis
  proof (elim disjE exE conjE)
    assume "r = None"
    with res' assms(1) show ?thesis by simp
  next
    fix price n assume 2: "r = Some (price, n)" "n \<le> req"
    then have "unat n \<le> unat (op_qty p) - sum_fills (sr_fills res)" using k(2) by (simp add: word_le_nat_alt)
    with 2 res' k assms(1) False show ?thesis by (auto simp: accounted_def)
  qed
qed

lemma serve_resting_accounted:
  assumes "accounted p res" and "sr_resting_id res = Some i" and "serve_resting st m side i res = Some (res', st')"
  shows "accounted p res'"
proof -
  from assms(3) obtain r s where w: "fill_whole (backstop_of st m) (st_backstop_config st) side (sr_resting_qty res) = Some (r, s)"
    and res': "res' = (case r of None \<Rightarrow> res | Some (price, filled) \<Rightarrow>
      res\<lparr>sr_fills := sr_fills res @ [backstop_fill price filled (sr_resting_qty res)], sr_resting_id := None, sr_resting_qty := 0\<rparr>)"
    by (auto simp: serve_resting_def Let_def bind_eq_Some_conv split: option.splits)
  show ?thesis using w
  proof (cases rule: fill_whole_cases)
    case 1
    with res' assms(1) show ?thesis by simp
  next
    case (2 price)
    with res' assms(1,2) show ?thesis by (auto simp: accounted_def)
  qed
qed

lemma backstop_rescue_accounted:
  assumes acc: "accounted p res" and run: "backstop_rescue st p res = Some (res', st')"
  shows "accounted p res'"
proof (cases "sr_fill_or_kill_failed res")
  case True
  with run show ?thesis
    by (intro serve_leftover_accounted [OF acc]) (auto simp: backstop_rescue_def Let_def)
next
  case False
  have left: "unat (saturating_sub_u64 (op_qty p) (sum_list (map fill_qty (sr_fills res)))) = unat (op_qty p) - sum_fills (sr_fills res)"
    using acc by (intro leftover_exact) (auto simp: accounted_def)
  show ?thesis
  proof (cases "op_tif p = ImmediateOrCancel \<and> 0 < saturating_sub_u64 (op_qty p) (sum_list (map fill_qty (sr_fills res)))")
    case True
    with run False left show ?thesis
      by (intro serve_leftover_accounted [OF acc]) (auto simp: backstop_rescue_def Let_def)
  next
    case no: False
    show ?thesis
    proof (cases "sr_resting_id res")
      case None
      with run False no acc show ?thesis by (auto simp: backstop_rescue_def Let_def)
    next
      case (Some i)
      with run False no have "serve_resting st (op_market_id p) (OrderSide_into (op_side p)) i res = Some (res', st')"
        by (auto simp: backstop_rescue_def Let_def)
      then show ?thesis by (rule serve_resting_accounted [OF acc Some])
    qed
  qed
qed

text \<open>
  The handler releases the lock of the books between the submission and the rescue, and ignores the answer of
  the cancel.  Whatever other requests have made of the book in between, even when they have filled the
  resting order, the rescue reports the same: its whole quantity, filled by the backstop once more.
\<close>

lemma leftover_does_not_look_at_book:
  "serve_leftover st m side q res = Some (res', st') \<Longrightarrow> \<exists>st''. serve_leftover (book_put st m b) m side q res = Some (res', st'')"
  by (auto simp: serve_leftover_def book_put_def backstop_of_def bind_eq_Some_conv split: if_splits)

lemma resting_does_not_look_at_book:
  assumes "serve_resting st m side i res = Some (res', st')" and "book_reachable b"
  shows "\<exists>st''. serve_resting (book_put st m b) m side i res = Some (res', st'')"
proof -
  obtain x b' where c: "cancel b i = Some (x, b')" using cancel_on_reachable [OF assms(2)] by blast
  have same: "backstop_of (book_put st m b) m = backstop_of st m" "st_backstop_config (book_put st m b) = st_backstop_config st"
    by (simp_all add: book_put_def backstop_of_def)
  have book: "book_of (backstop_put (book_put st m b) m s) m = b" for s by (simp add: book_of_def book_put_def backstop_put_def)
  obtain r s where w: "fill_whole (backstop_of st m) (st_backstop_config st) side (sr_resting_qty res) = Some (r, s)"
    using assms(1) by (auto simp: serve_resting_def bind_eq_Some_conv)
  show ?thesis using assms(1) unfolding serve_resting_def same w
    by (cases r) (auto simp: Let_def book c bind_eq_Some_conv)
qed

lemma rescue_does_not_look_at_book:
  assumes "backstop_rescue st p res = Some (res', st')" and "book_reachable b"
  shows "\<exists>st''. backstop_rescue (book_put st (op_market_id p) b) p res = Some (res', st'')"
  using assms(1) unfolding backstop_rescue_def Let_def
  by (auto split: if_split_asm option.split_asm
      intro: leftover_does_not_look_at_book resting_does_not_look_at_book [OF _ assms(2)] simp del: sum_list_map_filter)

section \<open>The order as a whole\<close>

text \<open>
  C5: An executed order is accounted for to the unit across the book and the backstop: fills and the
  resting quantity never exceed it; an immediate order leaves nothing resting; a fill-or-kill order is
  filled completely or not at all, the second exactly when the trader is told it was rejected; and a
  good-til order that is not rejected is filled or resting in full.
\<close>

theorem order_quantity_accounted:
  assumes "engine_ok n st" and "n < NIL" and "op_tick p \<le> MAX_SANE_TICK"
    and "execute_order H st now p s = Some ((res, sweep), st')"
  shows "sum_fills (sr_fills res) + unat (sr_resting_qty res) \<le> unat (op_qty p) \<and>
    (op_tif p \<in> {ImmediateOrCancel, FillOrKill} \<longrightarrow> sr_resting_id res = None \<and> sr_resting_qty res = 0) \<and>
    (op_tif p = FillOrKill \<longrightarrow> (case order_response res of OrderRejected _ \<Rightarrow> sr_fills res = []
        | _ \<Rightarrow> sum_fills (sr_fills res) = unat (op_qty p))) \<and>
    (op_tif p \<notin> {ImmediateOrCancel, FillOrKill} \<longrightarrow> (case order_response res of OrderRejected _ \<Rightarrow> True
        | _ \<Rightarrow> sum_fills (sr_fills res) + unat (sr_resting_qty res) = unat (op_qty p)))"
proof -
  from assms(4) obtain res0 st1 st2 where sub: "book_submit (register_owner st s) (op_market_id p) (order_of p s) now = Some (res0, st1)"
    and rescue: "backstop_rescue st1 p res0 = Some (res, st2)"
    by (auto simp: execute_order_def bind_eq_Some_conv)
  have "accounted p res0"
    by (rule book_submit_accounted [OF _ assms(2) sane_tick sub]) (use assms(1,3) in simp_all)
  from backstop_rescue_accounted [OF this rescue] show ?thesis
    by (auto simp: accounted_def order_response_def split: option.splits)
qed

theorem order_quantity_accounted_witness:
  "\<exists>res sweep st'. execute_order offline_host (AppState_new []) 0 (example_order BuySide 100 5 FillOrKill 1) 7 = Some ((res, sweep), st') \<and>
    sr_resting_id res = None \<and> (sr_fills res = [] \<or> sum_fills (sr_fills res) = 5)"
proof -
  let ?p = "example_order BuySide 100 5 FillOrKill 1"
  have p: "op_tick ?p \<le> MAX_SANE_TICK" "op_tif ?p = FillOrKill" "unat (op_qty ?p) = 5"
    by (simp_all add: example_order_def MAX_SANE_TICK_def)
  have z: "(0 :: nat) < NIL" by (simp add: NIL_def)
  obtain res sweep st' where run: "execute_order offline_host (AppState_new []) 0 ?p 7 = Some ((res, sweep), st')"
    using execute_order_ok [OF engine_ok_new z sane_tick, of ?p] p(1) by (metis not_less)
  from order_quantity_accounted [OF engine_ok_new z p(1) run] p(2,3) run show ?thesis
    by (auto split: OrderResponse.splits)
qed

section \<open>What the rescue does not look at\<close>

lemma book_submit_frame:
  assumes "book_submit st m o' now = Some (r, st')"
  shows "backstop_of st' k = backstop_of st k \<and> st_backstop_config st' = st_backstop_config st"
  using assms by (auto simp: book_submit_def bind_eq_Some_conv book_put_def backstop_of_def)

lemma rescue_of_leftover:
  assumes "engine_ok n st" and "n < NIL" and "op_tick p \<le> MAX_SANE_TICK" and "op_tif p = ImmediateOrCancel"
    and "book_submit (register_owner st s) (op_market_id p) (order_of p s) now = Some (res, st1)"
    and "rest = saturating_sub_u64 (op_qty p) (sum_list (map fill_qty (sr_fills res)))" and "0 < rest"
    and "quote_and_check (backstop_of st (op_market_id p)) (st_backstop_config st) (OrderSide_into (op_side p)) rest =
      Some (Some (price, k))"
  shows "\<exists>res' sweep st'. execute_order H st now p s = Some ((res', sweep), st') \<and>
    sr_fills res' = sr_fills res @ [backstop_fill price k rest] \<and>
    (sr_post_only_rejected res \<longrightarrow> order_response res' = OrderRejected ''post_only order would have crossed'')"
proof -
  have ok: "engine_ok n (register_owner st s)" and t: "unat (op_tick p) < tick_limit"
    using assms(1,3) by (simp_all add: sane_tick)
  have kill: "\<not> sr_fill_or_kill_failed res"
    using book_submit_accounted [OF ok assms(2) t assms(5)] assms(4) by (auto simp: accounted_def)
  obtain res' sweep st' where run: "execute_order H st now p s = Some ((res', sweep), st')"
    using execute_order_ok [OF assms(1,2) t] by blast
  then obtain st2 where "backstop_rescue st1 p res = Some (res', st2)"
    using assms(5) by (auto simp: execute_order_def bind_eq_Some_conv)
  moreover have "backstop_of st1 (op_market_id p) = backstop_of st (op_market_id p)" "st_backstop_config st1 = st_backstop_config st"
    using book_submit_frame [OF assms(5)] by (simp_all add: register_owner_def backstop_of_def)
  ultimately have "res' = res\<lparr>sr_fills := sr_fills res @ [backstop_fill price k rest], sr_fill_or_kill_failed := False\<rparr>"
    using assms(4,6,7,8) kill
    by (simp add: backstop_rescue_def serve_leftover_def try_fill_def Let_def)
  with run show ?thesis by (simp add: order_response_def)
qed

text \<open>
  C23: Whenever the book leaves part of an immediate-or-cancel order unfilled and the backstop quotes for
  the rest, that rest is filled at the maker's quote.  No hypothesis relates the quote to the limit of the
  order, and none asks whether the order was refused as post-only: such an order is answered with a
  rejection although it has been filled.
\<close>

theorem rescue_ignores_limit_and_rejection:
  assumes "engine_ok n st" and "n < NIL" and "op_tick p \<le> MAX_SANE_TICK" and "op_tif p = ImmediateOrCancel"
    and "book_submit (register_owner st s) (op_market_id p) (order_of p s) now = Some (res, st1)"
    and "rest = saturating_sub_u64 (op_qty p) (sum_list (map fill_qty (sr_fills res)))" and "0 < rest"
    and "quote_and_check (backstop_of st (op_market_id p)) (st_backstop_config st) (OrderSide_into (op_side p)) rest =
      Some (Some (price, k))"
  shows "\<exists>res' sweep st'. execute_order H st now p s = Some ((res', sweep), st') \<and>
    sr_fills res' = sr_fills res @ [backstop_fill price k rest] \<and>
    (sr_post_only_rejected res \<longrightarrow> order_response res' = OrderRejected ''post_only order would have crossed'')"
  by (rule rescue_of_leftover [OF assms])

definition example_quotes :: BackstopState where
  "example_quotes = \<lparr>bs_history = [100, 100, 100], bs_inventory = 0, bs_cumulative_pnl = 0\<rparr>"

lemma example_quote:
  assumes "0 < q"
  shows "quote_and_check example_quotes BackstopConfig_default Long q = Some (Some (100, q))"
proof -
  have "min q (- 1) = q" by (simp add: min_def)
  moreover have "q \<noteq> 0" using assms by auto
  ultimately show ?thesis
    by (simp add: example_quotes_def quote_and_check_def quote_def trailing_mean_def BackstopConfig_default_def Let_def
      tick_effective_spread_bps_def TICK_BPS_DENOMINATOR_def tick_abs_diff_def saturating_add_u64_def)
qed

text \<open>An engine whose backstop quotes 100 and whose book is empty serves a buy order with limit 50 at 100.\<close>

lemma example_rescue_on:
  assumes "0 < q" and ok: "engine_ok 0 st" and "st_books st = Map.empty"
    and "st_backstop st = [''BTC/USD'' \<mapsto> example_quotes]" and "st_backstop_config st = BackstopConfig_default"
  obtains res sweep st' where
    "execute_order offline_host st 0 (example_order BuySide 50 q ImmediateOrCancel 1) 8 = Some ((res, sweep), st')"
    and "sr_fills res = [backstop_fill 100 q q]"
proof -
  let ?p = "example_order BuySide 50 q ImmediateOrCancel 1"
  have p: "op_tick ?p \<le> MAX_SANE_TICK" "op_tif ?p = ImmediateOrCancel" "op_market_id ?p = ''BTC/USD''" "op_qty ?p = q"
    "OrderSide_into (op_side ?p) = Long" "unat (no_tick (order_of ?p 8)) < tick_limit"
    by (simp_all add: example_order_def MAX_SANE_TICK_def OrderSide_into_def order_of_def tick_limit_def)
  have "book_of (register_owner st 8) ''BTC/USD'' = book_new" using assms(3) by (simp add: book_of_def register_owner_def)
  moreover have "fst (spec_submit spec_new (order_of ?p 8) 0) = SubmitResult_default"
    by (simp add: spec_eval order_of_def example_order_def OrderSide_into_def)
  ultimately obtain st1 where "book_submit (register_owner st 8) ''BTC/USD'' (order_of ?p 8) 0 = Some (SubmitResult_default, st1)"
    using submit_new [OF p(6), of 0] by (auto simp: book_submit_def)
  moreover have "quote_and_check (backstop_of st ''BTC/USD'') (st_backstop_config st) Long q = Some (Some (100, q))"
    using example_quote [OF assms(1)] assms(4,5) by (simp add: backstop_of_def)
  moreover have "(0 :: nat) < NIL" "saturating_sub_u64 q 0 = q" by (simp_all add: NIL_def saturating_sub_u64_def)
  ultimately show thesis using that
    rescue_of_leftover [OF ok _ p(1,2), where rest = q and price = 100 and k = q and H = offline_host and s = 8 and now = 0] p(3-5) assms(1)
    by (auto simp: SubmitResult_default_def)
qed

definition example_quoting :: AppState where
  "example_quoting = (AppState_new [])\<lparr>st_backstop := [''BTC/USD'' \<mapsto> example_quotes]\<rparr>"

lemma example_rescue:
  assumes "0 < q"
  obtains res sweep st' where
    "execute_order offline_host example_quoting 0 (example_order BuySide 50 q ImmediateOrCancel 1) 8 = Some ((res, sweep), st')"
    and "sr_fills res = [backstop_fill 100 q q]"
proof -
  have ok: "engine_ok 0 example_quoting" using engine_ok_new [of "[]"] by (simp add: example_quoting_def engine_ok_def)
  show thesis by (rule example_rescue_on [OF assms ok _ _ _ that]) (simp_all add: example_quoting_def AppState_new_def)
qed

text \<open>A resting sell order at 100 of signer 7 in the book, and a backstop that quotes 100.\<close>

lemma example_with_quotes:
  obtains b where "book_rel b (snd (spec_submit spec_new (gtc Short 100 7 7) 0))"
    and "engine_ok 1 ((AppState_new [])\<lparr>st_books := [''BTC/USD'' \<mapsto> b], st_backstop := [''BTC/USD'' \<mapsto> example_quotes]\<rparr>)"
proof -
  obtain b where "book_rel b (snd (spec_submit spec_new (gtc Short 100 7 7) 0))"
    "engine_ok 1 ((AppState_new [])\<lparr>st_books := [''BTC/USD'' \<mapsto> b]\<rparr>)" by (rule example_resting)
  then show thesis by (intro that) (auto simp: engine_ok_def)
qed

theorem rescue_ignores_limit_and_rejection_witness:
  "\<exists>st. (\<exists>res sweep st'. execute_order offline_host st 0 (example_order BuySide 50 3 ImmediateOrCancel 1) 8 = Some ((res, sweep), st') \<and>
      sr_fills res = [backstop_fill 100 3 3]) \<and>
    (\<exists>res sweep st'. execute_order offline_host st 0 ((example_order BuySide 100 3 ImmediateOrCancel 1)\<lparr>op_post_only := True\<rparr>) 8 =
       Some ((res, sweep), st') \<and> sr_fills res = [backstop_fill 100 3 3] \<and>
       order_response res = OrderRejected ''post_only order would have crossed'')"
proof -
  let ?p1 = "example_order BuySide 50 3 ImmediateOrCancel 1"
  let ?p2 = "(example_order BuySide 100 3 ImmediateOrCancel 1)\<lparr>op_post_only := True\<rparr>"
  let ?S = "snd (spec_submit spec_new (gtc Short 100 7 7) 0)"
  obtain b where rel: "book_rel b ?S" and
    ok: "engine_ok 1 ((AppState_new [])\<lparr>st_books := [''BTC/USD'' \<mapsto> b], st_backstop := [''BTC/USD'' \<mapsto> example_quotes]\<rparr>)"
      (is "engine_ok 1 ?st")
    by (rule example_with_quotes)
  have id: "signer_owner_id 8 = 8" by (simp add: signer_owner_id_low_bits)
  have S: "sb_next ?S < NIL" "spec_submit ?S (order_of ?p1 8) 0 = (SubmitResult_default, ?S)"
    "fst (spec_submit ?S (order_of ?p2 8) 0) = SubmitResult_default\<lparr>sr_post_only_rejected := True\<rparr>"
    by (simp_all add: spec_eval NIL_def order_of_def example_order_def id spec_best_def OrderSide_into_def)
  have book: "book_of (register_owner ?st 8) ''BTC/USD'' = b" by (simp add: book_of_def register_owner_def)
  have sub: "\<exists>st1. book_submit (register_owner ?st 8) ''BTC/USD'' o' 0 = Some (fst (spec_submit ?S o' 0), st1)"
    if "unat (no_tick o') < tick_limit" for o'
    using submit_sim [OF rel S(1) that, of 0] book by (auto simp: book_submit_def)
  have p: "op_tick ?p1 \<le> MAX_SANE_TICK" "op_tick ?p2 \<le> MAX_SANE_TICK" "op_market_id ?p1 = ''BTC/USD''" "op_market_id ?p2 = ''BTC/USD''"
    "op_tif ?p1 = ImmediateOrCancel" "op_tif ?p2 = ImmediateOrCancel" "op_qty ?p1 = 3" "op_qty ?p2 = 3"
    "OrderSide_into (op_side ?p1) = Long" "OrderSide_into (op_side ?p2) = Long"
    by (simp_all add: example_order_def MAX_SANE_TICK_def OrderSide_into_def)
  have t: "unat (no_tick (order_of ?p1 8)) < tick_limit" "unat (no_tick (order_of ?p2 8)) < tick_limit"
    by (simp_all add: order_of_def example_order_def tick_limit_def)
  have q: "quote_and_check (backstop_of ?st ''BTC/USD'') (st_backstop_config ?st) Long 3 = Some (Some (100, 3))"
    using example_quote by (simp add: backstop_of_def AppState_new_def)
  have n: "(1 :: nat) < NIL" by (simp add: NIL_def)
  obtain st1 st2 where s1: "book_submit (register_owner ?st 8) ''BTC/USD'' (order_of ?p1 8) 0 = Some (SubmitResult_default, st1)"
    and s2: "book_submit (register_owner ?st 8) ''BTC/USD'' (order_of ?p2 8) 0 =
      Some (SubmitResult_default\<lparr>sr_post_only_rejected := True\<rparr>, st2)"
    using sub [OF t(1)] sub [OF t(2)] S(2,3) by auto
  have z: "saturating_sub_u64 3 0 = (3 :: u64)" by (simp add: saturating_sub_u64_def)
  note run = rescue_ignores_limit_and_rejection [OF ok n, where rest = 3 and price = 100 and k = 3 and H = offline_host and s = 8 and now = 0]
  have "\<exists>res sweep st'. execute_order offline_host ?st 0 ?p1 8 = Some ((res, sweep), st') \<and> sr_fills res = [backstop_fill 100 3 3]"
    using run [of ?p1, OF p(1,5)] s1 p(3,7,9) q z by (simp add: SubmitResult_default_def)
  moreover have "\<exists>res sweep st'. execute_order offline_host ?st 0 ?p2 8 = Some ((res, sweep), st') \<and> sr_fills res = [backstop_fill 100 3 3] \<and>
      order_response res = OrderRejected ''post_only order would have crossed''"
    using run [of ?p2, OF p(2,6)] s2 p(4,8,10) q z by (simp add: SubmitResult_default_def)
  ultimately show ?thesis by blast
qed

end
