(* ===== verification/Recovery.thy ===== *)
theory Recovery
  imports Rescue
begin

text \<open>
  What survives a restart: the enclave secrets with their byte layout and their recovery
  (\<open>cerdic-tee-matcher/src/kms.rs\<close>) and the state database (\<open>persistence.rs\<close>).  The key service, the
  bucket, hex decoding, the random generator and JSON are parameters.  The last part composes the database with
  the engine: replay protection across a restart.
\<close>

section \<open>Secrets\<close>

datatype KmsError = NotConfigured | MetadataUnreachable string | Gcs string | Kms string | BadLength nat

definition SECRET_BYTES_LEN :: nat where "SECRET_BYTES_LEN = 96"

definition secrets_to_bytes :: "EnclaveSecrets \<Rightarrow> bytes" where
  "secrets_to_bytes s = es_sealed_key s @ es_settlement_signer_seed s @ es_portfolio_key_secret s"

definition secrets_from_bytes :: "bytes \<Rightarrow> KmsError + EnclaveSecrets" where
  "secrets_from_bytes bs =
     (if length bs \<noteq> SECRET_BYTES_LEN then Inl (BadLength (length bs))
      else Inr \<lparr>es_sealed_key = take 32 bs, es_settlement_signer_seed = take 32 (drop 32 bs),
                es_portfolio_key_secret = take 32 (drop 64 bs)\<rparr>)"

definition strip_0x :: "string \<Rightarrow> string" where
  "strip_0x s = (if take 2 s = ''0x'' then drop 2 s else s)"

definition secrets_from_dev_seed :: "(string \<Rightarrow> bytes option) \<Rightarrow> (bytes \<Rightarrow> bytes) \<Rightarrow> string \<Rightarrow> KmsError + EnclaveSecrets" where
  "secrets_from_dev_seed hex_decode keccak seed_hex =
     (case hex_decode (strip_0x seed_hex) of None \<Rightarrow> Inl (BadLength (length (strip_0x seed_hex)))
      | Some seed \<Rightarrow>
          let derive = (\<lambda>label. keccak (seed @ string_bytes label)) in
          Inr \<lparr>es_sealed_key = derive ''sealed_key'', es_settlement_signer_seed = derive ''settlement_signer_seed'',
               es_portfolio_key_secret = derive ''portfolio_key_secret''\<rparr>)"

text \<open>The outside world of a boot: the environment, the services and the random secrets.\<close>

record Boot =
  bt_dev_seed :: "string option"
  bt_kms_key :: "string option"
  bt_bucket :: "string option"
  bt_object :: "string option"
  bt_hex_decode :: "string \<Rightarrow> bytes option"
  bt_keccak :: "bytes \<Rightarrow> bytes"
  bt_token :: "KmsError + string"
  bt_gcs_get :: "string \<Rightarrow> string \<Rightarrow> string \<Rightarrow> KmsError + bytes option"
  bt_gcs_put :: "string \<Rightarrow> string \<Rightarrow> string \<Rightarrow> bytes \<Rightarrow> KmsError + unit"
  bt_kms_encrypt :: "string \<Rightarrow> string \<Rightarrow> bytes \<Rightarrow> KmsError + bytes"
  bt_kms_decrypt :: "string \<Rightarrow> string \<Rightarrow> bytes \<Rightarrow> KmsError + bytes"
  bt_generated :: EnclaveSecrets

definition try_step :: "'e + 'a \<Rightarrow> ('a \<Rightarrow> 'e + 'b) \<Rightarrow> 'e + 'b" where
  "try_step r f = (case r of Inl e \<Rightarrow> Inl e | Inr x \<Rightarrow> f x)"

definition try_recover_or_generate :: "Boot \<Rightarrow> KmsError + EnclaveSecrets" where
  "try_recover_or_generate B =
     (case (bt_kms_key B, bt_bucket B) of (Some kms_key, Some bucket) \<Rightarrow>
        let object = (case bt_object B of Some ob \<Rightarrow> ob | None \<Rightarrow> ''enclave-secrets.bin'') in
        try_step (bt_token B) (\<lambda>token.
        try_step (bt_gcs_get B token bucket object) (\<lambda>found. case found of
            Some wrapped \<Rightarrow> try_step (bt_kms_decrypt B token kms_key wrapped) secrets_from_bytes
          | None \<Rightarrow>
              try_step (bt_kms_encrypt B token kms_key (secrets_to_bytes (bt_generated B))) (\<lambda>wrapped.
              try_step (bt_gcs_put B token bucket object wrapped) (\<lambda>_. Inr (bt_generated B)))))
      | _ \<Rightarrow> Inl NotConfigured)"

definition recover_secrets :: "Boot \<Rightarrow> EnclaveSecrets" where
  "recover_secrets B =
     (case try_recover_or_generate B of Inr secrets \<Rightarrow> secrets | Inl _ \<Rightarrow> bt_generated B)"

definition recover_or_generate :: "Boot \<Rightarrow> EnclaveSecrets" where
  "recover_or_generate B =
     (case bt_dev_seed B of
        Some seed_hex \<Rightarrow> (case secrets_from_dev_seed (bt_hex_decode B) (bt_keccak B) seed_hex of
            Inr secrets \<Rightarrow> secrets | Inl _ \<Rightarrow> recover_secrets B)
      | None \<Rightarrow> recover_secrets B)"

section \<open>The state database\<close>

text \<open>The two tables, each with the one row the code uses; \<open>None\<close> stands for a missing row or table.\<close>

record Database =
  db_state :: "bytes option"
  db_schema_version :: "32 word option"

record 'j Json =
  js_parse :: "bytes \<Rightarrow> 'j option"
  js_print :: "'j \<Rightarrow> bytes"
  js_of_state :: "PersistedState \<Rightarrow> bytes"
  js_to_state :: "bytes \<Rightarrow> PersistedState option"

definition CURRENT_SCHEMA_VERSION :: "32 word" where "CURRENT_SCHEMA_VERSION = 1"

definition MIGRATIONS :: "('j \<Rightarrow> 'j) list" where "MIGRATIONS = []"

definition PersistedState_default :: PersistedState where
  "PersistedState_default = \<lparr>pe_market_data = Map.empty, pe_last_nonce = Map.empty, pe_portfolio_markets = Map.empty,
     pe_trader_volume = Map.empty, pe_oi_index = Map.empty\<rparr>"

text \<open>\<open>None\<close> is the error of a blob that is not JSON; the transaction is then dropped.\<close>

definition run_migrations :: "'j Json \<Rightarrow> Database \<Rightarrow> Database option" where
  "run_migrations J db =
     (let stored_version = (case db_schema_version db of Some v \<Rightarrow> v | None \<Rightarrow> 0);
          versioned = (\<lambda>d. d\<lparr>db_schema_version := Some CURRENT_SCHEMA_VERSION\<rparr>) in
      if stored_version < CURRENT_SCHEMA_VERSION \<and> 0 < stored_version then
        (case db_state db of None \<Rightarrow> Some (versioned db)
         | Some raw \<Rightarrow> (case js_parse J raw of None \<Rightarrow> None
            | Some value \<Rightarrow>
                let value' = fold (\<lambda>migration v. migration v) (drop (unat stored_version - 1) MIGRATIONS) value in
                Some (versioned (db\<lparr>db_state := Some (js_print J value')\<rparr>))))
      else Some (versioned db))"

definition open_db :: "'j Json \<Rightarrow> Database \<Rightarrow> Database option" where
  "open_db J db = run_migrations J db"

definition try_load :: "'j Json \<Rightarrow> Database \<Rightarrow> PersistedState option" where
  "try_load J db = (case db_state db of None \<Rightarrow> Some PersistedState_default | Some raw \<Rightarrow> js_to_state J raw)"

definition load_db :: "'j Json \<Rightarrow> Database \<Rightarrow> PersistedState" where
  "load_db J db = (case try_load J db of Some s \<Rightarrow> s | None \<Rightarrow> PersistedState_default)"

definition save_db :: "'j Json \<Rightarrow> Database \<Rightarrow> PersistedState \<Rightarrow> Database" where
  "save_db J db s = db\<lparr>db_state := Some (js_of_state J s)\<rparr>"

section \<open>Round trips\<close>

definition well_sized :: "EnclaveSecrets \<Rightarrow> bool" where
  "well_sized s \<longleftrightarrow> length (es_sealed_key s) = 32 \<and> length (es_settlement_signer_seed s) = 32 \<and>
     length (es_portfolio_key_secret s) = 32"

lemma secrets_layout:
  "well_sized s \<Longrightarrow> secrets_from_bytes (secrets_to_bytes s) = Inr s"
  "secrets_from_bytes bs = Inr s \<Longrightarrow> well_sized s \<and> secrets_to_bytes s = bs"
proof -
  show "well_sized s \<Longrightarrow> secrets_from_bytes (secrets_to_bytes s) = Inr s"
    by (simp add: well_sized_def secrets_from_bytes_def secrets_to_bytes_def SECRET_BYTES_LEN_def)
next
  assume "secrets_from_bytes bs = Inr s"
  then have len: "length bs = 96" and s: "s = \<lparr>es_sealed_key = take 32 bs, es_settlement_signer_seed = take 32 (drop 32 bs),
      es_portfolio_key_secret = take 32 (drop 64 bs)\<rparr>"
    by (auto simp: secrets_from_bytes_def SECRET_BYTES_LEN_def split: if_splits)
  have "take 32 (drop 32 bs) @ take 32 (drop 64 bs) = drop 32 bs"
    using len append_take_drop_id [of 32 "drop 32 bs"] by simp
  then have "take 32 bs @ take 32 (drop 32 bs) @ take 32 (drop 64 bs) = bs" by simp
  with s len show "well_sized s \<and> secrets_to_bytes s = bs"
    by (simp add: well_sized_def secrets_to_bytes_def)
qed

text \<open>
  The world the boots share: a store of objects, and the plaintext that the key service gives for a ciphertext
  under a key.  Any answer may be an error; an answer that is none is what the store holds, and what the key
  service encrypted decrypts to the plaintext.
\<close>

type_synonym Store = "string \<times> string \<rightharpoonup> bytes"

definition services_ok :: "(string \<Rightarrow> bytes \<rightharpoonup> bytes) \<Rightarrow> Store \<Rightarrow> Boot \<Rightarrow> bool" where
  "services_ok D S B \<longleftrightarrow>
     (\<forall>t b ob found. bt_gcs_get B t b ob = Inr found \<longrightarrow> found = S (b, ob)) \<and>
     (\<forall>t k x w. bt_kms_encrypt B t k x = Inr w \<longrightarrow> D k w = Some x) \<and>
     (\<forall>t k w x. bt_kms_decrypt B t k w = Inr x \<longrightarrow> D k w = Some x)"

text \<open>The object a boot sends to the store, if any, and whether the store confirmed it.\<close>

definition object_of :: "string option \<Rightarrow> string" where
  "object_of ob = (case ob of Some ob \<Rightarrow> ob | None \<Rightarrow> ''enclave-secrets.bin'')"

definition put_attempt :: "Boot \<Rightarrow> ((string \<times> string) \<times> bytes \<times> bool) option" where
  "put_attempt B =
     (case (bt_kms_key B, bt_bucket B, bt_token B) of (Some k, Some b, Inr t) \<Rightarrow>
        (case (bt_gcs_get B t b (object_of (bt_object B)), bt_kms_encrypt B t k (secrets_to_bytes (bt_generated B))) of
           (Inr None, Inr w) \<Rightarrow> Some ((b, object_of (bt_object B)), w, bt_gcs_put B t b (object_of (bt_object B)) w = Inr ())
         | _ \<Rightarrow> None)
      | _ \<Rightarrow> None)"

text \<open>A confirmed object replaces what the store held under its name; one that is not confirmed may have.\<close>

definition stores :: "Store \<Rightarrow> Boot \<Rightarrow> Store \<Rightarrow> bool" where
  "stores S B S' \<longleftrightarrow> (case put_attempt B of None \<Rightarrow> S' = S
     | Some (name, w, confirmed) \<Rightarrow> S' = S(name \<mapsto> w) \<or> \<not> confirmed \<and> S' = S)"

text \<open>A history of boots, one after the other, of one configuration.\<close>

inductive booted :: "(string \<Rightarrow> bytes \<rightharpoonup> bytes) \<Rightarrow> string \<times> string \<times> string option \<Rightarrow> Store \<Rightarrow> Boot list \<Rightarrow> Store \<Rightarrow> bool"
  for D :: "string \<Rightarrow> bytes \<rightharpoonup> bytes" and cfg :: "string \<times> string \<times> string option" where
  none: "booted D cfg S [] S"
| boot: "booted D cfg S (B # Bs) S''" if "services_ok D S B" and "well_sized (bt_generated B)"
    and "bt_kms_key B = Some (fst cfg)" and "bt_bucket B = Some (fst (snd cfg))" and "bt_object B = snd (snd cfg)"
    and "stores S B S'" and "booted D cfg S' Bs S''"

inductive_cases booted_ConsE: "booted D cfg S (B # Bs) S''"

definition name_of :: "string \<times> string \<times> string option \<Rightarrow> string \<times> string" where
  "name_of cfg = (fst (snd cfg), object_of (snd (snd cfg)))"

text \<open>The secrets a configuration finds in a store.\<close>

definition kept :: "(string \<Rightarrow> bytes \<rightharpoonup> bytes) \<Rightarrow> string \<times> string \<times> string option \<Rightarrow> Store \<Rightarrow> EnclaveSecrets \<Rightarrow> bool" where
  "kept D cfg S s \<longleftrightarrow> (\<exists>w x. S (name_of cfg) = Some w \<and> D (fst cfg) w = Some x \<and> secrets_from_bytes x = Inr s)"

lemma kept_unique: "kept D cfg S s \<Longrightarrow> kept D cfg S s' \<Longrightarrow> s' = s"
  by (auto simp: kept_def)

lemma recover_found:
  assumes "services_ok D S B" and "bt_kms_key B = Some k" and "bt_bucket B = Some b" and "try_recover_or_generate B = Inr s"
  obtains (found) w x where "S (b, object_of (bt_object B)) = Some w" "D k w = Some x" "secrets_from_bytes x = Inr s" "put_attempt B = None"
    | (fresh) w where "S (b, object_of (bt_object B)) = None" "D k w = Some (secrets_to_bytes s)" "s = bt_generated B"
      "put_attempt B = Some ((b, object_of (bt_object B)), w, True)"
proof -
  let ?ob = "object_of (bt_object B)"
  obtain t where t: "bt_token B = Inr t" using assms(2-4)
    by (cases "bt_token B") (auto simp: try_recover_or_generate_def try_step_def Let_def)
  obtain found where g: "bt_gcs_get B t b ?ob = Inr found" using assms(2-4) t
    by (cases "bt_gcs_get B t b ?ob") (auto simp: try_recover_or_generate_def try_step_def Let_def object_of_def)
  then have S: "S (b, ?ob) = found" using assms(1) by (auto simp: services_ok_def)
  show thesis
  proof (cases found)
    case (Some w)
    with assms(2-4) t g obtain x where x: "bt_kms_decrypt B t k w = Inr x" "secrets_from_bytes x = Inr s"
      by (auto simp: try_recover_or_generate_def try_step_def Let_def object_of_def split: sum.splits)
    moreover have "D k w = Some x" using assms(1) x(1) by (auto simp: services_ok_def)
    moreover have "put_attempt B = None" using assms(2,3) t g Some by (simp add: put_attempt_def)
    ultimately show thesis using S Some found by blast
  next
    case None
    with assms(2-4) t g obtain w where w: "bt_kms_encrypt B t k (secrets_to_bytes (bt_generated B)) = Inr w"
      "bt_gcs_put B t b ?ob w = Inr ()" and s: "s = bt_generated B"
      by (auto simp: try_recover_or_generate_def try_step_def Let_def object_of_def split: sum.splits)
    moreover have "D k w = Some (secrets_to_bytes s)" using assms(1) w(1) s by (auto simp: services_ok_def)
    moreover have "put_attempt B = Some ((b, ?ob), w, True)" using assms(2,3) t g None w by (simp add: put_attempt_def)
    ultimately show thesis using S None fresh by blast
  qed
qed

lemma success_keeps:
  assumes "services_ok D S B" and "well_sized (bt_generated B)" and "bt_kms_key B = Some (fst cfg)"
    and "bt_bucket B = Some (fst (snd cfg))" and "bt_object B = snd (snd cfg)" and "stores S B S'"
    and "try_recover_or_generate B = Inr s"
  shows "kept D cfg S' s"
  using assms(1,3,4,7)
proof (cases rule: recover_found)
  case (found w x)
  then show ?thesis using assms(5,6) by (auto simp: stores_def kept_def name_of_def)
next
  case (fresh w)
  then show ?thesis using assms(2,5,6) secrets_layout(1) by (auto simp: stores_def kept_def name_of_def)
qed

lemma stores_keeps:
  assumes "services_ok D S B" and "bt_kms_key B = Some (fst cfg)" and "bt_bucket B = Some (fst (snd cfg))"
    and "bt_object B = snd (snd cfg)" and "stores S B S'" and "kept D cfg S s"
  shows "kept D cfg S' s"
proof (cases "put_attempt B")
  case (Some p)
  obtain name w confirmed where p: "p = (name, w, confirmed)" by (cases p)
  from Some assms(1-4) have "S name = None \<and> name = name_of cfg"
    by (auto simp: p put_attempt_def name_of_def services_ok_def split: option.splits sum.splits)
  with assms(6) show ?thesis by (auto simp: kept_def)
qed (use assms in \<open>simp add: stores_def\<close>)

lemma booted_keeps: "booted D cfg S Bs S' \<Longrightarrow> kept D cfg S s \<Longrightarrow> kept D cfg S' s"
  by (induction rule: booted.induct) (auto intro: stores_keeps)

lemma booted_append: "booted D cfg S (Bs @ Cs) S' \<Longrightarrow> \<exists>S1. booted D cfg S Bs S1 \<and> booted D cfg S1 Cs S'"
proof (induction Bs arbitrary: S)
  case (Cons B Bs)
  from Cons.prems obtain S0 where B: "services_ok D S B" "well_sized (bt_generated B)" "bt_kms_key B = Some (fst cfg)"
    "bt_bucket B = Some (fst (snd cfg))" "bt_object B = snd (snd cfg)" "stores S B S0" "booted D cfg S0 (Bs @ Cs) S'"
    by (auto elim: booted_ConsE)
  from Cons.IH [OF B(7)] booted.boot [OF B(1-6)] show ?case by blast
qed (auto intro: booted.none)

text \<open>The services answer a boot for what they hold.\<close>

definition reachable_services :: "(string \<Rightarrow> bytes \<rightharpoonup> bytes) \<Rightarrow> string \<times> string \<times> string option \<Rightarrow> Boot \<Rightarrow> bool" where
  "reachable_services D cfg B \<longleftrightarrow> (\<exists>t. bt_token B = Inr t \<and> \<not> isl (bt_gcs_get B t (fst (name_of cfg)) (snd (name_of cfg))) \<and>
     (\<forall>w x. D (fst cfg) w = Some x \<longrightarrow> \<not> isl (bt_kms_decrypt B t (fst cfg) w)))"

lemma reachable_recovers:
  assumes "services_ok D S B" and "bt_kms_key B = Some (fst cfg)" and "bt_bucket B = Some (fst (snd cfg))"
    and "bt_object B = snd (snd cfg)" and "kept D cfg S s" and "reachable_services D cfg B"
  shows "try_recover_or_generate B = Inr s"
proof -
  obtain w x where kept: "S (name_of cfg) = Some w" "D (fst cfg) w = Some x" "secrets_from_bytes x = Inr s"
    using assms(5) by (auto simp: kept_def)
  obtain t where t: "bt_token B = Inr t" and get: "\<not> isl (bt_gcs_get B t (fst (name_of cfg)) (snd (name_of cfg)))"
    and dec: "\<not> isl (bt_kms_decrypt B t (fst cfg) w)" using assms(6) kept(2) by (auto simp: reachable_services_def)
  obtain found where found: "bt_gcs_get B t (fst (name_of cfg)) (snd (name_of cfg)) = Inr found" using get by (metis isl_def obj_sumE)
  obtain y where y: "bt_kms_decrypt B t (fst cfg) w = Inr y" using dec by (metis isl_def obj_sumE)
  have "found = S (fst (name_of cfg), snd (name_of cfg))" "D (fst cfg) w = Some y"
    using assms(1) found y unfolding services_ok_def by blast+
  then have "found = Some w" "y = x" using kept(1,2) by simp_all
  with t found y kept(3) assms(2-4) show ?thesis
    by (simp add: try_recover_or_generate_def try_step_def Let_def name_of_def object_of_def)
qed


definition example_secrets :: "8 word \<Rightarrow> EnclaveSecrets" where
  "example_secrets c = \<lparr>es_sealed_key = replicate 32 c, es_settlement_signer_seed = replicate 32 (c + 1),
     es_portfolio_key_secret = replicate 32 (c + 2)\<rparr>"

text \<open>A boot with an identity cipher, a bucket that holds the given object and takes any, and fresh random secrets.\<close>

definition example_boot :: "bytes option \<Rightarrow> 8 word \<Rightarrow> Boot" where
  "example_boot stored c = \<lparr>bt_dev_seed = None, bt_kms_key = Some ''key'', bt_bucket = Some ''bucket'', bt_object = None,
     bt_hex_decode = (\<lambda>_. None), bt_keccak = id, bt_token = Inr ''token'',
     bt_gcs_get = (\<lambda>_ b ob. Inr (if b = ''bucket'' \<and> ob = ''enclave-secrets.bin'' then stored else None)),
     bt_gcs_put = (\<lambda>_ _ _ _. Inr ()),
     bt_kms_encrypt = (\<lambda>_ _ x. Inr x), bt_kms_decrypt = (\<lambda>_ _ x. Inr x), bt_generated = example_secrets c\<rparr>"


section \<open>Replay protection across a restart\<close>

lemma accepted_below_floor:
  "serve_all H st rs = Some (es, st') \<Longrightarrow> accepted H st rs = Some cs \<Longrightarrow>
    (\<forall>n \<in> set (nonces s cs). \<not> above (st_last_nonce st' s) n) \<and> (\<forall>k. above (st_last_nonce st' s) k \<longrightarrow> above (st_last_nonce st s) k)"
proof (induction rs arbitrary: st es cs)
  case (Cons r rs)
  from Cons.prems(2) obtain e st1 cs1 where step: "serve H st r = Some (e, st1)" and rest: "accepted H st1 rs = Some cs1"
    and cs: "cs = (case credentials r of Some c \<Rightarrow> if is_replay e then cs1 else c # cs1 | None \<Rightarrow> cs1)"
    by (auto simp: bind_eq_Some_conv)
  from Cons.prems(1) step obtain es1 where all: "serve_all H st1 rs = Some (es1, st')" by (auto simp: bind_eq_Some_conv)
  note IH = Cons.IH [OF all rest] and fl = serve_floor [OF step]
  show ?case
  proof (cases "credentials r")
    case None
    with IH fl cs show ?thesis by (simp add: floor_step_def)
  next
    case (Some c)
    obtain w n where c: "c = (w, n)" by (cases c)
    show ?thesis
    proof (cases "is_replay e \<or> w \<noteq> s")
      case True
      with IH fl cs Some c show ?thesis by (auto simp: floor_step_def nonces_def split: if_splits)
    next
      case False
      then have st1: "above (st_last_nonce st s) n" "st_last_nonce st1 s = Some n" using fl Some c
        by (auto simp: floor_step_def)
      have "\<not> above (st_last_nonce st' s) n" using IH st1(2) by (auto simp: above_def)
      moreover have "above (st_last_nonce st s) k" if "above (st_last_nonce st' s) k" for k
        using IH that st1 above_trans by metis
      moreover have "nonces s cs = n # nonces s cs1" using cs Some c False by (simp add: nonces_def)
      ultimately show ?thesis using IH by simp
    qed
  qed
qed (simp add: nonces_def)

lemma below_above: "\<not> above f a \<Longrightarrow> above f b \<Longrightarrow> a < b"
  by (auto simp: above_def split: option.splits)

text \<open>
  C32: A new process that opens the database resumes replay protection from the last save: when the engine
  serves requests, saves its snapshot and serves more before it stops, and the new process starts from any
  secrets and loads the snapshot, then the nonces accepted from a signer before the save and after the restart
  are strictly increasing together.  What was accepted between the save and the stop is not protected: no
  request of the signer with such a nonce is refused as a replay by the new process.  This rests on JSON
  reading back the snapshot it wrote; a blob that cannot be read starts the new process with no floor.
\<close>

theorem replay_protection_survives_restart:
  assumes json: "js_to_state J (js_of_state J (snapshot_for_persistence st1)) = Some (snapshot_for_persistence st1)"
    and before: "serve_all H st rs = Some (es, st1)" "accepted H st rs = Some cs"
    and unsaved: "accepted H st1 lost = Some ls"
    and "db_schema_version db \<in> {None, Some CURRENT_SCHEMA_VERSION}"
    and reopened: "open_db J (save_db J db (snapshot_for_persistence st1)) = Some db'"
    and restarted: "st2 = apply_persisted_state (AppState_from_secrets secrets) (load_db J db')"
    and after: "accepted H st2 rs' = Some cs'"
  shows "sorted_wrt (<) (nonces s (cs @ cs')) \<and>
    (\<forall>r n e st'. credentials r = Some (s, n) \<longrightarrow> n \<in> set (nonces s ls) \<longrightarrow> serve H st2 r = Some (e, st') \<longrightarrow> \<not> is_replay e)"
proof -
  have "load_db J db' = snapshot_for_persistence st1"
    using json reopened assms(5)
    by (auto simp: open_db_def run_migrations_def save_db_def load_db_def try_load_def CURRENT_SCHEMA_VERSION_def)
  then have floor: "st_last_nonce st2 = st_last_nonce st1"
    by (simp add: restarted apply_persisted_state_def snapshot_for_persistence_def)
  have "sorted_wrt (<) (nonces s cs)" "sorted_wrt (<) (nonces s cs')" "list_all (above (st_last_nonce st1 s)) (nonces s cs')"
    using accepted_ascend [OF before(2)] accepted_ascend [OF after, of s] by (simp_all add: floor)
  moreover have "nonces s (cs @ cs') = nonces s cs @ nonces s cs'" by (simp add: nonces_def)
  ultimately have "sorted_wrt (<) (nonces s (cs @ cs'))" using accepted_below_floor [OF before, of s]
    by (auto simp: sorted_wrt_append list_all_iff intro: below_above)
  moreover have "\<not> is_replay e" if "credentials r = Some (s, n)" "n \<in> set (nonces s ls)" "serve H st2 r = Some (e, st')" for r n e st'
  proof
    assume "is_replay e"
    with serve_floor [OF that(3)] that(1) have "\<not> above (st_last_nonce st1 s) n" by (simp add: floor_step_def floor)
    with accepted_ascend [OF unsaved, of s] that(2) show False by (auto simp: list_all_iff)
  qed
  ultimately show ?thesis by blast
qed

text \<open>Nonces 5 and 9 are saved, 11 is not; after the restart 9 is refused, 11 is accepted once more, then 12.\<close>

theorem replay_protection_survives_restart_witness:
  "\<exists>st1 (J :: bytes Json) db' cs'. serve_all offline_host (AppState_new []) (map example_key_request [5, 9]) = Some ([None, None], st1) \<and>
     accepted offline_host st1 [example_key_request 11] = Some [(7, 11)] \<and>
     open_db J (save_db J \<lparr>db_state = None, db_schema_version = None\<rparr> (snapshot_for_persistence st1)) = Some db' \<and>
     accepted offline_host (apply_persisted_state (AppState_from_secrets (example_secrets 1)) (load_db J db'))
       (map example_key_request [9, 11, 12]) = Some cs' \<and> (7, 11) \<in> set cs' \<and> sorted_wrt (<) (nonces 7 ([(7, 5), (7, 9)] @ cs'))"
proof -
  let ?st1 = "(AppState_new [])\<lparr>st_last_nonce := [7 \<mapsto> 9]\<rparr>"
  let ?J = "\<lparr>js_parse = (\<lambda>b. Some b), js_print = id, js_of_state = (\<lambda>_. [1]),
    js_to_state = (\<lambda>_. Some (snapshot_for_persistence ?st1))\<rparr>"
  let ?db = "\<lparr>db_state = None, db_schema_version = None\<rparr>"
  let ?db' = "\<lparr>db_state = Some [1], db_schema_version = Some CURRENT_SCHEMA_VERSION\<rparr>"
  have st1: "serve_all offline_host (AppState_new []) (map example_key_request [5, 9]) = Some ([None, None], ?st1)"
    "accepted offline_host (AppState_new []) (map example_key_request [5, 9]) = Some [(7, 5), (7, 9)]"
    by (simp_all add: serve_key_request above_def AppState_new_def key_credentials is_replay_def)
  have lost: "accepted offline_host ?st1 [example_key_request 11] = Some [(7, 11)]"
    by (simp add: serve_key_request above_def key_credentials is_replay_def)
  have db': "open_db ?J (save_db ?J ?db (snapshot_for_persistence ?st1)) = Some ?db'"
    by (simp add: open_db_def run_migrations_def save_db_def)
  have floor: "st_last_nonce (apply_persisted_state (AppState_from_secrets (example_secrets 1)) (load_db ?J ?db')) = [7 \<mapsto> 9]"
    by (simp add: load_db_def try_load_def apply_persisted_state_def snapshot_for_persistence_def)
  have cs': "accepted offline_host (apply_persisted_state (AppState_from_secrets (example_secrets 1)) (load_db ?J ?db'))
      (map example_key_request [9, 11, 12]) = Some [(7, 11), (7, 12)]"
    by (simp add: serve_key_request floor above_def key_credentials is_replay_def)
  have "sorted_wrt (<) (nonces 7 ([(7, 5), (7, 9)] @ [(7, 11), (7, 12)]))"
    by (rule conjunct1 [OF replay_protection_survives_restart [OF _ st1 lost _ db' refl cs']]) simp_all
  with st1 lost db' cs' show ?thesis by (intro exI [of _ ?st1] exI [of _ ?J] exI [of _ ?db'] exI [of _ "[(7, 11), (7, 12)]"]) simp
qed

end
