(* ===== verification/Settlement.thy ===== *)
theory Settlement
  imports Order_Entry
begin

text \<open>
  The settlement client (\<open>cerdic-tee-matcher/src/settle.rs\<close>): the calls of the contracts' interfaces, the
  calldata the engine builds, where each call is sent, and the reads of the chain.  ABI coding, the
  signer and the RPC provider are the parameter \<open>Chain\<close>; a call that is sent is reported with its
  contract, so that a theorem can say what reaches the chain.  The two pollers of \<open>main.rs\<close> and
  \<open>api.rs\<close> that only move data between the engine and the chain are at the end.
\<close>

section \<open>The contracts' interface\<close>

record MakerLeg =
  ml_match_id :: Hash
  ml_portfolio_key :: Hash
  ml_collateral_delta :: int
  ml_sealed_params :: bytes

record LiquidationLeg =
  ll_market_id :: Hash
  ll_collateral_delta :: int
  ll_sealed_params :: bytes

datatype Call =
    SettleMatch Hash Hash Hash int bytes Hash int bytes
  | SettleTakerSweep Hash Hash int bytes "MakerLeg list"
  | LoadSealed Hash Hash
  | LiquidateSealed Hash nat "LiquidationLeg list" Address nat
  | FundingIndex Hash
  | UpdateFundingIndex Hash
  | SubmitPortfolioMargin Address nat u64
  | CollateralBalanceOf Address Address
  | SettleRealizedPnlBatch "Address list" "Address list" "int list"

record MatchSettlement =
  ms_match_id :: Hash
  ms_market_id :: Hash
  ms_portfolio_key_a :: Hash
  ms_collateral_delta_a :: int
  ms_sealed_params_a :: bytes
  ms_portfolio_key_b :: Hash
  ms_collateral_delta_b :: int
  ms_sealed_params_b :: bytes

type_synonym LiquidationLegDelta = LiquidationLeg

record LiquidationSweep =
  lw_portfolio_key :: Hash
  lw_margin_requirement :: nat
  lw_legs :: "LiquidationLegDelta list"
  lw_liquidator :: Address
  lw_liquidator_reward :: nat

record SettlementResult =
  rs_calldata :: bytes
  rs_broadcast_tx_hash :: "Hash option"

record Chain =
  ch_rpc_url :: "string option"
  ch_encode :: "Call \<Rightarrow> bytes"
  ch_send :: "string \<Rightarrow> Address \<Rightarrow> bytes \<Rightarrow> Hash option"
  ch_call :: "string \<Rightarrow> Address \<Rightarrow> bytes \<Rightarrow> bytes option"
  ch_decode_sealed :: "bytes \<Rightarrow> SealedPosition option"
  ch_decode_uint :: "bytes \<Rightarrow> nat option"
  ch_decode_int :: "bytes \<Rightarrow> int option"
  ch_block_number :: "string \<Rightarrow> u64 option"
  ch_logs :: "string \<Rightarrow> Address \<Rightarrow> Hash \<Rightarrow> u64 \<Rightarrow> u64 \<Rightarrow> Hash option list option"

type_synonym Sent = "(Address \<times> Call) list"

section \<open>Calls\<close>

definition taker_sweep_call :: "TakerSweep \<Rightarrow> Call" where
  "taker_sweep_call sweep =
     SettleTakerSweep (ts_market_id sweep) (ts_portfolio_key_taker sweep) (ts_collateral_delta_taker sweep)
       (ts_sealed_params_taker sweep)
       (map (\<lambda>leg. \<lparr>ml_match_id = mf_match_id leg, ml_portfolio_key = mf_portfolio_key leg,
          ml_collateral_delta = mf_collateral_delta leg, ml_sealed_params = mf_sealed_params leg\<rparr>) (ts_maker_legs sweep))"

definition liquidate_call :: "LiquidationSweep \<Rightarrow> Call" where
  "liquidate_call sweep =
     LiquidateSealed (lw_portfolio_key sweep) (lw_margin_requirement sweep)
       (map (\<lambda>leg. \<lparr>ll_market_id = ll_market_id leg, ll_collateral_delta = ll_collateral_delta leg,
          ll_sealed_params = ll_sealed_params leg\<rparr>) (lw_legs sweep))
       (lw_liquidator sweep) (lw_liquidator_reward sweep)"

definition settle_match_call :: "MatchSettlement \<Rightarrow> Call" where
  "settle_match_call s = SettleMatch (ms_match_id s) (ms_market_id s) (ms_portfolio_key_a s) (ms_collateral_delta_a s)
     (ms_sealed_params_a s) (ms_portfolio_key_b s) (ms_collateral_delta_b s) (ms_sealed_params_b s)"

section \<open>Submitting\<close>

definition broadcast_config :: "Chain \<Rightarrow> Address option \<Rightarrow> (string \<times> Address) option" where
  "broadcast_config C contract = do { rpc_url \<leftarrow> ch_rpc_url C; c \<leftarrow> contract; Some (rpc_url, c) }"

text \<open>Build the calldata and, where broadcasting is configured, submit it.\<close>

definition submit_call :: "Chain \<Rightarrow> Address option \<Rightarrow> Call \<Rightarrow> SettlementResult \<times> Sent" where
  "submit_call C contract call =
     (let calldata = ch_encode C call in
      case broadcast_config C contract of
        None \<Rightarrow> (\<lparr>rs_calldata = calldata, rs_broadcast_tx_hash = None\<rparr>, [])
      | Some (rpc_url, c) \<Rightarrow>
          (\<lparr>rs_calldata = calldata, rs_broadcast_tx_hash = ch_send C rpc_url c calldata\<rparr>, [(c, call)]))"

definition settle_taker_sweep :: "Chain \<Rightarrow> TakerSweep \<Rightarrow> Address option \<Rightarrow> SettlementResult \<times> Sent" where
  "settle_taker_sweep C sweep contract = submit_call C contract (taker_sweep_call sweep)"

definition settle_match :: "Chain \<Rightarrow> MatchSettlement \<Rightarrow> Address option \<Rightarrow> SettlementResult \<times> Sent" where
  "settle_match C s contract = submit_call C contract (settle_match_call s)"

text \<open>The legs by the contract of their market, in the order the contracts first appear.\<close>

definition group_legs :: "(Hash \<rightharpoonup> Address) \<Rightarrow> LiquidationLegDelta list \<Rightarrow> (Address \<times> LiquidationLegDelta list) list" where
  "group_legs market_contracts legs =
     foldl (\<lambda>groups leg. case market_contracts (ll_market_id leg) of
         Some contract \<Rightarrow> AList.map_default contract [leg] (\<lambda>ls. ls @ [leg]) groups
       | None \<Rightarrow> groups) [] legs"

definition liquidate_sealed :: "Chain \<Rightarrow> LiquidationSweep \<Rightarrow> (Hash \<rightharpoonup> Address) \<Rightarrow> SettlementResult list \<times> Sent" where
  "liquidate_sealed C sweep market_contracts =
     (let outcomes = map (\<lambda>(contract, legs). submit_call C (Some contract)
            (liquidate_call (sweep\<lparr>lw_legs := legs\<rparr>))) (group_legs market_contracts (lw_legs sweep)) in
      (map fst outcomes, concat (map snd outcomes)))"

definition checkpoint_funding_index :: "Chain \<Rightarrow> Hash \<Rightarrow> Address option \<Rightarrow> Sent" where
  "checkpoint_funding_index C market_id contract = snd (submit_call C contract (UpdateFundingIndex market_id))"

definition submit_portfolio_margin :: "Chain \<Rightarrow> Address \<Rightarrow> nat \<Rightarrow> u64 \<Rightarrow> Address option \<Rightarrow> Sent" where
  "submit_portfolio_margin C trader requirement expiry contract =
     snd (submit_call C contract (SubmitPortfolioMargin trader requirement expiry))"

definition settle_realized_pnl_batch :: "Chain \<Rightarrow> (Address \<times> Address \<times> int) list \<Rightarrow> Address option \<Rightarrow> Sent" where
  "settle_realized_pnl_batch C items contract =
     (if items = [] then []
      else snd (submit_call C contract (SettleRealizedPnlBatch (map (\<lambda>(trader, _, _). trader) items)
        (map (\<lambda>(_, asset, _). asset) items) (map (\<lambda>(_, _, delta). delta) items))))"

section \<open>Reading\<close>

datatype LoadSealedError = NotConfiguredForRead | Rpc

definition read_call :: "Chain \<Rightarrow> (string \<times> Address) option \<Rightarrow> Call \<Rightarrow> LoadSealedError + bytes" where
  "read_call C config call =
     (case config of None \<Rightarrow> Inl NotConfiguredForRead
      | Some (rpc_url, contract) \<Rightarrow>
          (case ch_call C rpc_url contract (ch_encode C call) of None \<Rightarrow> Inl Rpc | Some raw \<Rightarrow> Inr raw))"

definition decoded :: "(bytes \<Rightarrow> 'a option) \<Rightarrow> LoadSealedError + bytes \<Rightarrow> LoadSealedError + 'a" where
  "decoded decode r = (case r of Inl e \<Rightarrow> Inl e | Inr raw \<Rightarrow> (case decode raw of None \<Rightarrow> Inl Rpc | Some x \<Rightarrow> Inr x))"

definition load_sealed :: "Chain \<Rightarrow> Hash \<Rightarrow> Hash \<Rightarrow> Address option \<Rightarrow> LoadSealedError + SealedPosition" where
  "load_sealed C key market_id contract =
     decoded (ch_decode_sealed C) (read_call C (broadcast_config C contract) (LoadSealed key market_id))"

definition load_deposited_collateral :: "Chain \<Rightarrow> Address \<Rightarrow> Address \<Rightarrow> Address \<Rightarrow> LoadSealedError + nat" where
  "load_deposited_collateral C trader asset contract =
     decoded (ch_decode_uint C) (read_call C (map_option (\<lambda>url. (url, contract)) (ch_rpc_url C)) (CollateralBalanceOf trader asset))"

definition load_funding_index :: "Chain \<Rightarrow> Hash \<Rightarrow> Address option \<Rightarrow> LoadSealedError + int" where
  "load_funding_index C market_id contract =
     decoded (\<lambda>raw. case ch_decode_int C raw of None \<Rightarrow> None | Some i \<Rightarrow> if in_i128 i then Some i else None)
       (read_call C (broadcast_config C contract) (FundingIndex market_id))"

definition index_open_interest :: "Chain \<Rightarrow> Hash \<Rightarrow> Address option \<Rightarrow> u64 \<Rightarrow> (Hash list \<times> u64) option" where
  "index_open_interest C market_id contract from_block = do {
     (rpc_url, c) \<leftarrow> broadcast_config C contract;
     latest \<leftarrow> ch_block_number C rpc_url;
     logs \<leftarrow> ch_logs C rpc_url c market_id from_block latest;
     Some (List.map_filter id logs, latest + 1)
   }"

text \<open>The chain as the engine's host sees it.\<close>

definition ok_part :: "'e + 'a \<Rightarrow> 'a option" where
  "ok_part r = (case r of Inl _ \<Rightarrow> None | Inr x \<Rightarrow> Some x)"

definition on_chain :: "Chain \<Rightarrow> Host \<Rightarrow> Host" where
  "on_chain C H = H\<lparr>h_load_sealed := (\<lambda>key market_id contract. ok_part (load_sealed C key market_id contract)),
     h_load_deposited := (\<lambda>trader asset contract. ok_part (load_deposited_collateral C trader asset contract))\<rparr>"

section \<open>Moving data to and from the chain\<close>

text \<open>One round of the flush loop of \<open>main.rs\<close>.\<close>

definition flush_realized_pnl :: "Chain \<Rightarrow> AppState \<Rightarrow> Sent \<times> AppState" where
  "flush_realized_pnl C st =
     (let (items, st') = drain_realized_pnl st in
      if items = [] then ([], st') else (settle_realized_pnl_batch C items (account_contract st'), st'))"

definition oi_of :: "AppState \<Rightarrow> MarketId \<Rightarrow> Hash list \<times> u64" where
  "oi_of st market_id = (case st_oi_index st market_id of Some x \<Rightarrow> x | None \<Rightarrow> ([], 0))"

definition poll_open_interest :: "Host \<Rightarrow> Chain \<Rightarrow> AppState \<Rightarrow> AppState" where
  "poll_open_interest H C st =
     fold (\<lambda>(market_id, contract) st.
         case index_open_interest C (onchain_market_id H st market_id) (Some contract) (snd (oi_of st market_id)) of
           None \<Rightarrow> st
         | Some (new_keys, next_block) \<Rightarrow>
             st\<lparr>st_oi_index := (st_oi_index st)(market_id \<mapsto> (fold List.insert new_keys (fst (oi_of st market_id)), next_block))\<rparr>)
       (st_settlement_contracts st) st"

end
