(* ===== verification/Settlement_Properties.thy ===== *)
theory Settlement_Properties
  imports Settlement
begin

text \<open>
  What reaches the chain: a liquidation is split into one call per contract that covers exactly the legs of
  that contract, realized results are netted per trader and flushed once, and a failed settlement leaves
  the engine reading the chain again.
\<close>

section \<open>Liquidation calls\<close>

definition legs_at :: "(Hash \<rightharpoonup> Address) \<Rightarrow> LiquidationLegDelta list \<Rightarrow> Address \<Rightarrow> LiquidationLegDelta list" where
  "legs_at mc legs c = filter (\<lambda>leg. mc (ll_market_id leg) = Some c) legs"

lemma group_legs_append:
  "group_legs mc (legs @ [leg]) = (case mc (ll_market_id leg) of
     Some c \<Rightarrow> AList.map_default c [leg] (\<lambda>ls. ls @ [leg]) (group_legs mc legs) | None \<Rightarrow> group_legs mc legs)"
  unfolding group_legs_def by simp

lemma group_legs_spec:
  "distinct (map fst (group_legs mc legs)) \<and>
   (\<forall>c. map_of (group_legs mc legs) c = (if legs_at mc legs c = [] then None else Some (legs_at mc legs c)))"
proof (induction legs rule: rev_induct)
  case Nil
  show ?case by (simp add: group_legs_def legs_at_def)
next
  case (snoc leg legs)
  then have d: "distinct (map fst (group_legs mc legs))"
    and m: "\<And>c. map_of (group_legs mc legs) c = (if legs_at mc legs c = [] then None else Some (legs_at mc legs c))" by blast+
  have "distinct (map fst (group_legs mc (legs @ [leg])))"
    using d by (simp add: group_legs_append AList.distinct_map_default split: option.splits)
  moreover have "map_of (group_legs mc (legs @ [leg])) c =
      (if legs_at mc (legs @ [leg]) c = [] then None else Some (legs_at mc (legs @ [leg]) c))" for c
    using m by (cases "mc (ll_market_id leg)") (auto simp: group_legs_append AList.map_of_map_default legs_at_def)
  ultimately show ?case by blast
qed

lemma submit_call_simps [simp]:
  "ch_rpc_url C = Some url \<Longrightarrow> submit_call C (Some c) call =
     (\<lparr>rs_calldata = ch_encode C call, rs_broadcast_tx_hash = ch_send C url c (ch_encode C call)\<rparr>, [(c, call)])"
  "ch_rpc_url C = None \<Longrightarrow> submit_call C c' call = (\<lparr>rs_calldata = ch_encode C call, rs_broadcast_tx_hash = None\<rparr>, [])"
  "submit_call C None call = (\<lparr>rs_calldata = ch_encode C call, rs_broadcast_tx_hash = None\<rparr>, [])"
  by (auto simp: submit_call_def broadcast_config_def Let_def split: option.splits)

lemma liquidate_call_legs:
  "liquidate_call (sweep\<lparr>lw_legs := legs\<rparr>) =
     LiquidateSealed (lw_portfolio_key sweep) (lw_margin_requirement sweep) legs (lw_liquidator sweep) (lw_liquidator_reward sweep)"
  by (simp add: liquidate_call_def map_idI)

text \<open>
  C20: A liquidation sends each contract that holds a leg of the portfolio one call, and no other contract
  any: the call to a contract carries exactly the legs of its markets, in their order, with the margin
  requirement of the whole portfolio and the whole reward, so the reward is promised once per contract.
  Legs of markets without a contract are dropped, and nothing is sent without an RPC endpoint.
\<close>

theorem liquidation_split_by_contract:
  assumes "liquidate_sealed C sweep mc = (results, sent)"
  shows "(ch_rpc_url C = None \<longrightarrow> sent = []) \<and> (ch_rpc_url C \<noteq> None \<longrightarrow>
    distinct (map fst sent) \<and> fst ` set sent = {c. \<exists>leg \<in> set (lw_legs sweep). mc (ll_market_id leg) = Some c} \<and>
    (\<forall>(c, call) \<in> set sent. call = LiquidateSealed (lw_portfolio_key sweep) (lw_margin_requirement sweep)
       (legs_at mc (lw_legs sweep) c) (lw_liquidator sweep) (lw_liquidator_reward sweep)) \<and> length results = length sent)"
proof (cases "ch_rpc_url C")
  case None
  then show ?thesis using assms by (auto simp: liquidate_sealed_def Let_def split_beta o_def)
next
  case (Some url)
  define g where "g = group_legs mc (lw_legs sweep)"
  have g: "distinct (map fst g)" "\<And>c. map_of g c = (if legs_at mc (lw_legs sweep) c = [] then None else Some (legs_at mc (lw_legs sweep) c))"
    using group_legs_spec [of mc "lw_legs sweep"] unfolding g_def by blast+
  have sent: "sent = map (\<lambda>(c, legs). (c, liquidate_call (sweep\<lparr>lw_legs := legs\<rparr>))) g" "length results = length g"
    using assms Some by (auto simp: liquidate_sealed_def Let_def split_beta o_def g_def concat_map_singleton)
  have "fst ` set g = {c. map_of g c \<noteq> None}" by (simp add: map_of_eq_None_iff flip: dom_map_of_conv_image_fst)
  also have "\<dots> = {c. \<exists>leg \<in> set (lw_legs sweep). mc (ll_market_id leg) = Some c}"
    by (auto simp: g(2) legs_at_def filter_empty_conv)
  finally have dom: "fst ` set g = {c. \<exists>leg \<in> set (lw_legs sweep). mc (ll_market_id leg) = Some c}" .
  have "legs = legs_at mc (lw_legs sweep) c" if "(c, legs) \<in> set g" for c legs
    using map_of_is_SomeI [OF g(1) that] g(2) by (auto split: if_splits)
  with sent g(1) dom Some show ?thesis
    by (auto simp: split_beta o_def image_image liquidate_call_legs)
qed

definition example_chain :: Chain where
  "example_chain = \<lparr>ch_rpc_url = Some ''http://localhost'', ch_encode = (\<lambda>_. [1]), ch_send = (\<lambda>_ _ _. Some 7),
     ch_call = (\<lambda>_ _ _. None), ch_decode_sealed = (\<lambda>_. None), ch_decode_uint = (\<lambda>_. None), ch_decode_int = (\<lambda>_. None),
     ch_block_number = (\<lambda>_. None), ch_logs = (\<lambda>_ _ _ _ _. None)\<rparr>"

definition example_sweep :: LiquidationSweep where
  "example_sweep = \<lparr>lw_portfolio_key = 9, lw_margin_requirement = 100,
     lw_legs = [\<lparr>ll_market_id = 1, ll_collateral_delta = - 5, ll_sealed_params = []\<rparr>,
       \<lparr>ll_market_id = 2, ll_collateral_delta = - 6, ll_sealed_params = []\<rparr>],
     lw_liquidator = 4, lw_liquidator_reward = 3\<rparr>"

theorem liquidation_split_by_contract_witness:
  "fst ` set (snd (liquidate_sealed example_chain example_sweep [1 \<mapsto> 10, 2 \<mapsto> 20])) = {10, 20} \<and>
   distinct (map fst (snd (liquidate_sealed example_chain example_sweep [1 \<mapsto> 10, 2 \<mapsto> 20])))"
proof -
  obtain results sent where run: "liquidate_sealed example_chain example_sweep [1 \<mapsto> 10, 2 \<mapsto> 20] = (results, sent)"
    by (meson surj_pair)
  have "{c. \<exists>leg \<in> set (lw_legs example_sweep). [1 \<mapsto> 10, 2 \<mapsto> 20] (ll_market_id leg) = Some c} = {10, 20 :: Address}"
    by (auto simp: example_sweep_def)
  with liquidation_split_by_contract [OF run] run show ?thesis by (simp add: example_chain_def)
qed

section \<open>Realized results\<close>

definition queue_all :: "Host \<Rightarrow> AppState \<Rightarrow> (Address \<times> int) list \<Rightarrow> AppState" where
  "queue_all H st qs = foldl (\<lambda>st (trader, delta). queue_realized_pnl H st trader delta) st qs"

definition owed :: "Address \<Rightarrow> (Address \<times> int) list \<Rightarrow> int" where
  "owed trader qs = sum_list (map snd (filter (\<lambda>q. fst q = trader) qs))"

definition moved :: "Address \<Rightarrow> (Address \<times> int) list \<Rightarrow> bool" where
  "moved trader qs \<longleftrightarrow> trader \<noteq> 0 \<and> (\<exists>q \<in> set qs. fst q = trader \<and> snd q \<noteq> 0)"

lemma owed_append: "owed t (qs @ [(u, d)]) = owed t qs + (if u = t then d else 0)"
  by (simp add: owed_def)

lemma moved_append: "moved t (qs @ [(u, d)]) \<longleftrightarrow> moved t qs \<or> t \<noteq> 0 \<and> u = t \<and> d \<noteq> 0"
  by (auto simp: moved_def)

lemma owed_unmoved: "t \<noteq> 0 \<Longrightarrow> \<not> moved t qs \<Longrightarrow> owed t qs = 0"
proof (induction qs rule: rev_induct)
  case (snoc q qs)
  then show ?case by (cases q) (auto simp: owed_append moved_append)
qed (simp add: owed_def)

lemma owed_bound: "\<bar>owed t qs\<bar> \<le> sum_list (map (\<lambda>q. \<bar>snd q\<bar>) qs)"
proof (induction qs rule: rev_induct)
  case (snoc q qs)
  then show ?case by (cases q) (auto simp: owed_append)
qed (simp add: owed_def)

lemma queue_all_pending:
  assumes "i256_ok (h_i256_add H)" and "st_collateral_check st = Some (acct, asset)" and "st_pending_realized_pnl st = []"
    and "sum_list (map (\<lambda>q. \<bar>snd q\<bar>) qs) < 2 ^ 255"
  shows "st_collateral_check (queue_all H st qs) = Some (acct, asset) \<and>
    distinct (map fst (st_pending_realized_pnl (queue_all H st qs))) \<and>
    (\<forall>t a. map_of (st_pending_realized_pnl (queue_all H st qs)) (t, a) = (if a = asset \<and> moved t qs then Some (owed t qs) else None))"
  using assms(4)
proof (induction qs rule: rev_induct)
  case Nil
  then show ?case using assms(2,3) by (simp add: queue_all_def moved_def)
next
  case (snoc q qs)
  obtain u d where q: "q = (u, d)" by (cases q)
  let ?st = "queue_all H st qs"
  have IH: "st_collateral_check ?st = Some (acct, asset)" "distinct (map fst (st_pending_realized_pnl ?st))"
    "\<And>t a. map_of (st_pending_realized_pnl ?st) (t, a) = (if a = asset \<and> moved t qs then Some (owed t qs) else None)"
    using snoc by (auto simp: q)
  have next_st: "queue_all H st (qs @ [q]) = queue_realized_pnl H ?st u d" by (simp add: queue_all_def q)
  show ?case
  proof (cases "d = 0 \<or> u = 0")
    case True
    then have "owed t (qs @ [q]) = owed t qs" "moved t (qs @ [q]) \<longleftrightarrow> moved t qs" if "t \<noteq> 0" for t
      using that by (auto simp: q owed_append moved_append)
    moreover have "\<not> moved 0 xs" for xs by (simp add: moved_def)
    ultimately have "(if a = asset \<and> moved t (qs @ [q]) then Some (owed t (qs @ [q])) else None) =
        (if a = asset \<and> moved t qs then Some (owed t qs) else None)" for t a by (cases "t = 0") simp_all
    with True IH show ?thesis unfolding next_st by (auto simp: queue_realized_pnl_def)
  next
    case False
    have "\<bar>owed u qs\<bar> + \<bar>d\<bar> < 2 ^ 255" using owed_bound [of u qs] snoc.prems by (simp add: q)
    then have "in_i256 (owed u qs)" "in_i256 d" "in_i256 (owed u qs + d)" by (auto simp: in_i256_def)
    then have "h_i256_add H (owed u qs) d = owed u qs + d" using assms(1) by (simp add: i256_ok_def)
    moreover have "(case map_of (st_pending_realized_pnl ?st) (u, asset) of Some d \<Rightarrow> d | None \<Rightarrow> 0) = owed u qs"
      using False owed_unmoved by (simp add: IH(3))
    ultimately have "st_pending_realized_pnl (queue_realized_pnl H ?st u d) =
        AList.update (u, asset) (owed u qs + d) (st_pending_realized_pnl ?st)"
      using False IH(1) by (simp add: queue_realized_pnl_def Let_def)
    moreover have "st_collateral_check (queue_realized_pnl H ?st u d) = Some (acct, asset)"
      using IH(1) by (simp add: queue_realized_pnl_def Let_def)
    ultimately show ?thesis using False IH(2,3) unfolding next_st
      by (auto simp: q AList.update_conv' AList.distinct_update owed_append moved_append)
  qed
qed

text \<open>
  C21: However many realized results are queued between two flushes, the flush submits one batch to the
  account contract in which every trader with a result appears once, with the exact sum of his results, and
  the zero address of the backstop never appears; afterwards nothing is pending.
\<close>

theorem realized_results_netted:
  assumes "i256_ok (h_i256_add H)" and "st_collateral_check st = Some (acct, asset)" and "st_pending_realized_pnl st = []"
    and "sum_list (map (\<lambda>q. \<bar>snd q\<bar>) qs) < 2 ^ 255" and "ch_rpc_url C \<noteq> None"
    and "flush_realized_pnl C (queue_all H st qs) = (sent, st')"
  shows "st_pending_realized_pnl st' = [] \<and> (\<exists>ts. distinct ts \<and> set ts = {t. moved t qs} \<and>
    sent = (if ts = [] then [] else
      [(acct, SettleRealizedPnlBatch ts (replicate (length ts) asset) (map (\<lambda>t. owed t qs) ts))]))"
proof -
  let ?p = "st_pending_realized_pnl (queue_all H st qs)"
  have col: "st_collateral_check (queue_all H st qs) = Some (acct, asset)" and d: "distinct (map fst ?p)"
    and m: "\<And>t a. map_of ?p (t, a) = (if a = asset \<and> moved t qs then Some (owed t qs) else None)"
    using queue_all_pending [OF assms(1-4)] by blast+
  have entry: "a = asset \<and> moved t qs \<and> x = owed t qs" if "((t, a), x) \<in> set ?p" for t a x
    using map_of_is_SomeI [OF d that] m by (auto split: if_splits)
  define ts where "ts = map (fst \<circ> fst) ?p"
  have p: "?p = map (\<lambda>t. ((t, asset), owed t qs)) ts"
    unfolding ts_def by (simp add: o_def) (rule map_idI [symmetric], use entry in auto)
  have "distinct ts" using d unfolding p by (simp add: o_def distinct_map)
  moreover have "set ts = {t. moved t qs}"
  proof -
    have "t \<in> set ts" if "moved t qs" for t
      using m [of t asset] that map_of_SomeD [of ?p "(t, asset)" "owed t qs"] by (auto simp: p)
    moreover have "moved t qs" if "t \<in> set ts" for t using that entry by (auto simp: ts_def)
    ultimately show ?thesis by blast
  qed
  moreover obtain url where "ch_rpc_url C = Some url" using assms(5) by blast
  then have "sent = (if ts = [] then [] else
      [(acct, SettleRealizedPnlBatch ts (replicate (length ts) asset) (map (\<lambda>t. owed t qs) ts))])"
    using assms(6) col by (auto simp: flush_realized_pnl_def drain_realized_pnl_def settle_realized_pnl_batch_def
        account_contract_def p o_def map_replicate_const split: if_splits)
  moreover have "st_pending_realized_pnl st' = []"
    using assms(6) by (auto simp: flush_realized_pnl_def drain_realized_pnl_def split: if_splits)
  ultimately show ?thesis by blast
qed

theorem realized_results_netted_witness:
  "\<exists>sent st'. flush_realized_pnl example_chain (queue_all offline_host (configure_collateral_check (AppState_new []) 50 60)
      [(1, 40), (2, 5), (0, 9), (1, - 15)]) = (sent, st') \<and> st_pending_realized_pnl st' = [] \<and> length sent = 1"
proof -
  let ?qs = "[(1, 40), (2, 5), (0, 9), (1, - 15)] :: (Address \<times> int) list" and ?st = "configure_collateral_check (AppState_new []) 50 60"
  have c: "i256_ok (h_i256_add offline_host)" "st_collateral_check ?st = Some (50, 60)" "st_pending_realized_pnl ?st = []"
    "sum_list (map (\<lambda>q. \<bar>snd q\<bar>) ?qs) < 2 ^ 255" "ch_rpc_url example_chain \<noteq> None"
    by (simp_all add: offline_host_def wrapping_i256_ok configure_collateral_check_def AppState_new_def example_chain_def)
  obtain sent st' where run: "flush_realized_pnl example_chain (queue_all offline_host ?st ?qs) = (sent, st')" by (meson surj_pair)
  have "moved 1 ?qs" by (simp add: moved_def)
  with realized_results_netted [OF c run] run show ?thesis by (auto split: if_splits)
qed

end
