(* ===== verification/Liquidation.thy ===== *)
theory Liquidation
  imports Settlement Risk "HOL-Library.List_Lexorder" "HOL-Library.Char_ord"
begin

text \<open>
  Liquidation (\<open>cerdic-tee-matcher/src/api.rs\<close>): the margin of a loaded portfolio, its
  attestation, the settlement task of an order, the public check, the sizing of the legs and the
  liquidation itself.  Each is one uninterrupted step; \<open>post_liquidate\<close> does hold the lock of
  every position from its second reading on.
\<close>

section \<open>The margin of a portfolio\<close>

definition mark_price_of :: "(MarketId \<times> nat) list \<Rightarrow> PortfolioMarketState \<Rightarrow> nat" where
  "mark_price_of live_prices m = (case map_of live_prices (pm_market_id m) of Some p \<Rightarrow> p | None \<Rightarrow> unat (pm_entry_price m))"

definition margin_positions :: "PortfolioMarketState list \<Rightarrow> PositionState list" where
  "margin_positions market_states =
     map (\<lambda>m. \<lparr>ps_market_id = pm_market_id m, ps_size = sat_i128 (pm_signed_size m * int SCALE)\<rparr>) market_states"

definition margin_prices :: "PortfolioMarketState list \<Rightarrow> (MarketId \<times> nat) list \<Rightarrow> Prices" where
  "margin_prices market_states live_prices = map_of (rev (map (\<lambda>m. (pm_market_id m, mark_price_of live_prices m)) market_states))"

definition portfolio_collateral :: "PortfolioMarketState list \<Rightarrow> nat" where
  "portfolio_collateral market_states = foldl (\<lambda>s m. wrap_u128 (int (s + raw_collateral m))) 0 market_states"

definition compute_margin :: "Host \<Rightarrow> PortfolioMarketState list \<Rightarrow> (MarketId \<times> nat) list \<Rightarrow> (RiskError, MarginResult) res" where
  "compute_margin H market_states live_prices =
     risk_compute_margin (h_u256 H)
       \<lparr>as_positions = margin_positions market_states, as_effective_collateral = portfolio_collateral market_states\<rparr>
       (margin_prices market_states live_prices)"

section \<open>Attestation\<close>

definition PORTFOLIO_MARGIN_ATTESTATION_TTL_SECS :: u64 where "PORTFOLIO_MARGIN_ATTESTATION_TTL_SECS = 3600"

definition attest_portfolio_margin :: "Host \<Rightarrow> Chain \<Rightarrow> AppState \<Rightarrow> u64 \<Rightarrow> Address \<Rightarrow> Hash \<Rightarrow> (Sent \<times> AppState) option" where
  "attest_portfolio_margin H C st now trader key =
     (case st_risk_monitor_contract st of None \<Rightarrow> Some ([], st)
      | Some contract \<Rightarrow>
          let (market_states, st1) = load_portfolio_state H st key [] in
          if market_states = [] then Some ([], st1)
          else
            let live_prices = live_mark_prices H st1 (map pm_market_id market_states) in do {
              computed \<leftarrow> compute_margin H market_states live_prices;
              Some (case computed of Inl _ \<Rightarrow> []
                 | Inr margin \<Rightarrow> submit_portfolio_margin C trader (mg_margin_requirement margin)
                     (now + PORTFOLIO_MARGIN_ATTESTATION_TTL_SECS) (Some contract), st1)
            })"

text \<open>
  The settlement task of an order: submit the sweep, and when it landed attest the margin of the taker and of
  the maker of every leg, before the outcome is recorded.  Every attestation reads the clock.  \<open>None\<close> is the
  panic of a margin computation, which ends the task with no outcome recorded.
\<close>

fun attest_all :: "Host \<Rightarrow> Chain \<Rightarrow> (nat \<Rightarrow> u64) \<Rightarrow> nat \<Rightarrow> (Address \<times> Hash) list \<Rightarrow> AppState \<Rightarrow> (Sent \<times> AppState) option" where
  "attest_all H C clock i [] st = Some ([], st)"
| "attest_all H C clock i ((trader, key) # ps) st = do {
     (sent, st1) \<leftarrow> attest_portfolio_margin H C st (clock i) trader key;
     (sent', st2) \<leftarrow> attest_all H C clock (Suc i) ps st1;
     Some (sent @ sent', st2)
   }"

definition attested_portfolios :: "Address \<Rightarrow> TakerSweep \<Rightarrow> Address list \<Rightarrow> (Address \<times> Hash) list" where
  "attested_portfolios signer sweep maker_traders =
     (signer, ts_portfolio_key_taker sweep) #
     map (\<lambda>(leg, trader). (trader, mf_portfolio_key leg)) (zip (ts_maker_legs sweep) maker_traders)"

definition settle_in_background :: "Host \<Rightarrow> Chain \<Rightarrow> (nat \<Rightarrow> u64) \<Rightarrow> AppState \<Rightarrow> Address \<Rightarrow> u64 \<Rightarrow> MarketId \<Rightarrow> TakerSweep \<Rightarrow>
    Address list \<Rightarrow> (Sent \<times> AppState) option" where
  "settle_in_background H C clock st signer nonce market_id sweep maker_traders =
     (let (result, sent) = settle_taker_sweep C sweep (settlement_contract st market_id) in
      case rs_broadcast_tx_hash result of
        Some tx_hash \<Rightarrow> do {
          (attested, st1) \<leftarrow> attest_all H C clock 0 (attested_portfolios signer sweep maker_traders) st;
          Some (sent @ attested, settlement_landed st1 signer nonce tx_hash)
        }
      | None \<Rightarrow> Some (sent, settlement_failed st signer nonce market_id sweep))"

section \<open>The public check\<close>

definition parse_portfolio_key :: "(string \<Rightarrow> bytes option) \<Rightarrow> string \<Rightarrow> Hash option" where
  "parse_portfolio_key hex_decode s =
     (case hex_decode (if take 2 s = ''0x'' then drop 2 s else s) of None \<Rightarrow> None
      | Some bs \<Rightarrow> if length bs = 32 then Some (of_nat (foldl (\<lambda>n b. 256 * n + unat b) 0 bs)) else None)"

datatype LiquidationError = BadPortfolioKey | BadLiquidator | MarginFailed

definition liquidation_status :: "LiquidationError \<Rightarrow> nat" where
  "liquidation_status e = (case e of BadPortfolioKey \<Rightarrow> 400 | BadLiquidator \<Rightarrow> 400 | MarginFailed \<Rightarrow> 500)"

definition post_liquidation_check ::
  "(string \<Rightarrow> bytes option) \<Rightarrow> Host \<Rightarrow> AppState \<Rightarrow> string \<Rightarrow> MarketId list \<Rightarrow> ((LiquidationError + bool) \<times> AppState) option" where
  "post_liquidation_check hex_decode H st portfolio market_ids =
     (case parse_portfolio_key hex_decode portfolio of None \<Rightarrow> Some (Inl BadPortfolioKey, st)
      | Some key \<Rightarrow>
          let (market_states, st1) = load_portfolio_state H st key market_ids in
          if market_states = [] then Some (Inr False, st1)
          else
            let live_prices = live_mark_prices H st1 (map pm_market_id market_states) in do {
              computed \<leftarrow> compute_margin H market_states live_prices;
              Some (Inr (case computed of Inl _ \<Rightarrow> False | Inr margin \<Rightarrow> mg_maintenance_breached margin), st1)
            })"

section \<open>Sizing the legs\<close>

definition LIQUIDATION_REWARD_BPS :: nat where "LIQUIDATION_REWARD_BPS = 50"
definition LIQUIDATION_SAFETY_BUFFER_BPS :: nat where "LIQUIDATION_SAFETY_BUFFER_BPS = 1000"

definition liquidation_close_bps :: "MarginResult \<Rightarrow> nat" where
  "liquidation_close_bps margin =
     (let deficit = mg_margin_requirement margin - mg_effective_collateral margin;
          f_min_bps = (if mg_margin_requirement margin = 0 then 10000
            else div_ceil (wrap_u128 (int (deficit * 10000))) (mg_margin_requirement margin)) in
      min (sat_u128 (f_min_bps + LIQUIDATION_SAFETY_BUFFER_BPS)) 10000)"

definition close_whole_leg :: "Host \<Rightarrow> AppState \<Rightarrow> PortfolioMarketState \<Rightarrow> u64 \<Rightarrow> int \<Rightarrow> LiquidationLegDelta \<times> PortfolioMarketState option" where
  "close_whole_leg H st m current_tick current_funding_index =
     (\<lparr>ll_market_id = onchain_market_id H st (pm_market_id m),
       ll_collateral_delta = realized_close_delta (pm_signed_size m) (pm_entry_price m) (pm_entry_funding_index m)
         (of_nat (min (nat \<bar>pm_signed_size m\<bar>) (2 ^ 64 - 1))) current_tick current_funding_index,
       ll_sealed_params = []\<rparr>, None)"

definition close_part_of_leg :: "Host \<Rightarrow> AppState \<Rightarrow> PortfolioMarketState \<Rightarrow> u64 \<Rightarrow> int \<Rightarrow> nat \<Rightarrow> LiquidationLegDelta \<times> PortfolioMarketState option" where
  "close_part_of_leg H st m current_tick current_funding_index close_size =
     (let remaining_size = nat \<bar>pm_signed_size m\<bar> - close_size;
          delta = realized_close_delta (pm_signed_size m) (pm_entry_price m) (pm_entry_funding_index m)
            (of_nat close_size) current_tick current_funding_index in
      (\<lparr>ll_market_id = onchain_market_id H st (pm_market_id m), ll_collateral_delta = delta,
        ll_sealed_params = h_seal H \<lparr>sl_side_is_buy = 0 < pm_signed_size m, sl_entry_price = pm_entry_price m,
          sl_size = of_nat remaining_size, sl_leverage = pm_leverage m, sl_take_profit = pm_take_profit m,
          sl_stop_loss = pm_stop_loss m, sl_entry_funding_index = pm_entry_funding_index m\<rparr>\<rparr>,
       Some (m\<lparr>pm_signed_size := (if 0 \<le> pm_signed_size m then int remaining_size else - int remaining_size),
         pm_collateral := h_i256_add H (pm_collateral m) delta\<rparr>)))"

definition size_leg :: "Host \<Rightarrow> AppState \<Rightarrow> nat \<Rightarrow> (MarketId \<times> nat) list \<Rightarrow> (MarketId \<rightharpoonup> int) \<Rightarrow> PortfolioMarketState \<Rightarrow>
    LiquidationLegDelta \<times> PortfolioMarketState option" where
  "size_leg H st close_bps live_prices funding_indices m =
     (let size_abs = nat \<bar>pm_signed_size m\<bar>;
          current_tick = of_nat (mark_price_of live_prices m);
          current_funding_index = (case funding_indices (pm_market_id m) of Some i \<Rightarrow> i | None \<Rightarrow> pm_entry_funding_index m) in
      if 10000 \<le> close_bps \<or> size_abs = 0 then close_whole_leg H st m current_tick current_funding_index
      else
        let close_size = wrap_u128 (int (size_abs * close_bps)) div 10000 in
        if close_size = 0 \<or> size_abs - close_size = 0 then close_whole_leg H st m current_tick current_funding_index
        else close_part_of_leg H st m current_tick current_funding_index close_size)"

definition size_liquidation_legs ::
  "Host \<Rightarrow> AppState \<Rightarrow> Hash \<Rightarrow> PortfolioMarketState list \<Rightarrow> MarginResult \<Rightarrow> (MarketId \<times> nat) list \<Rightarrow> (MarketId \<rightharpoonup> int) \<Rightarrow>
    (LiquidationLegDelta list \<times> nat) \<times> AppState" where
  "size_liquidation_legs H st key market_states margin live_prices funding_indices =
     (let close_bps = liquidation_close_bps margin;
          sized = map (\<lambda>m. (m, size_leg H st close_bps live_prices funding_indices m)) market_states in
      ((map (\<lambda>(m, leg, _). leg) sized, close_bps),
       foldl (\<lambda>st (m, _, entry). cache_put st (key, pm_market_id m) entry) st sized))"

section \<open>Liquidating\<close>

record LiquidateResponse =
  lr_executed :: bool
  lr_tx_hashes :: "Hash list"

definition liquidator_reward :: "MarginResult \<Rightarrow> nat \<Rightarrow> nat" where
  "liquidator_reward margin close_bps =
     mg_effective_collateral margin * LIQUIDATION_REWARD_BPS div API_BPS_DENOMINATOR * close_bps div 10000"

definition market_contracts :: "Host \<Rightarrow> AppState \<Rightarrow> Hash \<rightharpoonup> Address" where
  "market_contracts H st = map_of (rev (map (\<lambda>(market_id, contract). (onchain_market_id H st market_id, contract)) (st_settlement_contracts st)))"

text \<open>The part of the handler that runs with every position locked.\<close>

definition liquidate_locked :: "Host \<Rightarrow> Chain \<Rightarrow> AppState \<Rightarrow> Hash \<Rightarrow> Address \<Rightarrow> MarketId list \<Rightarrow>
    (((LiquidationError + LiquidateResponse) \<times> Sent) \<times> AppState) option" where
  "liquidate_locked H C st key liquidator market_ids =
     (let market_states = List.map_filter (load_single_market_state_cached H st key) market_ids;
          idle = (Inr \<lparr>lr_executed = False, lr_tx_hashes = []\<rparr>, []) in
      if market_states = [] then Some (idle, st)
      else
        let live_prices = live_mark_prices H st market_ids in do {
          computed \<leftarrow> compute_margin H market_states live_prices;
          Some (case computed of Inl _ \<Rightarrow> ((Inl MarginFailed, []), st)
           | Inr margin \<Rightarrow>
              if \<not> mg_maintenance_breached margin then (idle, st)
              else
                let ((legs, close_bps), st1) = size_liquidation_legs H st key market_states margin live_prices (st_funding_index st);
                    sweep = \<lparr>lw_portfolio_key = key, lw_margin_requirement = mg_margin_requirement margin, lw_legs = legs,
                      lw_liquidator = liquidator, lw_liquidator_reward = liquidator_reward margin close_bps\<rparr>;
                    (results, sent) = liquidate_sealed C sweep (market_contracts H st1);
                    st2 = (if \<exists>r \<in> set results. rs_broadcast_tx_hash r = None
                      then foldl (\<lambda>st m. invalidate_position st key m) st1 market_ids else st1);
                    tx_hashes = List.map_filter rs_broadcast_tx_hash results in
                ((Inr \<lparr>lr_executed = (tx_hashes \<noteq> []), lr_tx_hashes = tx_hashes\<rparr>, sent), st2))
        })"

definition post_liquidate :: "(string \<Rightarrow> bytes option) \<Rightarrow> (string \<Rightarrow> Address option) \<Rightarrow> Host \<Rightarrow> Chain \<Rightarrow> AppState \<Rightarrow>
    string \<Rightarrow> string \<Rightarrow> MarketId list \<Rightarrow> (((LiquidationError + LiquidateResponse) \<times> Sent) \<times> AppState) option" where
  "post_liquidate hex_decode parse_address H C st portfolio liquidator market_hints =
     (case parse_portfolio_key hex_decode portfolio of None \<Rightarrow> Some ((Inl BadPortfolioKey, []), st)
      | Some key \<Rightarrow>
     (case parse_address liquidator of None \<Rightarrow> Some ((Inl BadLiquidator, []), st)
      | Some address \<Rightarrow>
         let (discovered, st1) = load_portfolio_state H st key market_hints in
         if discovered = [] then Some ((Inr \<lparr>lr_executed = False, lr_tx_hashes = []\<rparr>, []), st1)
         else liquidate_locked H C st1 key address (sort (map pm_market_id discovered))))"

end
