(* ===== verification/Settlement_Consistency.thy ===== *)
theory Settlement_Consistency
  imports Settlement_Properties Rescue Liquidation
begin

text \<open>
  The position cache between an order and its settlement: which entries an order can change, that they are
  what its sweep seals, what a settlement sends, and that a failed one gives up every one of them.
\<close>

text \<open>
  \<open>st'\<close> differs from \<open>st\<close> in the cache at most at the given positions, derives the same keys and settles to the
  same contracts.
\<close>

definition touches :: "PositionKey set \<Rightarrow> AppState \<Rightarrow> AppState \<Rightarrow> bool" where
  "touches K st st' \<longleftrightarrow> st_portfolio_key_secret st' = st_portfolio_key_secret st \<and>
     st_settlement_contracts st' = st_settlement_contracts st \<and> st_risk_monitor_contract st' = st_risk_monitor_contract st \<and>
     (\<forall>k. k \<notin> K \<longrightarrow> st_position_cache st' k = st_position_cache st k)"

named_theorems touch

lemma touches_refl [touch]: "touches K st st"
  by (simp add: touches_def)

lemma touches_trans: "touches K st st' \<Longrightarrow> touches L st' st'' \<Longrightarrow> K \<union> L \<subseteq> M \<Longrightarrow> touches M st st''"
  by (fastforce simp: touches_def)

lemma touches_frame [touch]:
  "touches {} st (queue_realized_pnl H st t d)" "touches {} st (index_market st k m)" "touches {} st (add_volume st t w)"
  "touches {} st (backstop_put st m s)" "touches {} st (book_put st m b)" "touches {} st (register_owner st a)"
  "touches {} st (record_prints st m now fs)" "touches {} st (book_put (backstop_put st m x) m b)"
  by (auto simp: touches_def queue_realized_pnl_def index_market_def add_known_markets_def add_volume_def backstop_put_def
      book_put_def register_owner_def record_prints_def Let_def split: option.splits)

lemma touches_load_and_fold:
  "load_and_fold H st k m b p q c l x = Some (r, st') \<Longrightarrow> touches {(k, m)} st st'"
  by (auto simp: load_and_fold_def Let_def bind_eq_Some_conv touches_def cache_put_def)

lemma touches_book_submit: "book_submit st m o' now = Some (r, st') \<Longrightarrow> touches {} st st'"
  by (auto simp: book_submit_def bind_eq_Some_conv touch)

lemma touches_rescue: "backstop_rescue st p r = Some (r', st') \<Longrightarrow> touches {} st st'"
  by (auto simp: backstop_rescue_def serve_leftover_def serve_resting_def Let_def bind_eq_Some_conv touch
      split: option.splits if_splits)

lemma touches_leg:
  assumes "build_maker_leg H st t n i m f b a c = Some (leg, st')"
  shows "touches {(mf_portfolio_key leg, m)} st st'"
proof -
  from assms obtain d r st1 where "load_and_fold H st (trader_portfolio_key H st a) m (\<not> b) (fill_tick f) (fill_qty f) c 20 0 = Some ((d, r), st1)"
    "st' = queue_realized_pnl H st1 a (realized_delta_to_usd r m)" "mf_portfolio_key leg = trader_portfolio_key H st a"
    by (auto simp: build_maker_leg_def Let_def bind_eq_Some_conv)
  then show ?thesis using touches_trans [OF touches_load_and_fold touches_frame(1)] by fastforce
qed

text \<open>The positions a sweep settles.\<close>

definition settled :: "Hash \<Rightarrow> MarketId \<Rightarrow> MakerFill list \<Rightarrow> PositionKey set" where
  "settled taker m legs = (if legs = [] then {} else (\<lambda>k. (k, m)) ` insert taker (mf_portfolio_key ` set legs))"

lemma touches_settle_fill:
  assumes "settle_fill H s p c v i f (sw, st) = Some (sw', st')"
  shows "touches (settled (trader_portfolio_key H st s) (op_market_id p) (sw_maker_legs sw')) st st' \<and>
    set (sw_maker_legs sw) \<subseteq> set (sw_maker_legs sw')"
proof (cases "st_owner_addresses st (fill_maker_owner f)")
  case None
  with assms show ?thesis by (auto simp: settle_fill_def touch)
next
  case (Some a)
  from assms Some obtain leg st1 where leg: "build_maker_leg H st s (op_nonce p) i (op_market_id p) f (op_side p = BuySide) a c = Some (leg, st1)"
    by (auto simp: settle_fill_def Let_def bind_eq_Some_conv)
  let ?st2 = "index_market st1 (mf_portfolio_key leg) (op_market_id p)"
  let ?fee = "int (taker_fee (unat (fill_tick f) * unat (fill_qty f)) v)"
  from assms Some leg obtain d r st3 where
    fold: "load_and_fold H ?st2 (trader_portfolio_key H ?st2 s) (op_market_id p) (op_side p = BuySide) (fill_tick f) (fill_qty f) c
      (op_leverage p) ?fee = Some ((d, r), st3)"
    and st': "st' = queue_realized_pnl H st3 s (realized_delta_to_usd r (op_market_id p))"
    and legs: "sw_maker_legs sw' = sw_maker_legs sw @ [leg]"
    by (auto simp: settle_fill_def bind_eq_Some_conv Let_def)
  have t1: "touches {(mf_portfolio_key leg, op_market_id p)} st ?st2"
    by (rule touches_trans [OF touches_leg [OF leg] touches_frame(2)]) simp
  then have key: "trader_portfolio_key H ?st2 s = trader_portfolio_key H st s"
    by (simp add: touches_def trader_portfolio_key_def)
  have "touches {(trader_portfolio_key H st s, op_market_id p)} ?st2 st'"
    unfolding st' by (rule touches_trans [OF touches_load_and_fold [OF fold] touches_frame(1)]) (simp add: key)
  from touches_trans [OF t1 this] legs show ?thesis by (auto simp: settled_def)
qed

lemma settled_mono: "set legs \<subseteq> set legs' \<Longrightarrow> settled k m legs \<subseteq> settled k m legs'"
  by (auto simp: settled_def)

lemma touches_settle_fills:
  "settle_fills H s p c v i fs (sw, st) = Some (sw', st') \<Longrightarrow>
    touches (settled (trader_portfolio_key H st s) (op_market_id p) (sw_maker_legs sw')) st st' \<and>
    set (sw_maker_legs sw) \<subseteq> set (sw_maker_legs sw')"
proof (induction fs arbitrary: i sw st)
  case (Cons f fs)
  from Cons.prems obtain sw1 st1 where one: "settle_fill H s p c v i f (sw, st) = Some (sw1, st1)"
    and rest: "settle_fills H s p c v (Suc i) fs (sw1, st1) = Some (sw', st')" by (auto simp: bind_eq_Some_conv)
  note a = touches_settle_fill [OF one] and b = Cons.IH [OF rest]
  have "trader_portfolio_key H st1 s = trader_portfolio_key H st s" using a by (simp add: touches_def trader_portfolio_key_def)
  then have "touches (settled (trader_portfolio_key H st s) (op_market_id p) (sw_maker_legs sw')) st st'"
    using a b settled_mono [of "sw_maker_legs sw1" "sw_maker_legs sw'"]
    by (intro touches_trans [OF conjunct1 [OF a] conjunct1 [OF b]]) simp
  with a b show ?case by blast
qed (simp add: touch)

lemma settle_orderE:
  assumes "settle_order H st s p fs = Some (sw, st')"
  obtains acc st4 where "settle_fills H s p (funding_index_for st (op_market_id p)) (trader_volume_of st s) 0 fs (Sweep_empty, st) = Some (acc, st4)"
    and "build_sweep H (add_volume st4 s (sw_weighted_price acc)) s (op_market_id p) acc = (map_option fst sw, st')"
  using assms by (auto simp: settle_order_def Let_def bind_eq_Some_conv split_beta option.map_comp o_def option.map_ident prod_eq_iff)

lemma touches_execute:
  assumes "execute_order H st now p s = Some ((res, sw), st')"
  shows "touches (case sw of None \<Rightarrow> {} | Some (sweep, _) \<Rightarrow>
      settled (ts_portfolio_key_taker sweep) (op_market_id p) (ts_maker_legs sweep)) st st'"
proof -
  let ?m = "op_market_id p"
  from assms obtain r0 st1 st2 where sub: "book_submit (register_owner st s) ?m (order_of p s) now = Some (r0, st1)"
    and rescue: "backstop_rescue st1 p r0 = Some (res, st2)"
    and settle: "settle_order H (record_prints st2 ?m now (sr_fills res)) s p (sr_fills res) = Some (sw, st')"
    by (auto simp: execute_order_def bind_eq_Some_conv)
  let ?st3 = "record_prints st2 ?m now (sr_fills res)"
  have t3: "touches {} st ?st3"
    using touches_trans [OF touches_trans [OF touches_frame(6) touches_book_submit [OF sub]] touches_trans [OF touches_rescue [OF rescue] touches_frame(7)]]
    by auto
  obtain acc st4 where fills: "settle_fills H s p (funding_index_for ?st3 ?m) (trader_volume_of ?st3 s) 0 (sr_fills res) (Sweep_empty, ?st3) = Some (acc, st4)"
    and out: "build_sweep H (add_volume st4 s (sw_weighted_price acc)) s ?m acc = (map_option fst sw, st')"
    by (rule settle_orderE [OF settle])
  define K where "K = settled (trader_portfolio_key H st s) ?m (sw_maker_legs acc)"
  have key: "trader_portfolio_key H ?st3 s = trader_portfolio_key H st s" using t3 by (simp add: touches_def trader_portfolio_key_def)
  have t4: "touches K ?st3 st4" using touches_settle_fills [OF fills] unfolding K_def key by blast
  then have t5: "touches K st (add_volume st4 s (sw_weighted_price acc))"
    using touches_trans [OF touches_trans [OF t3 t4] touches_frame(3)] by auto
  then have key5: "trader_portfolio_key H (add_volume st4 s (sw_weighted_price acc)) s = trader_portfolio_key H st s"
    by (simp add: touches_def trader_portfolio_key_def)
  show ?thesis
  proof (cases "sw_maker_legs acc = []")
    case True
    with out t5 show ?thesis by (cases sw) (auto simp: build_sweep_def K_def settled_def)
  next
    case False
    with out obtain sweep ts where sw: "sw = Some (sweep, ts)" "ts_portfolio_key_taker sweep = trader_portfolio_key H st s"
      "ts_maker_legs sweep = sw_maker_legs acc" "st' = index_market (add_volume st4 s (sw_weighted_price acc)) (trader_portfolio_key H st s) ?m"
      by (cases sw) (auto simp: build_sweep_def Let_def key5)
    then show ?thesis using touches_trans [OF t5 touches_frame(2), of K] by (simp add: K_def)
  qed
qed

lemma fold_invalidate:
  "st_position_cache (foldl (\<lambda>st leg. invalidate_position st (mf_portfolio_key leg) m) st legs) k =
     (if snd k = m \<and> fst k \<in> mf_portfolio_key ` set legs then None else st_position_cache st k)"
  unfolding invalidate_position_def
  by (subst cache.get_evict_all [where key = "\<lambda>leg. (mf_portfolio_key leg, m)"]) (cases k, auto)

lemma invalidate_cache:
  "st_position_cache (invalidate_position st k m) j = (if j = (k, m) then None else st_position_cache st j)"
  by (simp add: invalidate_position_def cache.get_put)

lemma settlement_failed_cache:
  "st_position_cache (settlement_failed st s n m sweep) k =
     (if snd k = m \<and> fst k \<in> insert (ts_portfolio_key_taker sweep) (mf_portfolio_key ` set (ts_maker_legs sweep)) then None
      else st_position_cache st k)"
  by (cases k) (auto simp: settlement_failed_def Let_def fold_invalidate invalidate_cache)

section \<open>What the sweep seals\<close>

text \<open>The parameters a sweep submits for a portfolio: those of its last leg, and for the taker its own.\<close>

definition sealed_in :: "Hash \<Rightarrow> bytes \<Rightarrow> MakerFill list \<Rightarrow> Hash \<Rightarrow> bytes option" where
  "sealed_in taker params legs k =
     (if k = taker then Some params
      else map_option mf_sealed_params (find (\<lambda>leg. mf_portfolio_key leg = k) (rev legs)))"

lemma sealed_in_snoc:
  "k \<noteq> taker \<Longrightarrow> sealed_in taker params (legs @ [leg]) k =
    (if mf_portfolio_key leg = k then Some (mf_sealed_params leg) else sealed_in taker params legs k)"
  by (simp add: sealed_in_def)

lemma sealed_in_legs: "sealed_in taker params legs k = None \<longleftrightarrow> k \<noteq> taker \<and> k \<notin> mf_portfolio_key ` set legs"
  by (auto simp: sealed_in_def find_None_iff)

lemma sealed_bytes_cong:
  "st_position_cache st' (k, m) = st_position_cache st (k, m) \<Longrightarrow> sealed_position_bytes H st' k m = sealed_position_bytes H st k m"
  by (simp add: sealed_position_bytes_def cached_sealed_params_def)

text \<open>The legs of a sweep in the making seal what the cache holds for every maker but the taker itself.\<close>

definition sealing :: "Host \<Rightarrow> MarketId \<Rightarrow> Hash \<Rightarrow> MakerFill list \<Rightarrow> AppState \<Rightarrow> bool" where
  "sealing H m taker legs st \<longleftrightarrow> (\<forall>k params x. k \<noteq> taker \<longrightarrow> sealed_in taker params legs k = Some x \<longrightarrow> x = sealed_position_bytes H st k m)"

lemma sealing_frame: "sealing H m taker legs st \<Longrightarrow> touches {(taker, m)} st st' \<Longrightarrow> sealing H m taker legs st'"
  unfolding sealing_def touches_def using sealed_bytes_cong [of st' _ m st H] by (metis prod.inject singletonD)

lemma leg_seals:
  assumes "build_maker_leg H st t n i m f b a c = Some (leg, st')"
  shows "mf_sealed_params leg = sealed_position_bytes H st' (mf_portfolio_key leg) m"
  using assms by (auto simp: build_maker_leg_def Let_def bind_eq_Some_conv)

lemma sealing_settle_fill:
  assumes "settle_fill H s p c v i f (sw, st) = Some (sw', st')"
    and "sealing H (op_market_id p) (trader_portfolio_key H st s) (sw_maker_legs sw) st"
  shows "sealing H (op_market_id p) (trader_portfolio_key H st s) (sw_maker_legs sw') st'"
proof (cases "st_owner_addresses st (fill_maker_owner f)")
  case None
  with assms show ?thesis by (auto simp: settle_fill_def)
next
  case (Some a)
  let ?m = "op_market_id p" and ?taker = "trader_portfolio_key H st s"
  from assms(1) Some obtain leg st1 where leg: "build_maker_leg H st s (op_nonce p) i ?m f (op_side p = BuySide) a c = Some (leg, st1)"
    by (auto simp: settle_fill_def Let_def bind_eq_Some_conv)
  let ?st2 = "index_market st1 (mf_portfolio_key leg) ?m"
  let ?fee = "int (taker_fee (unat (fill_tick f) * unat (fill_qty f)) v)"
  from assms(1) Some leg obtain d r st3 where
    fold: "load_and_fold H ?st2 (trader_portfolio_key H ?st2 s) ?m (op_side p = BuySide) (fill_tick f) (fill_qty f) c
      (op_leverage p) ?fee = Some ((d, r), st3)"
    and st': "st' = queue_realized_pnl H st3 s (realized_delta_to_usd r ?m)"
    and legs: "sw_maker_legs sw' = sw_maker_legs sw @ [leg]"
    by (auto simp: settle_fill_def bind_eq_Some_conv Let_def)
  have t1: "touches {(mf_portfolio_key leg, ?m)} st st1" by (rule touches_leg [OF leg])
  have t2: "touches {} st1 ?st2" by (rule touches_frame)
  have key: "trader_portfolio_key H ?st2 s = ?taker" using t1 t2 by (simp add: touches_def trader_portfolio_key_def)
  have t3: "touches {(?taker, ?m)} ?st2 st'"
    unfolding st' by (rule touches_trans [OF touches_load_and_fold [OF fold] touches_frame(1)]) (simp add: key)
  have "sealing H ?m ?taker (sw_maker_legs sw @ [leg]) st1"
    unfolding sealing_def
  proof (intro allI impI)
    fix k params x assume k: "k \<noteq> ?taker" and x: "sealed_in ?taker params (sw_maker_legs sw @ [leg]) k = Some x"
    show "x = sealed_position_bytes H st1 k ?m"
    proof (cases "mf_portfolio_key leg = k")
      case True
      with x k leg_seals [OF leg] show ?thesis by (simp add: sealed_in_snoc)
    next
      case False
      then have "st_position_cache st1 (k, ?m) = st_position_cache st (k, ?m)" using t1 by (auto simp: touches_def)
      moreover have "x = sealed_position_bytes H st k ?m" using x k False assms(2) by (auto simp: sealed_in_snoc sealing_def)
      ultimately show ?thesis by (simp add: sealed_bytes_cong [of st1 k ?m st])
    qed
  qed
  moreover have "touches {(?taker, ?m)} st1 st'" using touches_trans [OF t2 t3] by simp
  ultimately show ?thesis unfolding legs by (rule sealing_frame)
qed

lemma sealing_settle_fills:
  "settle_fills H s p c v i fs (sw, st) = Some (sw', st') \<Longrightarrow>
    sealing H (op_market_id p) (trader_portfolio_key H st s) (sw_maker_legs sw) st \<Longrightarrow>
    sealing H (op_market_id p) (trader_portfolio_key H st s) (sw_maker_legs sw') st'"
proof (induction fs arbitrary: i sw st)
  case (Cons f fs)
  from Cons.prems obtain sw1 st1 where one: "settle_fill H s p c v i f (sw, st) = Some (sw1, st1)"
    and rest: "settle_fills H s p c v (Suc i) fs (sw1, st1) = Some (sw', st')" by (auto simp: bind_eq_Some_conv)
  have "trader_portfolio_key H st1 s = trader_portfolio_key H st s" using touches_settle_fill [OF one]
    by (simp add: touches_def trader_portfolio_key_def)
  with Cons.IH [OF rest] sealing_settle_fill [OF one Cons.prems(2)] show ?case by simp
qed simp

lemma sweep_seals:
  assumes "execute_order H st now p s = Some ((res, Some (sweep, traders)), st')"
    and "sealed_in (ts_portfolio_key_taker sweep) (ts_sealed_params_taker sweep) (ts_maker_legs sweep) k = Some x"
  shows "x = sealed_position_bytes H st' k (op_market_id p)"
proof -
  let ?m = "op_market_id p"
  from assms(1) obtain st2 where settle: "settle_order H st2 s p (sr_fills res) = Some (Some (sweep, traders), st')"
    by (auto simp: execute_order_def bind_eq_Some_conv)
  obtain acc st4 where fills: "settle_fills H s p (funding_index_for st2 ?m) (trader_volume_of st2 s) 0 (sr_fills res) (Sweep_empty, st2) = Some (acc, st4)"
    and out: "build_sweep H (add_volume st4 s (sw_weighted_price acc)) s ?m acc = (Some sweep, st')"
    by (rule settle_orderE [OF settle]) simp
  let ?st5 = "add_volume st4 s (sw_weighted_price acc)"
  have "sealing H ?m (trader_portfolio_key H st2 s) (sw_maker_legs Sweep_empty) st2"
    by (simp add: sealing_def sealed_in_def Sweep_empty_def)
  from sealing_settle_fills [OF fills this]
  have seal: "sealing H ?m (trader_portfolio_key H st2 s) (sw_maker_legs acc) st4" .
  have key: "trader_portfolio_key H ?st5 s = trader_portfolio_key H st2 s"
    using touches_settle_fills [OF fills] touches_frame(3) [of st4 s "sw_weighted_price acc"] by (simp add: touches_def trader_portfolio_key_def)
  have sweep: "ts_portfolio_key_taker sweep = trader_portfolio_key H st2 s" "ts_maker_legs sweep = sw_maker_legs acc"
    "ts_sealed_params_taker sweep = sealed_position_bytes H ?st5 (trader_portfolio_key H st2 s) ?m"
    and st': "st' = index_market ?st5 (trader_portfolio_key H st2 s) ?m"
    using out by (auto simp: build_sweep_def Let_def key split: if_splits)
  have "touches {} st4 st'" unfolding st' using touches_trans [OF touches_frame(3) touches_frame(2)] by simp
  then have cache: "st_position_cache st' = st_position_cache st4" and "st_position_cache ?st5 = st_position_cache st4"
    using touches_frame(3) [of st4 s "sw_weighted_price acc"] by (simp_all add: touches_def fun_eq_iff)
  then have bytes: "sealed_position_bytes H st' j ?m = sealed_position_bytes H st4 j ?m"
    "sealed_position_bytes H ?st5 j ?m = sealed_position_bytes H st4 j ?m" for j
    by (simp_all add: sealed_position_bytes_def cached_sealed_params_def)
  show ?thesis
  proof (cases "k = ts_portfolio_key_taker sweep")
    case True
    with assms(2) show ?thesis by (simp add: sealed_in_def sweep bytes)
  next
    case False
    with assms(2) seal show ?thesis unfolding sweep sealing_def bytes by blast
  qed
qed

section \<open>What a settlement sends\<close>

text \<open>The call that attests a portfolio, from the positions the engine reads for it; \<open>None\<close> is a panic.\<close>

definition attestation :: "Host \<Rightarrow> Chain \<Rightarrow> AppState \<Rightarrow> u64 \<Rightarrow> Address \<times> Hash \<Rightarrow> Sent option" where
  "attestation H C st now portfolio =
     (let positions = List.map_filter (load_single_market_state_cached H st (snd portfolio)) (known_markets st (snd portfolio)) in
      case st_risk_monitor_contract st of None \<Rightarrow> Some []
      | Some contract \<Rightarrow>
          if positions = [] then Some []
          else map_option (\<lambda>margin. case margin of Inl _ \<Rightarrow> []
              | Inr g \<Rightarrow> snd (submit_call C (Some contract) (SubmitPortfolioMargin (fst portfolio) (mg_margin_requirement g) (now + 3600))))
            (compute_margin H positions (live_mark_prices H st (map pm_market_id positions))))"

lemma known_markets_reread [simp]: "known_markets (add_known_markets st k []) j = known_markets st j"
  by (simp add: known_markets_def add_known_markets_def)

lemma load_reread [simp]: "load_single_market_state_cached H (add_known_markets st k []) j m = load_single_market_state_cached H st j m"
  by (simp add: load_single_market_state_cached_def load_single_market_state_def add_known_markets_def onchain_market_id_def settlement_contract_def
      split: option.split)

lemma attestation_reread [simp]: "attestation H C (add_known_markets st k []) now portfolio = attestation H C st now portfolio"
proof -
  have "live_mark_prices H (add_known_markets st k []) ids = live_mark_prices H st ids" for ids
    by (simp add: live_mark_prices_def add_known_markets_def)
  moreover have "load_single_market_state_cached H (add_known_markets st k []) j = load_single_market_state_cached H st j" for j by (rule ext) simp
  moreover have "st_risk_monitor_contract (add_known_markets st k []) = st_risk_monitor_contract st" by (simp add: add_known_markets_def)
  ultimately show ?thesis by (simp add: attestation_def Let_def split: option.split)
qed

lemma attest_sends:
  "attest_portfolio_margin H C st now trader key = map_option (\<lambda>sent. (sent,
     if st_risk_monitor_contract st = None then st else add_known_markets st key [])) (attestation H C st now (trader, key))"
proof -
  have load: "load_single_market_state_cached H (add_known_markets st key []) key = load_single_market_state_cached H st key" by (rule ext) simp
  have live: "live_mark_prices H (add_known_markets st key []) ids = live_mark_prices H st ids" for ids
    by (simp add: live_mark_prices_def add_known_markets_def)
  show ?thesis
    by (cases "st_risk_monitor_contract st")
      (auto simp: attest_portfolio_margin_def attestation_def load_portfolio_state_def Let_def load live submit_portfolio_margin_def
        PORTFOLIO_MARGIN_ATTESTATION_TTL_SECS_def bind_map_option map_option_case split: option.splits sum.splits)
qed

lemma attest_all_sends:
  "case attest_all H C clock i ps st of
     None \<Rightarrow> \<exists>j < length ps. attestation H C st (clock (i + j)) (ps ! j) = None
   | Some (sent, st') \<Rightarrow> touches {} st st' \<and>
       (\<exists>css. list_all2 (\<lambda>j calls. attestation H C st (clock (i + j)) (ps ! j) = Some calls) [0..<length ps] css \<and> sent = concat css)"
proof (induction H C clock i ps st rule: attest_all.induct)
  case (1 H C clock i st)
  show ?case by (simp add: touch)
next
  case (2 H C clock i trader key ps st)
  let ?st1 = "if st_risk_monitor_contract st = None then st else add_known_markets st key []"
  have same: "attestation H C ?st1 now portfolio = attestation H C st now portfolio" for now portfolio by simp
  have t: "touches {} st ?st1" by (simp add: touches_def add_known_markets_def)
  show ?case
  proof (cases "attestation H C st (clock i) (trader, key)")
    case None
    then show ?thesis by (auto simp: attest_sends intro!: exI [of _ 0])
  next
    case (Some calls)
    note IH = "2.IH" [of "(calls, ?st1)" calls ?st1, simplified attest_sends Some option.map refl same, simplified]
    show ?thesis
    proof (cases "attest_all H C clock (Suc i) ps ?st1")
      case None
      with IH obtain j where "j < length ps" "attestation H C st (clock (Suc (i + j))) (ps ! j) = None" by auto
      with None Some show ?thesis by (auto simp: attest_sends intro!: exI [of _ "Suc j"])
    next
      case rest: (Some r)
      obtain sent st' where r: "r = (sent, st')" by (cases r)
      with IH rest obtain css where "touches {} ?st1 st'" and sent: "sent = concat css"
        and css: "list_all2 (\<lambda>j calls. attestation H C st (clock (Suc (i + j))) (ps ! j) = Some calls) [0..<length ps] css" by auto
      then have "touches {} st st'" using touches_trans [OF t] by blast
      moreover have "list_all2 (\<lambda>j calls. attestation H C st (clock (i + j)) (((trader, key) # ps) ! j) = Some calls) [0..<Suc (length ps)] (calls # css)"
        using css Some by (simp add: upt_conv_Cons del: upt_Suc) (simp add: map_Suc_upt [symmetric] list_all2_map1 del: upt_Suc)
      ultimately show ?thesis using rest r Some sent by (auto simp: attest_sends simp del: upt_Suc intro!: exI [of _ "calls # css"])
    qed
  qed
qed

text \<open>The hash of a sweep that landed: broadcasting is configured, and the chain took the call.\<close>

definition sweep_landed :: "Chain \<Rightarrow> Address option \<Rightarrow> TakerSweep \<Rightarrow> Hash option" where
  "sweep_landed C contract sweep = (case (ch_rpc_url C, contract) of
     (Some rpc_url, Some c) \<Rightarrow> ch_send C rpc_url c (ch_encode C (taker_sweep_call sweep)) | _ \<Rightarrow> None)"

text \<open>
  C9: The outcome of the settlement task of an order, run on the state the order left.  When the sweep lands,
  because broadcasting is configured and the chain takes the call, the engine keeps reading the positions the order made, and for the taker and every maker leg these are the
  positions whose sealed parameters the sweep submitted; the sweep is followed by the attestations of the
  margin of the taker and of the maker of every leg, in this order and computed from those positions, and its
  hash is on record; a panic while computing one of those margins ends the task before the hash is recorded.
  When the sweep does not land, because the call fails or because no contract is configured, nothing is
  attested and every position it would have settled is evicted, so that the next read goes to the chain; all
  others are those from before the order, and the failure is on record.
\<close>

theorem settlement_outcome:
  fixes C :: Chain
  assumes "execute_order H st now p s = Some ((res, Some (sweep, traders)), st1)"
  defines "m \<equiv> op_market_id p" and "taker \<equiv> ts_portfolio_key_taker sweep" and "legs \<equiv> ts_maker_legs sweep"
    and "ps \<equiv> (s, ts_portfolio_key_taker sweep) # zip traders (map mf_portfolio_key (ts_maker_legs sweep))"
    and "landed \<equiv> sweep_landed C (settlement_contract st1 (op_market_id p)) sweep"
  shows "case settle_in_background H C clock st1 s (op_nonce p) m sweep traders of
      None \<Rightarrow> landed \<noteq> None \<and> (\<exists>j < length ps. attestation H C st1 (clock j) (ps ! j) = None)
    | Some (sent, st2) \<Rightarrow> st_settlement_tx_hashes st2 (s, op_nonce p) = Some landed \<and>
       (case landed of
          Some h \<Rightarrow> st_position_cache st2 = st_position_cache st1 \<and>
            (\<forall>k \<in> insert taker (mf_portfolio_key ` set legs).
               sealed_in taker (ts_sealed_params_taker sweep) legs k = Some (sealed_position_bytes H st2 k m)) \<and>
            (\<exists>c css. settlement_contract st1 m = Some c \<and> sent = (c, taker_sweep_call sweep) # concat css \<and>
               list_all2 (\<lambda>j calls. attestation H C st1 (clock j) (ps ! j) = Some calls) [0..<length ps] css)
        | None \<Rightarrow> set sent \<subseteq> {(c, taker_sweep_call sweep) |c. settlement_contract st1 m = Some c} \<and> length sent \<le> 1 \<and>
            (\<forall>k m'. st_position_cache st2 (k, m') =
               (if m' = m \<and> k \<in> insert taker (mf_portfolio_key ` set legs) then None else st_position_cache st (k, m'))))"
proof -
  obtain r sent0 where r: "settle_taker_sweep C sweep (settlement_contract st1 m) = (r, sent0)" by fastforce
  then have landed: "rs_broadcast_tx_hash r = landed"
    by (auto simp: landed_def m_def sweep_landed_def settle_taker_sweep_def submit_call_def broadcast_config_def Let_def split: option.splits)
  have ps: "attested_portfolios s sweep traders = ps"
    by (simp add: attested_portfolios_def ps_def zip_map2 zip_commute [of "ts_maker_legs sweep"] split_beta o_def)
  have sent: "set sent0 \<subseteq> {(c, taker_sweep_call sweep) |c. settlement_contract st1 m = Some c} \<and> length sent0 \<le> 1"
    "rs_broadcast_tx_hash r \<noteq> None \<Longrightarrow> \<exists>c. settlement_contract st1 m = Some c \<and> sent0 = [(c, taker_sweep_call sweep)]"
    using r by (auto simp: settle_taker_sweep_def submit_call_def broadcast_config_def Let_def bind_eq_Some_conv split: option.splits)
  show ?thesis
  proof (cases "rs_broadcast_tx_hash r")
    case (Some h)
    then obtain c where c: "settlement_contract st1 m = Some c" "sent0 = [(c, taker_sweep_call sweep)]" using sent(2) by auto
    note A = attest_all_sends [where H = H and C = C and clock = clock and i = 0 and ps = ps and st = st1]
    show ?thesis
    proof (cases "attest_all H C clock 0 ps st1")
      case None
      with A r Some landed show ?thesis by (simp add: settle_in_background_def ps m_def [symmetric])
    next
      case all: (Some x)
      obtain attested st2 where x: "x = (attested, st2)" by (cases x)
      with A all obtain css where css: "list_all2 (\<lambda>j calls. attestation H C st1 (clock j) (ps ! j) = Some calls) [0..<length ps] css"
        "attested = concat css" and t: "touches {} st1 st2" by auto
      have cache: "st_position_cache st2 = st_position_cache st1" using t by (auto simp: touches_def)
      have "sealed_in taker (ts_sealed_params_taker sweep) legs k = Some (sealed_position_bytes H st2 k m)"
        if k: "k \<in> insert taker (mf_portfolio_key ` set legs)" for k
      proof -
        obtain y where y: "sealed_in taker (ts_sealed_params_taker sweep) legs k = Some y"
          using k sealed_in_legs [of taker "ts_sealed_params_taker sweep" legs k] by blast
        with sweep_seals [OF assms(1), of k y] cache show ?thesis
          by (simp add: taker_def legs_def m_def sealed_bytes_cong [of st2 k "op_market_id p" st1])
      qed
      then have "\<forall>k \<in> insert taker (mf_portfolio_key ` set legs). sealed_in taker (ts_sealed_params_taker sweep) legs k =
          Some (sealed_position_bytes H (settlement_landed st2 s (op_nonce p) h) k m)"
        using sealed_bytes_cong [of "settlement_landed st2 s (op_nonce p) h" _ m st2] by (simp add: settlement_landed_def)
      with c css cache r Some all x landed show ?thesis
        by (auto simp: settle_in_background_def ps m_def [symmetric] settlement_landed_def simp del: upt_Suc)
    qed
  next
    case None
    have "settle_in_background H C clock st1 s (op_nonce p) m sweep traders = Some (sent0, settlement_failed st1 s (op_nonce p) m sweep)"
      using r None by (simp add: settle_in_background_def)
    moreover have "st_settlement_tx_hashes (settlement_failed st1 s (op_nonce p) m sweep) (s, op_nonce p) = Some None"
      by (simp add: settlement_failed_def Let_def)
    moreover have "st_position_cache (settlement_failed st1 s (op_nonce p) m sweep) (k, m') =
        (if m' = m \<and> k \<in> insert taker (mf_portfolio_key ` set legs) then None else st_position_cache st (k, m'))" for k m'
      using touches_execute [OF assms(1)] unfolding settlement_failed_cache taker_def legs_def m_def
      by (auto simp: touches_def settled_def split: if_splits)
    ultimately show ?thesis using sent(1) landed None by simp
  qed
qed

section \<open>An order that is settled\<close>

lemma owners_before_settlement:
  assumes "book_submit st m o' now = Some (r, st1)" and "backstop_rescue st1 p r = Some (r', st2)"
  shows "st_owner_addresses (record_prints st2 m' now' fs) = st_owner_addresses st"
proof -
  have "st_owner_addresses st1 = st_owner_addresses st"
    using assms(1) by (auto simp: book_submit_def book_put_def bind_eq_Some_conv)
  moreover have "st_owner_addresses st2 = st_owner_addresses st1"
    using assms(2) by (auto simp: backstop_rescue_def serve_leftover_def serve_resting_def Let_def bind_eq_Some_conv
        backstop_put_def book_put_def split: option.splits if_splits)
  ultimately show ?thesis by (simp add: record_prints_def backstop_put_def Let_def)
qed

lemma known_maker_is_settled:
  assumes "execute_order H st now p s = Some ((res, sw), st')" and "sr_fills res = [f]"
    and "st_owner_addresses (register_owner st s) (fill_maker_owner f) \<noteq> None"
  shows "sw \<noteq> None"
proof -
  from assms(1) obtain r0 st1 st2 where sub: "book_submit (register_owner st s) (op_market_id p) (order_of p s) now = Some (r0, st1)"
    and rescue: "backstop_rescue st1 p r0 = Some (res, st2)"
    and settle: "settle_order H (record_prints st2 (op_market_id p) now (sr_fills res)) s p (sr_fills res) = Some (sw, st')"
    by (auto simp: execute_order_def bind_eq_Some_conv)
  obtain a where a: "st_owner_addresses (record_prints st2 (op_market_id p) now (sr_fills res)) (fill_maker_owner f) = Some a"
    using assms(3) owners_before_settlement [OF sub rescue] by auto
  from settle a show ?thesis
    by (auto simp: settle_order_def assms(2) settle_fill_def Let_def bind_eq_Some_conv split_beta build_sweep_def)
qed

text \<open>An engine that settles to contract 70, whose sweep lands on a chain that takes it, and fails on none.\<close>

definition example_settling :: AppState where
  "example_settling = (AppState_new [])\<lparr>st_backstop := [''BTC/USD'' \<mapsto> example_quotes], st_settlement_contracts := [(''BTC/USD'', 70)]\<rparr>"

lemma nothing_attested:
  "list_all2 (\<lambda>j calls. attestation H C st (clock j) (ps ! j) = Some calls) js css \<Longrightarrow>
    (\<And>now x. attestation H C st now x = Some []) \<Longrightarrow> concat css = []"
  by (induction js css rule: list_all2_induct) simp_all

theorem settlement_outcome_witness:
  "\<exists>res sweep traders st1 st2 st3.
     execute_order offline_host example_settling 0 (example_order BuySide 50 3 ImmediateOrCancel 1) 8 = Some ((res, Some (sweep, traders)), st1) \<and>
     settle_in_background offline_host example_chain (\<lambda>_. 0) st1 8 1 ''BTC/USD'' sweep traders = Some ([(70, taker_sweep_call sweep)], st2) \<and>
     ts_sealed_params_taker sweep = sealed_position_bytes offline_host st2 (ts_portfolio_key_taker sweep) ''BTC/USD'' \<and>
     settle_in_background offline_host (example_chain\<lparr>ch_rpc_url := None\<rparr>) (\<lambda>_. 0) st1 8 1 ''BTC/USD'' sweep traders = Some ([], st3) \<and>
     (\<forall>k m. st_position_cache st3 (k, m) = None)"
proof -
  let ?p = "example_order BuySide 50 3 ImmediateOrCancel 1" and ?off = "example_chain\<lparr>ch_rpc_url := None\<rparr>" and ?t = "\<lambda>_. 0 :: u64"
  have ok: "engine_ok 0 example_settling" using engine_ok_new [of "[]"] by (simp add: example_settling_def engine_ok_def)
  obtain res sw st1 where run: "execute_order offline_host example_settling 0 ?p 8 = Some ((res, sw), st1)"
    and fill: "sr_fills res = [backstop_fill 100 3 3]"
    by (rule example_rescue_on [OF _ ok, of 3]) (simp_all add: example_settling_def AppState_new_def)
  have "signer_owner_id 8 \<noteq> BACKSTOP_OWNER_ID" by (simp add: signer_owner_id_low_bits BACKSTOP_OWNER_ID_def)
  then have "st_owner_addresses (register_owner example_settling 8) (fill_maker_owner (backstop_fill 100 3 3)) \<noteq> None"
    by (simp add: register_owner_def backstop_fill_def example_settling_def AppState_new_def)
  from known_maker_is_settled [OF run fill this] obtain sweep traders where sw: "sw = Some (sweep, traders)" by auto
  note run = run [unfolded sw]
  have p: "op_nonce ?p = 1" "op_market_id ?p = ''BTC/USD''" by (simp_all add: example_order_def)
  have "st_settlement_contracts st1 = [(''BTC/USD'', 70)]" and risk: "st_risk_monitor_contract st1 = None"
    using touches_execute [OF run] by (simp_all add: touches_def example_settling_def AppState_new_def)
  then have c: "settlement_contract st1 ''BTC/USD'' = Some 70" by (simp add: settlement_contract_def)
  have att: "attestation offline_host C st1 now x = Some []" for C now x using risk by (simp add: attestation_def)
  obtain sent2 st2 where landed: "settle_in_background offline_host example_chain ?t st1 8 1 ''BTC/USD'' sweep traders = Some (sent2, st2)"
    using settlement_outcome [OF run, where C = example_chain and clock = ?t] p att by (auto split: option.splits)
  have hash: "sweep_landed example_chain (Some 70) sweep = Some 7" "sweep_landed ?off (Some 70) sweep = None"
    by (simp_all add: sweep_landed_def example_chain_def)
  obtain sent3 st3 where failed: "settle_in_background offline_host ?off ?t st1 8 1 ''BTC/USD'' sweep traders = Some (sent3, st3)"
    and sent3: "sent3 = []"
    by (simp add: settle_in_background_def settle_taker_sweep_def submit_call_def broadcast_config_def settlement_failed_def Let_def)
  from settlement_outcome [OF run, where C = example_chain and clock = ?t, unfolded p landed]
  obtain css where seal: "ts_sealed_params_taker sweep = sealed_position_bytes offline_host st2 (ts_portfolio_key_taker sweep) ''BTC/USD''"
    and sent2: "sent2 = (70, taker_sweep_call sweep) # concat css" and quiet: "concat css = []"
    by (auto simp: hash(1) c sealed_in_def simp del: upt_Suc dest: nothing_attested [OF _ att])
  from settlement_outcome [OF run, where C = ?off and clock = ?t, unfolded p failed]
  have "\<forall>k m. st_position_cache st3 (k, m) = None" by (simp add: hash(2) c example_settling_def AppState_new_def)
  with run landed failed sent2 [unfolded quiet] sent3 seal show ?thesis by blast
qed

end
