(* ===== verification/Liquidation_Properties.thy ===== *)
theory Liquidation_Properties
  imports Liquidation Risk_Properties
begin

text \<open>
  What liquidation achieves: the margin of a portfolio in exact arithmetic, the share of every leg that is
  closed, and that the margin of what stays open is covered by the collateral the portfolio had.
\<close>

section \<open>The margin in exact arithmetic\<close>

definition leg_margin :: "(MarketId \<times> nat) list \<Rightarrow> PortfolioMarketState \<Rightarrow> nat" where
  "leg_margin live m = nat \<bar>pm_signed_size m\<bar> * mark_price_of live m * 300 div 10000"

definition portfolio_margin :: "(MarketId \<times> nat) list \<Rightarrow> PortfolioMarketState list \<Rightarrow> nat" where
  "portfolio_margin live ms = sum_list (map (leg_margin live) ms)"

text \<open>Sizes in the range of the wire, prices in the range the engine accepts, one leg per market.\<close>

definition leg_ok :: "(MarketId \<times> nat) list \<Rightarrow> PortfolioMarketState \<Rightarrow> bool" where
  "leg_ok live m \<longleftrightarrow> \<bar>pm_signed_size m\<bar> < 2 ^ 64 \<and> mark_price_of live m < 2 ^ 40 \<and> 0 \<le> pm_collateral m \<and> pm_collateral m < 2 ^ 100"

definition portfolio_ok :: "(MarketId \<times> nat) list \<Rightarrow> PortfolioMarketState list \<Rightarrow> bool" where
  "portfolio_ok live ms \<longleftrightarrow> distinct (map pm_market_id ms) \<and> length ms < 2 ^ 10 \<and> (\<forall>m \<in> set ms. leg_ok live m)"

lemma abs_size_bound: "leg_ok live m \<Longrightarrow> nat \<bar>pm_signed_size m\<bar> < 2 ^ 64"
  by (simp add: leg_ok_def nat_less_iff)

lemma leg_margin_bound:
  assumes "leg_ok live m"
  shows "leg_margin live m < 2 ^ 104"
proof -
  have "nat \<bar>pm_signed_size m\<bar> * mark_price_of live m \<le> 2 ^ 64 * 2 ^ 40"
    using abs_size_bound [OF assms] assms by (intro mult_le_mono) (simp_all add: leg_ok_def)
  then have "nat \<bar>pm_signed_size m\<bar> * mark_price_of live m * 300 div 10000 \<le> 2 ^ 64 * 2 ^ 40 * 300 div 10000"
    by (intro div_le_mono mult_le_mono1)
  then show ?thesis by (simp add: leg_margin_def)
qed

lemma portfolio_margin_bound:
  assumes "portfolio_ok live ms"
  shows "portfolio_margin live ms < 2 ^ 114"
proof -
  have "portfolio_margin live xs \<le> length xs * 2 ^ 104" if "set xs \<subseteq> set ms" for xs
    using that
  proof (induction xs)
    case (Cons x xs)
    then have "leg_margin live x < 2 ^ 104" using assms by (intro leg_margin_bound) (simp add: portfolio_ok_def)
    with Cons show ?case by (simp add: portfolio_margin_def)
  qed (simp add: portfolio_margin_def)
  from this [of ms] assms show ?thesis by (simp add: portfolio_ok_def)
qed

definition collateral_sum :: "PortfolioMarketState list \<Rightarrow> nat" where
  "collateral_sum ms = sum_list (map (\<lambda>m. nat (pm_collateral m)) ms)"

lemma raw_collateral_exact: "leg_ok live m \<Longrightarrow> raw_collateral m = nat (pm_collateral m) \<and> nat (pm_collateral m) < 2 ^ 100"
  by (auto simp: leg_ok_def raw_collateral_def in_i128_def nat_less_iff)

lemma portfolio_collateral_exact:
  assumes "portfolio_ok live ms"
  shows "portfolio_collateral ms = collateral_sum ms" and "collateral_sum ms < 2 ^ 110"
proof -
  have b: "collateral_sum xs \<le> length xs * 2 ^ 100" if "set xs \<subseteq> set ms" for xs
    using that
  proof (induction xs)
    case (Cons x xs)
    then have "nat (pm_collateral x) < 2 ^ 100" using assms raw_collateral_exact by (auto simp: portfolio_ok_def)
    with Cons show ?case by (simp add: collateral_sum_def)
  qed (simp add: collateral_sum_def)
  from b [of ms] assms show small: "collateral_sum ms < 2 ^ 110" by (simp add: portfolio_ok_def)
  have "foldl (\<lambda>s m. wrap_u128 (int (s + raw_collateral m))) s xs = s + collateral_sum xs"
    if "set xs \<subseteq> set ms" "s + collateral_sum xs < 2 ^ 110" for s xs
    using that
  proof (induction xs arbitrary: s)
    case (Cons x xs)
    have "raw_collateral x = nat (pm_collateral x)" using Cons.prems(1) assms raw_collateral_exact by (auto simp: portfolio_ok_def)
    moreover have "in_u128 (s + nat (pm_collateral x))" using Cons.prems(2) by (simp add: collateral_sum_def in_u128_def)
    ultimately show ?case using Cons.IH [of "s + nat (pm_collateral x)"] Cons.prems
      by (simp add: collateral_sum_def wrap_u128_id add.assoc del: of_nat_add)
  qed (simp add: collateral_sum_def)
  from this [of ms 0] small show "portfolio_collateral ms = collateral_sum ms" by (simp add: portfolio_collateral_def)
qed

lemma compute_margin_exact:
  assumes U: "u256_ok (h_u256 H)" and ok: "portfolio_ok live ms"
  shows "compute_margin H ms live = Ok \<lparr>mg_margin_requirement = portfolio_margin live ms,
     mg_effective_collateral = collateral_sum ms, mg_maintenance_breached = collateral_sum ms < portfolio_margin live ms\<rparr>"
proof -
  let ?prices = "margin_prices ms live"
  have price: "?prices (pm_market_id m) = Some (mark_price_of live m)" if "m \<in> set ms" for m
    unfolding margin_prices_def
    using that ok by (intro map_of_is_SomeI) (auto simp: portfolio_ok_def o_def rev_map [symmetric])
  have size: "sat_i128 (pm_signed_size m * int SCALE) = pm_signed_size m * 10 ^ 18" "\<bar>pm_signed_size m * 10 ^ 18\<bar> < 2 ^ 124"
    if "leg_ok live m" for m
    using that by (auto simp: leg_ok_def sat_i128_def SCALE_def abs_mult)
  have leg: "position_ok ?prices p \<and> margin_product_fits ?prices p \<and> margin_of ?prices p = leg_margin live m"
    if m: "m \<in> set ms" and p: "p = \<lparr>ps_market_id = pm_market_id m, ps_size = sat_i128 (pm_signed_size m * int SCALE)\<rparr>" for m p
  proof -
    have l: "leg_ok live m" using m ok by (simp add: portfolio_ok_def)
    have sz: "ps_size p = pm_signed_size m * 10 ^ 18" "in_i128 (ps_size p)" using size [OF l] p by (auto simp: in_i128_def)
    have mark: "mark_of ?prices p = mark_price_of live m" using price [OF m] p by (simp add: mark_of_def)
    have "in_u128 (mark_price_of live m)" using l by (simp add: leg_ok_def in_u128_def)
    moreover have n: "nat \<bar>ps_size p\<bar> = nat \<bar>pm_signed_size m\<bar> * 10 ^ 18" by (simp add: sz(1) abs_mult nat_mult_distrib)
    moreover have "nat \<bar>ps_size p\<bar> * mark_price_of live m * 300 \<le> 2 ^ 124 * 2 ^ 40 * 300"
      using size(2) [OF l] l by (intro mult_le_mono) (auto simp: sz(1) leg_ok_def)
    then have "margin_product_fits ?prices p" unfolding margin_product_fits_def mark by (rule le_less_trans) simp
    moreover have "margin_of ?prices p = leg_margin live m"
    proof -
      have "nat \<bar>ps_size p\<bar> * mark_of ?prices p * 300 div 10 ^ 22 =
          10 ^ 18 * (nat \<bar>pm_signed_size m\<bar> * mark_price_of live m * 300) div (10 ^ 18 * 10000)"
        unfolding n mark by (simp add: ac_simps)
      then show ?thesis unfolding margin_of_def leg_margin_def by (simp only: div_mult_mult1_if) simp
    qed
    moreover have "ps_market_id p = pm_market_id m" using p by simp
    ultimately show ?thesis using price [OF m] sz(2) by (simp add: position_ok_def)
  qed
  have ps: "\<forall>p \<in> set (margin_positions ms). position_ok ?prices p \<and> margin_product_fits ?prices p"
    using leg by (auto simp: margin_positions_def)
  have "requirement_of ?prices (margin_positions ms) = portfolio_margin live ms"
    unfolding requirement_of_def portfolio_margin_def margin_positions_def map_map
    by (rule arg_cong [of _ _ sum_list], rule map_cong) (use leg in auto)
  moreover note b = portfolio_margin_bound [OF ok]
  ultimately have "requirement_loop (h_u256 H) ?prices (margin_positions ms) 0 = Ok (portfolio_margin live ms)"
    using requirement_loop_exact [OF U ps, of 0] by simp
  moreover have "u_to_u128 (h_u256 H) (portfolio_margin live ms) = Some (portfolio_margin live ms)"
    using u256_narrow(1) [OF U, of "portfolio_margin live ms"] b by simp
  ultimately show ?thesis
    by (simp add: compute_margin_def risk_compute_margin_def current_margin_requirement_def portfolio_collateral_exact(1) [OF ok])
qed

section \<open>The share that is closed\<close>

lemma div_ceil_covers: "0 < b \<Longrightarrow> a \<le> div_ceil a b * b"
proof -
  assume b: "0 < b"
  have a: "a = a div b * b + a mod b" by (simp only: div_mult_mod_eq)
  show ?thesis
  proof (cases "a mod b = 0")
    case True
    with a show ?thesis by (simp add: div_ceil_def)
  next
    case False
    have "a mod b < b" using b by simp
    with a have "a \<le> a div b * b + b" by linarith
    with False show ?thesis by (simp add: div_ceil_def)
  qed
qed

lemma close_share:
  assumes "mg_margin_requirement g < 2 ^ 114" and "mg_effective_collateral g < mg_margin_requirement g"
  obtains f where "liquidation_close_bps g = min (f + 1000) 10000" and
    "(mg_margin_requirement g - mg_effective_collateral g) * 10000 \<le> f * mg_margin_requirement g"
proof -
  let ?d = "mg_margin_requirement g - mg_effective_collateral g"
  define f where "f = div_ceil (?d * 10000) (mg_margin_requirement g)"
  have "?d * 10000 < 2 ^ 114 * 10000" using assms(1) by simp
  then have small: "?d * 10000 < 2 ^ 128" by simp
  then have w: "wrap_u128 (int (?d * 10000)) = ?d * 10000" by (intro wrap_u128_id) (simp add: in_u128_def)
  have "f \<le> ?d * 10000 + 1" unfolding f_def div_ceil_def by (simp add: le_SucI)
  then have "f + 1000 \<le> ?d * 10000 + 1001" by simp
  then have "liquidation_close_bps g = min (f + 1000) 10000"
    using assms(2) unfolding liquidation_close_bps_def Let_def w f_def [symmetric]
    by (auto simp: sat_u128_def LIQUIDATION_SAFETY_BUFFER_BPS_def)
  moreover have "?d * 10000 \<le> f * mg_margin_requirement g"
    using div_ceil_covers [of "mg_margin_requirement g" "?d * 10000"] assms(2) by (simp add: f_def)
  ultimately show thesis using that by blast
qed

lemma size_leg_remainder:
  assumes "nat \<bar>pm_signed_size m\<bar> < 2 ^ 64" and "b \<le> 10000" and "snd (size_leg H st b live funding m) = Some m'"
  shows "b < 10000 \<and> nat \<bar>pm_signed_size m'\<bar> = nat \<bar>pm_signed_size m\<bar> - nat \<bar>pm_signed_size m\<bar> * b div 10000 \<and>
    0 < nat \<bar>pm_signed_size m\<bar> * b div 10000 \<and> nat \<bar>pm_signed_size m\<bar> * b div 10000 < nat \<bar>pm_signed_size m\<bar> \<and>
    (0 < pm_signed_size m' \<longleftrightarrow> 0 < pm_signed_size m) \<and> pm_market_id m' = pm_market_id m \<and>
    pm_entry_price m' = pm_entry_price m \<and> mark_price_of live m' = mark_price_of live m"
proof -
  let ?n = "nat \<bar>pm_signed_size m\<bar>"
  have "?n * b < 2 ^ 64 * 2 ^ 14" using assms(1,2) by (intro mult_strict_mono) simp_all
  then have w: "wrap_u128 (int (?n * b)) = ?n * b" by (intro wrap_u128_id) (simp add: in_u128_def)
  from assms(3) have nz: "b < 10000" "?n \<noteq> 0" "?n * b div 10000 \<noteq> 0" "?n - ?n * b div 10000 \<noteq> 0"
    and m': "\<exists>c. m' = m\<lparr>pm_signed_size := (if 0 \<le> pm_signed_size m then int (?n - ?n * b div 10000) else - int (?n - ?n * b div 10000)),
      pm_collateral := c\<rparr>"
    unfolding size_leg_def Let_def w
    by (auto simp: close_whole_leg_def close_part_of_leg_def Let_def split: if_splits)
  then obtain c where m': "m' = m\<lparr>pm_signed_size := (if 0 \<le> pm_signed_size m then int (?n - ?n * b div 10000) else - int (?n - ?n * b div 10000)),
      pm_collateral := c\<rparr>" by blast
  define r where "r = ?n - ?n * b div 10000"
  have "0 < r" "0 < ?n * b div 10000" "?n * b div 10000 < ?n" using nz(3,4) unfolding r_def by linarith+
  moreover have "pm_signed_size m' = (if 0 \<le> pm_signed_size m then int r else - int r)" "pm_market_id m' = pm_market_id m"
    "pm_entry_price m' = pm_entry_price m" "mark_price_of live m' = mark_price_of live m"
    unfolding m' r_def by (simp_all add: mark_price_of_def split: option.splits)
  ultimately show ?thesis using nz(1,2) unfolding r_def [symmetric] by auto
qed

text \<open>Legs large enough that rounding the closed size down stays within the safety buffer.\<close>

definition roundable :: "(MarketId \<times> nat) list \<Rightarrow> PortfolioMarketState \<Rightarrow> bool" where
  "roundable live m \<longleftrightarrow> 20 \<le> \<bar>pm_signed_size m\<bar> \<and> 20 \<le> leg_margin live m"

lemma closing_share_suffices:
  fixes n k f L :: nat
  assumes n: "20 \<le> n" "20 \<le> L" and f: "f + 1000 < 10000" and L: "n * k < (L + 1) * 10000"
    and L': "L' * 10000 \<le> (n - n * (f + 1000) div 10000) * k"
  shows "L' * 10000 \<le> L * (10000 - f)"
proof -
  define e where "e = 9000 - f"
  have e: "10000 = f + 1000 + e" "e \<le> 9000" using f by (simp_all add: e_def)
  define c where "c = n * (f + 1000) div 10000"
  have "n * (f + 1000) = c * 10000 + n * (f + 1000) mod 10000" unfolding c_def by (simp only: div_mult_mod_eq)
  moreover have "n * (f + 1000) mod 10000 < 10000" by simp
  ultimately have "n * (f + 1000) < c * 10000 + 10000" by linarith
  moreover have "n * 10000 = n * (f + 1000) + n * e" by (subst e(1)) (simp only: distrib_left)
  ultimately have "(n - c) * 10000 < n * e + 10000" by (simp add: diff_mult_distrib)
  also have "\<dots> \<le> n * (e + 500)" using n(1) by (simp add: distrib_left)
  finally have step: "(n - c) * 10000 \<le> n * (e + 500)" by simp
  have "L' * 10000 * 10000 \<le> (n - c) * k * 10000" using L' unfolding c_def [symmetric] by (rule mult_le_mono1)
  also have "\<dots> = (n - c) * 10000 * k" by (simp only: ac_simps)
  also have "\<dots> \<le> n * (e + 500) * k" by (rule mult_le_mono1 [OF step])
  also have "\<dots> = n * k * (e + 500)" by (simp only: ac_simps)
  also have "\<dots> \<le> (L + 1) * 10000 * (e + 500)" using L by (intro mult_le_mono1) simp
  also have "\<dots> \<le> L * (e + 1000) * 10000"
  proof -
    have "e + 500 \<le> L * 500" using n(2) e(2) by linarith
    then have "(L + 1) * (e + 500) \<le> L * (e + 1000)" by (simp add: algebra_simps)
    then have "(L + 1) * (e + 500) * 10000 \<le> L * (e + 1000) * 10000" by (rule mult_le_mono1)
    then show ?thesis by (simp only: ac_simps)
  qed
  finally have "L' * 10000 \<le> L * (e + 1000)" by simp
  moreover have "10000 - f = e + 1000" using e by linarith
  ultimately show ?thesis by simp
qed

lemma leg_margin_floor:
  "leg_margin live m * 10000 \<le> nat \<bar>pm_signed_size m\<bar> * (mark_price_of live m * 300)"
  "nat \<bar>pm_signed_size m\<bar> * (mark_price_of live m * 300) < (leg_margin live m + 1) * 10000"
proof -
  define x where "x = nat \<bar>pm_signed_size m\<bar> * (mark_price_of live m * 300)"
  have "leg_margin live m = x div 10000" by (simp only: leg_margin_def x_def mult.assoc)
  moreover have "x div 10000 * 10000 \<le> x" "x < (x div 10000 + 1) * 10000"
  proof -
    have "x = x div 10000 * 10000 + x mod 10000" by (simp only: div_mult_mod_eq)
    moreover have "x mod 10000 < 10000" by simp
    ultimately show "x div 10000 * 10000 \<le> x" "x < (x div 10000 + 1) * 10000" unfolding distrib_right by linarith+
  qed
  ultimately show "leg_margin live m * 10000 \<le> nat \<bar>pm_signed_size m\<bar> * (mark_price_of live m * 300)"
    "nat \<bar>pm_signed_size m\<bar> * (mark_price_of live m * 300) < (leg_margin live m + 1) * 10000"
    unfolding x_def [symmetric] by (simp_all only:)
qed

lemma remaining_leg_margin:
  assumes "leg_ok live m" and "roundable live m" and "snd (size_leg H st (min (f + 1000) 10000) live funding m) = Some m'"
  shows "leg_margin live m' * 10000 \<le> leg_margin live m * (10000 - f)"
proof -
  have "min (f + 1000) 10000 \<le> 10000" by (rule min.cobounded2)
  note R = size_leg_remainder [OF abs_size_bound [OF assms(1)] this assms(3)]
  from R have "min (f + 1000) 10000 < 10000" by (rule conjunct1)
  then have f: "f + 1000 < 10000" by (simp only: min_less_iff_conj)
  then have b: "min (f + 1000) 10000 = f + 1000" by (intro min.absorb1) (rule less_imp_le)
  have r: "nat \<bar>pm_signed_size m'\<bar> = nat \<bar>pm_signed_size m\<bar> - nat \<bar>pm_signed_size m\<bar> * (f + 1000) div 10000"
    "mark_price_of live m' = mark_price_of live m" using R unfolding b by - (elim conjE, assumption)+
  show ?thesis
  proof (rule closing_share_suffices)
    show "20 \<le> nat \<bar>pm_signed_size m\<bar>" "20 \<le> leg_margin live m" using assms(2) by (auto simp: roundable_def)
    show "nat \<bar>pm_signed_size m\<bar> * (mark_price_of live m * 300) < (leg_margin live m + 1) * 10000" by (rule leg_margin_floor)
    show "leg_margin live m' * 10000 \<le> (nat \<bar>pm_signed_size m\<bar> - nat \<bar>pm_signed_size m\<bar> * (f + 1000) div 10000) * (mark_price_of live m * 300)"
      using leg_margin_floor(1) [of live m'] unfolding r .
  qed (rule f)
qed

text \<open>What stays open after the legs are sized.\<close>

definition remaining :: "Host \<Rightarrow> AppState \<Rightarrow> (MarketId \<times> nat) list \<Rightarrow> (MarketId \<rightharpoonup> int) \<Rightarrow> MarginResult \<Rightarrow> PortfolioMarketState list \<Rightarrow> PortfolioMarketState list" where
  "remaining H st live funding g ms = List.map_filter (\<lambda>m. snd (size_leg H st (liquidation_close_bps g) live funding m)) ms"

lemma remaining_margin:
  assumes "\<forall>m \<in> set ms. leg_ok live m \<and> roundable live m" and "liquidation_close_bps g = min (f + 1000) 10000"
  shows "portfolio_margin live (remaining H st live funding g ms) * 10000 \<le> portfolio_margin live ms * (10000 - f)"
  using assms(1)
proof (induction ms)
  case Nil
  show ?case by (simp add: remaining_def portfolio_margin_def List.map_filter_def)
next
  case (Cons m ms)
  have IH: "portfolio_margin live (remaining H st live funding g ms) * 10000 \<le> portfolio_margin live ms * (10000 - f)"
    using Cons by simp
  show ?case
  proof (cases "snd (size_leg H st (liquidation_close_bps g) live funding m)")
    case None
    then have "remaining H st live funding g (m # ms) = remaining H st live funding g ms" by (simp add: remaining_def List.map_filter_def)
    with IH show ?thesis by (simp add: portfolio_margin_def distrib_right)
  next
    case (Some m')
    then have r: "remaining H st live funding g (m # ms) = m' # remaining H st live funding g ms"
      by (simp add: remaining_def List.map_filter_def)
    have "leg_margin live m' * 10000 \<le> leg_margin live m * (10000 - f)"
      using remaining_leg_margin Cons.prems Some unfolding assms(2) by auto
    with IH show ?thesis unfolding r by (simp add: portfolio_margin_def distrib_right)
  qed
qed

lemma reward_bound:
  assumes "b \<le> 10000"
  shows "liquidator_reward g b * 200 \<le> mg_effective_collateral g"
proof -
  define h where "h = mg_effective_collateral g * 50 div 10000"
  have "h * 10000 \<le> mg_effective_collateral g * 50" unfolding h_def by (rule div_times_less_eq_dividend)
  moreover have "h * b div 10000 \<le> h * 10000 div 10000" using mult_le_mono2 [OF assms] by (rule div_le_mono)
  then have "h * b div 10000 \<le> h" by simp
  moreover have "liquidator_reward g b = h * b div 10000"
    by (simp only: liquidator_reward_def h_def LIQUIDATION_REWARD_BPS_def API_BPS_DENOMINATOR_def)
  ultimately show ?thesis by linarith
qed

text \<open>
  C11: Liquidation closes enough: for a breached portfolio whose legs each have a size and a margin of at
  least 20 units, the requirement of what stays open after the sizing does not exceed, at the same prices,
  the collateral the portfolio had; no leg grows or changes direction, at most 100 percent is closed, and
  the reward is at most half a percent of the collateral.
\<close>

theorem liquidation_closes_enough:
  assumes "u256_ok (h_u256 H)" and "portfolio_ok live ms" and "compute_margin H ms live = Ok g" and "mg_maintenance_breached g"
    and "\<forall>m \<in> set ms. roundable live m"
  shows "portfolio_margin live (remaining H st live funding g ms) \<le> collateral_sum ms \<and> liquidation_close_bps g \<le> 10000 \<and>
    liquidator_reward g (liquidation_close_bps g) * 200 \<le> collateral_sum ms \<and>
    (\<forall>m \<in> set ms. \<forall>m'. snd (size_leg H st (liquidation_close_bps g) live funding m) = Some m' \<longrightarrow>
       \<bar>pm_signed_size m'\<bar> < \<bar>pm_signed_size m\<bar> \<and> (0 < pm_signed_size m' \<longleftrightarrow> 0 < pm_signed_size m))"
proof -
  have g: "mg_margin_requirement g = portfolio_margin live ms" "mg_effective_collateral g = collateral_sum ms"
    "collateral_sum ms < portfolio_margin live ms"
    using compute_margin_exact [OF assms(1,2)] assms(3,4) by auto
  have "mg_margin_requirement g < 2 ^ 114" "mg_effective_collateral g < mg_margin_requirement g"
    using portfolio_margin_bound [OF assms(2)] g by simp_all
  from close_share [OF this] obtain f where f: "liquidation_close_bps g = min (f + 1000) 10000"
    "(portfolio_margin live ms - collateral_sum ms) * 10000 \<le> f * portfolio_margin live ms" unfolding g by blast
  have legs: "\<forall>m \<in> set ms. leg_ok live m \<and> roundable live m" using assms(2,5) by (simp add: portfolio_ok_def)
  have b: "liquidation_close_bps g \<le> 10000" unfolding f(1) by (rule min.cobounded2)
  have "portfolio_margin live (remaining H st live funding g ms) * 10000 \<le> portfolio_margin live ms * (10000 - f)"
    by (rule remaining_margin [OF legs f(1)])
  also have "\<dots> = portfolio_margin live ms * 10000 - f * portfolio_margin live ms" by (simp only: diff_mult_distrib2 mult.commute)
  also have "\<dots> \<le> collateral_sum ms * 10000" using f(2) g(3) by (simp only: diff_mult_distrib)
  finally have "portfolio_margin live (remaining H st live funding g ms) \<le> collateral_sum ms" by simp
  moreover have "liquidator_reward g (liquidation_close_bps g) * 200 \<le> collateral_sum ms" using reward_bound [OF b, of g] unfolding g(2) .
  moreover have "\<bar>pm_signed_size m'\<bar> < \<bar>pm_signed_size m\<bar> \<and> (0 < pm_signed_size m' \<longleftrightarrow> 0 < pm_signed_size m)"
    if "m \<in> set ms" "snd (size_leg H st (liquidation_close_bps g) live funding m) = Some m'" for m m'
  proof -
    have "leg_ok live m" using legs that(1) by blast
    note R = size_leg_remainder [OF abs_size_bound [OF this] b that(2)]
    then have "nat \<bar>pm_signed_size m'\<bar> < nat \<bar>pm_signed_size m\<bar>" by (elim conjE) linarith
    then have "\<bar>pm_signed_size m'\<bar> < \<bar>pm_signed_size m\<bar>" by (simp only: zless_nat_conj)
    with R show ?thesis by blast
  qed
  ultimately show ?thesis using b by blast
qed

end
