(* ===== verification/Liquidation_Safety.thy ===== *)
theory Liquidation_Safety
  imports Liquidation_Properties Settlement_Properties Position_Properties
begin

text \<open>
  Examples and limits of the sizing of a liquidation, and the guards of the handler: what has to hold for it
  to touch the chain or a position, and what a failed submission leaves behind.
\<close>

section \<open>Sizing\<close>

definition example_leg :: "int \<Rightarrow> int \<Rightarrow> PortfolioMarketState" where
  "example_leg n collateral = \<lparr>pm_market_id = ''M'', pm_signed_size = n, pm_entry_price = 10000,
     pm_collateral = collateral, pm_leverage = 10, pm_take_profit = None, pm_stop_loss = None, pm_entry_funding_index = 0\<rparr>"

lemma example_margin:
  assumes "\<bar>n\<bar> < 2 ^ 64" and "0 \<le> collateral" and "collateral < 2 ^ 100" and "price < 2 ^ 40"
  shows "compute_margin offline_host [example_leg n collateral] [(''M'', price)] =
    Ok \<lparr>mg_margin_requirement = nat \<bar>n\<bar> * price * 300 div 10000, mg_effective_collateral = nat collateral,
      mg_maintenance_breached = nat collateral < nat \<bar>n\<bar> * price * 300 div 10000\<rparr>"
proof -
  have "u256_ok (h_u256 offline_host)" by (simp add: offline_host_def exact_u256_ok)
  moreover have "portfolio_ok [(''M'', price)] [example_leg n collateral]"
    using assms by (simp add: portfolio_ok_def leg_ok_def example_leg_def mark_price_of_def)
  ultimately show ?thesis
    by (simp add: compute_margin_exact portfolio_margin_def leg_margin_def collateral_sum_def example_leg_def mark_price_of_def)
qed

theorem liquidation_closes_enough_witness:
  "\<exists>g. compute_margin offline_host [example_leg 100 26000] [(''M'', 9000)] = Ok g \<and>
     portfolio_margin [(''M'', 9000)] (remaining offline_host (AppState_new []) [(''M'', 9000)] (\<lambda>_. None) g [example_leg 100 26000]) \<le> 26000"
proof -
  let ?ms = "[example_leg 100 26000]" and ?live = "[(''M'', 9000)] :: (MarketId \<times> nat) list"
  have u: "u256_ok (h_u256 offline_host)" by (simp add: offline_host_def exact_u256_ok)
  have ok: "portfolio_ok ?live ?ms" by (simp add: portfolio_ok_def leg_ok_def example_leg_def mark_price_of_def)
  have r: "\<forall>m \<in> set ?ms. roundable ?live m"
    by (simp add: roundable_def leg_margin_def example_leg_def mark_price_of_def)
  obtain g where g: "compute_margin offline_host ?ms ?live = Ok g" "mg_maintenance_breached g"
    using example_margin [of 100 26000 9000] by simp
  have "collateral_sum ?ms = 26000" by (simp add: collateral_sum_def example_leg_def)
  with liquidation_closes_enough [OF u ok g r] g(1) show ?thesis by auto
qed

text \<open>What closing one unit of a leg at the mark realizes, funding included.\<close>

definition close_index :: "(MarketId \<rightharpoonup> int) \<Rightarrow> PortfolioMarketState \<Rightarrow> int" where
  "close_index funding m = (case funding (pm_market_id m) of Some i \<Rightarrow> i | None \<Rightarrow> pm_entry_funding_index m)"

definition unit_result :: "(MarketId \<times> nat) list \<Rightarrow> (MarketId \<rightharpoonup> int) \<Rightarrow> PortfolioMarketState \<Rightarrow> int" where
  "unit_result live funding m = sgn (pm_signed_size m) *
     ((int (mark_price_of live m) - int (unat (pm_entry_price m))) + (close_index funding m - pm_entry_funding_index m))"

lemma size_leg_part:
  assumes "nat \<bar>pm_signed_size m\<bar> < 2 ^ 64" and "b \<le> 10000" and "size_leg H st b live funding m = (leg, Some m')"
  defines "c \<equiv> nat \<bar>pm_signed_size m\<bar> * b div 10000"
  shows "pm_collateral m' = h_i256_add H (pm_collateral m) (realized_close_delta (pm_signed_size m) (pm_entry_price m)
    (pm_entry_funding_index m) (of_nat c) (of_nat (mark_price_of live m)) (close_index funding m))"
proof -
  let ?n = "nat \<bar>pm_signed_size m\<bar>"
  have "?n * b < 2 ^ 64 * 2 ^ 14" using assms(1,2) by (intro mult_strict_mono) simp_all
  then have w: "wrap_u128 (int (?n * b)) = ?n * b" by (intro wrap_u128_id) (simp add: in_u128_def)
  from assms(3) show ?thesis unfolding size_leg_def Let_def w close_index_def c_def
    by (auto simp: close_whole_leg_def close_part_of_leg_def Let_def split: if_splits)
qed

lemma margin_freed_by_close:
  fixes n c p l k :: nat
  assumes "c \<le> n" and "p * 300 \<le> l * 10000" and "k < n * p * 300 div 10000"
  shows "k < (n - c) * p * 300 div 10000 + c * l"
proof -
  have "n * p * 300 = (n - c + c) * (p * 300)" using assms(1) by simp
  also have "\<dots> = (n - c) * p * 300 + c * (p * 300)" by (simp only: distrib_right mult.assoc)
  also have "\<dots> \<le> (n - c) * p * 300 + c * (l * 10000)" using assms(2) by (intro add_left_mono mult_le_mono2)
  finally have "n * p * 300 div 10000 \<le> ((n - c) * p * 300 + c * l * 10000) div 10000"
    by (intro div_le_mono) (simp add: ac_simps)
  also have "\<dots> = (n - c) * p * 300 div 10000 + c * l" by simp
  finally show ?thesis using assms(3) by linarith
qed

text \<open>
  C24: Liquidation does not restore a position that loses too much per unit: when closing one unit at the mark
  realizes a loss, funding included, of at least the three percent of margin it frees, a partial liquidation
  of a breached position leaves a position whose collateral is again below its margin requirement at the same
  prices, and the next check finds it breached unless its collateral has become negative.
\<close>

theorem losing_position_stays_breached:
  assumes U: "u256_ok (h_u256 H)" and A: "i256_ok (h_i256_add H)" and ok: "portfolio_ok live [m]"
    and range: "\<bar>pm_signed_size m\<bar> < 2 ^ 62" "unat (pm_entry_price m) < 2 ^ 40"
      "\<bar>pm_entry_funding_index m\<bar> < 2 ^ 62" "\<bar>close_index funding m\<bar> < 2 ^ 62"
    and breached: "compute_margin H [m] live = Ok g" "mg_maintenance_breached g"
    and part: "size_leg H st (liquidation_close_bps g) live funding m = (leg, Some m')"
    and loss: "int (mark_price_of live m) * 300 \<le> - unit_result live funding m * 10000"
  shows "pm_collateral m' < int (portfolio_margin live [m']) \<and>
    (0 \<le> pm_collateral m' \<longrightarrow> (\<exists>g'. compute_margin H [m'] live = Ok g' \<and> mg_maintenance_breached g'))"
proof -
  define n where "n = nat \<bar>pm_signed_size m\<bar>"
  define c where "c = n * liquidation_close_bps g div 10000"
  define l where "l = nat (- unit_result live funding m)"
  have leg: "leg_ok live m" using ok by (simp add: portfolio_ok_def)
  have b: "liquidation_close_bps g \<le> 10000" by (simp add: liquidation_close_bps_def Let_def)
  have "snd (size_leg H st (liquidation_close_bps g) live funding m) = Some m'" using part by simp
  note R = size_leg_remainder [OF abs_size_bound [OF leg] b this, folded n_def, folded c_def]
  have l: "unit_result live funding m = - int l" "mark_price_of live m * 300 \<le> l * 10000"
    using loss by (simp_all add: l_def)
  have mark: "unat (of_nat (mark_price_of live m) :: u64) = mark_price_of live m" and mark_small: "mark_price_of live m < 2 ^ 40"
    using leg by (simp_all add: leg_ok_def unsigned_of_nat take_bit_nat_eq_self)
  have n: "int n < 2 ^ 62" "int n = \<bar>pm_signed_size m\<bar>" using range(1) by (simp_all add: n_def)
  then have c: "c < n" "0 < n" "unat (of_nat c :: u64) = c" using R by (auto simp: unsigned_of_nat take_bit_nat_eq_self)
  have sz: "pm_signed_size m \<noteq> 0" using c(2) n(2) by auto
  have delta: "realized_close_delta (pm_signed_size m) (pm_entry_price m) (pm_entry_funding_index m) (of_nat c)
      (of_nat (mark_price_of live m)) (close_index funding m) = - int (c * l)" and small: "int (c * l) < 2 ^ 127"
  proof -
    have le: "unat (of_nat c :: u64) \<le> nat \<bar>pm_signed_size m\<bar>" using c(1,3) by (simp add: n_def)
    have "unat (of_nat (mark_price_of live m) :: u64) < 2 ^ 40" using mark mark_small by simp
    note E = realized_close_exact [OF range(1) sz le range(2) this range(3,4), unfolded c(3) mark]
    have "sgn (pm_signed_size m) * int c * ((int (mark_price_of live m) - int (unat (pm_entry_price m))) + (close_index funding m - pm_entry_funding_index m)) = - int (c * l)"
      using l(1) by (simp add: unit_result_def ac_simps)
    with E show "realized_close_delta (pm_signed_size m) (pm_entry_price m) (pm_entry_funding_index m) (of_nat c)
        (of_nat (mark_price_of live m)) (close_index funding m) = - int (c * l)" "int (c * l) < 2 ^ 127" by simp_all
  qed
  have coll: "0 \<le> pm_collateral m" "pm_collateral m < 2 ^ 100" using leg by (simp_all add: leg_ok_def)
  have "pm_collateral m' = h_i256_add H (pm_collateral m) (- int (c * l))"
    using size_leg_part [OF abs_size_bound [OF leg] b part] unfolding n_def [symmetric] c_def [symmetric] delta .
  also have "\<dots> = pm_collateral m - int (c * l)"
  proof -
    have "in_i256 y \<and> in_i256 (- x) \<and> in_i256 (y + - x)" if "0 \<le> x" "x < 2 ^ 127" "0 \<le> y" "y < 2 ^ 100" for x y
      using that by (simp add: in_i256_def)
    from this [OF of_nat_0_le_iff small coll] show ?thesis using i256_add [OF A, of "pm_collateral m" "- int (c * l)"] by simp
  qed
  finally have coll': "pm_collateral m' = pm_collateral m - int (c * l)" .
  have m': "mark_price_of live m' = mark_price_of live m" "nat \<bar>pm_signed_size m'\<bar> = n - c" using R by blast+
  have "collateral_sum [m] < portfolio_margin live [m]" using compute_margin_exact [OF U ok] breached by auto
  then have "nat (pm_collateral m) < n * mark_price_of live m * 300 div 10000"
    by (simp add: collateral_sum_def portfolio_margin_def leg_margin_def n_def)
  from margin_freed_by_close [OF less_imp_le [OF c(1)] l(2) this]
  have "nat (pm_collateral m) < portfolio_margin live [m'] + c * l"
    by (simp add: portfolio_margin_def leg_margin_def m')
  then have less: "pm_collateral m' < int (portfolio_margin live [m'])" using coll(1) unfolding coll' by linarith
  have "\<exists>g'. compute_margin H [m'] live = Ok g' \<and> mg_maintenance_breached g'" if "0 \<le> pm_collateral m'"
  proof -
    have "nat \<bar>pm_signed_size m'\<bar> < 2 ^ 64" using m'(2) n(1) by simp
    then have "\<bar>pm_signed_size m'\<bar> < 2 ^ 64" by (simp add: nat_less_iff)
    moreover have "pm_collateral m' \<le> pm_collateral m" using of_nat_0_le_iff [of "c * l"] unfolding coll' by linarith
    ultimately have "portfolio_ok live [m']" using that coll mark_small by (simp add: portfolio_ok_def leg_ok_def m'(1))
    from compute_margin_exact [OF U this] less that show ?thesis by (simp add: collateral_sum_def nat_less_iff)
  qed
  with less show ?thesis by blast
qed

text \<open>A long of 100 bought at 10000 and marked at 9000, with 26000 of collateral for a requirement of 27000.\<close>

theorem losing_position_stays_breached_witness:
  "\<exists>g leg. compute_margin offline_host [example_leg 100 26000] [(''M'', 9000)] = Ok g \<and>
     size_leg offline_host (AppState_new []) (liquidation_close_bps g) [(''M'', 9000)] (\<lambda>_. None) (example_leg 100 26000) =
       (leg, Some (example_leg 87 13000)) \<and>
     (\<exists>g'. compute_margin offline_host [example_leg 87 13000] [(''M'', 9000)] = Ok g' \<and> mg_maintenance_breached g')"
proof -
  let ?m = "example_leg 100 26000" and ?live = "[(''M'', 9000)] :: (MarketId \<times> nat) list"
  define g where "g = \<lparr>mg_margin_requirement = 27000, mg_effective_collateral = 26000, mg_maintenance_breached = True\<rparr>"
  have m: "compute_margin offline_host [?m] ?live = Ok g" "mg_maintenance_breached g" by (simp_all add: example_margin g_def)
  have b: "liquidation_close_bps g = 1371"
    by (simp add: g_def liquidation_close_bps_def div_ceil_def wrap_u128_def sat_u128_def LIQUIDATION_SAFETY_BUFFER_BPS_def)
  obtain leg where leg: "size_leg offline_host (AppState_new []) (liquidation_close_bps g) ?live (\<lambda>_. None) ?m = (leg, Some (example_leg 87 13000))"
    by (simp add: b size_leg_def close_part_of_leg_def close_whole_leg_def example_leg_def Let_def wrap_u128_def mark_price_of_def
        realized_close_delta_def wrap_i128_def offline_host_def wrapping_i256_add_def)
  have H: "u256_ok (h_u256 offline_host)" "i256_ok (h_i256_add offline_host)"
    by (simp_all add: offline_host_def exact_u256_ok wrapping_i256_ok)
  have ok: "portfolio_ok ?live [?m]" by (simp add: portfolio_ok_def leg_ok_def example_leg_def mark_price_of_def)
  have r: "\<bar>pm_signed_size ?m\<bar> < 2 ^ 62" "unat (pm_entry_price ?m) < 2 ^ 40" "\<bar>pm_entry_funding_index ?m\<bar> < 2 ^ 62"
    "\<bar>close_index (\<lambda>_. None) ?m\<bar> < 2 ^ 62" "int (mark_price_of ?live ?m) * 300 \<le> - unit_result ?live (\<lambda>_. None) ?m * 10000"
    by (simp_all add: example_leg_def close_index_def mark_price_of_def unit_result_def)
  have "0 \<le> pm_collateral (example_leg 87 13000)" by (simp add: example_leg_def)
  with losing_position_stays_breached [OF H ok r(1-4) m leg r(5)] m(1) leg show ?thesis by blast
qed

section \<open>The handler\<close>

lemma close_bps_bound: "liquidation_close_bps g \<le> 10000"
  by (simp add: liquidation_close_bps_def Let_def)

lemma evicted:
  "st_position_cache (foldl (\<lambda>st m. invalidate_position st key m) st ids) (key, m) =
     (if m \<in> set ids then None else st_position_cache st (key, m))"
  unfolding invalidate_position_def by (subst cache.get_evict_all [where key = "\<lambda>m. (key, m)"]) auto

lemma sent_call:
  assumes "liquidate_sealed C sweep mc = (results, sent)" and "(c, call) \<in> set sent"
  shows "\<exists>url legs. ch_rpc_url C = Some url \<and> call = liquidate_call (sweep\<lparr>lw_legs := legs\<rparr>) \<and>
    \<lparr>rs_calldata = ch_encode C call, rs_broadcast_tx_hash = ch_send C url c (ch_encode C call)\<rparr> \<in> set results"
proof (cases "ch_rpc_url C")
  case None
  then show ?thesis using assms by (auto simp: liquidate_sealed_def Let_def split_beta)
next
  case (Some url)
  then obtain legs where g: "(c, legs) \<in> set (group_legs mc (lw_legs sweep))" "call = liquidate_call (sweep\<lparr>lw_legs := legs\<rparr>)"
    using assms by (auto simp: liquidate_sealed_def Let_def split_beta)
  then have "fst (submit_call C (Some c) call) \<in> set results"
    using assms(1) by (force simp: liquidate_sealed_def Let_def split_beta)
  with Some g(2) show ?thesis by auto
qed

lemma failed_result:
  assumes "liquidate_sealed C sweep mc = (results, sent)" and "(c, call) \<in> set sent"
    and "\<forall>url. ch_rpc_url C = Some url \<longrightarrow> ch_send C url c (ch_encode C call) = None"
  shows "\<exists>r \<in> set results. rs_broadcast_tx_hash r = None"
proof -
  obtain url where url: "ch_rpc_url C = Some url"
    and r: "\<lparr>rs_calldata = ch_encode C call, rs_broadcast_tx_hash = ch_send C url c (ch_encode C call)\<rparr> \<in> set results"
    using sent_call [OF assms(1,2)] by blast
  have "ch_send C url c (ch_encode C call) = None" using assms(3) url by blast
  then show ?thesis by (intro bexI [OF _ r]) simp
qed

definition margin_checked :: "Host \<Rightarrow> AppState \<Rightarrow> Hash \<Rightarrow> MarketId list \<Rightarrow> (RiskError, MarginResult) res" where
  "margin_checked H st key ids =
     compute_margin H (List.map_filter (load_single_market_state_cached H st key) ids) (live_mark_prices H st ids)"

lemma liquidate_locked_guarded:
  assumes "liquidate_locked H C st key liquidator ids = Some ((outcome, sent), st')"
  shows "sent = [] \<and> st_position_cache st' = st_position_cache st \<or>
    (\<exists>g. margin_checked H st key ids = Ok g \<and> mg_maintenance_breached g \<and>
       (\<forall>(c, call) \<in> set sent. \<exists>legs reward. call = LiquidateSealed key (mg_margin_requirement g) legs liquidator reward \<and>
          reward * 200 \<le> mg_effective_collateral g) \<and>
       ((\<exists>(c, call) \<in> set sent. \<forall>url. ch_rpc_url C = Some url \<longrightarrow> ch_send C url c (ch_encode C call) = None) \<longrightarrow>
          (\<forall>m \<in> set ids. st_position_cache st' (key, m) = None)))"
proof -
  let ?ms = "List.map_filter (load_single_market_state_cached H st key) ids"
  let ?live = "live_mark_prices H st ids"
  show ?thesis
  proof (cases "?ms = []")
    case True
    then show ?thesis using assms by (auto simp: liquidate_locked_def Let_def)
  next
    case False
    then obtain computed where m: "margin_checked H st key ids = Some computed"
      using assms by (auto simp: liquidate_locked_def Let_def margin_checked_def bind_eq_Some_conv)
    show ?thesis
    proof (cases "\<exists>g. computed = Inr g \<and> mg_maintenance_breached g")
      case False
      with m assms show ?thesis
        by (auto simp: liquidate_locked_def Let_def margin_checked_def split: if_splits sum.splits)
    next
      case True
      then obtain g where g: "computed = Inr g" "mg_maintenance_breached g" by blast
      obtain legs b st1 where z: "size_liquidation_legs H st key ?ms g ?live (st_funding_index st) = ((legs, b), st1)"
        by (metis prod.exhaust)
      define sweep where "sweep = \<lparr>lw_portfolio_key = key, lw_margin_requirement = mg_margin_requirement g, lw_legs = legs,
                      lw_liquidator = liquidator, lw_liquidator_reward = liquidator_reward g b\<rparr>"
      obtain results sent' where r: "liquidate_sealed C sweep (market_contracts H st1) = (results, sent')" by (meson surj_pair)
      have s: "sent' = sent" "st' = (if \<exists>r \<in> set results. rs_broadcast_tx_hash r = None
          then foldl (\<lambda>st m. invalidate_position st key m) st1 ids else st1)"
        using assms False m g z r by (auto simp: liquidate_locked_def Let_def margin_checked_def sweep_def)
      have "b = liquidation_close_bps g" using z by (simp add: size_liquidation_legs_def Let_def)
      then have "liquidator_reward g b * 200 \<le> mg_effective_collateral g" by (simp add: reward_bound close_bps_bound)
      moreover have "\<exists>legs. call = LiquidateSealed key (mg_margin_requirement g) legs liquidator (liquidator_reward g b)"
        if in_sent: "(c, call) \<in> set sent" for c call
      proof -
        obtain legs where "call = liquidate_call (sweep\<lparr>lw_legs := legs\<rparr>)" using sent_call [OF r] in_sent unfolding s(1) by blast
        then have "call = LiquidateSealed key (mg_margin_requirement g) legs liquidator (liquidator_reward g b)"
          unfolding liquidate_call_legs by (simp add: sweep_def)
        then show ?thesis by blast
      qed
      ultimately have "\<forall>(c, call) \<in> set sent. \<exists>legs reward. call = LiquidateSealed key (mg_margin_requirement g) legs liquidator reward \<and>
          reward * 200 \<le> mg_effective_collateral g" by blast
      moreover have "\<forall>m \<in> set ids. st_position_cache st' (key, m) = None"
        if failed: "\<exists>(c, call) \<in> set sent. \<forall>url. ch_rpc_url C = Some url \<longrightarrow> ch_send C url c (ch_encode C call) = None"
      proof -
        have "\<exists>r \<in> set results. rs_broadcast_tx_hash r = None" using failed failed_result [OF r] unfolding s(1) by blast
        then show ?thesis unfolding s(2) by (simp only: if_True evicted) simp
      qed
      ultimately show ?thesis using m g by (intro disjI2 exI [of _ g]) simp
    qed
  qed
qed

text \<open>
  C10: A liquidation request sends nothing and changes no position unless the portfolio named by the
  request, read again under its locks, is below maintenance at the live prices.  Then every call it sends
  liquidates that portfolio for the named liquidator with the requirement of that reading and a reward of at
  most half a percent of its collateral, and when one submission fails every position is evicted.
\<close>

theorem liquidation_guarded:
  assumes "post_liquidate hex_decode parse_address H C st portfolio liquidator hints = Some ((outcome, sent), st')"
  shows "sent = [] \<and> st_position_cache st' = st_position_cache st \<or>
    (\<exists>key address st1 ids g. parse_portfolio_key hex_decode portfolio = Some key \<and> parse_address liquidator = Some address \<and>
       st1 = add_known_markets st key hints \<and> ids = sort (map pm_market_id (fst (load_portfolio_state H st key hints))) \<and>
       margin_checked H st1 key ids = Ok g \<and> mg_maintenance_breached g \<and>
       (\<forall>(c, call) \<in> set sent. \<exists>legs reward. call = LiquidateSealed key (mg_margin_requirement g) legs address reward \<and>
          reward * 200 \<le> mg_effective_collateral g) \<and>
       ((\<exists>(c, call) \<in> set sent. \<forall>url. ch_rpc_url C = Some url \<longrightarrow> ch_send C url c (ch_encode C call) = None) \<longrightarrow>
          (\<forall>m \<in> set ids. st_position_cache st' (key, m) = None)))"
proof (cases "\<exists>key address. parse_portfolio_key hex_decode portfolio = Some key \<and> parse_address liquidator = Some address \<and>
    fst (load_portfolio_state H st key hints) \<noteq> []")
  case False
  then show ?thesis using assms
    by (auto simp: post_liquidate_def load_portfolio_state_def add_known_markets_def Let_def split: option.splits if_splits)
next
  case True
  then obtain key address where k: "parse_portfolio_key hex_decode portfolio = Some key" "parse_address liquidator = Some address"
    "fst (load_portfolio_state H st key hints) \<noteq> []" by blast
  define st1 ids where "st1 = add_known_markets st key hints"
    and "ids = sort (map pm_market_id (fst (load_portfolio_state H st key hints)))"
  have st1: "snd (load_portfolio_state H st key hints) = st1" "st_position_cache st1 = st_position_cache st"
    by (simp_all add: st1_def load_portfolio_state_def add_known_markets_def Let_def)
  have "liquidate_locked H C st1 key address ids = Some ((outcome, sent), st')"
    using assms k st1(1) by (auto simp: post_liquidate_def ids_def split: prod.splits)
  from liquidate_locked_guarded [OF this] show ?thesis
  proof (rule disjE)
    assume "\<exists>g. margin_checked H st1 key ids = Ok g \<and> mg_maintenance_breached g \<and>
       (\<forall>(c, call) \<in> set sent. \<exists>legs reward. call = LiquidateSealed key (mg_margin_requirement g) legs address reward \<and>
          reward * 200 \<le> mg_effective_collateral g) \<and>
       ((\<exists>(c, call) \<in> set sent. \<forall>url. ch_rpc_url C = Some url \<longrightarrow> ch_send C url c (ch_encode C call) = None) \<longrightarrow>
          (\<forall>m \<in> set ids. st_position_cache st' (key, m) = None))"
    with k(1,2) st1_def ids_def show ?thesis by (intro disjI2) (elim exE, intro exI conjI, assumption+, auto)
  qed (simp add: st1)
qed

definition example_breached :: AppState where
  "example_breached = cache_put ((AppState_new [])\<lparr>st_portfolio_markets := [9 \<mapsto> [''M'']],
     st_settlement_contracts := [(''M'', 10)]\<rparr>) (9, ''M'') (Some (example_leg 100 26000))"

lemma example_reading:
  defines "st \<equiv> add_known_markets example_breached 9 []"
  shows "load_single_market_state_cached offline_host st 9 ''M'' = Some (example_leg 100 26000)"
    and "live_mark_prices offline_host st [''M''] = []"
    and "compute_margin offline_host [example_leg 100 26000] [] =
      Ok \<lparr>mg_margin_requirement = 30000, mg_effective_collateral = 26000, mg_maintenance_breached = True\<rparr>"
proof -
  show "load_single_market_state_cached offline_host st 9 ''M'' = Some (example_leg 100 26000)"
    by (simp add: st_def load_single_market_state_cached_def add_known_markets_def example_breached_def cache_put_def)
  show "live_mark_prices offline_host st [''M''] = []"
    by (simp add: live_mark_prices_def offline_host_def Let_def)
  have "portfolio_ok [] [example_leg 100 26000]"
    by (simp add: portfolio_ok_def leg_ok_def example_leg_def mark_price_of_def)
  moreover have "u256_ok (h_u256 offline_host)" by (simp add: offline_host_def exact_u256_ok)
  ultimately show "compute_margin offline_host [example_leg 100 26000] [] =
      Ok \<lparr>mg_margin_requirement = 30000, mg_effective_collateral = 26000, mg_maintenance_breached = True\<rparr>"
    by (simp add: compute_margin_exact portfolio_margin_def leg_margin_def collateral_sum_def example_leg_def mark_price_of_def)
qed

lemma example_locked:
  "\<exists>outcome call st'. liquidate_locked offline_host (example_chain\<lparr>ch_send := \<lambda>_ _ _. None\<rparr>) (add_known_markets example_breached 9 []) 9 4 [''M''] =
     Some ((outcome, [(10, call)]), st')"
proof -
  let ?st = "add_known_markets example_breached 9 []"
  define g where "g = \<lparr>mg_margin_requirement = 30000, mg_effective_collateral = 26000, mg_maintenance_breached = True\<rparr>"
  note r = example_reading(1,2) example_reading(3) [folded g_def]
  obtain leg entry where z: "size_leg offline_host ?st (liquidation_close_bps g) [] (st_funding_index ?st) (example_leg 100 26000) = (leg, entry)"
    by (meson surj_pair)
  then have "ll_market_id leg = onchain_market_id offline_host ?st ''M''"
    by (auto simp: size_leg_def close_part_of_leg_def close_whole_leg_def Let_def example_leg_def split: if_splits)
  then have "market_contracts offline_host (cache_put ?st (9, ''M'') entry) (ll_market_id leg) = Some 10"
    by (simp add: market_contracts_def cache_put_def add_known_markets_def example_breached_def onchain_market_id_def)
  moreover have "mg_maintenance_breached g" by (simp add: g_def)
  moreover have "pm_market_id (example_leg 100 26000) = ''M''" by (simp add: example_leg_def)
  ultimately show ?thesis
    by (simp add: liquidate_locked_def r z size_liquidation_legs_def liquidate_sealed_def group_legs_def Let_def example_chain_def)
qed

lemma foldl_zeros: "foldl (\<lambda>n b. 256 * n + unat b) 0 (replicate k (0 :: 8 word)) = 0"
  by (induction k) simp_all

theorem liquidation_guarded_witness:
  "\<exists>outcome call st'. post_liquidate (\<lambda>_. Some (replicate 31 0 @ [9])) (\<lambda>_. Some 4) offline_host
     (example_chain\<lparr>ch_send := \<lambda>_ _ _. None\<rparr>) example_breached ''key'' ''liquidator'' [] = Some ((outcome, [(10, call)]), st') \<and>
     (\<exists>legs reward. call = LiquidateSealed 9 30000 legs 4 reward \<and> reward \<le> 130) \<and>
     st_position_cache st' (9, ''M'') = None"
proof -
  let ?hex = "\<lambda>_. Some (replicate 31 0 @ [9]) :: bytes option" and ?addr = "\<lambda>_. Some 4 :: Address option"
  let ?C = "example_chain\<lparr>ch_send := \<lambda>_ _ _. None\<rparr>" and ?st1 = "add_known_markets example_breached 9 []"
  have key: "parse_portfolio_key ?hex ''key'' = Some 9" by (simp add: parse_portfolio_key_def foldl_zeros)
  have load: "load_portfolio_state offline_host example_breached 9 [] = ([example_leg 100 26000], ?st1)"
    by (simp add: load_portfolio_state_def known_markets_def load_single_market_state_cached_def
        add_known_markets_def example_breached_def cache_put_def)
  have ids: "map pm_market_id [example_leg 100 26000] = [''M'']" by (simp add: example_leg_def)
  obtain outcome call st' where "liquidate_locked offline_host ?C ?st1 9 4 [''M''] = Some ((outcome, [(10, call)]), st')"
    using example_locked by blast
  with key load ids have run: "post_liquidate ?hex ?addr offline_host ?C example_breached ''key'' ''liquidator'' [] = Some ((outcome, [(10, call)]), st')"
    by (simp add: post_liquidate_def)
  have "margin_checked offline_host ?st1 9 [''M''] = Ok \<lparr>mg_margin_requirement = 30000, mg_effective_collateral = 26000, mg_maintenance_breached = True\<rparr>"
    unfolding margin_checked_def by (simp add: example_reading)
  with liquidation_guarded [OF run] key load ids run show ?thesis by auto
qed

end
