(* ===== verification/Mimc.thy ===== *)
theory Mimc
  imports Wire
begin

text \<open>
  The commitment hash of the correctness circuits (\<open>zk-circuits/src/mimc.rs\<close>): the MiMC permutation, its
  compression function and \<open>commit\<close>, natively and as a gadget.  The scalar field of BN254 and SHA-256 are
  not part of the repository: the field is the parameter \<open>Field\<close>, whose documented behaviour is
  \<open>field_ok\<close>, and a gadget is modelled by the value it computes.
\<close>

section \<open>The field\<close>

definition FR_MODULUS :: nat where
  "FR_MODULUS = 21888242871839275222246405745257275088548364400416034343698204186575808495617"

definition FR_BITS :: nat where "FR_BITS = 254"

record 'f Field =
  fd_of_u64 :: "u64 \<Rightarrow> 'f"
  fd_add :: "'f \<Rightarrow> 'f \<Rightarrow> 'f"
  fd_sub :: "'f \<Rightarrow> 'f \<Rightarrow> 'f"
  fd_mul :: "'f \<Rightarrow> 'f \<Rightarrow> 'f"
  fd_to_bits_be :: "'f \<Rightarrow> bool list"
  fd_from_le_bytes_mod_order :: "bytes \<Rightarrow> 'f"

text \<open>
  Every element has a canonical representative below the modulus, the operations are exact modulo the
  modulus, and the bit decomposition is that of the representative, most significant bit first.
\<close>

definition field_ok :: "'f Field \<Rightarrow> ('f \<Rightarrow> nat) \<Rightarrow> bool" where
  "field_ok F v \<longleftrightarrow> inj v \<and> (\<forall>x. v x < FR_MODULUS) \<and> (\<forall>n. v (fd_of_u64 F n) = unat n) \<and>
     (\<forall>x y. v (fd_add F x y) = (v x + v y) mod FR_MODULUS) \<and>
     (\<forall>x y. v (fd_sub F x y) = (v x + (FR_MODULUS - v y)) mod FR_MODULUS) \<and>
     (\<forall>x y. v (fd_mul F x y) = v x * v y mod FR_MODULUS) \<and>
     (\<forall>x. fd_to_bits_be F x = map (bit (v x)) (rev [0..<FR_BITS]))"

section \<open>The hash\<close>

definition ROUNDS :: nat where "ROUNDS = 110"

definition round_constants :: "'f Field \<Rightarrow> (bytes \<Rightarrow> bytes) \<Rightarrow> 'f list" where
  "round_constants F sha256 =
     map (\<lambda>i. fd_from_le_bytes_mod_order F (sha256 (string_bytes (''cerdic-mimc-round-'' @ decimal i)))) [0..<ROUNDS]"

definition permute :: "'f Field \<Rightarrow> 'f \<Rightarrow> 'f \<Rightarrow> 'f list \<Rightarrow> 'f" where
  "permute F x key constants =
     fd_add F (foldl (\<lambda>state c. let t = fd_add F (fd_add F state key) c in
       fd_mul F (fd_mul F (fd_mul F (fd_mul F t t) t) t) t) x constants) key"

definition compress :: "'f Field \<Rightarrow> 'f \<Rightarrow> 'f \<Rightarrow> 'f list \<Rightarrow> 'f" where
  "compress F left right constants = fd_add F (permute F left right constants) right"

definition commit :: "'f Field \<Rightarrow> (bytes \<Rightarrow> bytes) \<Rightarrow> 'f \<Rightarrow> 'f \<Rightarrow> 'f \<Rightarrow> 'f" where
  "commit F sha256 side price sz =
     (let constants = round_constants F sha256;
          h1 = compress F (fd_of_u64 F 0) side constants;
          h2 = compress F h1 price constants in
      compress F h2 sz constants)"

section \<open>The gadgets\<close>

definition permute_gadget :: "'f Field \<Rightarrow> 'f \<Rightarrow> 'f \<Rightarrow> 'f list \<Rightarrow> 'f" where
  "permute_gadget F x key constants =
     fd_add F (foldl (\<lambda>state c. let t = fd_add F (fd_add F state key) c; t2 = fd_mul F t t; t4 = fd_mul F t2 t2 in
       fd_mul F t4 t) x constants) key"

definition compress_gadget :: "'f Field \<Rightarrow> 'f \<Rightarrow> 'f \<Rightarrow> 'f list \<Rightarrow> 'f" where
  "compress_gadget F left right constants = fd_add F (permute_gadget F left right constants) right"

definition commit_gadget :: "'f Field \<Rightarrow> (bytes \<Rightarrow> bytes) \<Rightarrow> 'f \<Rightarrow> 'f \<Rightarrow> 'f \<Rightarrow> 'f" where
  "commit_gadget F sha256 side price sz =
     (let constants = round_constants F sha256;
          h1 = compress_gadget F (fd_of_u64 F 0) side constants;
          h2 = compress_gadget F h1 price constants in
      compress_gadget F h2 sz constants)"

section \<open>Facts\<close>

lemma field_okD:
  assumes "field_ok F v"
  shows "v x = v y \<longleftrightarrow> x = y" "v x < FR_MODULUS" "v (fd_of_u64 F n) = unat n"
    "v (fd_add F x y) = (v x + v y) mod FR_MODULUS" "v (fd_mul F x y) = v x * v y mod FR_MODULUS"
    "v (fd_sub F x y) = (v x + (FR_MODULUS - v y)) mod FR_MODULUS"
    "fd_to_bits_be F x = map (bit (v x)) (rev [0..<FR_BITS])"
  using assms by (auto simp: field_ok_def inj_def)

text \<open>The rounds are the least number with which the degree of the permutation covers the field.\<close>

lemma rounds_cover_the_field: "5 ^ (ROUNDS - 1) < FR_MODULUS \<and> FR_MODULUS \<le> 5 ^ ROUNDS \<and> FR_MODULUS < 2 ^ FR_BITS"
  by (simp add: ROUNDS_def FR_MODULUS_def FR_BITS_def)

lemma fifth_power:
  assumes "field_ok F v"
  shows "fd_mul F (fd_mul F (fd_mul F t t) (fd_mul F t t)) t = fd_mul F (fd_mul F (fd_mul F (fd_mul F t t) t) t) t"
proof -
  have "v (fd_mul F (fd_mul F t t) (fd_mul F t t)) = v (fd_mul F (fd_mul F (fd_mul F t t) t) t)"
    unfolding field_okD(5) [OF assms] mod_mult_left_eq mod_mult_right_eq mult.assoc ..
  then show ?thesis by (simp add: field_okD(1) [OF assms])
qed

lemma gadget_is_commit:
  assumes "field_ok F v"
  shows "commit_gadget F sha256 = commit F sha256"
proof -
  have "permute_gadget F x key cs = permute F x key cs" for x key cs
    by (simp add: permute_gadget_def permute_def Let_def fifth_power [OF assms])
  then show ?thesis
    by (intro ext) (simp add: commit_gadget_def commit_def compress_gadget_def compress_def)
qed

section \<open>An instance of the field\<close>

typedef fr = "{n. n < FR_MODULUS}" morphisms fr_nat fr_abs
  by (rule exI [of _ 0]) (simp add: FR_MODULUS_def)

definition fr_of :: "nat \<Rightarrow> fr" where "fr_of n = fr_abs (n mod FR_MODULUS)"

lemma fr_nat_of [simp]: "fr_nat (fr_of n) = n mod FR_MODULUS"
proof -
  have "n mod FR_MODULUS < FR_MODULUS" by (intro mod_less_divisor) (simp add: FR_MODULUS_def)
  then show ?thesis by (simp add: fr_of_def fr_abs_inverse)
qed

definition bn254 :: "fr Field" where
  "bn254 = \<lparr>fd_of_u64 = (\<lambda>n. fr_of (unat n)), fd_add = (\<lambda>x y. fr_of (fr_nat x + fr_nat y)),
     fd_sub = (\<lambda>x y. fr_of (fr_nat x + (FR_MODULUS - fr_nat y))), fd_mul = (\<lambda>x y. fr_of (fr_nat x * fr_nat y)),
     fd_to_bits_be = (\<lambda>x. map (bit (fr_nat x)) (rev [0..<FR_BITS])),
     fd_from_le_bytes_mod_order = (\<lambda>bs. fr_of (foldr (\<lambda>b n. unat b + 256 * n) bs 0))\<rparr>"

lemma bn254_ok: "field_ok bn254 fr_nat"
proof -
  have "fr_nat x < FR_MODULUS" for x using fr_nat [of x] by simp
  moreover have "unat n mod FR_MODULUS = unat n" for n :: u64
  proof -
    have "unat n < 2 ^ 64" by (rule unat_u64_less)
    also have "(2 :: nat) ^ 64 < FR_MODULUS" by (simp add: FR_MODULUS_def)
    finally show ?thesis by simp
  qed
  moreover have "inj fr_nat" by (auto simp: inj_def fr_nat_inject)
  ultimately show ?thesis by (auto simp: field_ok_def bn254_def)
qed

end
