(* ===== verification/Circuits.thy ===== *)
theory Circuits
  imports Mimc
begin

text \<open>
  The correctness circuits (\<open>zk-circuits/src/match_correctness.rs\<close> and \<open>margin_correctness.rs\<close>): the
  comparison gadget, the match circuit, the batch of eight matches with its padding, and the margin
  circuit.  Synthesis of an assigned circuit is modelled by its values: a constraint system collects the
  public inputs and, for every enforced equality, whether it holds; \<open>None\<close> is the error of a missing
  assignment.  The setup mode, which only records the shape of the constraints, is not modelled.
\<close>

section \<open>Constraint systems\<close>

record 'f ConstraintSystem =
  cs_inputs :: "'f list"
  cs_enforced :: "bool list"

definition cs_new :: "'f ConstraintSystem" where
  "cs_new = \<lparr>cs_inputs = [], cs_enforced = []\<rparr>"

definition new_input :: "'f option \<Rightarrow> 'f ConstraintSystem \<Rightarrow> ('f \<times> 'f ConstraintSystem) option" where
  "new_input x cs = map_option (\<lambda>v. (v, cs\<lparr>cs_inputs := cs_inputs cs @ [v]\<rparr>)) x"

definition enforce :: "bool \<Rightarrow> 'f ConstraintSystem \<Rightarrow> 'f ConstraintSystem" where
  "enforce b cs = cs\<lparr>cs_enforced := cs_enforced cs @ [b]\<rparr>"

definition is_satisfied :: "'f ConstraintSystem option \<Rightarrow> bool" where
  "is_satisfied r = (case r of None \<Rightarrow> False | Some cs \<Rightarrow> (\<forall>b \<in> set (cs_enforced cs). b))"

section \<open>Comparison\<close>

definition fr_le :: "'f Field \<Rightarrow> 'f \<Rightarrow> 'f \<Rightarrow> bool" where
  "fr_le F a b =
     (let (greater, still_tied) = foldl (\<lambda>(greater, still_tied) (abit, bbit).
            (greater \<or> still_tied \<and> (abit \<and> \<not> bbit), still_tied \<and> (abit \<longleftrightarrow> bbit)))
          (False, True) (zip (fd_to_bits_be F a) (fd_to_bits_be F b)) in
      \<not> greater)"

section \<open>One match\<close>

record 'f MatchCorrectnessCircuit =
  mc_side_a :: "bool option"
  mc_price_a :: "'f option"
  mc_size_a :: "'f option"
  mc_side_b :: "bool option"
  mc_price_b :: "'f option"
  mc_size_b :: "'f option"
  mc_cmt_a :: "'f option"
  mc_cmt_b :: "'f option"
  mc_match_price :: "'f option"
  mc_match_size :: "'f option"

definition fr_of_side :: "'f Field \<Rightarrow> bool \<Rightarrow> 'f" where
  "fr_of_side F side = (if side then fd_of_u64 F 1 else fd_of_u64 F 0)"

definition match_circuit :: "'f Field \<Rightarrow> (bytes \<Rightarrow> bytes) \<Rightarrow> bool \<Rightarrow> 'f \<Rightarrow> 'f \<Rightarrow> bool \<Rightarrow> 'f \<Rightarrow> 'f \<Rightarrow> 'f \<Rightarrow> 'f \<Rightarrow> 'f MatchCorrectnessCircuit" where
  "match_circuit F sha256 side_a price_a size_a side_b price_b size_b match_price match_size =
     \<lparr>mc_side_a = Some side_a, mc_price_a = Some price_a, mc_size_a = Some size_a,
      mc_side_b = Some side_b, mc_price_b = Some price_b, mc_size_b = Some size_b,
      mc_cmt_a = Some (commit F sha256 (fr_of_side F side_a) price_a size_a),
      mc_cmt_b = Some (commit F sha256 (fr_of_side F side_b) price_b size_b),
      mc_match_price = Some match_price, mc_match_size = Some match_size\<rparr>"

definition match_public_inputs :: "'f MatchCorrectnessCircuit \<Rightarrow> 'f list option" where
  "match_public_inputs c = do {
     cmt_a \<leftarrow> mc_cmt_a c; cmt_b \<leftarrow> mc_cmt_b c; match_price \<leftarrow> mc_match_price c; match_size \<leftarrow> mc_match_size c;
     Some [cmt_a, cmt_b, match_price, match_size]
   }"

definition match_empty :: "'f MatchCorrectnessCircuit" where
  "match_empty = \<lparr>mc_side_a = None, mc_price_a = None, mc_size_a = None, mc_side_b = None, mc_price_b = None,
     mc_size_b = None, mc_cmt_a = None, mc_cmt_b = None, mc_match_price = None, mc_match_size = None\<rparr>"

definition match_constraints :: "'f Field \<Rightarrow> (bytes \<Rightarrow> bytes) \<Rightarrow> 'f MatchCorrectnessCircuit \<Rightarrow> 'f ConstraintSystem \<Rightarrow> 'f ConstraintSystem option" where
  "match_constraints F sha256 c cs = do {
     (cmt_a, cs) \<leftarrow> new_input (mc_cmt_a c) cs;
     (cmt_b, cs) \<leftarrow> new_input (mc_cmt_b c) cs;
     (match_price, cs) \<leftarrow> new_input (mc_match_price c) cs;
     (match_size, cs) \<leftarrow> new_input (mc_match_size c) cs;
     side_a \<leftarrow> mc_side_a c; price_a \<leftarrow> mc_price_a c; size_a \<leftarrow> mc_size_a c;
     side_b \<leftarrow> mc_side_b c; price_b \<leftarrow> mc_price_b c; size_b \<leftarrow> mc_size_b c;
     let cs = enforce (side_a \<noteq> side_b) cs;
         computed_cmt_a = commit_gadget F sha256 (fr_of_side F side_a) price_a size_a;
         computed_cmt_b = commit_gadget F sha256 (fr_of_side F side_b) price_b size_b;
         cs = enforce (computed_cmt_a = cmt_a) cs;
         cs = enforce (computed_cmt_b = cmt_b) cs;
         buyer_price = (if side_a then price_a else price_b);
         seller_price = (if side_a then price_b else price_a);
         cs = enforce (fr_le F seller_price match_price) cs;
         cs = enforce (fr_le F match_price buyer_price) cs;
         cs = enforce (fr_le F match_size size_a) cs;
         cs = enforce (fr_le F match_size size_b) cs in
     Some cs
   }"

section \<open>A batch of matches\<close>

definition MAX_BATCH_SIZE :: nat where "MAX_BATCH_SIZE = 8"

type_synonym 'f BatchMatchCorrectnessCircuit = "'f MatchCorrectnessCircuit list"

definition padding_match :: "'f Field \<Rightarrow> (bytes \<Rightarrow> bytes) \<Rightarrow> 'f MatchCorrectnessCircuit" where
  "padding_match F sha256 =
     (let zero = fd_of_u64 F 0 in match_circuit F sha256 True zero zero False zero zero zero zero)"

function pad_matches :: "'f MatchCorrectnessCircuit \<Rightarrow> 'f MatchCorrectnessCircuit list \<Rightarrow> 'f MatchCorrectnessCircuit list" where
  "pad_matches padding padded =
     (if length padded < MAX_BATCH_SIZE then pad_matches padding (padded @ [padding]) else padded)"
  by pat_completeness auto
termination by (relation "measure (\<lambda>(_, padded). MAX_BATCH_SIZE - length padded)") auto

declare pad_matches.simps [simp del]

definition batch_circuit :: "'f Field \<Rightarrow> (bytes \<Rightarrow> bytes) \<Rightarrow> 'f MatchCorrectnessCircuit list \<Rightarrow> 'f BatchMatchCorrectnessCircuit option" where
  "batch_circuit F sha256 matches =
     (if length matches \<le> MAX_BATCH_SIZE then Some (pad_matches (padding_match F sha256) matches) else None)"

definition batch_public_inputs :: "'f BatchMatchCorrectnessCircuit \<Rightarrow> 'f list option" where
  "batch_public_inputs b = map_option concat (those (map match_public_inputs b))"

definition batch_empty :: "'f BatchMatchCorrectnessCircuit" where
  "batch_empty = map (\<lambda>_. match_empty) [0..<MAX_BATCH_SIZE]"

definition batch_constraints :: "'f Field \<Rightarrow> (bytes \<Rightarrow> bytes) \<Rightarrow> 'f BatchMatchCorrectnessCircuit \<Rightarrow> 'f ConstraintSystem \<Rightarrow> 'f ConstraintSystem option" where
  "batch_constraints F sha256 b cs =
     foldl (\<lambda>r one_match. do { cs \<leftarrow> r; match_constraints F sha256 one_match cs }) (Some cs) b"

section \<open>Margin\<close>

definition N_POSITIONS :: nat where "N_POSITIONS = 2"
definition K_SCENARIOS :: nat where "K_SCENARIOS = 2"
definition BIAS :: u64 where "BIAS = push_bit 40 1"

definition to_biased :: "'f Field \<Rightarrow> 'f \<Rightarrow> 'f" where
  "to_biased F v = fd_add F v (fd_of_u64 F BIAS)"

definition le_signed :: "'f Field \<Rightarrow> 'f \<Rightarrow> 'f \<Rightarrow> bool" where
  "le_signed F a b = fr_le F a b"

record 'f MarginCorrectnessCircuit =
  gc_sizes_biased :: "'f option list"
  gc_f_c :: "'f option"
  gc_f_l :: "'f option"
  gc_m_claimed :: "'f option"

definition margin_circuit :: "'f Field \<Rightarrow> 'f list \<Rightarrow> 'f \<Rightarrow> 'f \<Rightarrow> 'f \<Rightarrow> 'f MarginCorrectnessCircuit" where
  "margin_circuit F sizes f_c f_l m_claimed =
     \<lparr>gc_sizes_biased = map (\<lambda>s. Some (to_biased F s)) sizes, gc_f_c = Some f_c, gc_f_l = Some f_l,
      gc_m_claimed = Some m_claimed\<rparr>"

definition margin_public_inputs :: "'f MarginCorrectnessCircuit \<Rightarrow> 'f list option" where
  "margin_public_inputs c = map_option (\<lambda>m. [m]) (gc_m_claimed c)"

definition margin_empty :: "'f MarginCorrectnessCircuit" where
  "margin_empty = \<lparr>gc_sizes_biased = replicate N_POSITIONS None, gc_f_c = None, gc_f_l = None, gc_m_claimed = None\<rparr>"

record 'f Params =
  pr_beta :: 'f
  pr_rho :: 'f
  pr_shifts_biased :: "'f list"

definition fd_neg :: "'f Field \<Rightarrow> 'f \<Rightarrow> 'f" where
  "fd_neg F x = fd_sub F (fd_of_u64 F 0) x"

definition Params_default :: "'f Field \<Rightarrow> 'f Params" where
  "Params_default F = \<lparr>pr_beta = fd_of_u64 F 1, pr_rho = fd_of_u64 F 0,
     pr_shifts_biased = [to_biased F (fd_neg F (fd_of_u64 F 10)), to_biased F (fd_of_u64 F 10)]\<rparr>"

definition scenario_maximum :: "'f Field \<Rightarrow> 'f list \<Rightarrow> 'f" where
  "scenario_maximum F scenario_values_biased =
     foldl (\<lambda>f_s_biased candidate. if le_signed F f_s_biased candidate then candidate else f_s_biased)
       (hd scenario_values_biased) (tl scenario_values_biased)"

definition margin_constraints :: "'f Field \<Rightarrow> 'f MarginCorrectnessCircuit \<Rightarrow> 'f ConstraintSystem \<Rightarrow> 'f ConstraintSystem option" where
  "margin_constraints F c cs = do {
     let params = Params_default F;
     let bias = fd_of_u64 F BIAS;
     (m_claimed, cs) \<leftarrow> new_input (gc_m_claimed c) cs;
     biased \<leftarrow> those (gc_sizes_biased c);
     let sizes = map (\<lambda>b. fd_sub F b bias) biased;
     f_c \<leftarrow> gc_f_c c;
     f_l \<leftarrow> gc_f_l c;
     let pairwise = fd_mul F (fd_mul F (sizes ! 0) (sizes ! 1)) (fd_of_u64 F 2);
         f_k = fd_mul F (fd_mul F (pr_beta params) (pr_rho params)) pairwise;
         net_size = foldl (fd_add F) (fd_of_u64 F 0) sizes;
         scenario_values_biased = map (\<lambda>shift_biased.
           fd_add F (fd_mul F (fd_sub F shift_biased bias) net_size) bias) (pr_shifts_biased params);
         f_s = fd_sub F (scenario_maximum F scenario_values_biased) bias;
         computed_m = fd_add F (fd_add F (fd_add F f_s f_c) f_l) f_k in
     Some (enforce (computed_m = m_claimed) cs)
   }"

end
