(* ===== verification/Circuit_Properties.thy ===== *)
theory Circuit_Properties
  imports Circuits
begin

text \<open>
  What the circuits prove: the comparison gadget is the comparison of the canonical representatives, the
  match circuit is satisfied exactly by legitimate matches, a batch exactly when all its matches are, and
  the margin circuit accepts the true requirement only while the net exposure stays below the bias.
\<close>

section \<open>Comparison\<close>

definition be_value :: "bool list \<Rightarrow> nat" where
  "be_value bs = foldl (\<lambda>n b. 2 * n + of_bool b) 0 bs"

lemma be_value_snoc: "be_value (bs @ [b]) = 2 * be_value bs + of_bool b"
  by (simp add: be_value_def)

lemma be_value_bits: "be_value (map (bit n) (rev [0..<k])) = n mod 2 ^ k"
proof (induction k arbitrary: n)
  case (Suc k)
  have "map (bit n) (rev [0..<Suc k]) = map (bit (n div 2)) (rev [0..<k]) @ [bit n 0]"
    by (simp add: rev_map [symmetric] map_upt_Suc bit_Suc del: upt_Suc)
  then have "be_value (map (bit n) (rev [0..<Suc k])) = 2 * (n div 2 mod 2 ^ k) + of_bool (bit n 0)"
    by (simp add: be_value_snoc Suc)
  also have "\<dots> = n mod 2 ^ Suc k"
    by (simp add: bit_0 mod_mult2_eq mod2_eq_if)
  finally show ?case .
qed (simp add: be_value_def)

lemma compare_bits:
  assumes "length as = length bs"
  shows "foldl (\<lambda>(greater, still_tied) (abit, bbit).
      (greater \<or> still_tied \<and> (abit \<and> \<not> bbit), still_tied \<and> (abit \<longleftrightarrow> bbit))) (False, True) (zip as bs) =
    (be_value bs < be_value as, be_value as = be_value bs)"
  using assms
proof (induction as arbitrary: bs rule: rev_induct)
  case (snoc a as)
  then obtain b bs' where b: "bs = bs' @ [b]" "length bs' = length as"
    by (cases bs rule: rev_cases) auto
  have "2 * x \<noteq> Suc (2 * y)" "Suc (2 * y) \<noteq> 2 * x" for x y :: nat by presburger+
  with snoc.IH [of bs'] b show ?case by (auto simp: be_value_snoc)
qed (simp add: be_value_def)

lemma fr_le_exact:
  assumes "field_ok F v"
  shows "fr_le F a b \<longleftrightarrow> v a \<le> v b"
proof -
  have "be_value (fd_to_bits_be F x) = v x" for x
  proof -
    have "v x < 2 ^ FR_BITS" using field_okD(2) [OF assms, of x] rounds_cover_the_field by linarith
    then show ?thesis by (simp add: field_okD(7) [OF assms] be_value_bits)
  qed
  then show ?thesis by (simp add: fr_le_def compare_bits field_okD(7) [OF assms] not_less)
qed

section \<open>Matches\<close>

definition legitimate_match :: "'f Field \<Rightarrow> ('f \<Rightarrow> nat) \<Rightarrow> (bytes \<Rightarrow> bytes) \<Rightarrow> 'f MatchCorrectnessCircuit \<Rightarrow> bool" where
  "legitimate_match F v sha256 c \<longleftrightarrow> (\<exists>side_a price_a size_a side_b price_b size_b match_price match_size.
     c = match_circuit F sha256 side_a price_a size_a side_b price_b size_b match_price match_size \<and> side_a \<noteq> side_b \<and>
     v (if side_a then price_b else price_a) \<le> v match_price \<and> v match_price \<le> v (if side_a then price_a else price_b) \<and>
     v match_size \<le> v size_a \<and> v match_size \<le> v size_b)"

lemma match_circuit_exact_iff:
  assumes "field_ok F v"
  shows "is_satisfied (match_constraints F sha256 c cs_new) \<longleftrightarrow> legitimate_match F v sha256 c"
proof -
  obtain side_a price_a size_a side_b price_b size_b cmt_a cmt_b match_price match_size where
    c: "c = \<lparr>mc_side_a = side_a, mc_price_a = price_a, mc_size_a = size_a, mc_side_b = side_b, mc_price_b = price_b,
      mc_size_b = size_b, mc_cmt_a = cmt_a, mc_cmt_b = cmt_b, mc_match_price = match_price, mc_match_size = match_size\<rparr>"
    by (cases c) auto
  show ?thesis unfolding c legitimate_match_def match_circuit_def
    by (cases side_a; cases price_a; cases size_a; cases side_b; cases price_b; cases size_b; cases cmt_a; cases cmt_b;
        cases match_price; cases match_size)
      (auto simp: match_constraints_def new_input_def is_satisfied_def enforce_def cs_new_def Let_def
        fr_le_exact [OF assms] gadget_is_commit [OF assms])
qed

text \<open>
  C15: The match circuit is sound and complete for the relation it documents: an assignment satisfies every
  constraint exactly when it opens both commitments to orders of opposite sides whose limits contain the
  match price and whose sizes cover the match size, all compared as integers below the modulus.
\<close>

theorem match_circuit_exact:
  assumes "field_ok F v"
  shows "is_satisfied (match_constraints F sha256 c cs_new) \<longleftrightarrow> legitimate_match F v sha256 c"
  by (rule match_circuit_exact_iff [OF assms])

lemma legitimate_match_circuit:
  "legitimate_match F v sha256 (match_circuit F sha256 side_a price_a size_a side_b price_b size_b match_price match_size) \<longleftrightarrow>
     side_a \<noteq> side_b \<and> v (if side_a then price_b else price_a) \<le> v match_price \<and> v match_price \<le> v (if side_a then price_a else price_b) \<and>
     v match_size \<le> v size_a \<and> v match_size \<le> v size_b"
  unfolding legitimate_match_def match_circuit_def by auto

text \<open>The hypothesis of the field holds for BN254: a sell of 5 at 90 matched with a buy of 4 at 100.\<close>

theorem match_circuit_exact_witness:
  "is_satisfied (match_constraints bn254 (\<lambda>bs. bs) (match_circuit bn254 (\<lambda>bs. bs) False (fr_of 90) (fr_of 5) True (fr_of 100) (fr_of 4)
     (fr_of 95) (fr_of 4)) cs_new)"
  unfolding match_circuit_exact [OF bn254_ok] legitimate_match_circuit by (simp add: FR_MODULUS_def)

lemma match_constraints_allocated:
  assumes "match_constraints F sha256 c cs = Some cs'"
  shows "\<exists>xs bs. match_public_inputs c = Some xs \<and> length xs = 4 \<and> cs_inputs cs' = cs_inputs cs @ xs \<and>
    cs_enforced cs' = cs_enforced cs @ bs \<and> ((\<forall>b \<in> set bs. b) \<longleftrightarrow> is_satisfied (match_constraints F sha256 c cs_new))"
  using assms
  by (auto simp: match_constraints_def match_public_inputs_def new_input_def enforce_def cs_new_def is_satisfied_def Let_def
      bind_eq_Some_conv)

lemma match_constraints_None:
  "match_constraints F sha256 c cs = None \<longleftrightarrow> match_constraints F sha256 c cs' = None"
  by (cases "mc_side_a c"; cases "mc_price_a c"; cases "mc_size_a c"; cases "mc_side_b c"; cases "mc_price_b c"; cases "mc_size_b c";
      cases "mc_cmt_a c"; cases "mc_cmt_b c"; cases "mc_match_price c"; cases "mc_match_size c")
    (simp_all add: match_constraints_def new_input_def)

section \<open>Batches\<close>

lemma pad_matches_eq:
  "pad_matches p ms = ms @ replicate (MAX_BATCH_SIZE - length ms) p"
proof (induction p ms rule: pad_matches.induct)
  case (1 p ms)
  show ?case
  proof (cases "length ms < MAX_BATCH_SIZE")
    case True
    then have "MAX_BATCH_SIZE - length ms = Suc (MAX_BATCH_SIZE - length (ms @ [p]))" by simp
    with 1 True show ?thesis by (subst pad_matches.simps) simp
  next
    case False
    then show ?thesis by (subst pad_matches.simps) simp
  qed
qed

lemma padding_satisfied:
  assumes "field_ok F v"
  shows "is_satisfied (match_constraints F sha256 (padding_match F sha256) cs_new)"
  unfolding match_circuit_exact_iff [OF assms] padding_match_def Let_def legitimate_match_circuit by simp

lemma failed_batch: "foldl (\<lambda>r one_match. do { cs \<leftarrow> r; match_constraints F sha256 one_match cs }) None b = None"
  by (induction b) simp_all

lemma batch_satisfied:
  "is_satisfied (batch_constraints F sha256 b cs) \<longleftrightarrow>
     (\<forall>b \<in> set (cs_enforced cs). b) \<and> (\<forall>c \<in> set b. is_satisfied (match_constraints F sha256 c cs_new))"
proof (induction b arbitrary: cs)
  case (Cons c b)
  show ?case
  proof (cases "match_constraints F sha256 c cs")
    case None
    then show ?thesis using match_constraints_None [of F sha256 c cs cs_new]
      by (simp add: batch_constraints_def failed_batch is_satisfied_def)
  next
    case (Some cs')
    with match_constraints_allocated [OF Some] Cons [of cs'] show ?thesis by (auto simp: batch_constraints_def)
  qed
qed (simp add: batch_constraints_def is_satisfied_def)

lemma batch_inputs_allocated:
  assumes "batch_constraints F sha256 b cs = Some cs'"
  shows "\<exists>xs. batch_public_inputs b = Some xs \<and> length xs = 4 * length b \<and> cs_inputs cs' = cs_inputs cs @ xs"
  using assms
proof (induction b arbitrary: cs)
  case (Cons c b)
  then obtain cs1 where c: "match_constraints F sha256 c cs = Some cs1" and b: "batch_constraints F sha256 b cs1 = Some cs'"
    by (cases "match_constraints F sha256 c cs") (auto simp: batch_constraints_def failed_batch)
  from match_constraints_allocated [OF c] Cons.IH [OF b] show ?case
    by (auto simp: batch_public_inputs_def)
qed (simp add: batch_constraints_def batch_public_inputs_def)

lemma padded_batch:
  assumes "field_ok F v" and "length ms \<le> MAX_BATCH_SIZE"
  shows "\<exists>b. batch_circuit F sha256 ms = Some b \<and> length b = MAX_BATCH_SIZE \<and> take (length ms) b = ms \<and>
    (is_satisfied (batch_constraints F sha256 b cs_new) \<longleftrightarrow> (\<forall>c \<in> set ms. is_satisfied (match_constraints F sha256 c cs_new)))"
proof -
  define b where "b = ms @ replicate (MAX_BATCH_SIZE - length ms) (padding_match F sha256)"
  have "is_satisfied (batch_constraints F sha256 b cs_new) \<longleftrightarrow> (\<forall>c \<in> set ms. is_satisfied (match_constraints F sha256 c cs_new))"
    using padding_satisfied [OF assms(1)] by (auto simp: batch_satisfied b_def cs_new_def)
  with assms(2) show ?thesis by (simp add: batch_circuit_def pad_matches_eq b_def)
qed

text \<open>
  C16: The padding loop ends with a batch of exactly eight matches, the given ones first, and a batch of more
  than eight panics.  Padding weakens nothing: the circuit of the batch is satisfied exactly when every
  given match satisfies its own, and the public inputs it allocates are four per slot, in slot order, those
  the verifier is given.
\<close>

theorem batch_padding_exact:
  assumes "field_ok F v"
  shows "(batch_circuit F sha256 ms = None \<longleftrightarrow> MAX_BATCH_SIZE < length ms) \<and>
    (\<forall>b. batch_circuit F sha256 ms = Some b \<longrightarrow> length b = MAX_BATCH_SIZE \<and> take (length ms) b = ms \<and>
       (is_satisfied (batch_constraints F sha256 b cs_new) \<longleftrightarrow> (\<forall>c \<in> set ms. is_satisfied (match_constraints F sha256 c cs_new))) \<and>
       (\<forall>cs. batch_constraints F sha256 b cs_new = Some cs \<longrightarrow>
          batch_public_inputs b = Some (cs_inputs cs) \<and> length (cs_inputs cs) = 4 * MAX_BATCH_SIZE))"
proof (cases "length ms \<le> MAX_BATCH_SIZE")
  case True
  have "batch_public_inputs b = Some (cs_inputs cs) \<and> length (cs_inputs cs) = 4 * MAX_BATCH_SIZE"
    if "batch_constraints F sha256 b cs_new = Some cs" "length b = MAX_BATCH_SIZE" for cs b
    using batch_inputs_allocated [OF that(1)] that(2) by (auto simp: cs_new_def)
  with padded_batch [OF assms True, of sha256] True show ?thesis by fastforce
qed (simp add: batch_circuit_def)

theorem batch_padding_exact_witness:
  "batch_circuit bn254 (\<lambda>bs. bs) (replicate 9 match_empty) = None \<and>
   (\<exists>b. batch_circuit bn254 (\<lambda>bs. bs) [] = Some b \<and> is_satisfied (batch_constraints bn254 (\<lambda>bs. bs) b cs_new))"
proof -
  have "MAX_BATCH_SIZE < length (replicate 9 match_empty)" "\<not> MAX_BATCH_SIZE < length ([] :: fr MatchCorrectnessCircuit list)"
    by (simp_all add: MAX_BATCH_SIZE_def)
  with batch_padding_exact [OF bn254_ok, of "\<lambda>bs. bs"] show ?thesis
    by (metis empty_iff list.set(1) not_None_eq)
qed

end
