(* ===== verification/Margin_Circuit.thy ===== *)
theory Margin_Circuit
  imports Circuit_Properties
begin

text \<open>
  The margin circuit in signed integers: which claimed requirement it accepts below and above the bias.
\<close>

definition encodes :: "('f \<Rightarrow> nat) \<Rightarrow> 'f \<Rightarrow> int \<Rightarrow> bool" where
  "encodes v x i \<longleftrightarrow> int (v x) = i mod int FR_MODULUS"

lemma encodes_inj:
  assumes "field_ok F v" and "encodes v x i"
  shows "encodes v y i \<longleftrightarrow> y = x"
  using assms(2) field_okD(1) [OF assms(1), of y x] by (auto simp: encodes_def)

lemma encodes_of:
  assumes "field_ok F v"
  shows "encodes v (fd_of_u64 F n) (int (unat n))"
proof -
  have "unat n < FR_MODULUS" using field_okD(2) [OF assms, of "fd_of_u64 F n"] unfolding field_okD(3) [OF assms] .
  then show ?thesis unfolding encodes_def field_okD(3) [OF assms] of_nat_mod [symmetric] by (simp only: mod_less)
qed

lemma encodes_op:
  assumes F: "field_ok F v" and "encodes v x i" and "encodes v y j"
  shows "encodes v (fd_add F x y) (i + j)" "encodes v (fd_sub F x y) (i - j)" "encodes v (fd_mul F x y) (i * j)"
proof -
  have e: "int (v x) = i mod int FR_MODULUS" "int (v y) = j mod int FR_MODULUS" using assms by (simp_all add: encodes_def)
  show "encodes v (fd_add F x y) (i + j)" unfolding encodes_def field_okD(4) [OF F] of_nat_mod of_nat_add e by (rule mod_add_eq)
  show "encodes v (fd_mul F x y) (i * j)" unfolding encodes_def field_okD(5) [OF F] of_nat_mod of_nat_mult e by (rule mod_mult_eq)
  have "int (v x + (FR_MODULUS - v y)) = i mod int FR_MODULUS - j mod int FR_MODULUS + int FR_MODULUS"
    using field_okD(2) [OF F, of y] e by simp
  then show "encodes v (fd_sub F x y) (i - j)"
    unfolding encodes_def field_okD(6) [OF F] of_nat_mod by (simp only: mod_add_self2 mod_diff_eq)
qed

lemma encodes_unbiased:
  assumes F: "field_ok F v" and "encodes v x i"
  shows "fd_sub F (to_biased F x) (fd_of_u64 F BIAS) = x"
proof -
  have "encodes v (fd_sub F (to_biased F x) (fd_of_u64 F BIAS)) (i + int (unat BIAS) - int (unat BIAS))"
    unfolding to_biased_def by (intro encodes_op [OF F] assms encodes_of [OF F])
  then show ?thesis using encodes_inj [OF F assms(2)] by simp
qed

text \<open>The comparison of two encoded integers, one of which may be negative.\<close>

lemma encodes_le:
  assumes F: "field_ok F v" and "encodes v x i" and "encodes v y j" and "- int FR_MODULUS \<le> i" and "i < int FR_MODULUS"
    and "- int FR_MODULUS \<le> j" and "j < int FR_MODULUS"
  shows "fr_le F x y \<longleftrightarrow> (if i < 0 then i + int FR_MODULUS else i) \<le> (if j < 0 then j + int FR_MODULUS else j)"
proof -
  have m: "k mod int FR_MODULUS = (if k < 0 then k + int FR_MODULUS else k)" if "- int FR_MODULUS \<le> k" "k < int FR_MODULUS" for k
  proof (cases "k < 0")
    case True
    then have "(k + int FR_MODULUS) mod int FR_MODULUS = k + int FR_MODULUS" using that by (intro mod_pos_pos_trivial) simp_all
    with True show ?thesis by (simp only: mod_add_self2 if_True)
  qed (use that in simp)
  have "fr_le F x y \<longleftrightarrow> int (v x) \<le> int (v y)" unfolding fr_le_exact [OF F] by (rule of_nat_le_iff [symmetric])
  then show ?thesis using assms(2,3) unfolding encodes_def m [OF assms(4,5)] m [OF assms(6,7)] by simp
qed

definition scenario_term :: "int \<Rightarrow> int" where
  "scenario_term n = (if 10 * \<bar>n\<bar> \<le> 2 ^ 40 then 10 * \<bar>n\<bar> else - (10 * \<bar>n\<bar>))"

lemma scenario_maximum_exact:
  assumes F: "field_ok F v" and lo: "encodes v lo (- (10 * n) + 2 ^ 40)" and hi: "encodes v hi (10 * n + 2 ^ 40)"
    and n: "20 * \<bar>n\<bar> < int FR_MODULUS" and P: "2 ^ 50 < int FR_MODULUS"
  shows "encodes v (scenario_maximum F [lo, hi]) (scenario_term n + 2 ^ 40)"
proof -
  have "fr_le F lo hi \<longleftrightarrow> (if - (10 * n) + 2 ^ 40 < 0 then - (10 * n) + 2 ^ 40 + int FR_MODULUS else - (10 * n) + 2 ^ 40) \<le>
      (if 10 * n + 2 ^ 40 < 0 then 10 * n + 2 ^ 40 + int FR_MODULUS else 10 * n + 2 ^ 40)"
    using n P by (intro encodes_le [OF F lo hi]) (simp_all add: abs_if split: if_splits)
  then have "scenario_term n = (if fr_le F lo hi then 10 * n else - (10 * n))"
    using n unfolding scenario_term_def by (auto split: if_splits)
  then show ?thesis using lo hi by (simp add: scenario_maximum_def le_signed_def)
qed

text \<open>
  C25: What the margin circuit accepts for the net position \<open>n\<close> of its two sizes: the claim has to be ten
  times \<open>|n|\<close> plus the two trusted terms, the scenario maximum, only while ten times \<open>|n|\<close> stays within the
  bias of 2^40.  Beyond it the biased comparison wraps and the circuit accepts exactly the claim in which the
  scenario term is subtracted instead.
\<close>

theorem margin_circuit_accepts:
  assumes "field_ok F v" and "encodes v s0 i0" and "encodes v s1 i1" and "encodes v f_c c" and "encodes v f_l l"
    and "20 * \<bar>i0 + i1\<bar> < int FR_MODULUS"
  shows "is_satisfied (margin_constraints F (margin_circuit F [s0, s1] f_c f_l m) cs_new) \<longleftrightarrow>
    encodes v m ((if 10 * \<bar>i0 + i1\<bar> \<le> 2 ^ 40 then 10 * \<bar>i0 + i1\<bar> else - (10 * \<bar>i0 + i1\<bar>)) + c + l)"
proof -
  note F = assms(1) and of_int = encodes_of [OF assms(1)] and op = encodes_op [OF assms(1)]
  let ?bias = "fd_of_u64 F BIAS" and ?ten = "fd_of_u64 F 10"
  define net where "net = fd_add F (fd_add F (fd_of_u64 F 0) s0) s1"
  have b: "encodes v ?bias (2 ^ 40)" and t: "encodes v ?ten 10" and z: "encodes v (fd_of_u64 F 0) 0"
    using of_int [of BIAS] of_int [of 10] of_int [of 0] by (simp_all add: BIAS_def)
  have neg: "encodes v (fd_neg F ?ten) (- 10)" unfolding fd_neg_def using op(2) [OF z t] by simp
  have net: "encodes v net (i0 + i1)" unfolding net_def using op(1) [OF op(1) [OF z assms(2)] assms(3)] by simp
  define lo hi where "lo = fd_add F (fd_mul F (fd_neg F ?ten) net) ?bias" and "hi = fd_add F (fd_mul F ?ten net) ?bias"
  have lo: "encodes v lo (- (10 * (i0 + i1)) + 2 ^ 40)" unfolding lo_def using op(1) [OF op(3) [OF neg net] b] by simp
  have hi: "encodes v hi (10 * (i0 + i1) + 2 ^ 40)" unfolding hi_def using op(1) [OF op(3) [OF t net] b] by simp
  have "2 ^ 50 < int FR_MODULUS" by (simp add: FR_MODULUS_def)
  note max = scenario_maximum_exact [OF F lo hi assms(6) this]
  define f_k where "f_k = fd_mul F (fd_mul F (fd_of_u64 F 1) (fd_of_u64 F 0)) (fd_mul F (fd_mul F s0 s1) (fd_of_u64 F 2))"
  have k: "encodes v f_k 0" unfolding f_k_def
    using op(3) [OF op(3) [OF of_int z] op(3) [OF op(3) [OF assms(2,3)] of_int]] by simp
  define computed where "computed = fd_add F (fd_add F (fd_add F (fd_sub F (scenario_maximum F [lo, hi]) ?bias) f_c) f_l) f_k"
  have "is_satisfied (margin_constraints F (margin_circuit F [s0, s1] f_c f_l m) cs_new) \<longleftrightarrow> computed = m"
    by (simp add: Let_def margin_constraints_def margin_circuit_def new_input_def cs_new_def is_satisfied_def enforce_def Params_default_def
        encodes_unbiased [OF F assms(2)] encodes_unbiased [OF F assms(3)] encodes_unbiased [OF F neg] encodes_unbiased [OF F t]
        computed_def f_k_def lo_def hi_def net_def)
  moreover have "encodes v computed (scenario_term (i0 + i1) + 2 ^ 40 - 2 ^ 40 + c + l + 0)"
    unfolding computed_def by (intro op max b k assms)
  then have "encodes v computed (scenario_term (i0 + i1) + c + l)" by simp
  ultimately show ?thesis using encodes_inj [OF F] unfolding scenario_term_def by blast
qed

text \<open>A net position of 2^40: the circuit accepts a requirement of minus ten times 2^40.\<close>

theorem margin_circuit_accepts_witness:
  "is_satisfied (margin_constraints bn254 (margin_circuit bn254 [fr_of (2 ^ 40), fr_of 0] (fr_of 0) (fr_of 0)
     (fr_of (FR_MODULUS - 10 * 2 ^ 40))) cs_new)"
proof -
  have e: "encodes fr_nat (fr_of (2 ^ 40)) (2 ^ 40)" "encodes fr_nat (fr_of 0) 0" "20 * \<bar>2 ^ 40 + 0\<bar> < int FR_MODULUS"
    "encodes fr_nat (fr_of (FR_MODULUS - 10 * 2 ^ 40)) (- (10 * 2 ^ 40))"
    by (simp_all add: encodes_def FR_MODULUS_def)
  from margin_circuit_accepts [OF bn254_ok e(1,2,2,2,3)] e(4) show ?thesis by simp
qed

end
