(* ===== verification/Proofs.thy ===== *)
theory Proofs
  imports Circuits Order_Entry
begin

text \<open>
  Correctness proofs (\<open>cerdic-tee-matcher/src/proof.rs\<close>) and the part of \<open>post_order\<close> of \<open>api.rs\<close> that
  hands the fills of an order to them.  The proof system of \<open>ark_groth16\<close> is the parameter \<open>Groth16\<close>, with
  its keys inside: \<open>gr_prove\<close> is \<open>None\<close> for an error of the prover, \<open>gr_verify\<close> for one of the verifier.
\<close>

section \<open>The proof system\<close>

record ('f, 'p) Groth16 =
  gr_prove :: "'f MatchCorrectnessCircuit \<Rightarrow> 'p option"
  gr_verify :: "'f list \<Rightarrow> 'p \<Rightarrow> bool option"
  gr_prove_batch :: "'f BatchMatchCorrectnessCircuit \<Rightarrow> 'p option"
  gr_verify_batch :: "'f list \<Rightarrow> 'p \<Rightarrow> bool option"

record MatchWitness =
  mw_side_a :: bool
  mw_price_a :: u64
  mw_size_a :: u64
  mw_side_b :: bool
  mw_price_b :: u64
  mw_size_b :: u64
  mw_match_price :: u64
  mw_match_size :: u64

record ('f, 'p) MatchProofResult =
  mp_proof :: 'p
  mp_public_inputs :: "'f list"
  mp_self_verified :: bool

definition NOTIONAL_THRESHOLD :: u64 where "NOTIONAL_THRESHOLD = 1000"

definition should_prove :: "u64 \<Rightarrow> bool" where
  "should_prove traded_qty = (NOTIONAL_THRESHOLD \<le> traded_qty)"

definition witness_circuit :: "'f Field \<Rightarrow> (bytes \<Rightarrow> bytes) \<Rightarrow> MatchWitness \<Rightarrow> 'f MatchCorrectnessCircuit" where
  "witness_circuit F sha256 w =
     match_circuit F sha256 (mw_side_a w) (fd_of_u64 F (mw_price_a w)) (fd_of_u64 F (mw_size_a w))
       (mw_side_b w) (fd_of_u64 F (mw_price_b w)) (fd_of_u64 F (mw_size_b w))
       (fd_of_u64 F (mw_match_price w)) (fd_of_u64 F (mw_match_size w))"

section \<open>Proving\<close>

definition generate_match_proof :: "'f Field \<Rightarrow> (bytes \<Rightarrow> bytes) \<Rightarrow> ('f, 'p) Groth16 \<Rightarrow> MatchWitness \<Rightarrow> ('f, 'p) MatchProofResult option" where
  "generate_match_proof F sha256 G witness = do {
     let circuit = witness_circuit F sha256 witness;
     public_inputs \<leftarrow> match_public_inputs circuit;
     prf \<leftarrow> gr_prove G circuit;
     let self_verified = (case gr_verify G public_inputs prf of Some ok \<Rightarrow> ok | None \<Rightarrow> False);
     Some \<lparr>mp_proof = prf, mp_public_inputs = public_inputs, mp_self_verified = self_verified\<rparr>
   }"

definition generate_batch_match_proof :: "'f Field \<Rightarrow> (bytes \<Rightarrow> bytes) \<Rightarrow> ('f, 'p) Groth16 \<Rightarrow> MatchWitness list \<Rightarrow> ('f, 'p) MatchProofResult option" where
  "generate_batch_match_proof F sha256 G witnesses = do {
     let matches = map (witness_circuit F sha256) witnesses;
     circuit \<leftarrow> batch_circuit F sha256 matches;
     public_inputs \<leftarrow> batch_public_inputs circuit;
     prf \<leftarrow> gr_prove_batch G circuit;
     let self_verified = (case gr_verify_batch G public_inputs prf of Some ok \<Rightarrow> ok | None \<Rightarrow> False);
     Some \<lparr>mp_proof = prf, mp_public_inputs = public_inputs, mp_self_verified = self_verified\<rparr>
   }"

definition chunk_for_batching :: "'w list \<Rightarrow> 'w list list" where
  "chunk_for_batching witnesses =
     (let (chunks, current) = foldl (\<lambda>(chunks, current) witness.
            let current = current @ [witness] in
            if length current = MAX_BATCH_SIZE then (chunks @ [current], []) else (chunks, current)) ([], []) witnesses in
      if current = [] then chunks else chunks @ [current])"

section \<open>The proofs of an order\<close>

definition fill_witness :: "OrderPayload \<Rightarrow> Fill \<Rightarrow> MatchWitness" where
  "fill_witness payload fill =
     (let taker_is_buy = (op_side payload = BuySide) in
      \<lparr>mw_side_a = taker_is_buy, mw_price_a = op_tick payload, mw_size_a = fill_taker_size_before fill,
       mw_side_b = (\<not> taker_is_buy), mw_price_b = fill_tick fill, mw_size_b = fill_maker_size_before fill,
       mw_match_price = fill_tick fill, mw_match_size = fill_qty fill\<rparr>)"

definition provable_fills :: "OrderPayload \<Rightarrow> Fill list \<Rightarrow> MatchWitness list" where
  "provable_fills payload fills = map (fill_witness payload) (filter (\<lambda>fill. should_prove (fill_qty fill)) fills)"

text \<open>The results of the tasks that are spawned for an order, a panic of a task being \<open>None\<close>.\<close>

definition order_proofs :: "'f Field \<Rightarrow> (bytes \<Rightarrow> bytes) \<Rightarrow> ('f, 'p) Groth16 \<Rightarrow> OrderPayload \<Rightarrow> Fill list \<Rightarrow> ('f, 'p) MatchProofResult option list" where
  "order_proofs F sha256 G payload fills =
     map (generate_batch_match_proof F sha256 G) (chunk_for_batching (provable_fills payload fills))"

end
