(* ===== verification/Proof_Properties.thy ===== *)
theory Proof_Properties
  imports Proofs Circuit_Properties Rescue
begin

text \<open>
  The proofs of an order: chunks cover every provable fill, no task panics on its size, and the proofs
  verify exactly when the fills respect the limit of the order, which the fills of the book do and those
  of the backstop need not.
\<close>

section \<open>Chunks\<close>

lemma chunk_step:
  assumes "length current < MAX_BATCH_SIZE" and "\<forall>c \<in> set chunks. length c = MAX_BATCH_SIZE"
  shows "case foldl (\<lambda>(chunks, current) witness. let current = current @ [witness] in
            if length current = MAX_BATCH_SIZE then (chunks @ [current], []) else (chunks, current)) (chunks, current) ws of
      (chunks', current') \<Rightarrow> concat chunks' @ current' = concat chunks @ current @ ws \<and>
        length current' < MAX_BATCH_SIZE \<and> (\<forall>c \<in> set chunks'. length c = MAX_BATCH_SIZE)"
  using assms
proof (induction ws arbitrary: chunks current)
  case (Cons w ws)
  show ?case
  proof (cases "Suc (length current) = MAX_BATCH_SIZE")
    case True
    have "0 < MAX_BATCH_SIZE" by (simp add: MAX_BATCH_SIZE_def)
    with True Cons.prems Cons.IH [of "[]" "chunks @ [current @ [w]]"] show ?thesis by (auto split: prod.splits)
  next
    case False
    with Cons.prems Cons.IH [of "current @ [w]" chunks] show ?thesis by (auto split: prod.splits)
  qed
qed simp

lemma chunk_for_batching_exact:
  "concat (chunk_for_batching ws) = ws \<and> (\<forall>c \<in> set (chunk_for_batching ws). c \<noteq> [] \<and> length c \<le> MAX_BATCH_SIZE) \<and>
   (\<forall>c \<in> set (butlast (chunk_for_batching ws)). length c = MAX_BATCH_SIZE)"
proof -
  have p: "0 < MAX_BATCH_SIZE" by (simp add: MAX_BATCH_SIZE_def)
  then have "length ([] :: 'a list) < MAX_BATCH_SIZE" by simp
  from chunk_step [OF this, of "[]" ws] p show ?thesis
    by (auto simp: chunk_for_batching_def split: prod.splits dest: in_set_butlastD)
qed

section \<open>Witnesses\<close>

definition within_limit :: "OrderPayload \<Rightarrow> Fill \<Rightarrow> bool" where
  "within_limit p f \<longleftrightarrow> crosses (OrderSide_into (op_side p)) (op_tick p) (fill_tick f)"

definition sized_fill :: "Fill \<Rightarrow> bool" where
  "sized_fill f \<longleftrightarrow> fill_qty f \<le> fill_taker_size_before f \<and> fill_qty f \<le> fill_maker_size_before f"

lemma fill_witness_satisfied:
  assumes "field_ok F v" and "sized_fill f"
  shows "is_satisfied (match_constraints F sha256 (witness_circuit F sha256 (fill_witness p f)) cs_new) \<longleftrightarrow> within_limit p f"
  unfolding match_circuit_exact_iff [OF assms(1)] witness_circuit_def fill_witness_def legitimate_match_circuit
  using assms(2)
  by (cases "op_side p")
    (auto simp: field_okD(3) [OF assms(1)] within_limit_def sized_fill_def crosses_def OrderSide_into_def word_le_nat_alt Let_def)

section \<open>The proof system\<close>

text \<open>
  What the code relies on: an assignment that satisfies the circuit has a proof that verifies against its
  public inputs, and the proof made from an assignment that does not satisfy it does not verify.
\<close>

definition groth16_ok :: "'f Field \<Rightarrow> (bytes \<Rightarrow> bytes) \<Rightarrow> ('f, 'p) Groth16 \<Rightarrow> bool" where
  "groth16_ok F sha256 G \<longleftrightarrow> (\<forall>b xs. batch_public_inputs b = Some xs \<longrightarrow>
     (is_satisfied (batch_constraints F sha256 b cs_new) \<longrightarrow>
        (\<exists>p. gr_prove_batch G b = Some p \<and> gr_verify_batch G xs p = Some True)) \<and>
     (\<not> is_satisfied (batch_constraints F sha256 b cs_new) \<longrightarrow>
        (\<forall>p. gr_prove_batch G b = Some p \<longrightarrow> gr_verify_batch G xs p \<noteq> Some True)))"

definition self_verified :: "('f, 'p) MatchProofResult option \<Rightarrow> bool" where
  "self_verified r \<longleftrightarrow> (\<exists>x. r = Some x \<and> mp_self_verified x)"

lemma those_Some: "\<forall>x \<in> set xs. \<exists>y. f x = Some y \<Longrightarrow> \<exists>ys. those (map f xs) = Some ys"
  by (induction xs) auto

lemma batch_proof_verifies:
  assumes F: "field_ok F v" and G: "groth16_ok F sha256 G" and "length ws \<le> MAX_BATCH_SIZE"
  shows "self_verified (generate_batch_match_proof F sha256 G ws) \<longleftrightarrow>
    (\<forall>w \<in> set ws. is_satisfied (match_constraints F sha256 (witness_circuit F sha256 w) cs_new))"
proof -
  let ?ms = "map (witness_circuit F sha256) ws"
  obtain b where b: "batch_circuit F sha256 ?ms = Some b" and
    sat: "is_satisfied (batch_constraints F sha256 b cs_new) \<longleftrightarrow> (\<forall>w \<in> set ws. is_satisfied (match_constraints F sha256 (witness_circuit F sha256 w) cs_new))"
    using padded_batch [OF F, of ?ms sha256] assms(3) by auto
  have "\<exists>xs. match_public_inputs c = Some xs" if "c \<in> set b" for c
    using b that
    by (auto simp: batch_circuit_def pad_matches_eq padding_match_def witness_circuit_def match_circuit_def match_public_inputs_def Let_def
        split: if_splits)
  then obtain xs where xs: "batch_public_inputs b = Some xs" using those_Some [of b match_public_inputs] by (auto simp: batch_public_inputs_def)
  have g: "generate_batch_match_proof F sha256 G ws = map_option (\<lambda>p. \<lparr>mp_proof = p, mp_public_inputs = xs,
      mp_self_verified = (case gr_verify_batch G xs p of Some ok \<Rightarrow> ok | None \<Rightarrow> False)\<rparr>) (gr_prove_batch G b)"
    using b xs by (cases "gr_prove_batch G b") (simp_all add: generate_batch_match_proof_def)
  show ?thesis
  proof (cases "is_satisfied (batch_constraints F sha256 b cs_new)")
    case True
    then obtain p where "gr_prove_batch G b = Some p" "gr_verify_batch G xs p = Some True" using G xs by (auto simp: groth16_ok_def)
    with True sat g show ?thesis by (simp add: self_verified_def)
  next
    case False
    then have "gr_verify_batch G xs p \<noteq> Some True" if "gr_prove_batch G b = Some p" for p using G xs that by (auto simp: groth16_ok_def)
    with False sat g show ?thesis by (auto simp: self_verified_def split: option.splits)
  qed
qed

section \<open>The fills of an order\<close>

lemma book_fills_within_limit:
  assumes "engine_ok n st" and "n < NIL" and "op_tick p \<le> MAX_SANE_TICK"
    and "book_submit st m (order_of p s) now = Some (res, st')" and "f \<in> set (sr_fills res)"
  shows "sized_fill f \<and> within_limit p f"
proof -
  have "unat (op_tick p) < tick_limit"
    using assms(3) by (simp add: word_le_nat_alt MAX_SANE_TICK_def tick_limit_def)
  then have b: "book_reachable (book_of st m)" "submittable (book_of st m) (order_of p s)"
    using book_of_ok [OF assms(1), of m] assms(2) by (auto simp: submittable_def order_of_def)
  obtain b' where sub: "submit (book_of st m) (order_of p s) now = Some (res, b')"
    using assms(4) by (auto simp: book_submit_def bind_eq_Some_conv)
  obtain S S' where run: "spec_submit S (order_of p s) now = (res, S')" using reachable_submit [OF b sub] by metis
  obtain r where "good_fill (order_of p s) now r f" using spec_submit_fills [OF run assms(5)] by blast
  then show ?thesis by (auto simp: good_fill_def sized_fill_def within_limit_def order_of_def)
qed

text \<open>A rescue appends at most one fill of the backstop, which is not larger than what it was asked for.\<close>

definition rescue_appends :: "Fill list \<Rightarrow> Fill list \<Rightarrow> bool" where
  "rescue_appends fs fs' \<longleftrightarrow> fs' = fs \<or> (\<exists>price k req. fs' = fs @ [backstop_fill price k req] \<and> k \<le> req)"

lemma fill_whole_appends:
  assumes "fill_whole s cfg side q = Some (r, s')"
  shows "rescue_appends fs (case r of None \<Rightarrow> fs | Some (price, filled) \<Rightarrow> fs @ [backstop_fill price filled q])"
  using assms by (cases rule: fill_whole_cases) (auto simp: rescue_appends_def)

lemma serve_leftover_appends:
  assumes "serve_leftover st m side req res = Some (res', st')"
  shows "rescue_appends (sr_fills res) (sr_fills res')"
proof -
  obtain r s where r: "(if sr_fill_or_kill_failed res then fill_whole (backstop_of st m) (st_backstop_config st) side req
      else try_fill (backstop_of st m) (st_backstop_config st) side req) = Some (r, s)"
    and "res' = (case r of None \<Rightarrow> res | Some (price, filled) \<Rightarrow>
      res\<lparr>sr_fills := sr_fills res @ [backstop_fill price filled req], sr_fill_or_kill_failed := False\<rparr>)"
    using assms by (auto simp: serve_leftover_def bind_eq_Some_conv)
  then have res': "sr_fills res' = (case r of None \<Rightarrow> sr_fills res | Some (price, filled) \<Rightarrow> sr_fills res @ [backstop_fill price filled req])"
    by (simp split: option.splits prod.splits)
  show ?thesis
  proof (cases "sr_fill_or_kill_failed res")
    case True
    with r show ?thesis unfolding res' by (intro fill_whole_appends) simp
  next
    case False
    with r have "try_fill (backstop_of st m) (st_backstop_config st) side req = Some (r, s)" by simp
    from try_fill_part [OF this] show ?thesis unfolding res' by (auto simp: rescue_appends_def)
  qed
qed

lemma serve_resting_appends:
  assumes "serve_resting st m side i res = Some (res', st')"
  shows "rescue_appends (sr_fills res) (sr_fills res')"
proof -
  obtain r s where r: "fill_whole (backstop_of st m) (st_backstop_config st) side (sr_resting_qty res) = Some (r, s)"
    and "res' = (case r of None \<Rightarrow> res | Some (price, filled) \<Rightarrow>
      res\<lparr>sr_fills := sr_fills res @ [backstop_fill price filled (sr_resting_qty res)], sr_resting_id := None, sr_resting_qty := 0\<rparr>)"
    using assms by (auto simp: serve_resting_def Let_def bind_eq_Some_conv split: option.splits)
  then have "sr_fills res' = (case r of None \<Rightarrow> sr_fills res | Some (price, filled) \<Rightarrow> sr_fills res @ [backstop_fill price filled (sr_resting_qty res)])"
    by (simp split: option.splits prod.splits)
  with fill_whole_appends [OF r] show ?thesis by simp
qed

lemma backstop_rescue_appends:
  assumes "backstop_rescue st p res = Some (res', st')"
  shows "rescue_appends (sr_fills res) (sr_fills res')"
  using assms
  by (auto simp: backstop_rescue_def Let_def serve_leftover_appends serve_resting_appends rescue_appends_def [of fs fs for fs]
      split: if_splits option.splits)

lemma execute_order_fills:
  assumes "engine_ok n st" and "n < NIL" and "op_tick p \<le> MAX_SANE_TICK"
    and "execute_order H st now p s = Some ((res, sweep), st')" and "f \<in> set (sr_fills res)"
  shows "sized_fill f \<and> (within_limit p f \<or> fill_maker_owner f = BACKSTOP_OWNER_ID)"
proof -
  obtain res0 st1 st2 where b: "book_submit (register_owner st s) (op_market_id p) (order_of p s) now = Some (res0, st1)"
    and r: "backstop_rescue st1 p res0 = Some (res, st2)"
    using assms(4) by (auto simp: execute_order_def bind_eq_Some_conv)
  have "engine_ok n (register_owner st s)" using assms(1) by simp
  note book = book_fills_within_limit [OF this assms(2,3) b]
  from backstop_rescue_appends [OF r] assms(5) have "f \<in> set (sr_fills res0) \<or> (\<exists>price k req. f = backstop_fill price k req \<and> k \<le> req)"
    by (auto simp: rescue_appends_def)
  with book show ?thesis by (auto simp: sized_fill_def backstop_fill_def)
qed

text \<open>
  C14: The proofs of an executed order: every provable fill is in exactly one chunk of at most eight, in
  order, and all the proofs of the order verify exactly when every provable fill is within the limit of the
  order.  A fill of the book always is, so only a fill of the backstop beyond the limit makes a proof fail,
  and it takes the other fills of its chunk with it.
\<close>

theorem order_proofs_verify_iff:
  assumes "field_ok F v" and "groth16_ok F sha256 G" and "engine_ok n st" and "n < NIL" and "op_tick p \<le> MAX_SANE_TICK"
    and "execute_order H st now p s = Some ((res, sweep), st')"
  shows "concat (chunk_for_batching (provable_fills p (sr_fills res))) = provable_fills p (sr_fills res) \<and>
    ((\<forall>r \<in> set (order_proofs F sha256 G p (sr_fills res)). self_verified r) \<longleftrightarrow>
       (\<forall>f \<in> set (sr_fills res). should_prove (fill_qty f) \<longrightarrow> within_limit p f)) \<and>
    (\<forall>f \<in> set (sr_fills res). fill_maker_owner f \<noteq> BACKSTOP_OWNER_ID \<longrightarrow> within_limit p f)"
proof -
  let ?ws = "provable_fills p (sr_fills res)"
  note fills = execute_order_fills [OF assms(3-6)]
  have c: "concat (chunk_for_batching ?ws) = ?ws" "\<And>c. c \<in> set (chunk_for_batching ?ws) \<Longrightarrow> length c \<le> MAX_BATCH_SIZE"
    using chunk_for_batching_exact [of ?ws] by blast+
  have "(\<forall>r \<in> set (order_proofs F sha256 G p (sr_fills res)). self_verified r) \<longleftrightarrow>
      (\<forall>w \<in> set (concat (chunk_for_batching ?ws)). is_satisfied (match_constraints F sha256 (witness_circuit F sha256 w) cs_new))"
    using batch_proof_verifies [OF assms(1,2)] c(2) by (auto simp: order_proofs_def)
  also have "\<dots> \<longleftrightarrow> (\<forall>f \<in> set (sr_fills res). should_prove (fill_qty f) \<longrightarrow> within_limit p f)"
    unfolding c(1) using fill_witness_satisfied [OF assms(1)] fills by (auto simp: provable_fills_def)
  finally show ?thesis using c(1) fills by blast
qed

text \<open>A proof system that ships the assignment: a batch is its own proof.\<close>

definition transparent :: "'f Field \<Rightarrow> (bytes \<Rightarrow> bytes) \<Rightarrow> ('f, 'f BatchMatchCorrectnessCircuit) Groth16" where
  "transparent F sha256 = \<lparr>gr_prove = (\<lambda>c. Some [c]),
     gr_verify = (\<lambda>xs b. Some (is_satisfied (batch_constraints F sha256 b cs_new) \<and> batch_public_inputs b = Some xs)),
     gr_prove_batch = Some,
     gr_verify_batch = (\<lambda>xs b. Some (is_satisfied (batch_constraints F sha256 b cs_new) \<and> batch_public_inputs b = Some xs))\<rparr>"

lemma transparent_ok: "groth16_ok F sha256 (transparent F sha256)"
  by (simp add: groth16_ok_def transparent_def)

text \<open>A buy of 2000 with limit 50 that the backstop serves at 100: the proof of the order does not verify.\<close>

theorem order_proofs_verify_iff_witness:
  "\<exists>res sweep st' r. execute_order offline_host example_quoting 0 (example_order BuySide 50 2000 ImmediateOrCancel 1) 8 =
       Some ((res, sweep), st') \<and>
     r \<in> set (order_proofs bn254 (\<lambda>bs. bs) (transparent bn254 (\<lambda>bs. bs)) (example_order BuySide 50 2000 ImmediateOrCancel 1) (sr_fills res)) \<and>
     \<not> self_verified r"
proof -
  let ?p = "example_order BuySide 50 2000 ImmediateOrCancel 1"
  obtain res sweep st' where run: "execute_order offline_host example_quoting 0 ?p 8 = Some ((res, sweep), st')"
    and fill: "sr_fills res = [backstop_fill 100 2000 2000]" by (rule example_rescue [of 2000]) simp
  have ok: "engine_ok 0 example_quoting" using engine_ok_new [of "[]"] by (simp add: example_quoting_def engine_ok_def)
  have c: "0 < NIL" "op_tick ?p \<le> MAX_SANE_TICK" by (simp_all add: NIL_def example_order_def MAX_SANE_TICK_def)
  have "should_prove (fill_qty (backstop_fill 100 2000 2000))" by (simp add: should_prove_def NOTIONAL_THRESHOLD_def)
  moreover have "\<not> within_limit ?p (backstop_fill 100 2000 2000)"
    by (simp add: within_limit_def example_order_def OrderSide_into_def crosses_def)
  ultimately show ?thesis using order_proofs_verify_iff [OF bn254_ok transparent_ok ok c run] run fill by auto
qed

end
