(* ===== verification/Queries.thy ===== *)
theory Queries
  imports Settlement
begin

text \<open>
  The public reads (\<open>cerdic-tee-matcher/src/api.rs\<close>): depth grouped into coarser levels, the order book
  response, candles, trades, settlement status and open interest, and the debug endpoint that seeds a
  market with a synthetic history.  Counts are unbounded, prices and quantities \<open>u64\<close>.
\<close>

section \<open>Depth\<close>

definition MAX_DEPTH_LEVELS :: nat where "MAX_DEPTH_LEVELS = 200"
definition DEFAULT_DEPTH_LEVELS :: nat where "DEFAULT_DEPTH_LEVELS = 50"

definition clamp_nat :: "nat \<Rightarrow> nat \<Rightarrow> nat \<Rightarrow> nat" where
  "clamp_nat x lo hi = (if x < lo then lo else if hi < x then hi else x)"

definition group_step :: "u64 \<Rightarrow> PriceLevel list \<times> u64 \<Rightarrow> PriceLevel \<Rightarrow> PriceLevel list \<times> u64" where
  "group_step grp acc level =
     (let (out, cumulative) = acc;
          bucket = pl_tick level div grp * grp;
          cumulative' = cumulative + pl_qty level in
      if out \<noteq> [] \<and> pl_tick (last out) = bucket
      then (butlast out @ [(last out)\<lparr>pl_qty := pl_qty (last out) + pl_qty level, pl_cumulative := cumulative'\<rparr>], cumulative')
      else (out @ [\<lparr>pl_tick = bucket, pl_qty = pl_qty level, pl_cumulative = cumulative'\<rparr>], cumulative'))"

definition group_levels :: "PriceLevel list \<Rightarrow> u64 \<Rightarrow> PriceLevel list" where
  "group_levels lvls grp = (if grp \<le> 1 then lvls else fst (foldl (group_step grp) ([], 0) lvls))"

section \<open>The order book response\<close>

record OrderBookResponse =
  or_market_id :: MarketId
  or_best_bid :: "u64 option"
  or_best_ask :: "u64 option"
  or_bids :: "PriceLevel list"
  or_asks :: "PriceLevel list"
  or_mark_price :: "u64 option"
  or_market :: MarketSnapshot

definition BookSnapshot_default :: BookSnapshot where
  "BookSnapshot_default = \<lparr>bs_best_bid = None, bs_best_ask = None, bs_bids = [], bs_asks = []\<rparr>"

definition MarketSnapshot_default :: MarketSnapshot where
  "MarketSnapshot_default = \<lparr>ms_last_price = None, ms_last_trade_at = None, ms_change_24h_bps = None, ms_volume_24h = 0,
     ms_high_24h = None, ms_low_24h = None\<rparr>"

definition build_orderbook_response_grouped :: "AppState \<Rightarrow> MarketId \<Rightarrow> nat \<Rightarrow> u64 \<Rightarrow> OrderBookResponse option" where
  "build_orderbook_response_grouped st market_id lvls grp = do {
     snap \<leftarrow> (case st_books st market_id of None \<Rightarrow> Some BookSnapshot_default | Some book \<Rightarrow> snapshot book lvls);
     let market = (case st_market_data st market_id of None \<Rightarrow> MarketSnapshot_default | Some tape \<Rightarrow> tape_snapshot tape);
     mark_price \<leftarrow> (case st_backstop st market_id of None \<Rightarrow> Some None | Some b \<Rightarrow> reference_price b (st_backstop_config st));
     Some \<lparr>or_market_id = market_id, or_best_bid = bs_best_bid snap, or_best_ask = bs_best_ask snap,
       or_bids = group_levels (bs_bids snap) grp, or_asks = group_levels (bs_asks snap) grp,
       or_mark_price = mark_price, or_market = market\<rparr>
   }"

definition build_orderbook_response :: "AppState \<Rightarrow> MarketId \<Rightarrow> nat \<Rightarrow> OrderBookResponse option" where
  "build_orderbook_response st market_id lvls = build_orderbook_response_grouped st market_id lvls 1"

definition get_orderbook :: "AppState \<Rightarrow> MarketId \<Rightarrow> nat option \<Rightarrow> u64 option \<Rightarrow> OrderBookResponse option" where
  "get_orderbook st market_id query_levels query_group =
     (let lvls = clamp_nat (case query_levels of Some l \<Rightarrow> l | None \<Rightarrow> DEFAULT_DEPTH_LEVELS) 1 MAX_DEPTH_LEVELS;
          grp = max (case query_group of Some g \<Rightarrow> g | None \<Rightarrow> 1) 1 in
      build_orderbook_response_grouped st market_id lvls grp)"

text \<open>What a subscriber with its own grouping makes of a broadcast update.\<close>

definition regroup :: "OrderBookResponse \<Rightarrow> u64 \<Rightarrow> OrderBookResponse" where
  "regroup response grp =
     response\<lparr>or_bids := group_levels (or_bids response) grp, or_asks := group_levels (or_asks response) grp\<rparr>"

section \<open>Candles and trades\<close>

definition MAX_CANDLE_LIMIT :: nat where "MAX_CANDLE_LIMIT = 500"
definition DEFAULT_CANDLE_LIMIT :: nat where "DEFAULT_CANDLE_LIMIT = 180"

definition interval_to_seconds :: "string \<Rightarrow> u64 option" where
  "interval_to_seconds interval =
     (if interval = ''1m'' then Some 60
      else if interval = ''5m'' then Some (5 * 60)
      else if interval = ''15m'' then Some (15 * 60)
      else if interval = ''30m'' then Some (30 * 60)
      else if interval = ''1h'' then Some (60 * 60)
      else if interval = ''4h'' then Some (4 * 60 * 60)
      else if interval = ''1d'' then Some (24 * 60 * 60)
      else None)"

record CandlesResponse =
  cr_market_id :: MarketId
  cr_interval :: string
  cr_candles :: "Candle list"

text \<open>The error is the status code.\<close>

definition get_candles :: "AppState \<Rightarrow> MarketId \<Rightarrow> string \<Rightarrow> nat option \<Rightarrow> nat + CandlesResponse" where
  "get_candles st market_id interval query_limit =
     (case interval_to_seconds interval of None \<Rightarrow> Inl 400
      | Some interval_secs \<Rightarrow>
          let limit = clamp_nat (case query_limit of Some l \<Rightarrow> l | None \<Rightarrow> DEFAULT_CANDLE_LIMIT) 1 MAX_CANDLE_LIMIT in
          Inr \<lparr>cr_market_id = market_id, cr_interval = interval,
            cr_candles = (case st_market_data st market_id of None \<Rightarrow> [] | Some tape \<Rightarrow> candles tape interval_secs limit)\<rparr>)"

definition MAX_TRADES_LIMIT :: nat where "MAX_TRADES_LIMIT = 200"
definition DEFAULT_TRADES_LIMIT :: nat where "DEFAULT_TRADES_LIMIT = 50"

definition get_trades :: "AppState \<Rightarrow> MarketId \<Rightarrow> nat option \<Rightarrow> MarketId \<times> TradeRecord list" where
  "get_trades st market_id query_limit =
     (let limit = clamp_nat (case query_limit of Some l \<Rightarrow> l | None \<Rightarrow> DEFAULT_TRADES_LIMIT) 1 MAX_TRADES_LIMIT in
      (market_id, case st_market_data st market_id of None \<Rightarrow> [] | Some tape \<Rightarrow> recent_trades tape limit))"

section \<open>Settlement status and open interest\<close>

datatype SettlementStatusResponse = SettlementPending | SettlementConfirmed Hash | SettlementFailed

definition get_settlement_status :: "(string \<Rightarrow> Address option) \<Rightarrow> AppState \<Rightarrow> string \<Rightarrow> u64 \<Rightarrow> nat + SettlementStatusResponse" where
  "get_settlement_status parse_address st signer nonce =
     (case parse_address signer of None \<Rightarrow> Inl 400
      | Some address \<Rightarrow> Inr (case st_settlement_tx_hashes st (address, nonce) of
            Some (Some tx_hash) \<Rightarrow> SettlementConfirmed tx_hash
          | Some None \<Rightarrow> SettlementFailed
          | None \<Rightarrow> SettlementPending))"

record OpenInterestResponse =
  oi_market_id :: MarketId
  oi_total_collateral :: "int option"
  oi_position_count :: "nat option"

definition get_open_interest :: "Host \<Rightarrow> Chain \<Rightarrow> AppState \<Rightarrow> MarketId \<Rightarrow> OpenInterestResponse" where
  "get_open_interest H C st market_id =
     (case settlement_contract st market_id of
        None \<Rightarrow> \<lparr>oi_market_id = market_id, oi_total_collateral = None, oi_position_count = None\<rparr>
      | Some contract \<Rightarrow>
          let (total, count) = foldl (\<lambda>(total, count) key.
                case load_sealed C key (onchain_market_id H st market_id) (Some contract) of Inl _ \<Rightarrow> (total, count)
                | Inr position \<Rightarrow>
                    if in_i128 (sp_collateral position) \<and> 0 < sp_collateral position
                    then (wrap_i128 (total + sp_collateral position), count + 1) else (total, count))
              (0, 0) (fst (oi_of st market_id)) in
          \<lparr>oi_market_id = market_id, oi_total_collateral = Some total, oi_position_count = Some count\<rparr>)"

section \<open>Seeding a history\<close>

definition STEP_SECS :: u64 where "STEP_SECS = 60"

definition next_rng :: "u64 \<Rightarrow> u64" where
  "next_rng r = (let r1 = xor r (push_bit 13 r); r2 = xor r1 (drop_bit 7 r1) in xor r2 (push_bit 17 r2))"

text \<open>A \<open>u64\<close> cast to \<open>i64\<close> and back.\<close>

definition as_i64 :: "u64 \<Rightarrow> int" where "as_i64 w = wrap_i64 (int (unat w))"
definition as_u64 :: "int \<Rightarrow> u64" where "as_u64 i = of_int i"

function walk_back :: "u64 \<Rightarrow> u64 \<Rightarrow> int \<Rightarrow> u64 \<Rightarrow> (u64 \<times> u64 \<times> u64) list \<Rightarrow> (u64 \<times> u64 \<times> u64) list" where
  "walk_back start_time t price rng backfill =
     (if start_time \<le> t then
        let rng = next_rng rng;
            step_tenths_pct = as_i64 (rng mod 5) - 2;
            price = wrap_i64 (price + trunc_div (wrap_i64 (price * step_tenths_pct)) 1000);
            price = (if price < 1 then 1 else price);
            qty = 2 + rng mod 12;
            backfill = backfill @ [(t, as_u64 price, qty)] in
        if t < STEP_SECS then backfill else walk_back start_time (t - STEP_SECS) price rng backfill
      else backfill)"
  by pat_completeness auto
termination
  by (relation "measure (\<lambda>(_, t, _). unat t)") (auto simp: STEP_SECS_def word_less_nat_alt unat_sub word_le_nat_alt not_less)

declare walk_back.simps [simp del]

definition post_debug_seed_history :: "AppState \<Rightarrow> u64 \<Rightarrow> MarketId \<Rightarrow> u64 \<Rightarrow> u64 \<Rightarrow> (nat + MarketId \<times> nat) \<times> AppState" where
  "post_debug_seed_history st now market_id start_tick days =
     (if \<not> st_debug_seed_enabled st then (Inl 404, st)
      else if start_tick = 0 \<or> days = 0 then (Inl 400, st)
      else
        let span_secs = days * 24 * 60 * 60;
            start_time = saturating_sub_u64 now span_secs;
            price = as_i64 start_tick;
            rng = xor now (start_tick * 2654435761);
            backfill = walk_back start_time (saturating_sub_u64 now STEP_SECS) price rng [(now, as_u64 price, 2 + rng mod 12)];
            tape = foldl (\<lambda>tape (timestamp, price, qty). tape_record tape timestamp price qty) [] (rev backfill) in
        (Inr (market_id, length backfill), st\<lparr>st_market_data := (st_market_data st)(market_id \<mapsto> tape)\<rparr>))"

end
