(* ===== verification/Query_Properties.thy ===== *)
theory Query_Properties
  imports Queries Book_Properties Backstop_Properties
begin

text \<open>
  The public reads: a grouped depth is the depth summed by bucket, the order book response shows it for a
  reachable book, and a seeded history is a well-formed tape that ends at the present price.
\<close>

section \<open>Grouping\<close>

definition bucket :: "u64 \<Rightarrow> PriceLevel \<Rightarrow> u64" where
  "bucket grp l = pl_tick l div grp * grp"

definition qty_sum :: "PriceLevel list \<Rightarrow> u64" where "qty_sum ls = sum_list (map pl_qty ls)"

text \<open>Levels from the best to the worst price of a side, each cumulative value the quantity up to it.\<close>

definition ladder_view :: "Side \<Rightarrow> PriceLevel list \<Rightarrow> bool" where
  "ladder_view s ls \<longleftrightarrow> sorted_wrt (\<lambda>x y. better s (pl_tick x) (pl_tick y)) ls \<and>
     (\<forall>i < length ls. pl_cumulative (ls ! i) = qty_sum (take (Suc i) ls))"

lemma qty_sum_append [simp]: "qty_sum (xs @ ys) = qty_sum xs + qty_sum ys"
  by (simp add: qty_sum_def)

lemma qty_sum_simps [simp]: "qty_sum [] = 0" "qty_sum (l # ls) = pl_qty l + qty_sum ls"
  by (simp_all add: qty_sum_def)

lemma qty_sum_filter_snoc:
  "qty_sum (filter P (ls @ [l])) = qty_sum (filter P ls) + (if P l then pl_qty l else 0)"
  by simp

lemma ladder_view_snoc:
  "ladder_view s (ls @ [l]) \<longleftrightarrow> ladder_view s ls \<and> (\<forall>x \<in> set ls. better s (pl_tick x) (pl_tick l)) \<and>
     pl_cumulative l = qty_sum ls + pl_qty l"
  by (auto simp: ladder_view_def sorted_wrt_append nth_append less_Suc_eq)

lemma div_word_mono: "t \<le> (u :: u64) \<Longrightarrow> t div g * g \<le> u div g * g"
proof -
  assume "t \<le> u"
  then have "unat t div unat g * unat g \<le> unat u div unat g * unat g" by (intro mult_le_mono1 div_le_mono) (simp add: word_le_nat_alt)
  moreover have "unat (x div g * g) = unat x div unat g * unat g" for x :: u64
  proof -
    have "unat x div unat g * unat g \<le> unat x" by (rule div_times_less_eq_dividend)
    moreover have "unat x div unat g \<le> unat x" by (rule div_le_dividend)
    ultimately have "unat x div unat g * unat g < 2 ^ 64" "unat x div unat g < 2 ^ 64" using unat_u64_less [of x] by linarith+
    then show ?thesis by (simp add: unat_word_ariths unat_div)
  qed
  ultimately show ?thesis by (simp add: word_le_nat_alt)
qed

lemma bucket_not_worse: "better s (pl_tick x) (pl_tick l) \<Longrightarrow> \<not> better s (bucket grp l) (bucket grp x)"
  using div_word_mono [OF less_imp_le, of "pl_tick x" "pl_tick l" grp] div_word_mono [OF less_imp_le, of "pl_tick l" "pl_tick x" grp]
  by (cases s) (auto simp: better_def bucket_def not_less)

definition grouped :: "Side \<Rightarrow> u64 \<Rightarrow> PriceLevel list \<Rightarrow> PriceLevel list \<Rightarrow> bool" where
  "grouped s grp ls out \<longleftrightarrow> ladder_view s out \<and> (\<forall>t. qty_sum (filter (\<lambda>l. pl_tick l = t) out) = qty_sum (filter (\<lambda>l. bucket grp l = t) ls)) \<and>
     pl_tick ` set out = bucket grp ` set ls"

lemma group_step_grouped:
  assumes g: "grouped s grp ls out" and sum: "qty_sum out = qty_sum ls" and l: "\<forall>x \<in> set ls. better s (pl_tick x) (pl_tick l)"
  shows "\<exists>out'. group_step grp (out, qty_sum ls) l = (out', qty_sum (ls @ [l])) \<and> grouped s grp (ls @ [l]) out' \<and> qty_sum out' = qty_sum (ls @ [l])"
proof (cases "out \<noteq> [] \<and> pl_tick (last out) = bucket grp l")
  case True
  then obtain front m where out: "out = front @ [m]" and m: "pl_tick m = bucket grp l" by (cases out rule: rev_cases) auto
  let ?m = "m\<lparr>pl_qty := pl_qty m + pl_qty l, pl_cumulative := qty_sum ls + pl_qty l\<rparr>"
  have "group_step grp (out, qty_sum ls) l = (front @ [?m], qty_sum (ls @ [l]))"
    using m by (simp add: group_step_def out bucket_def Let_def)
  moreover have "grouped s grp (ls @ [l]) (front @ [?m])"
  proof -
    have "qty_sum (filter (\<lambda>x. bucket grp x = t) ls) = qty_sum (filter (\<lambda>x. pl_tick x = t) front) + (if bucket grp l = t then pl_qty m else 0)" for t
      using g m unfolding grouped_def out qty_sum_filter_snoc by simp
    then show ?thesis using g sum m unfolding grouped_def out qty_sum_filter_snoc ladder_view_snoc by (simp add: ac_simps) blast
  qed
  moreover have "qty_sum (front @ [?m]) = qty_sum (ls @ [l])" using sum by (simp add: out ac_simps)
  ultimately show ?thesis by blast
next
  case False
  let ?m = "\<lparr>pl_tick = bucket grp l, pl_qty = pl_qty l, pl_cumulative = qty_sum ls + pl_qty l\<rparr>"
  have "group_step grp (out, qty_sum ls) l = (out @ [?m], qty_sum (ls @ [l]))"
    unfolding group_step_def prod.case Let_def using False by (auto simp: bucket_def)
  moreover have "better s (pl_tick x) (bucket grp l)" if x: "x \<in> set out" for x
  proof -
    obtain front m where out: "out = front @ [m]" using x by (cases out rule: rev_cases) auto
    have ne: "pl_tick m \<noteq> bucket grp l" using False out by simp
    have "pl_tick m \<in> bucket grp ` set ls" using g by (auto simp: grouped_def out)
    then have "\<not> better s (bucket grp l) (pl_tick m)" using l bucket_not_worse by auto
    then have m: "better s (pl_tick m) (bucket grp l)" using ne better_antisym by metis
    have "x = m \<or> better s (pl_tick x) (pl_tick m)" using g x by (auto simp: grouped_def out ladder_view_snoc)
    with m show ?thesis by (cases s) (auto simp: better_def)
  qed
  then have "grouped s grp (ls @ [l]) (out @ [?m])" 
    using g sum unfolding grouped_def qty_sum_filter_snoc ladder_view_snoc by auto
  moreover have "qty_sum (out @ [?m]) = qty_sum (ls @ [l])" using sum by simp
  ultimately show ?thesis by blast
qed

lemma grouped_fold:
  assumes "sorted_wrt (\<lambda>x y. better s (pl_tick x) (pl_tick y)) ls"
  shows "\<exists>out. foldl (group_step grp) ([], 0) ls = (out, qty_sum ls) \<and> grouped s grp ls out \<and> qty_sum out = qty_sum ls"
  using assms
proof (induction ls rule: rev_induct)
  case Nil
  show ?case by (simp add: grouped_def ladder_view_def)
next
  case (snoc l ls)
  then obtain out where out: "foldl (group_step grp) ([], 0) ls = (out, qty_sum ls)" "grouped s grp ls out" "qty_sum out = qty_sum ls"
    and l: "\<forall>x \<in> set ls. better s (pl_tick x) (pl_tick l)" by (auto simp: sorted_wrt_append)
  from group_step_grouped [OF out(2,3) l] out(1) show ?case by simp
qed

lemma group_levels_grouped:
  assumes "ladder_view s ls"
  shows "if grp \<le> 1 then group_levels ls grp = ls else grouped s grp ls (group_levels ls grp)"
  using grouped_fold [of s ls grp] assms by (auto simp: group_levels_def ladder_view_def)

section \<open>The depth of a book\<close>

lemma spec_depth_view:
  assumes "in_priority s q"
  shows "sorted_wrt (\<lambda>x y. better s (pl_tick x) (pl_tick y)) (spec_depth n q c) \<and>
    pl_tick ` set (spec_depth n q c) \<subseteq> r_tick ` set q \<and> length (spec_depth n q c) \<le> n \<and>
    (\<forall>i < length (spec_depth n q c). pl_cumulative (spec_depth n q c ! i) = c + qty_sum (take (Suc i) (spec_depth n q c)))"
  using assms
proof (induction n q c rule: spec_depth.induct)
  case (3 n r rs c)
  define qty where "qty = sum_list (map r_qty (filter (\<lambda>x. r_tick x = r_tick r) (r # rs)))"
  define q where "q = filter (\<lambda>x. r_tick x \<noteq> r_tick r) (r # rs)"
  define rest where "rest = spec_depth n q (c + qty)"
  have run: "spec_depth (Suc n) (r # rs) c = \<lparr>pl_tick = r_tick r, pl_qty = qty, pl_cumulative = c + qty\<rparr> # rest"
    by (simp only: spec_depth.simps Let_def qty_def q_def rest_def)
  have "in_priority s q" using "3.prems" unfolding q_def by (rule in_priority_filter)
  from "3.IH" [OF qty_def this [unfolded q_def]] have IH: "sorted_wrt (\<lambda>x y. better s (pl_tick x) (pl_tick y)) rest"
    "pl_tick ` set rest \<subseteq> r_tick ` set q" "length rest \<le> n"
    "\<And>i. i < length rest \<Longrightarrow> pl_cumulative (rest ! i) = c + qty + qty_sum (take (Suc i) rest)"
    unfolding rest_def q_def by blast+
  have "better s (r_tick r) (r_tick x)" if "x \<in> set q" for x
    using that "3.prems" better_antisym [of s "r_tick x" "r_tick r"] by (auto simp: q_def)
  then have "better s (r_tick r) (pl_tick y)" if "y \<in> set rest" for y using IH(2) that by (auto simp: image_iff subset_iff)
  moreover have "set q \<subseteq> set (r # rs)" by (auto simp: q_def)
  moreover have "pl_cumulative ((\<lparr>pl_tick = r_tick r, pl_qty = qty, pl_cumulative = c + qty\<rparr> # rest) ! i) =
      c + qty_sum (take (Suc i) (\<lparr>pl_tick = r_tick r, pl_qty = qty, pl_cumulative = c + qty\<rparr> # rest))" if "i < Suc (length rest)" for i
    using that IH(4) [of "i - 1"] by (cases i) (simp_all add: ac_simps)
  moreover have "pl_tick ` set rest \<subseteq> r_tick ` set (r # rs)" using IH(2) image_mono [OF calculation(2), of r_tick] by (rule subset_trans)
  ultimately show ?case unfolding run using IH(1,3) by simp
qed auto

lemma depth_view:
  assumes "book_reachable b"
  shows "\<exists>ls. depth b s n = Some ls \<and> ladder_view s ls \<and> best_prices s n (side_prices b s) (pl_tick ` set ls) \<and>
    (\<forall>l \<in> set ls. pl_qty l = resting_at b s (pl_tick l))"
proof -
  obtain S where S: "book_rel b S" using reachable_rel [OF assms] by blast
  then have core: "book_core b S" by (simp add: book_rel_def)
  from spec_depth_view [OF book_coreD(5) [OF core], of s n 0] spec_depth_levels [OF book_coreD(5) [OF core], of s n 0] depth_sim [OF S, of s n]
  show ?thesis by (auto simp: ladder_view_def side_prices_queue [OF core] resting_at_queue [OF core])
qed

text \<open>
  What a response says of one side of a book: of the \<open>n\<close> best prices of the side, or all when it has fewer,
  the bucket each falls in and the quantity that rests in the bucket.
\<close>

definition bucket_of :: "u64 \<Rightarrow> Tick \<Rightarrow> Tick" where
  "bucket_of grp t = (if grp \<le> 1 then t else t div grp * grp)"

definition shows_depth :: "OrderBook \<Rightarrow> Side \<Rightarrow> nat \<Rightarrow> u64 \<Rightarrow> PriceLevel list \<Rightarrow> bool" where
  "shows_depth b s n grp out \<longleftrightarrow> ladder_view s out \<and> (\<exists>tops. best_prices s n (side_prices b s) tops \<and>
     pl_tick ` set out = bucket_of grp ` tops \<and>
     (\<forall>t. qty_sum (filter (\<lambda>l. pl_tick l = t) out) = (\<Sum>u | u \<in> tops \<and> bucket_of grp u = t. resting_at b s u)))"

lemma qty_sum_levels:
  assumes "ladder_view s ls" and "\<forall>l \<in> set ls. pl_qty l = f (pl_tick l)"
  shows "qty_sum (filter (\<lambda>l. P (pl_tick l)) ls) = (\<Sum>u | u \<in> pl_tick ` set ls \<and> P u. f u)"
proof -
  have "sorted_wrt (\<lambda>x y. pl_tick x \<noteq> pl_tick y) ls"
    using assms(1) by (cases s) (auto simp: ladder_view_def better_def elim!: sorted_wrt_mono_rel [rotated])
  then have "distinct (map pl_tick ls)" by (induction ls) auto
  then show ?thesis using assms(2)
  proof (induction ls)
    case (Cons l ls)
    then have new: "pl_tick l \<notin> pl_tick ` set ls" by simp
    have split: "{u. u \<in> pl_tick ` set (l # ls) \<and> P u} =
        (if P (pl_tick l) then insert (pl_tick l) {u. u \<in> pl_tick ` set ls \<and> P u} else {u. u \<in> pl_tick ` set ls \<and> P u})" by auto
    show ?case unfolding split using Cons new by auto
  qed simp
qed

lemma group_levels_shows:
  assumes "ladder_view s ls" and "best_prices s n (side_prices b s) (pl_tick ` set ls)"
    and "\<forall>l \<in> set ls. pl_qty l = resting_at b s (pl_tick l)"
  shows "shows_depth b s n grp (group_levels ls grp)"
proof -
  have sums: "qty_sum (filter (\<lambda>l. bucket_of grp (pl_tick l) = t) ls) =
      (\<Sum>u | u \<in> pl_tick ` set ls \<and> bucket_of grp u = t. resting_at b s u)" for t
    by (rule qty_sum_levels [OF assms(1,3)])
  have out: "ladder_view s (group_levels ls grp) \<and> pl_tick ` set (group_levels ls grp) = bucket_of grp ` pl_tick ` set ls \<and>
      (\<forall>t. qty_sum (filter (\<lambda>l. pl_tick l = t) (group_levels ls grp)) = qty_sum (filter (\<lambda>l. bucket_of grp (pl_tick l) = t) ls))"
    using group_levels_grouped [OF assms(1), of grp] assms(1)
    by (cases "grp \<le> 1") (simp_all add: grouped_def bucket_of_def bucket_def image_image)
  with assms(2) show ?thesis unfolding shows_depth_def sums by blast
qed

lemma group_max_one: "group_levels ls (max g 1) = group_levels ls g"
  by (simp add: group_levels_def max_def)

lemma reference_price_total: "windows_ok cfg \<Longrightarrow> \<exists>p. reference_price x cfg = Some p"
  by (cases "bs_history x") (simp_all add: reference_price_def trailing_mean_def windows_ok_def Let_def not_le)

lemma build_response:
  assumes "st_books st m = Some b" and "windows_ok (st_backstop_config st)"
    and "depth b Long n = Some bl" and "depth b Short n = Some al"
  shows "\<exists>r. build_orderbook_response_grouped st m n g = Some r \<and> or_bids r = group_levels bl g \<and> or_asks r = group_levels al g"
proof -
  obtain p where "(case st_backstop st m of None \<Rightarrow> Some None | Some x \<Rightarrow> reference_price x (st_backstop_config st)) = Some p"
    using reference_price_total [OF assms(2)] by (cases "st_backstop st m") auto
  then show ?thesis unfolding build_orderbook_response_grouped_def Let_def assms(1) option.case
    by (simp add: snapshot_def assms)
qed

text \<open>
  C19: The order book response for a reachable book never panics and shows the book.  Of each side it covers
  the best prices, as many as the request asks for (50 when it does not say, at least one and at most 200)
  or all when there are fewer; it lists every bucket of the requested grouping that holds one of them, once
  and from the best to the worst, with exactly the quantity that rests there, and cumulative quantities that
  are the running sums.
\<close>

theorem orderbook_response_exact:
  fixes query_levels :: "nat option" and query_group :: "u64 option"
  assumes "st_books st m = Some b" and "book_reachable b" and "windows_ok (st_backstop_config st)"
  defines "n \<equiv> clamp_nat (case query_levels of Some l \<Rightarrow> l | None \<Rightarrow> 50) 1 200"
    and "g \<equiv> (case query_group of Some g \<Rightarrow> g | None \<Rightarrow> 1)"
  shows "\<exists>r. get_orderbook st m query_levels query_group = Some r \<and>
    shows_depth b Long n g (or_bids r) \<and> shows_depth b Short n g (or_asks r)"
proof -
  obtain bl where bids: "depth b Long n = Some bl" and bids_view: "shows_depth b Long n g (group_levels bl g)"
    using depth_view [OF assms(2), of Long n] group_levels_shows by blast
  obtain al where asks: "depth b Short n = Some al" and asks_view: "shows_depth b Short n g (group_levels al g)"
    using depth_view [OF assms(2), of Short n] group_levels_shows by blast
  have run: "get_orderbook st m query_levels query_group = build_orderbook_response_grouped st m n (max g 1)"
    by (simp only: get_orderbook_def Let_def n_def g_def DEFAULT_DEPTH_LEVELS_def MAX_DEPTH_LEVELS_def)
  from build_response [OF assms(1,3) bids asks, of "max g 1"] obtain r where
    "get_orderbook st m query_levels query_group = Some r" "or_bids r = group_levels bl g" "or_asks r = group_levels al g"
    unfolding run group_max_one by blast
  with bids_view asks_view show ?thesis by auto
qed

text \<open>A book with one ask of 7 at 105, asked for 500 levels in buckets of 25.\<close>

theorem orderbook_response_exact_witness:
  "\<exists>b r. book_reachable b \<and>
     get_orderbook ((AppState_new [])\<lparr>st_books := [''M'' \<mapsto> b]\<rparr>) ''M'' (Some 500) (Some 25) = Some r \<and>
     or_bids r = [] \<and> pl_tick ` set (or_asks r) = {100} \<and> qty_sum (filter (\<lambda>l. pl_tick l = 100) (or_asks r)) = 7"
proof -
  let ?o = "gtc Short 105 7 1"
  have t: "unat (no_tick ?o) < tick_limit" by (simp add: gtc_def tick_limit_def)
  obtain b where b: "submit book_new ?o 0 = Some (fst (spec_submit spec_new ?o 0), b)"
    and rel: "book_rel b (snd (spec_submit spec_new ?o 0))"
    using submit_sim [OF book_rel_new _ t, of 0] by (auto simp: spec_new_def NIL_def)
  have reach: "book_reachable b" by (rule book_reachable.submitted [OF book_reachable.new new_submittable [OF t] b])
  have core: "book_core b (snd (spec_submit spec_new ?o 0))" using rel by (simp add: book_rel_def)
  have prices: "side_prices b Long = {}" "side_prices b Short = {105}" and qty: "resting_at b Short 105 = 7"
    by (simp_all add: side_prices_queue [OF core] resting_at_queue [OF core] spec_eval at_tick_def)
  let ?st = "(AppState_new [])\<lparr>st_books := [''M'' \<mapsto> b]\<rparr>"
  have st: "st_books ?st ''M'' = Some b" "windows_ok (st_backstop_config ?st)"
    by (simp_all add: AppState_new_def BackstopConfig_default_def windows_ok_def)
  from orderbook_response_exact [OF st(1) reach st(2), of "Some 500" "Some 25"] obtain r where
    r: "get_orderbook ?st ''M'' (Some 500) (Some 25) = Some r" "shows_depth b Long 200 25 (or_bids r)" "shows_depth b Short 200 25 (or_asks r)"
    by (auto simp: clamp_nat_def)
  from r(2) have "or_bids r = []" by (auto simp: shows_depth_def best_prices_def prices)
  from r(3) obtain tops where tops: "tops \<subseteq> {105}" "card tops = 1" "pl_tick ` set (or_asks r) = bucket_of 25 ` tops"
    "qty_sum (filter (\<lambda>l. pl_tick l = 100) (or_asks r)) = (\<Sum>u | u \<in> tops \<and> bucket_of 25 u = 100. resting_at b Short u)"
    by (auto simp: shows_depth_def best_prices_def prices)
  have "tops = {105}" using tops(1,2) by (auto simp: subset_singleton_iff)
  moreover have bucket: "bucket_of 25 105 = 100" by (simp add: bucket_of_def word_le_nat_alt)
  moreover have "{u. u \<in> {105 :: Tick} \<and> bucket_of 25 u = 100} = {105}" using bucket by auto
  ultimately have "pl_tick ` set (or_asks r) = {100}" "qty_sum (filter (\<lambda>l. pl_tick l = 100) (or_asks r)) = 7"
    using tops(3,4) qty by simp_all
  with reach r(1) \<open>or_bids r = []\<close> show ?thesis by blast
qed

section \<open>Seeded histories\<close>

text \<open>The walk only goes back in time and never before the start of the history.\<close>

lemma walk_back_descends:
  assumes "sorted_wrt (\<lambda>x y. fst y \<le> fst x) backfill" and "\<forall>x \<in> set backfill. t \<le> fst x"
  shows "\<exists>older. walk_back start_time t price rng backfill = backfill @ older \<and>
    sorted_wrt (\<lambda>x y. fst y \<le> fst x) (backfill @ older) \<and> (\<forall>x \<in> set older. start_time \<le> fst x \<and> fst x \<le> t)"
  using assms
proof (induction start_time t price rng backfill rule: walk_back.induct)
  case (1 start_time t price rng backfill)
  show ?case
  proof (cases "start_time \<le> t")
    case False
    then show ?thesis using 1(2) by (subst walk_back.simps) simp
  next
    case True
    define r where "r = next_rng rng"
    define d where "d = as_i64 (r mod 5) - 2"
    define p0 where "p0 = wrap_i64 (price + trunc_div (wrap_i64 (price * d)) 1000)"
    define p where "p = (if p0 < 1 then 1 else p0)"
    define q where "q = 2 + r mod 12"
    define bf where "bf = backfill @ [(t, as_u64 p, q)]"
    have step: "walk_back start_time t price rng backfill =
        (if t < STEP_SECS then bf else walk_back start_time (t - STEP_SECS) p r bf)"
      by (subst walk_back.simps) (simp only: True if_True Let_def r_def d_def p0_def p_def q_def bf_def)
    have bf: "sorted_wrt (\<lambda>x y. fst y \<le> fst x) bf" "\<forall>x \<in> set bf. t \<le> fst x"
      using 1(2,3) by (auto simp: bf_def sorted_wrt_append)
    show ?thesis
    proof (cases "t < STEP_SECS")
      case True
      then show ?thesis using bf \<open>start_time \<le> t\<close> unfolding step by (auto simp: bf_def)
    next
      case False
      then have less: "t - STEP_SECS \<le> t" by (simp add: word_sub_le not_less)
      then have "\<forall>x \<in> set bf. t - STEP_SECS \<le> fst x" using bf(2) order_trans by blast
      from 1(1) [OF True r_def d_def p0_def p_def q_def bf_def False bf(1) this]
      show ?thesis using False less \<open>start_time \<le> t\<close> order_trans unfolding step bf_def by fastforce
    qed
  qed
qed

text \<open>The prints of a walk as a run of records, oldest first.\<close>

definition seed_record :: "u64 \<times> u64 \<times> u64 \<Rightarrow> TradeRecord" where
  "seed_record x = (case x of (t, p, q) \<Rightarrow> \<lparr>tr_timestamp = t, tr_price = p, tr_qty = q\<rparr>)"

lemma seed_record_sel [simp]: "tr_timestamp (seed_record x) = fst x" "tr_price (seed_record x) = fst (snd x)"
  by (cases x; simp add: seed_record_def)+

lemma seed_tape: "foldl (\<lambda>tape (timestamp, price, qty). tape_record tape timestamp price qty) [] xs = record_all (map seed_record xs)"
  by (induction xs rule: rev_induct) (auto simp: record_all_def seed_record_def)

lemma of_int_mod_u64: "(of_int (y mod 2 ^ 64) :: u64) = of_int y"
proof -
  have "(2 :: u64) ^ 64 = 0" by simp
  then have "(of_int (2 ^ 64 * (y div 2 ^ 64) + y mod 2 ^ 64) :: u64) = of_int (y mod 2 ^ 64)"
    by (simp only: of_int_add of_int_mult of_int_power of_int_numeral mult_zero_left add_0_left)
  then show ?thesis by (simp only: mult_div_mod_eq)
qed

lemma as_u64_as_i64 [simp]: "as_u64 (as_i64 w) = w"
proof -
  have "as_u64 (as_i64 w) = of_int (int (unat w) + 2 ^ 63) - of_int (2 ^ 63)"
    by (simp only: as_u64_def as_i64_def wrap_i64_def of_int_diff of_int_mod_u64)
  then show ?thesis by (simp only: of_int_add add_diff_cancel_right') simp
qed

text \<open>
  A seeded history is deterministic, ends, and replaces nothing but the market's tape: the new tape is in
  time order, so candles and the day figures are well defined on it, and its newest print is the given
  price at the present moment however long the walk back.
\<close>

theorem seeded_history_ends_at_present:
  assumes "st_debug_seed_enabled st" and "start_tick \<noteq> 0" and "days \<noteq> 0"
  shows "\<exists>n tape. post_debug_seed_history st now m start_tick days =
      (Inr (m, n), st\<lparr>st_market_data := (st_market_data st)(m \<mapsto> tape)\<rparr>) \<and>
    tape_ok tape \<and> tape \<noteq> [] \<and> tr_timestamp (last tape) = now \<and> tr_price (last tape) = start_tick \<and> length tape \<le> n"
proof -
  define start where "start = saturating_sub_u64 now (days * 24 * 60 * 60)"
  define t where "t = saturating_sub_u64 now STEP_SECS"
  define rng where "rng = xor now (start_tick * 2654435761)"
  define p where "p = (now, start_tick, 2 + rng mod 12)"
  have "t \<le> now" by (simp add: t_def saturating_sub_u64_def word_sub_le not_less)
  then have first: "sorted_wrt (\<lambda>x y. fst y \<le> fst x) [p]" "\<forall>x \<in> set [p]. t \<le> fst x" by (simp_all add: p_def)
  from walk_back_descends [OF this, of start "as_i64 start_tick" rng] obtain older where
    walk: "walk_back start t (as_i64 start_tick) rng [p] = p # older" and desc: "sorted_wrt (\<lambda>x y. fst y \<le> fst x) (p # older)" by auto
  define tape where "tape = map seed_record (rev (p # older))"
  have ok: "tape_ok tape"
    using desc by (simp add: tape_def tape_ok_def sorted_wrt_append sorted_wrt_map sorted_wrt_rev rev_map [symmetric])
  have ne: "tape \<noteq> []" and last: "last tape = seed_record p" by (simp_all add: tape_def)
  from record_all_filter [OF ok ne] have kept: "record_all tape =
      filter (\<lambda>x. saturating_sub_u64 now WINDOW_SECONDS \<le> tr_timestamp x) tape" by (simp add: last p_def)
  moreover have "saturating_sub_u64 now WINDOW_SECONDS \<le> now" by (simp add: saturating_sub_u64_def word_sub_le not_less)
  ultimately have tail: "record_all tape \<noteq> [] \<and> last (record_all tape) = seed_record p" by (simp add: tape_def p_def)
  have "post_debug_seed_history st now m start_tick days =
      (Inr (m, length (p # older)), st\<lparr>st_market_data := (st_market_data st)(m \<mapsto> record_all tape)\<rparr>)"
    using assms walk unfolding post_debug_seed_history_def Let_def seed_tape as_u64_as_i64
      start_def [symmetric] t_def [symmetric] rng_def [symmetric] p_def [symmetric] by (simp add: tape_def)
  moreover have "length (record_all tape) \<le> length (p # older)"
    unfolding kept by (rule order_trans [OF length_filter_le]) (simp add: tape_def)
  moreover have "tape_ok (record_all tape)" unfolding kept by (rule tape_ok_filter [OF ok])
  ultimately show ?thesis using tail by (intro exI [of _ "length (p # older)"] exI [of _ "record_all tape"]) (simp add: p_def)
qed

theorem seeded_history_ends_at_present_witness:
  "\<exists>n tape. post_debug_seed_history ((AppState_new [])\<lparr>st_debug_seed_enabled := True\<rparr>) 1700000000 ''M'' 11558 14 =
     (Inr (''M'', n), (AppState_new [])\<lparr>st_debug_seed_enabled := True, st_market_data := [''M'' \<mapsto> tape]\<rparr>) \<and>
     tr_price (last tape) = 11558"
  using seeded_history_ends_at_present [of "(AppState_new [])\<lparr>st_debug_seed_enabled := True\<rparr>" 11558 14 1700000000 "''M''"]
  by (auto simp: AppState_new_def)

end
