(* ===== verification/Liquidation_Rounds.thy ===== *)
theory Liquidation_Rounds
  imports Liquidation_Safety
begin

text \<open>
  Repeated liquidation: every round closes at least the safety buffer of each leg, or all of it, so a
  portfolio that is sized again and again is flat after a number of rounds logarithmic in its sizes.

  \<open>liquidation_rounds\<close> is not a function of the program: it iterates the sizing of the code,
  \<open>size_leg\<close> under \<open>liquidation_close_bps\<close>, over readings that may be any, and
  leaves out the breach guard of \<open>post_liquidate\<close>, which stops the sequence when the
  portfolio is healthy again.
\<close>

text \<open>One reading of a portfolio: its margin, the live prices and the funding indices.\<close>

type_synonym Reading = "MarginResult \<times> (MarketId \<times> nat) list \<times> (MarketId \<rightharpoonup> int)"

fun liquidation_rounds :: "Host \<Rightarrow> AppState \<Rightarrow> Reading list \<Rightarrow> PortfolioMarketState list \<Rightarrow> PortfolioMarketState list" where
  "liquidation_rounds H st [] ms = ms"
| "liquidation_rounds H st ((g, live, funding) # rs) ms = liquidation_rounds H st rs (remaining H st live funding g ms)"

lemma close_bps_buffer: "1000 \<le> liquidation_close_bps g"
  by (simp add: liquidation_close_bps_def Let_def sat_u128_def LIQUIDATION_SAFETY_BUFFER_BPS_def)

text \<open>The largest size a round can leave of a leg of a given size.\<close>

definition shrink :: "nat \<Rightarrow> nat" where
  "shrink n = min (n - 1) ((9 * n + 9) div 10)"

lemma shrink_mono: "n \<le> k \<Longrightarrow> shrink n \<le> shrink k"
  unfolding shrink_def by (intro min.mono diff_le_mono div_le_mono) simp_all

lemma size_leg_shrinks:
  assumes "nat \<bar>pm_signed_size m\<bar> < 2 ^ 64" and "snd (size_leg H st (liquidation_close_bps g) live funding m) = Some m'"
  shows "nat \<bar>pm_signed_size m'\<bar> \<le> shrink (nat \<bar>pm_signed_size m\<bar>) \<and> 0 < nat \<bar>pm_signed_size m'\<bar>"
proof -
  define n c where "n = nat \<bar>pm_signed_size m\<bar>" and "c = n * liquidation_close_bps g div 10000"
  have r: "nat \<bar>pm_signed_size m'\<bar> = n - c" "0 < c" "c < n"
    using size_leg_remainder [OF assms(1) close_bps_bound assms(2)] by (simp_all add: n_def c_def)
  have "n * 1000 div 10000 \<le> c" unfolding c_def by (intro div_le_mono mult_le_mono2 close_bps_buffer)
  then have "10 * c + 9 \<ge> n" by linarith
  then have "n - c \<le> (9 * n + 9) div 10" by linarith
  moreover have "n - c \<le> n - 1" using r(2) by simp
  ultimately show ?thesis unfolding r(1) shrink_def n_def [symmetric] using r(3) by simp
qed

section \<open>The number of rounds\<close>

lemma shrink_le: "shrink n \<le> n"
  by (simp add: shrink_def min.coboundedI1)

lemma shrinks_le: "(shrink ^^ k) n \<le> n"
  by (induction k) (auto intro: order_trans [OF shrink_le])

lemma shrinks_sub: "(shrink ^^ k) n \<le> n - k"
proof (induction k)
  case (Suc k)
  have "shrink ((shrink ^^ k) n) \<le> (shrink ^^ k) n - 1" by (simp add: shrink_def)
  with Suc show ?case by simp
qed simp

lemma seven_rounds_halve: "256 \<le> n \<Longrightarrow> 2 * (shrink ^^ 7) n \<le> n"
proof -
  have s: "10 * shrink x \<le> 9 * x + 9" for x
    using div_times_less_eq_dividend [of "9 * x + 9" 10] by (simp add: shrink_def min_def) linarith
  assume "256 \<le> n"
  moreover have "(shrink ^^ 7) n = shrink (shrink (shrink (shrink (shrink (shrink (shrink n))))))"
    by (simp add: eval_nat_numeral)
  ultimately show ?thesis
    using s [of n] s [of "shrink n"] s [of "shrink (shrink n)"] s [of "shrink (shrink (shrink n))"]
      s [of "shrink (shrink (shrink (shrink n)))"] s [of "shrink (shrink (shrink (shrink (shrink n))))"]
      s [of "shrink (shrink (shrink (shrink (shrink (shrink n)))))"] by linarith
qed

lemma rounds_to_256: "n < 2 ^ (8 + k) \<Longrightarrow> (shrink ^^ (7 * k)) n < 256"
proof (induction k arbitrary: n)
  case (Suc k)
  show ?case
  proof (cases "256 \<le> n")
    case True
    have "(2 :: nat) ^ (8 + Suc k) = 2 * 2 ^ (8 + k)" by (simp only: add_Suc_right power_Suc)
    then have "(shrink ^^ 7) n < 2 ^ (8 + k)" using seven_rounds_halve [OF True] Suc.prems by linarith
    from Suc.IH [OF this] have "(shrink ^^ (7 * k + 7)) n < 256" by (simp only: funpow_add comp_apply)
    then show ?thesis by (simp add: algebra_simps)
  next
    case False
    then show ?thesis using shrinks_le [of "7 * Suc k" n] by linarith
  qed
qed simp

definition MAX_ROUNDS :: nat where "MAX_ROUNDS = 648"

lemma rounds_to_zero:
  assumes "n < 2 ^ 64"
  shows "(shrink ^^ (MAX_ROUNDS - 1)) n = 0"
proof -
  have "(shrink ^^ (7 * 56)) n < 256" using assms by (intro rounds_to_256) simp
  then have "(shrink ^^ 255) ((shrink ^^ (7 * 56)) n) = 0" using shrinks_sub [of 255 "(shrink ^^ (7 * 56)) n"] by linarith
  moreover have "(shrink ^^ (255 + 7 * 56)) n = (shrink ^^ 255) ((shrink ^^ (7 * 56)) n)" by (simp only: funpow_add comp_apply)
  ultimately show ?thesis by (simp add: MAX_ROUNDS_def)
qed

lemma rounds_bounded:
  assumes "\<forall>m \<in> set ms. nat \<bar>pm_signed_size m\<bar> \<le> n" and "n < 2 ^ 64"
  shows "\<forall>m \<in> set (liquidation_rounds H st rs ms). nat \<bar>pm_signed_size m\<bar> \<le> (shrink ^^ length rs) n"
  using assms
proof (induction H st rs ms arbitrary: n rule: liquidation_rounds.induct)
  case (2 H st g live funding rs ms)
  have "\<forall>m \<in> set (remaining H st live funding g ms). nat \<bar>pm_signed_size m\<bar> \<le> shrink n"
  proof
    fix m' assume "m' \<in> set (remaining H st live funding g ms)"
    then obtain m where m: "m \<in> set ms" "snd (size_leg H st (liquidation_close_bps g) live funding m) = Some m'"
      by (auto simp: remaining_def List.map_filter_def)
    then have le: "nat \<bar>pm_signed_size m\<bar> \<le> n" using "2.prems"(1) by blast
    with "2.prems"(2) have "nat \<bar>pm_signed_size m\<bar> < 2 ^ 64" by linarith
    from size_leg_shrinks [OF this m(2)] shrink_mono [OF le] show "nat \<bar>pm_signed_size m'\<bar> \<le> shrink n" by linarith
  qed
  moreover have "shrink n < 2 ^ 64" using shrink_le [of n] "2.prems"(2) by linarith
  ultimately show ?case using "2.IH" [of "shrink n"] by (simp add: funpow_swap1)
qed simp

lemma rounds_snoc:
  "liquidation_rounds H st (rs @ [(g, live, funding)]) ms = remaining H st live funding g (liquidation_rounds H st rs ms)"
  by (induction H st rs ms rule: liquidation_rounds.induct) simp_all

lemma remaining_flat: "\<forall>m \<in> set ms. pm_signed_size m = 0 \<Longrightarrow> remaining H st live funding g ms = []"
  by (induction ms) (simp_all add: remaining_def List.map_filter_def size_leg_def close_whole_leg_def Let_def)

lemma rounds_flat: "liquidation_rounds H st rs [] = []"
  by (induction rs) (auto simp: remaining_def List.map_filter_def)

lemma rounds_append: "liquidation_rounds H st (rs @ qs) ms = liquidation_rounds H st qs (liquidation_rounds H st rs ms)"
  by (induction H st rs ms rule: liquidation_rounds.induct) simp_all

lemma enough_rounds:
  assumes "\<forall>m \<in> set ms. \<bar>pm_signed_size m\<bar> < 2 ^ 64" and "length rs = MAX_ROUNDS"
  shows "liquidation_rounds H st rs ms = []"
proof -
  obtain qs g live funding where rs: "rs = qs @ [(g, live, funding)]" "length qs = MAX_ROUNDS - 1"
    using assms(2) by (cases rs rule: rev_cases) (auto simp: MAX_ROUNDS_def)
  have "\<forall>m \<in> set ms. nat \<bar>pm_signed_size m\<bar> \<le> 2 ^ 64 - 1" using assms(1) by auto
  then have "\<forall>m \<in> set (liquidation_rounds H st qs ms). nat \<bar>pm_signed_size m\<bar> \<le> (shrink ^^ length qs) (2 ^ 64 - 1)"
    by (rule rounds_bounded) simp
  moreover have "(shrink ^^ length qs) (2 ^ 64 - 1) = 0" unfolding rs(2) by (rule rounds_to_zero) simp
  ultimately have "\<forall>m \<in> set (liquidation_rounds H st qs ms). pm_signed_size m = 0" by auto
  then show ?thesis unfolding rs(1) rounds_snoc by (rule remaining_flat)
qed



end
