(* ===== verification/Startup.thy ===== *)
theory Startup
  imports Recovery Settlement Engine_Properties
begin

text \<open>
  The process around the engine (\<open>cerdic-tee-matcher/src/main.rs\<close>): the configuration read from the
  environment, the boot, the persistence of the running state and the flush of realized results.  Parsing of
  addresses and hashes is a parameter; whitespace and separators are those of ASCII text.
\<close>

section \<open>Text\<close>

definition is_whitespace :: "char \<Rightarrow> bool" where
  "is_whitespace c \<longleftrightarrow> of_char c \<in> {9, 10, 11, 12, 13, 32 :: nat}"

definition trim :: "string \<Rightarrow> string" where
  "trim s = rev (dropWhile is_whitespace (rev (dropWhile is_whitespace s)))"

fun split_on :: "char \<Rightarrow> string \<Rightarrow> string list" where
  "split_on d [] = [[]]"
| "split_on d (c # cs) =
     (if c = d then [] # split_on d cs
      else (case split_on d cs of w # ws \<Rightarrow> (c # w) # ws | [] \<Rightarrow> [[c]]))"

definition split_once :: "char \<Rightarrow> string \<Rightarrow> (string \<times> string) option" where
  "split_once d s = (if d \<in> set s then Some (takeWhile (\<lambda>c. c \<noteq> d) s, tl (dropWhile (\<lambda>c. c \<noteq> d) s)) else None)"

definition digit_value :: "char \<Rightarrow> nat option" where
  "digit_value c = (if 48 \<le> (of_char c :: nat) \<and> (of_char c :: nat) \<le> 57 then Some (of_char c - 48) else None)"

fun read_digits :: "nat \<Rightarrow> string \<Rightarrow> nat option" where
  "read_digits n [] = Some n"
| "read_digits n (c # cs) = (case digit_value c of Some d \<Rightarrow> read_digits (10 * n + d) cs | None \<Rightarrow> None)"

text \<open>Rust's parser of a \<open>u64\<close>: digits, at most one leading plus sign, no overflow.\<close>

definition parse_u64 :: "string \<Rightarrow> u64 option" where
  "parse_u64 s =
     (let digits = (if take 1 s = ''+'' then drop 1 s else s) in
      if digits = [] then None
      else (case read_digits 0 digits of Some n \<Rightarrow> if n < 2 ^ 64 then Some (of_nat n) else None | None \<Rightarrow> None))"

section \<open>Configuration\<close>

record Environment =
  en_var :: "string \<Rightarrow> string option"
  en_address :: "string \<Rightarrow> Address option"
  en_hash :: "string \<Rightarrow> Hash option"

text \<open>The entries of a comma-separated list of pairs; \<open>None\<close> is a malformed entry, which is skipped.\<close>

definition config_pairs :: "string \<Rightarrow> string list" where
  "config_pairs raw = filter (\<lambda>s. s \<noteq> []) (map trim (split_on (CHR '','') raw))"

definition config_entry :: "string \<Rightarrow> (string \<times> string) option" where
  "config_entry pair = (case split_once (CHR ''='') pair of
     Some (key, val) \<Rightarrow> if key \<noteq> [] \<and> val \<noteq> [] then Some (key, val) else None | None \<Rightarrow> None)"

definition configure_oracle_feeds :: "Environment \<Rightarrow> AppState \<Rightarrow> AppState" where
  "configure_oracle_feeds E st = (case en_var E ''CERDIC_ORACLE_FEEDS'' of None \<Rightarrow> st
     | Some raw \<Rightarrow> foldl (\<lambda>st pair. case config_entry pair of
           Some (market_id, feed_id) \<Rightarrow> configure_oracle_feed st market_id feed_id | None \<Rightarrow> st) st (config_pairs raw))"

definition configure_settlement_contracts :: "Environment \<Rightarrow> AppState \<Rightarrow> AppState" where
  "configure_settlement_contracts E st = (case en_var E ''CERDIC_SETTLEMENT_CONTRACTS'' of None \<Rightarrow> st
     | Some raw \<Rightarrow> foldl (\<lambda>st pair. case config_entry pair of
           Some (market_id, contract) \<Rightarrow> (case en_address E contract of
               Some address \<Rightarrow> configure_settlement_contract st market_id address | None \<Rightarrow> st)
         | None \<Rightarrow> st) st (config_pairs raw))"

definition configure_market_id_overrides :: "Environment \<Rightarrow> AppState \<Rightarrow> AppState" where
  "configure_market_id_overrides E st = (case en_var E ''CERDIC_MARKET_ID_OVERRIDES'' of None \<Rightarrow> st
     | Some raw \<Rightarrow> foldl (\<lambda>st pair. case config_entry pair of
           Some (market_id, onchain_id) \<Rightarrow> (case en_hash E onchain_id of
               Some h \<Rightarrow> configure_market_id_override st market_id h | None \<Rightarrow> st)
         | None \<Rightarrow> st) st (config_pairs raw))"

definition configure_collateral_gate :: "Environment \<Rightarrow> AppState \<Rightarrow> AppState" where
  "configure_collateral_gate E st =
     (case (en_var E ''CERDIC_ACCOUNT_CONTRACT'', en_var E ''CERDIC_COLLATERAL_ASSET'') of
        (Some account_raw, Some asset_raw) \<Rightarrow> (case (en_address E account_raw, en_address E asset_raw) of
            (Some account, Some asset) \<Rightarrow> configure_collateral_check st account asset | _ \<Rightarrow> st)
      | _ \<Rightarrow> st)"

definition configure_risk_monitor_contract :: "Environment \<Rightarrow> AppState \<Rightarrow> AppState" where
  "configure_risk_monitor_contract E st = (case en_var E ''CERDIC_RISK_MONITOR_CONTRACT'' of None \<Rightarrow> st
     | Some raw \<Rightarrow> (case en_address E raw of Some contract \<Rightarrow> configure_risk_monitor st contract | None \<Rightarrow> st))"

definition configure_backstop_cap :: "Environment \<Rightarrow> AppState \<Rightarrow> AppState" where
  "configure_backstop_cap E st = (case en_var E ''CERDIC_BACKSTOP_NOTIONAL_CAP'' of None \<Rightarrow> st
     | Some raw \<Rightarrow> (case parse_u64 raw of Some cap \<Rightarrow> configure_backstop_notional_cap st cap | None \<Rightarrow> st))"

definition configure_seeding :: "Environment \<Rightarrow> AppState \<Rightarrow> AppState" where
  "configure_seeding E st =
     configure_debug_seed st (case en_var E ''CERDIC_ENABLE_DEBUG_SEED'' of None \<Rightarrow> False | Some v \<Rightarrow> v \<noteq> [])"

definition DEFAULT_REALIZED_PNL_FLUSH_BASE_SECS :: u64 where "DEFAULT_REALIZED_PNL_FLUSH_BASE_SECS = 20"
definition DEFAULT_REALIZED_PNL_FLUSH_JITTER_SECS :: u64 where "DEFAULT_REALIZED_PNL_FLUSH_JITTER_SECS = 10"

definition configure_realized_pnl_flush_interval :: "Environment \<Rightarrow> u64 \<times> u64" where
  "configure_realized_pnl_flush_interval E =
     ((case Option.bind (en_var E ''CERDIC_PNL_FLUSH_BASE_SECS'') parse_u64 of Some s \<Rightarrow> s
         | None \<Rightarrow> DEFAULT_REALIZED_PNL_FLUSH_BASE_SECS),
      (case Option.bind (en_var E ''CERDIC_PNL_FLUSH_JITTER_SECS'') parse_u64 of Some s \<Rightarrow> s
         | None \<Rightarrow> DEFAULT_REALIZED_PNL_FLUSH_JITTER_SECS))"

section \<open>The life of a process\<close>

definition configure_all :: "Environment \<Rightarrow> AppState \<Rightarrow> AppState" where
  "configure_all E st =
     configure_seeding E (configure_backstop_cap E (configure_market_id_overrides E (configure_risk_monitor_contract E
       (configure_collateral_gate E (configure_settlement_contracts E (configure_oracle_feeds E st))))))"

text \<open>\<open>None\<close> is the panic of a database that cannot be opened.\<close>

definition boot :: "Environment \<Rightarrow> Boot \<Rightarrow> 'j Json \<Rightarrow> Database \<Rightarrow> (AppState \<times> Database) option" where
  "boot E B J db = do {
     db' \<leftarrow> open_db J db;
     let secrets = recover_or_generate B;
     let app_state = configure_all E (AppState_from_secrets secrets);
     Some (apply_persisted_state app_state (load_db J db'), db')
   }"

text \<open>A tick of \<open>persist_loop\<close>, and the last save of a shutdown.\<close>

definition persist_tick :: "'j Json \<Rightarrow> Database \<Rightarrow> AppState \<Rightarrow> Database" where
  "persist_tick J db st = save_db J db (snapshot_for_persistence st)"

section \<open>What the configuration means\<close>

text \<open>The environment variable that configures the given pairs.\<close>

definition render_pair :: "string \<times> string \<Rightarrow> string" where
  "render_pair kv = fst kv @ ''='' @ snd kv"

fun render_pairs :: "(string \<times> string) list \<Rightarrow> string" where
  "render_pairs [] = []"
| "render_pairs [kv] = render_pair kv"
| "render_pairs (kv # kvs) = render_pair kv @ '','' @ render_pairs kvs"

text \<open>Names and values without separators and outer whitespace.\<close>

definition clean_pair :: "string \<times> string \<Rightarrow> bool" where
  "clean_pair kv \<longleftrightarrow> fst kv \<noteq> [] \<and> snd kv \<noteq> [] \<and> CHR '','' \<notin> set (fst kv) \<union> set (snd kv) \<and> CHR ''='' \<notin> set (fst kv) \<and>
     \<not> is_whitespace (hd (fst kv)) \<and> \<not> is_whitespace (last (snd kv))"

lemma split_on_clean: "d \<notin> set s \<Longrightarrow> split_on d s = [s]"
  by (induction s) auto

lemma split_on_append: "d \<notin> set s \<Longrightarrow> split_on d (s @ d # t) = s # split_on d t"
  by (induction s) auto

lemma dropWhile_keep: "s \<noteq> [] \<Longrightarrow> \<not> P (hd s) \<Longrightarrow> dropWhile P s = s"
  by (cases s) auto

lemma trim_clean: "s \<noteq> [] \<Longrightarrow> \<not> is_whitespace (hd s) \<Longrightarrow> \<not> is_whitespace (last s) \<Longrightarrow> trim s = s"
  by (simp add: trim_def dropWhile_keep hd_rev)

lemma render_pair_clean:
  assumes "clean_pair kv"
  shows "trim (render_pair kv) = render_pair kv" and "render_pair kv \<noteq> []" and "CHR '','' \<notin> set (render_pair kv)"
    and "config_entry (render_pair kv) = Some kv"
proof -
  obtain k v where kv: "kv = (k, v)" by (cases kv)
  note c = assms [unfolded clean_pair_def kv fst_conv snd_conv]
  show "trim (render_pair kv) = render_pair kv" using c by (intro trim_clean) (auto simp: render_pair_def kv)
  show "render_pair kv \<noteq> []" by (simp add: render_pair_def)
  show "CHR '','' \<notin> set (render_pair kv)" using c by (auto simp: render_pair_def kv)
  have "takeWhile (\<lambda>x. x \<noteq> CHR ''='') (k @ CHR ''='' # v) = k" "dropWhile (\<lambda>x. x \<noteq> CHR ''='') (k @ CHR ''='' # v) = CHR ''='' # v"
    using c by (auto simp: takeWhile_append dropWhile_append)
  then show "config_entry (render_pair kv) = Some kv" using c by (auto simp: config_entry_def split_once_def render_pair_def kv)
qed

lemma config_pairs_render: "\<forall>kv \<in> set kvs. clean_pair kv \<Longrightarrow> config_pairs (render_pairs kvs) = map render_pair kvs"
proof (induction kvs rule: render_pairs.induct)
  case 1
  show ?case by (simp add: config_pairs_def trim_def)
next
  case (2 kv)
  then show ?case by (simp add: config_pairs_def split_on_clean render_pair_clean)
next
  case (3 kv kv' kvs)
  then have kv: "clean_pair kv" by simp
  have "config_pairs (render_pairs (kv # kv' # kvs)) = render_pair kv # config_pairs (render_pairs (kv' # kvs))"
    using render_pair_clean [OF kv] by (simp add: config_pairs_def split_on_append)
  with 3 show ?case by simp
qed

text \<open>The pairs whose value parses.\<close>

fun parsed_pairs :: "(string \<Rightarrow> 'a option) \<Rightarrow> (string \<times> string) list \<Rightarrow> (string \<times> 'a) list" where
  "parsed_pairs parse [] = []"
| "parsed_pairs parse ((k, v) # kvs) = (case parse v of Some a \<Rightarrow> (k, a) # parsed_pairs parse kvs | None \<Rightarrow> parsed_pairs parse kvs)"

lemma contracts_fold:
  "settlement_contract (foldl (\<lambda>st pair. case config_entry pair of
        Some (market_id, contract) \<Rightarrow> (case en_address E contract of
            Some address \<Rightarrow> configure_settlement_contract st market_id address | None \<Rightarrow> st)
      | None \<Rightarrow> st) st (map render_pair kvs)) m =
     (case map_of (rev (parsed_pairs (en_address E) kvs)) m of
        Some a \<Rightarrow> Some a | None \<Rightarrow> settlement_contract st m)"
  if "\<forall>kv \<in> set kvs. clean_pair kv"
  using that
proof (induction kvs arbitrary: st)
  case (Cons kv kvs)
  obtain k v where kv: "kv = (k, v)" by (cases kv)
  have e: "config_entry (render_pair (k, v)) = Some (k, v)" using Cons.prems render_pair_clean(4) kv by simp
  have keep: "\<forall>kv \<in> set kvs. clean_pair kv" using Cons.prems by simp
  have put: "settlement_contract (configure_settlement_contract st k a) m = (if m = k then Some a else settlement_contract st m)" for a
    by (simp add: settlement_contract_def configure_settlement_contract_def update_conv')
  show ?case
  proof (cases "en_address E v")
    case None
    then show ?thesis using Cons.IH [OF keep, of st] by (simp add: kv e)
  next
    case (Some a)
    then show ?thesis using Cons.IH [OF keep, of "configure_settlement_contract st k a"] put [of a]
      by (simp add: kv e map_add_def split: option.splits)
  qed
qed simp

lemma foldl_frame: "(\<And>st x. g (f st x) = g st) \<Longrightarrow> g (foldl f st xs) = g st"
  by (induction xs arbitrary: st) simp_all

lemmas configure_defs = configure_seeding_def configure_debug_seed_def configure_backstop_cap_def
  configure_backstop_notional_cap_def configure_risk_monitor_contract_def configure_risk_monitor_def
  configure_collateral_gate_def configure_collateral_check_def

lemma overrides_keep_contracts: "st_settlement_contracts (configure_market_id_overrides E st) = st_settlement_contracts st"
  unfolding configure_market_id_overrides_def
  by (cases "en_var E ''CERDIC_MARKET_ID_OVERRIDES''")
    (auto intro!: foldl_frame [where g = st_settlement_contracts] simp: configure_market_id_override_def split: option.splits)

lemma configured_after:
  "st_settlement_contracts (configure_all E st) = st_settlement_contracts (configure_settlement_contracts E (configure_oracle_feeds E st))"
  by (simp add: configure_all_def configure_defs overrides_keep_contracts split: option.splits)

lemma feeds_keep_contracts: "st_settlement_contracts (configure_oracle_feeds E st) = st_settlement_contracts st"
  unfolding configure_oracle_feeds_def
  by (cases "en_var E ''CERDIC_ORACLE_FEEDS''")
    (auto intro!: foldl_frame [where g = st_settlement_contracts] simp: configure_oracle_feed_def split: option.splits)

lemma booted_state:
  assumes "boot E B J db = Some (st, db')"
  shows "st = apply_persisted_state (configure_all E (AppState_from_secrets (recover_or_generate B))) (load_db J db')"
    and "open_db J db = Some db'"
  using assms by (auto simp: boot_def bind_eq_Some_conv Let_def)

text \<open>
  Configuration is read back as it was written: when the environment lists markets with their contracts,
  a booted engine settles every listed market at the address its last entry parses to, and no other market
  at all.
\<close>

theorem configured_contracts_round_trip:
  assumes "boot E B J db = Some (st, db')" and "en_var E ''CERDIC_SETTLEMENT_CONTRACTS'' = Some (render_pairs kvs)"
    and "\<forall>kv \<in> set kvs. clean_pair kv"
  shows "settlement_contract st m = map_of (rev (parsed_pairs (en_address E) kvs)) m"
proof -
  let ?st0 = "configure_oracle_feeds E (AppState_from_secrets (recover_or_generate B))"
  have "settlement_contract st m = settlement_contract (configure_settlement_contracts E ?st0) m"
    using booted_state [OF assms(1)] by (simp add: settlement_contract_def apply_persisted_state_def configured_after)
  moreover have "settlement_contract ?st0 m = None"
    by (simp add: settlement_contract_def feeds_keep_contracts AppState_from_secrets_def)
  ultimately show ?thesis
    unfolding configure_settlement_contracts_def assms(2) option.case config_pairs_render [OF assms(3)] contracts_fold [OF assms(3)]
    by (simp split: option.splits)
qed

definition example_environment :: Environment where
  "example_environment = \<lparr>en_var = [''CERDIC_SETTLEMENT_CONTRACTS'' \<mapsto> ''A/B=x1,C/D=y,A/B=x22''],
     en_address = (\<lambda>s. if take 1 s = ''x'' then Some (of_nat (length s)) else None), en_hash = (\<lambda>_. None)\<rparr>"

definition example_json :: "unit Json" where
  "example_json = \<lparr>js_parse = (\<lambda>_. Some ()), js_print = (\<lambda>_. []), js_of_state = (\<lambda>_. []), js_to_state = (\<lambda>_. Some PersistedState_default)\<rparr>"

definition empty_database :: Database where
  "empty_database = \<lparr>db_state = None, db_schema_version = None\<rparr>"

lemma example_boots: "\<exists>st db. boot E B J empty_database = Some (st, db)"
  by (simp add: boot_def open_db_def run_migrations_def empty_database_def Let_def)

theorem configured_contracts_round_trip_witness:
  "\<exists>st db. boot example_environment (example_boot None 5) example_json empty_database = Some (st, db) \<and>
     settlement_contract st ''A/B'' = Some 3 \<and> settlement_contract st ''C/D'' = None"
proof -
  let ?kvs = "[(''A/B'', ''x1''), (''C/D'', ''y''), (''A/B'', ''x22'')]"
  obtain st db where b: "boot example_environment (example_boot None 5) example_json empty_database = Some (st, db)"
    using example_boots by blast
  have e: "en_var example_environment ''CERDIC_SETTLEMENT_CONTRACTS'' = Some (render_pairs ?kvs)"
    by (simp add: example_environment_def render_pair_def)
  have c: "\<forall>kv \<in> set ?kvs. clean_pair kv" by (simp add: clean_pair_def is_whitespace_def)
  from configured_contracts_round_trip [OF b e c] b show ?thesis by (simp add: example_environment_def)
qed

section \<open>The booted engine\<close>

text \<open>The part of the state that the configuration leaves alone.\<close>

definition volatile :: "AppState \<Rightarrow> (MarketId \<rightharpoonup> OrderBook) \<times> (MarketId \<rightharpoonup> BackstopState) \<times> ((Address \<times> Address) \<times> int) list \<times>
    (PositionKey \<rightharpoonup> PortfolioMarketState) \<times> bool" where
  "volatile st = (st_books st, st_backstop st, st_pending_realized_pnl st, st_position_cache st, windows_ok (st_backstop_config st))"

lemma configure_lists_keep:
  "volatile (configure_oracle_feeds E st) = volatile st"
  "volatile (configure_settlement_contracts E st) = volatile st"
  "volatile (configure_market_id_overrides E st) = volatile st"
  unfolding configure_oracle_feeds_def configure_settlement_contracts_def configure_market_id_overrides_def
  by (auto split: option.splits intro!: foldl_frame [where g = volatile])
    (auto simp: volatile_def configure_oracle_feed_def configure_settlement_contract_def configure_market_id_override_def split: option.splits)

lemma configure_keeps_volatile: "volatile (configure_all E st) = volatile st"
proof -
  have "volatile (configure_seeding E st) = volatile st" "volatile (configure_backstop_cap E st) = volatile st"
    "volatile (configure_risk_monitor_contract E st) = volatile st" "volatile (configure_collateral_gate E st) = volatile st" for st
    by (simp_all add: configure_defs volatile_def windows_ok_def split: option.splits)
  then show ?thesis by (simp add: configure_all_def configure_lists_keep)
qed

lemma volatile_ok: "volatile st = volatile st' \<Longrightarrow> engine_ok n st = engine_ok n st'"
  by (simp add: volatile_def engine_ok_def)

lemma booted_ok: "boot E B J db = Some (st, db') \<Longrightarrow> engine_ok 0 st"
proof -
  assume "boot E B J db = Some (st, db')"
  from booted_state(1) [OF this] have "volatile st = volatile (configure_all E (AppState_from_secrets (recover_or_generate B)))"
    by (simp add: volatile_def apply_persisted_state_def)
  also have "\<dots> = volatile (AppState_from_secrets (recover_or_generate B))" by (rule configure_keeps_volatile)
  finally have "engine_ok 0 st = engine_ok 0 (AppState_from_secrets (recover_or_generate B))" by (rule volatile_ok)
  then show "engine_ok 0 st"
    by (simp add: engine_ok_def AppState_from_secrets_def windows_ok_def BackstopConfig_default_def)
qed

text \<open>
  C2: Whatever the environment, the key service and the database hold, a process that boots has a
  well-formed engine, with reachable books and representable positions, and every sequence of fewer than
  \<open>2 ^ 32 - 1\<close> sized requests is answered one by one and leaves the engine well-formed.
\<close>

theorem booted_engine_well_formed:
  assumes "boot E B J db = Some (st, db')" and "list_all sized rs" and "length rs < NIL"
  shows "engine_ok 0 st \<and> (\<exists>es st'. serve_all H st rs = Some (es, st') \<and> length es = length rs \<and> engine_ok (length rs) st')"
  using booted_ok [OF assms(1)] serve_all_ok [OF booted_ok [OF assms(1)], of rs H] assms(2,3) by fastforce

theorem booted_engine_well_formed_witness:
  "\<exists>st db es st'. boot example_environment (example_boot None 5) example_json empty_database = Some (st, db) \<and>
     serve_all offline_host st [Order 0 (Inr (example_order BuySide 100 5 GoodTilCancel 1, 7))] = Some (es, st') \<and> engine_ok 1 st'"
proof -
  let ?rs = "[Order 0 (Inr (example_order BuySide 100 5 GoodTilCancel 1, 7))]"
  obtain st db where b: "boot example_environment (example_boot None 5) example_json empty_database = Some (st, db)"
    using example_boots by blast
  have "list_all sized ?rs" "length ?rs < NIL" by (simp_all add: NIL_def sized_def)
  from booted_engine_well_formed [OF b this, of offline_host] b show ?thesis by auto
qed

section \<open>A restart\<close>

text \<open>
  C31: A restart from the last save resumes the configured engine with exactly the saved tapes, nonces,
  portfolios, volumes and open-interest checkpoints of the state it stopped in, the schema needing no
  migration; and with nothing else: no resting order, no backstop inventory and none of the realized
  results that were queued but not yet flushed.
\<close>

theorem restart_resumes_saved_state:
  assumes "boot E B J db = Some (st0, db0)" and "recover_or_generate B' = recover_or_generate B"
    and "js_to_state J (js_of_state J (snapshot_for_persistence st1)) = Some (snapshot_for_persistence st1)"
  shows "\<exists>st db'. boot E B' J (persist_tick J db0 st1) = Some (st, db') \<and>
    st = st0\<lparr>st_market_data := st_market_data st1, st_last_nonce := st_last_nonce st1,
      st_portfolio_markets := st_portfolio_markets st1, st_trader_volume := st_trader_volume st1, st_oi_index := st_oi_index st1\<rparr> \<and>
    st_books st = Map.empty \<and> st_backstop st = Map.empty \<and> st_pending_realized_pnl st = []"
proof -
  define cfg where "cfg = configure_all E (AppState_from_secrets (recover_or_generate B))"
  have st0: "st0 = apply_persisted_state cfg (load_db J db0)" and db0: "open_db J db = Some db0"
    using booted_state [OF assms(1)] by (simp_all add: cfg_def)
  have "db_schema_version db0 = Some CURRENT_SCHEMA_VERSION"
    using db0 by (auto simp: open_db_def run_migrations_def Let_def split: if_splits option.splits)
  then have reopened: "open_db J (persist_tick J db0 st1) = Some (persist_tick J db0 st1)"
    by (simp add: open_db_def run_migrations_def persist_tick_def save_db_def)
  have loaded: "load_db J (persist_tick J db0 st1) = snapshot_for_persistence st1"
    by (simp add: load_db_def try_load_def persist_tick_def save_db_def assms(3))
  have again: "boot E B' J (persist_tick J db0 st1) = Some (apply_persisted_state cfg (snapshot_for_persistence st1), persist_tick J db0 st1)"
    by (simp add: boot_def reopened Let_def loaded assms(2) cfg_def)
  have volatile: "st_books cfg = Map.empty \<and> st_backstop cfg = Map.empty \<and> st_pending_realized_pnl cfg = []"
    using configure_keeps_volatile [of E "AppState_from_secrets (recover_or_generate B)"]
    unfolding cfg_def [symmetric] by (simp add: volatile_def AppState_from_secrets_def)
  show ?thesis unfolding again st0 by (simp add: apply_persisted_state_def snapshot_for_persistence_def volatile)
qed

theorem restart_resumes_saved_state_witness:
  "\<exists>J st0 db0 st db'. boot example_environment (example_boot None 5) J empty_database = Some (st0, db0) \<and>
     boot example_environment (example_boot (Some (secrets_to_bytes (example_secrets 5))) 9) (J :: unit Json)
       (persist_tick J db0 (st0\<lparr>st_last_nonce := [7 \<mapsto> 9], st_books := [''M'' \<mapsto> book_new]\<rparr>)) = Some (st, db') \<and>
     st_last_nonce st 7 = Some 9 \<and> st_books st = Map.empty"
proof -
  let ?s = "\<lparr>pe_market_data = Map.empty, pe_last_nonce = [7 \<mapsto> 9], pe_portfolio_markets = Map.empty,
     pe_trader_volume = Map.empty, pe_oi_index = Map.empty\<rparr>"
  define J :: "unit Json" where "J = \<lparr>js_parse = (\<lambda>_. None), js_print = (\<lambda>_. []), js_of_state = (\<lambda>s. if s = ?s then [1] else []),
    js_to_state = (\<lambda>bs. if bs = [1] then Some ?s else None)\<rparr>"
  let ?B = "example_boot None 5" and ?B' = "example_boot (Some (secrets_to_bytes (example_secrets 5))) 9"
  obtain st0 db0 where b: "boot example_environment ?B J empty_database = Some (st0, db0)" using example_boots by blast
  have size: "well_sized (example_secrets 5)" by (simp add: example_secrets_def well_sized_def)
  have same: "recover_or_generate ?B' = recover_or_generate ?B"
    by (simp add: recover_or_generate_def recover_secrets_def try_recover_or_generate_def try_step_def example_boot_def
        secrets_layout(1) [OF size])
  have "db_state db0 = None" using booted_state(2) [OF b]
    by (auto simp: open_db_def run_migrations_def empty_database_def Let_def)
  then have "load_db J db0 = PersistedState_default" by (simp add: load_db_def try_load_def)
  moreover define st1 where "st1 = st0\<lparr>st_last_nonce := [7 \<mapsto> 9], st_books := [''M'' \<mapsto> book_new]\<rparr>"
  ultimately have "snapshot_for_persistence st1 = ?s" using booted_state(1) [OF b]
    by (simp add: snapshot_for_persistence_def apply_persisted_state_def PersistedState_default_def)
  then have "js_to_state J (js_of_state J (snapshot_for_persistence st1)) = Some (snapshot_for_persistence st1)" by (simp add: J_def)
  from restart_resumes_saved_state [OF b same this] b show ?thesis unfolding st1_def by fastforce
qed

end
