(* ===== verification/Keeper.thy ===== *)
theory Keeper
  imports Startup
begin

text \<open>
  The liquidation keeper (\<open>cerdic-tee-matcher/src/bin/keeper_liquidator.rs\<close>): its configuration, the
  bounded scan of the chain for touched positions, the index it keeps, and the requests it makes of the
  matcher.  The chain's node and the matcher's answers are parameters of a tick.
\<close>

definition SEALED_POSITION_TOUCHED_TOPIC0 :: Hash where
  "SEALED_POSITION_TOUCHED_TOPIC0 = 0x1f16c731e33d2533304f572c425ef0fd6d5f718a330bffdf684a11e89d5b5734"

definition MAX_GET_LOGS_BLOCK_RANGE :: u64 where "MAX_GET_LOGS_BLOCK_RANGE = 10"

section \<open>Configuration\<close>

text \<open>\<open>None\<close> is the panic of a malformed entry; unlike the matcher's lists, an empty name passes.\<close>

definition keeper_overrides :: "Environment \<Rightarrow> (MarketId \<rightharpoonup> Hash) option" where
  "keeper_overrides E = (case en_var E ''KEEPER_MARKET_ONCHAIN_IDS'' of None \<Rightarrow> Some Map.empty
     | Some raw \<Rightarrow> foldl (\<lambda>overrides pair. do {
           ids \<leftarrow> overrides;
           (market_id, onchain_id) \<leftarrow> split_once (CHR ''='') pair;
           h \<leftarrow> en_hash E onchain_id;
           Some (ids(market_id \<mapsto> h))
         }) (Some Map.empty) (config_pairs raw))"

definition keeper_markets :: "(bytes \<Rightarrow> Hash) \<Rightarrow> Environment \<Rightarrow> ((Hash \<rightharpoonup> MarketId \<times> Address) \<times> Address list) option" where
  "keeper_markets keccak E = do {
     raw \<leftarrow> en_var E ''KEEPER_MARKET_CONTRACTS'';
     overrides \<leftarrow> keeper_overrides E;
     foldl (\<lambda>markets pair. do {
         (by_hash, contracts) \<leftarrow> markets;
         (market_id, contract) \<leftarrow> split_once (CHR ''='') pair;
         address \<leftarrow> en_address E contract;
         let h = (case overrides market_id of Some h \<Rightarrow> h | None \<Rightarrow> keccak (string_bytes market_id));
         Some (by_hash(h \<mapsto> (market_id, address)), List.insert address contracts)
       }) (Some (Map.empty, [])) (config_pairs raw)
   }"

section \<open>Scanning\<close>

text \<open>The node: its newest block and the topics of the logs of a contract set, topic and block range.\<close>

record Node =
  nd_latest :: "string + u64"
  nd_logs :: "Address list \<Rightarrow> Hash \<Rightarrow> u64 \<Rightarrow> u64 \<Rightarrow> string + Hash list list"

definition touch_of :: "(Hash \<rightharpoonup> MarketId \<times> Address) \<Rightarrow> Hash list \<Rightarrow> (Hash \<times> MarketId) option" where
  "touch_of market_by_hash topics =
     (if length topics < 3 then None
      else (case market_by_hash (topics ! 2) of Some (market_id, _) \<Rightarrow> Some (topics ! 1, market_id) | None \<Rightarrow> None))"

definition scan_new_events :: "Node \<Rightarrow> Address list \<Rightarrow> u64 \<Rightarrow> (Hash \<rightharpoonup> MarketId \<times> Address) \<Rightarrow> string + ((Hash \<times> MarketId) list \<times> u64)" where
  "scan_new_events N contracts from_block market_by_hash =
     (case nd_latest N of Inl e \<Rightarrow> Inl e
      | Inr latest \<Rightarrow>
          if latest < from_block then Inr ([], from_block)
          else
            let to_block = min latest (saturating_add_u64 from_block (MAX_GET_LOGS_BLOCK_RANGE - 1)) in
            (case nd_logs N contracts SEALED_POSITION_TOUCHED_TOPIC0 from_block to_block of Inl e \<Rightarrow> Inl e
             | Inr logs \<Rightarrow> Inr (List.map_filter (touch_of market_by_hash) logs, to_block + 1)))"

section \<open>The loop\<close>

record Keeper =
  kp_portfolios :: "(Hash \<times> MarketId list) list"
  kp_last_scanned :: u64

definition known_pairs :: "Keeper \<Rightarrow> Hash \<Rightarrow> MarketId list" where
  "known_pairs k key = (case map_of (kp_portfolios k) key of Some ms \<Rightarrow> ms | None \<Rightarrow> [])"

definition discover :: "Keeper \<Rightarrow> Hash \<times> MarketId \<Rightarrow> Keeper" where
  "discover k touch = (case touch of (key, m) \<Rightarrow>
     k\<lparr>kp_portfolios := AList.update key (List.insert m (known_pairs k key)) (kp_portfolios k)\<rparr>)"

text \<open>The matcher's answers to a check and to a liquidation: transport errors, the flag, the hashes.\<close>

record Matcher =
  mt_check :: "Hash \<Rightarrow> MarketId list \<Rightarrow> string + bool"
  mt_liquidate :: "Hash \<Rightarrow> Address \<Rightarrow> MarketId list \<Rightarrow> string + bool \<times> Hash list"

definition check_and_liquidate :: "Matcher \<Rightarrow> Hash \<Rightarrow> MarketId list \<Rightarrow> Address \<Rightarrow> string + Hash list option" where
  "check_and_liquidate M key market_ids liquidator =
     (case mt_check M key market_ids of Inl e \<Rightarrow> Inl e
      | Inr liquidatable \<Rightarrow>
          if \<not> liquidatable then Inr None
          else (case mt_liquidate M key liquidator market_ids of Inl e \<Rightarrow> Inl e
            | Inr (executed, tx_hashes) \<Rightarrow> if \<not> executed then Inr None else Inr (Some tx_hashes)))"

definition keeper_tick :: "Address list \<Rightarrow> (Hash \<rightharpoonup> MarketId \<times> Address) \<Rightarrow> Address \<Rightarrow> Node \<times> Matcher \<Rightarrow> Keeper \<Rightarrow>
    (Hash \<times> (string + Hash list option)) list \<times> Keeper" where
  "keeper_tick contracts market_by_hash liquidator world k =
     (case world of (N, M) \<Rightarrow> case scan_new_events N contracts (kp_last_scanned k) market_by_hash of
        Inl _ \<Rightarrow> ([], k)
      | Inr (new_touches, new_last_scanned) \<Rightarrow>
          let k' = (foldl discover k new_touches)\<lparr>kp_last_scanned := new_last_scanned\<rparr> in
          (map (\<lambda>(key, ms). (key, check_and_liquidate M key ms liquidator)) (kp_portfolios k'), k'))"

fun keeper_run :: "Address list \<Rightarrow> (Hash \<rightharpoonup> MarketId \<times> Address) \<Rightarrow> Address \<Rightarrow> (Node \<times> Matcher) list \<Rightarrow> Keeper \<Rightarrow> Keeper" where
  "keeper_run contracts market_by_hash liquidator [] k = k"
| "keeper_run contracts market_by_hash liquidator (w # ws) k =
     keeper_run contracts market_by_hash liquidator ws (snd (keeper_tick contracts market_by_hash liquidator w k))"

section \<open>What the index holds\<close>

lemma known_discover: "set (known_pairs (discover k (key, m)) key') = set (known_pairs k key') \<union> (if key = key' then {m} else {})"
  by (auto simp: discover_def known_pairs_def update_conv')

lemma known_discovered:
  "m \<in> set (known_pairs (foldl discover k touches) key) \<longleftrightarrow> m \<in> set (known_pairs k key) \<or> (key, m) \<in> set touches"
proof (induction touches arbitrary: k)
  case (Cons t ts)
  obtain key' m' where t: "t = (key', m')" by (cases t)
  show ?case by (auto simp: Cons.IH t known_discover)
qed simp

lemma discovered_scanned: "kp_last_scanned (foldl discover k touches) = kp_last_scanned k"
  by (induction touches arbitrary: k) (auto simp: discover_def)

text \<open>A node over a fixed history: a query fails or returns the logs of exactly the blocks asked for.\<close>

definition serves :: "Address list \<Rightarrow> (nat \<Rightarrow> Hash list list) \<Rightarrow> Node \<Rightarrow> bool" where
  "serves contracts history N \<longleftrightarrow>
     (\<forall>l. nd_latest N = Inr l \<longrightarrow> unat l < 2 ^ 64 - 1) \<and>
     (\<forall>a b logs. nd_logs N contracts SEALED_POSITION_TOUCHED_TOPIC0 a b = Inr logs \<longrightarrow>
        logs = concat (map history [unat a..<Suc (unat b)]))"

text \<open>The index of a keeper is what the blocks from the start to its mark say.\<close>

definition indexed :: "(nat \<Rightarrow> Hash list list) \<Rightarrow> (Hash \<rightharpoonup> MarketId \<times> Address) \<Rightarrow> u64 \<Rightarrow> Keeper \<Rightarrow> bool" where
  "indexed history mbh start k \<longleftrightarrow> start \<le> kp_last_scanned k \<and>
     (\<forall>key m. m \<in> set (known_pairs k key) \<longleftrightarrow>
        (\<exists>b topics. unat start \<le> b \<and> b < unat (kp_last_scanned k) \<and> topics \<in> set (history b) \<and> touch_of mbh topics = Some (key, m)))"

lemma unat_min_u64: "unat (min a (b :: u64)) = min (unat a) (unat b)"
  by (simp add: min_def word_le_nat_alt)

lemma scan_range:
  assumes "serves contracts history N" and "scan_new_events N contracts from mbh = Inr (touches, mark)"
  shows "\<exists>n \<le> 10. unat mark = unat from + n \<and>
    touches = List.map_filter (touch_of mbh) (concat (map history [unat from..<unat from + n])) \<and>
    (\<forall>l. nd_latest N = Inr l \<longrightarrow> unat mark = (if l < from then unat from else min (Suc (unat l)) (unat from + 10)))"
proof -
  obtain latest where l: "nd_latest N = Inr latest" using assms(2) by (cases "nd_latest N") (auto simp: scan_new_events_def)
  show ?thesis
  proof (cases "latest < from")
    case True
    then show ?thesis using assms(2) l by (auto simp: scan_new_events_def List.map_filter_def)
  next
    case False
    define to_block where "to_block = min latest (saturating_add_u64 from (MAX_GET_LOGS_BLOCK_RANGE - 1))"
    have small: "unat latest < 2 ^ 64 - 1" using assms(1) l by (simp add: serves_def)
    have le: "unat from \<le> unat latest" using False by (simp add: word_less_nat_alt)
    have to_eq: "unat to_block = min (unat latest) (unat from + 9)"
      using small le unfolding to_block_def unat_min_u64
      by (simp add: unat_saturating_add_u64 MAX_GET_LOGS_BLOCK_RANGE_def)
    obtain logs where logs: "nd_logs N contracts SEALED_POSITION_TOUCHED_TOPIC0 from to_block = Inr logs"
      and res: "touches = List.map_filter (touch_of mbh) logs" "mark = to_block + 1"
      using assms(2) l False by (auto simp: scan_new_events_def Let_def to_block_def split: sum.splits)
    have "logs = concat (map history [unat from..<Suc (unat to_block)])" using assms(1) logs by (simp add: serves_def)
    moreover have mark: "unat mark = Suc (unat to_block)" using small to_eq unfolding res(2) by (simp add: unat_word_ariths)
    ultimately show ?thesis using res(1) to_eq le l False
      by (intro exI [of _ "Suc (unat to_block) - unat from"]) (auto simp: min_def)
  qed
qed

lemma in_map_filter: "y \<in> set (List.map_filter f xs) \<longleftrightarrow> (\<exists>x \<in> set xs. f x = Some y)"
  by (induction xs) (auto simp: List.map_filter_def)

lemma touches_in_range:
  "(key, m) \<in> set (List.map_filter (touch_of mbh) (concat (map history [a..<a + n]))) \<longleftrightarrow>
    (\<exists>b topics. a \<le> b \<and> b < a + n \<and> topics \<in> set (history b) \<and> touch_of mbh topics = Some (key, m))"
  by (auto simp: in_map_filter)

lemma range_split: "a \<le> c \<Longrightarrow> (a \<le> b \<and> b < c + n) = (a \<le> b \<and> b < c \<or> c \<le> b \<and> b < c + (n :: nat))"
  by linarith

lemma tick_indexed:
  assumes "indexed history mbh start k" and "serves contracts history N"
  shows "indexed history mbh start (snd (keeper_tick contracts mbh liquidator (N, M) k))"
proof (cases "scan_new_events N contracts (kp_last_scanned k) mbh")
  case (Inl e)
  then show ?thesis using assms(1) by (simp add: keeper_tick_def)
next
  case (Inr r)
  obtain touches mark where r: "r = (touches, mark)" by (cases r)
  from scan_range [OF assms(2) Inr [unfolded r]] obtain n where n: "unat mark = unat (kp_last_scanned k) + n"
    and touches: "touches = List.map_filter (touch_of mbh) (concat (map history [unat (kp_last_scanned k)..<unat (kp_last_scanned k) + n]))"
    by blast
  define k' where "k' = (foldl discover k touches)\<lparr>kp_last_scanned := mark\<rparr>"
  have run: "snd (keeper_tick contracts mbh liquidator (N, M) k) = k'" by (simp add: keeper_tick_def Inr r k'_def Let_def)
  have le: "unat start \<le> unat (kp_last_scanned k)" using assms(1) by (simp add: indexed_def word_le_nat_alt)
  have "m \<in> set (known_pairs k' key) \<longleftrightarrow> m \<in> set (known_pairs k key) \<or> (key, m) \<in> set touches" for key m
    using known_discovered [of m k touches key] by (simp add: k'_def known_pairs_def)
  moreover have "m \<in> set (known_pairs k key) \<longleftrightarrow> (\<exists>b topics. unat start \<le> b \<and> b < unat (kp_last_scanned k) \<and>
      topics \<in> set (history b) \<and> touch_of mbh topics = Some (key, m))" for key m
    using assms(1) unfolding indexed_def by blast
  moreover have "kp_last_scanned k' = mark" by (simp add: k'_def)
  ultimately have known: "m \<in> set (known_pairs k' key) \<longleftrightarrow> (\<exists>b topics. unat start \<le> b \<and> b < unat mark \<and> topics \<in> set (history b) \<and>
      touch_of mbh topics = Some (key, m))" for key m
    unfolding touches touches_in_range n using range_split [OF le] by blast
  then show ?thesis unfolding run indexed_def using n le by (simp add: k'_def word_le_nat_alt)
qed

lemma run_indexed:
  "indexed history mbh start k \<Longrightarrow> \<forall>(N, M) \<in> set ws. serves contracts history N \<Longrightarrow>
   indexed history mbh start (keeper_run contracts mbh liquidator ws k)"
proof (induction ws arbitrary: k)
  case (Cons w ws)
  obtain N M where w: "w = (N, M)" by (cases w)
  then have "indexed history mbh start (snd (keeper_tick contracts mbh liquidator w k))"
    using tick_indexed [OF Cons.prems(1), of contracts N liquidator M] Cons.prems(2) by simp
  from Cons.IH [OF this] Cons.prems(2) show ?case by simp
qed simp

definition new_keeper :: "u64 \<Rightarrow> Keeper" where
  "new_keeper start_block = \<lparr>kp_portfolios = [], kp_last_scanned = start_block\<rparr>"

lemma new_keeper_indexed: "indexed history mbh start (new_keeper start)"
  by (auto simp: indexed_def new_keeper_def known_pairs_def)

text \<open>
  Whatever fails on the way, a keeper that has polled any number of times knows exactly the pairs of a
  portfolio and a configured market that the blocks from its start block up to its mark have touched: no
  touched position is missed by a failed or partial scan, and nothing else is ever liquidated.
\<close>

theorem keeper_index_exact:
  assumes "\<forall>(N, M) \<in> set ws. serves contracts history N"
  shows "start \<le> kp_last_scanned (keeper_run contracts mbh liquidator ws (new_keeper start)) \<and>
    (m \<in> set (known_pairs (keeper_run contracts mbh liquidator ws (new_keeper start)) key) \<longleftrightarrow>
    (\<exists>b topics. unat start \<le> b \<and> b < unat (kp_last_scanned (keeper_run contracts mbh liquidator ws (new_keeper start))) \<and>
       topics \<in> set (history b) \<and> touch_of mbh topics = Some (key, m)))"
  using new_keeper_indexed [THEN run_indexed, OF assms] unfolding indexed_def by blast

text \<open>A history of two touched positions, and a node that serves at most ten blocks of it at a time.\<close>

definition example_history :: "nat \<Rightarrow> Hash list list" where
  "example_history b = (if b = 3 then [[0, 8, 5]] else if b = 14 then [[0, 8, 6], [0]] else [])"

definition example_node :: "u64 \<Rightarrow> Node" where
  "example_node latest = \<lparr>nd_latest = Inr latest,
     nd_logs = (\<lambda>_ _ a b. if unat b < unat a + 10 then Inr (concat (map example_history [unat a..<Suc (unat b)]))
       else Inl ''up to a 10 block range'')\<rparr>"

definition example_matcher :: Matcher where
  "example_matcher = \<lparr>mt_check = (\<lambda>_ _. Inr False), mt_liquidate = (\<lambda>_ _ _. Inl ''timeout'')\<rparr>"

definition example_hashes :: "Hash \<rightharpoonup> MarketId \<times> Address" where
  "example_hashes = [5 \<mapsto> (''A/B'', 1), 6 \<mapsto> (''C/D'', 2)]"

lemma example_serves: "latest < 2 ^ 63 \<Longrightarrow> serves contracts example_history (example_node latest)"
  by (simp add: serves_def example_node_def word_less_nat_alt)

theorem keeper_index_exact_witness:
  "set (known_pairs (keeper_run [1, 2] example_hashes 9 [(example_node 20, example_matcher), (\<lparr>nd_latest = Inl ''down'', nd_logs = (\<lambda>_ _ _ _. Inl [])\<rparr>, example_matcher)]
     (new_keeper 0)) 8) = {''A/B''}"
proof -
  let ?ws = "[(example_node 20, example_matcher), (\<lparr>nd_latest = Inl ''down'', nd_logs = (\<lambda>_ _ _ _. Inl [])\<rparr>, example_matcher)]"
  have ok: "\<forall>(N, M) \<in> set ?ws. serves [1, 2] example_history N"
    by (auto simp: example_serves) (simp add: serves_def)
  have mark: "kp_last_scanned (keeper_run [1, 2] example_hashes 9 ?ws (new_keeper 0)) = 10"
    by (simp add: keeper_tick_def scan_new_events_def new_keeper_def example_node_def Let_def MAX_GET_LOGS_BLOCK_RANGE_def saturating_add_u64_def)
  have touch: "touch_of example_hashes [0, 8, 5] = Some (8, ''A/B'')" "touch_of example_hashes [0, 8, 6] = Some (8, ''C/D'')"
    "touch_of example_hashes [0] = None" by (simp_all add: touch_of_def example_hashes_def)
  have blocks: "topics \<in> set (example_history b) \<and> b < 10 \<longleftrightarrow> b = 3 \<and> topics = [0, 8, 5]" for b topics
    by (simp add: example_history_def)
  have "m \<in> set (known_pairs (keeper_run [1, 2] example_hashes 9 ?ws (new_keeper 0)) 8) \<longleftrightarrow>
      (\<exists>b topics. (topics \<in> set (example_history b) \<and> b < 10) \<and> touch_of example_hashes topics = Some (8, m))" for m
    using keeper_index_exact [OF ok, of 0 example_hashes 9 m 8] unfolding mark by auto
  then show ?thesis unfolding blocks using touch(1) by (auto simp: set_eq_iff)
qed

section \<open>Catching up\<close>

text \<open>
  A node of the documented kind that is up and has seen a given block: it answers a query for blocks it has,
  provided the query spans at most a cap, and rejects every query that spans more.
\<close>

definition node_up :: "nat \<Rightarrow> Address list \<Rightarrow> (nat \<Rightarrow> Hash list list) \<Rightarrow> u64 \<Rightarrow> Node \<Rightarrow> bool" where
  "node_up cap contracts history L N \<longleftrightarrow> serves contracts history N \<and>
     (\<exists>l. nd_latest N = Inr l \<and> L \<le> l \<and> (\<forall>a b. a \<le> b \<and> b \<le> l \<and> unat b - unat a < cap \<longrightarrow>
        \<not> isl (nd_logs N contracts SEALED_POSITION_TOUCHED_TOPIC0 a b))) \<and>
     (\<forall>a b. cap \<le> unat b - unat a \<longrightarrow> isl (nd_logs N contracts SEALED_POSITION_TOUCHED_TOPIC0 a b))"

lemma tick_advances:
  assumes "node_up 10 contracts history L N"
  shows "min (Suc (unat L)) (unat (kp_last_scanned k) + 10) \<le> unat (kp_last_scanned (snd (keeper_tick contracts mbh liquidator (N, M) k)))"
proof -
  obtain l where l: "nd_latest N = Inr l" "L \<le> l" and ans: "\<And>a b. a \<le> b \<Longrightarrow> b \<le> l \<Longrightarrow> unat b - unat a < 10 \<Longrightarrow>
      \<not> isl (nd_logs N contracts SEALED_POSITION_TOUCHED_TOPIC0 a b)" using assms by (auto simp: node_up_def)
  obtain r where r: "scan_new_events N contracts (kp_last_scanned k) mbh = Inr r"
  proof (cases "l < kp_last_scanned k")
    case True
    then show thesis using that l(1) by (simp add: scan_new_events_def)
  next
    case False
    define to_block where "to_block = min l (saturating_add_u64 (kp_last_scanned k) (MAX_GET_LOGS_BLOCK_RANGE - 1))"
    have upto: "unat to_block = min (unat l) (min (unat (kp_last_scanned k) + 9) (2 ^ 64 - 1))"
      unfolding to_block_def unat_min_u64 by (simp add: unat_saturating_add_u64 MAX_GET_LOGS_BLOCK_RANGE_def)
    have "kp_last_scanned k \<le> to_block" "to_block \<le> l" "unat to_block - unat (kp_last_scanned k) < 10"
      using upto False unat_u64_less [of "kp_last_scanned k"] by (auto simp: word_le_nat_alt not_less)
    from ans [OF this] obtain logs where "nd_logs N contracts SEALED_POSITION_TOUCHED_TOPIC0 (kp_last_scanned k) to_block = Inr logs"
      by (auto simp: isl_def) (metis obj_sumE)
    then show thesis using that l(1) False by (simp add: scan_new_events_def Let_def to_block_def)
  qed
  obtain touches mark where r': "r = (touches, mark)" by (cases r)
  have "serves contracts history N" using assms by (simp add: node_up_def)
  from scan_range [OF this r [unfolded r']] l(1)
  have "unat mark = (if l < kp_last_scanned k then unat (kp_last_scanned k) else min (Suc (unat l)) (unat (kp_last_scanned k) + 10))" by blast
  then have "min (Suc (unat L)) (unat (kp_last_scanned k) + 10) \<le> unat mark"
    using l(2) by (simp add: word_le_nat_alt word_less_nat_alt split: if_splits)
  moreover have "kp_last_scanned (snd (keeper_tick contracts mbh liquidator (N, M) k)) = mark"
    by (simp add: keeper_tick_def r r' Let_def)
  ultimately show ?thesis by simp
qed

lemma run_advances:
  assumes "\<forall>(N, M) \<in> set ws. node_up 10 contracts history L N"
  shows "min (Suc (unat L)) (unat (kp_last_scanned k) + 10 * length ws) \<le> unat (kp_last_scanned (keeper_run contracts mbh liquidator ws k))"
  using assms
proof (induction ws arbitrary: k)
  case (Cons w ws)
  obtain N M where w: "w = (N, M)" by (cases w)
  define k' where "k' = snd (keeper_tick contracts mbh liquidator w k)"
  have "min (Suc (unat L)) (unat (kp_last_scanned k) + 10) \<le> unat (kp_last_scanned k')"
    unfolding k'_def w using Cons.prems w by (intro tick_advances [of contracts history]) simp
  moreover have "min (Suc (unat L)) (unat (kp_last_scanned k') + 10 * length ws) \<le> unat (kp_last_scanned (keeper_run contracts mbh liquidator ws k'))"
    using Cons.prems by (intro Cons.IH) simp
  ultimately show ?case by (simp add: k'_def)
qed simp

text \<open>
  C22: A keeper that fell behind catches up on a node that rejects every log query of more than ten blocks:
  while the node is up, enough polls to cover the distance, ten blocks each, bring its index past any block
  the node has, with every position touched up to that block known.
\<close>

theorem keeper_catches_up:
  assumes "\<forall>(N, M) \<in> set ws. node_up 10 contracts history L N" and "unat L < unat start + 10 * length ws"
    and "unat start \<le> b" and "b \<le> unat L" and "topics \<in> set (history b)" and "touch_of mbh topics = Some (key, m)"
  shows "m \<in> set (known_pairs (keeper_run contracts mbh liquidator ws (new_keeper start)) key)"
proof -
  define k where "k = keeper_run contracts mbh liquidator ws (new_keeper start)"
  have "indexed history mbh start k" unfolding k_def
    using assms(1) by (intro run_indexed [OF new_keeper_indexed]) (auto simp: node_up_def)
  moreover have "unat L < unat (kp_last_scanned k)"
    using run_advances [OF assms(1), of "new_keeper start" mbh liquidator] assms(2) by (simp add: k_def new_keeper_def)
  ultimately show ?thesis using assms(3-6) unfolding k_def [symmetric] indexed_def by (meson le_less_trans)
qed

theorem keeper_catches_up_witness:
  "''C/D'' \<in> set (known_pairs (keeper_run [1, 2] example_hashes 9 (replicate 2 (example_node 15, example_matcher)) (new_keeper 0)) 8)"
proof (rule keeper_catches_up)
  show "\<forall>(N, M) \<in> set (replicate 2 (example_node 15, example_matcher)). node_up 10 [1, 2] example_history 15 N"
  proof -
    have cap: "unat b < unat a + 10 \<longleftrightarrow> unat b - unat a < 10" for a b :: u64 by linarith
    show ?thesis using example_serves [of 15 "[1, 2]"] by (auto simp: node_up_def) (auto simp: example_node_def cap)
  qed
  show "[0, 8, 6] \<in> set (example_history 14)" by (simp add: example_history_def)
  show "touch_of example_hashes [0, 8, 6] = Some (8, ''C/D'')" by (simp add: touch_of_def example_hashes_def)
qed simp_all

end
