(* ===== verification/Maker_Bot.thy ===== *)
theory Maker_Bot
  imports Wire Position Market_Data
begin

text \<open>
  The market maker (\<open>cerdic-tee-matcher/src/bin/market_maker.rs\<close>): the inference of fills from public
  collateral, the quoted ladder and its replacement.  The floating-point terms, the spread with its
  volatility and jitter and the jittered size, are given per level and side as the integers they are cast to;
  the prices, the chain and the matcher's answers are parameters of a cycle.
\<close>

section \<open>Inferring fills\<close>

definition ROUNDING_TOLERANCE_UNITS :: nat where "ROUNDING_TOLERANCE_UNITS = 2"

definition matches_quote :: "int \<Rightarrow> (u64 \<times> u64) option \<Rightarrow> bool" where
  "matches_quote delta quote =
     (case quote of None \<Rightarrow> False
      | Some (tick, qty) \<Rightarrow>
          let expected = wrap_u128 (int (unat tick * unat qty * IMR_BPS)) div API_BPS_DENOMINATOR in
          2 ^ 128 > \<bar>delta\<bar> \<and> 0 < expected \<and> \<bar>int expected - \<bar>delta\<bar>\<bar> \<le> int ROUNDING_TOLERANCE_UNITS)"

definition infer_fill_side :: "int \<Rightarrow> (u64 \<times> u64) option \<Rightarrow> (u64 \<times> u64) option \<Rightarrow> OrderSide option" where
  "infer_fill_side delta last_bid last_ask =
     (case (matches_quote delta last_bid, matches_quote delta last_ask) of
        (True, False) \<Rightarrow> Some BuySide | (False, True) \<Rightarrow> Some SellSide | _ \<Rightarrow> None)"

definition filled_qty :: "int \<Rightarrow> nat" where
  "filled_qty delta = wrap_u128 (int ((if \<bar>delta\<bar> < 2 ^ 128 then nat \<bar>delta\<bar> else 0) * API_BPS_DENOMINATOR)) div IMR_BPS"

section \<open>A cycle\<close>

type_synonym BotOrderId = "32 word"

record Bot =
  mb_last_bid :: "(u64 \<times> u64) option"
  mb_last_ask :: "(u64 \<times> u64) option"
  mb_last_collateral :: "int option"
  mb_inventory_estimate :: int
  mb_nonce :: u64
  mb_resting_ids :: "BotOrderId list"

text \<open>
  What a cycle meets: the mid price in ticks, unless the feed fails; the collateral, unless the read fails;
  the integer offset and size of every level and side; and the matcher's answer to each offer.
\<close>

record Cycle =
  cy_mid :: "u64 option"
  cy_collateral :: "int option"
  cy_offset_bps :: "nat \<Rightarrow> OrderSide \<Rightarrow> int"
  cy_size :: "nat \<Rightarrow> OrderSide \<Rightarrow> u64"
  cy_place :: "OrderSide \<Rightarrow> u64 \<Rightarrow> u64 \<Rightarrow> u64 \<Rightarrow> BotOrderId option"

datatype BotRequest = Offered OrderSide u64 u64 u64 | Cancelled BotOrderId u64

definition update_inventory :: "(int \<Rightarrow> int \<Rightarrow> int) \<Rightarrow> int option \<Rightarrow> Bot \<Rightarrow> Bot" where
  "update_inventory sub collateral b =
     (case collateral of None \<Rightarrow> b
      | Some now \<Rightarrow>
          (case mb_last_collateral b of None \<Rightarrow> b
           | Some prev \<Rightarrow>
               let delta = sub now prev in
               if 0 < delta
               then (case infer_fill_side delta (mb_last_bid b) (mb_last_ask b) of
                   Some BuySide \<Rightarrow> b\<lparr>mb_inventory_estimate := wrap_i64 (mb_inventory_estimate b + wrap_i64 (int (filled_qty delta)))\<rparr>
                 | Some SellSide \<Rightarrow> b\<lparr>mb_inventory_estimate := wrap_i64 (mb_inventory_estimate b + wrap_i64 (- wrap_i64 (int (filled_qty delta))))\<rparr>
                 | None \<Rightarrow> b)
               else b)\<lparr>mb_last_collateral := Some now\<rparr>)"

text \<open>Long inventory pushes both quotes down: the bid away from the mid, the ask towards it.\<close>

definition quote_bps :: "int \<Rightarrow> int \<Rightarrow> OrderSide \<Rightarrow> u64" where
  "quote_bps offset skew side =
     min (of_int (max (wrap_i64 (case side of BuySide \<Rightarrow> offset + skew | SellSide \<Rightarrow> offset - skew)) 1)) 5000"

definition quote_tick :: "u64 \<Rightarrow> u64 \<Rightarrow> OrderSide \<Rightarrow> u64" where
  "quote_tick mid bps side = (case side of BuySide \<Rightarrow> saturating_sub_u64 mid (mid * bps div 10000)
     | SellSide \<Rightarrow> saturating_add_u64 mid (mid * bps div 10000))"

definition retire_one :: "Bot \<times> BotOrderId list \<times> BotRequest list \<Rightarrow> Bot \<times> BotOrderId list \<times> BotRequest list" where
  "retire_one x = (case x of (b, old, sent) \<Rightarrow> (case old of [] \<Rightarrow> (b, [], sent)
     | i # rest \<Rightarrow> (b\<lparr>mb_nonce := mb_nonce b + 1\<rparr>, rest, sent @ [Cancelled i (mb_nonce b + 1)])))"

definition level_step :: "Cycle \<Rightarrow> u64 \<Rightarrow> int \<Rightarrow> Bot \<times> BotOrderId list \<times> BotRequest list \<Rightarrow> nat \<Rightarrow> Bot \<times> BotOrderId list \<times> BotRequest list" where
  "level_step C mid skew x level =
     (case x of (b, old, sent) \<Rightarrow>
        let bid_tick = quote_tick mid (quote_bps (cy_offset_bps C level BuySide) skew BuySide) BuySide;
            ask_tick = quote_tick mid (quote_bps (cy_offset_bps C level SellSide) skew SellSide) SellSide;
            bid_size = cy_size C level BuySide; ask_size = cy_size C level SellSide;
            bid_nonce = mb_nonce b + 1; ask_nonce = bid_nonce + 1;
            bid_id = cy_place C BuySide bid_tick bid_size bid_nonce;
            ask_id = cy_place C SellSide ask_tick ask_size ask_nonce;
            b1 = b\<lparr>mb_nonce := ask_nonce,
                mb_resting_ids := mb_resting_ids b @ (case bid_id of Some i \<Rightarrow> [i] | None \<Rightarrow> []) @ (case ask_id of Some i \<Rightarrow> [i] | None \<Rightarrow> [])\<rparr>;
            (b2, old', sent') = retire_one (retire_one (b1, old,
                sent @ [Offered BuySide bid_tick bid_size bid_nonce, Offered SellSide ask_tick ask_size ask_nonce])) in
        (if level = 0
         then b2\<lparr>mb_last_bid := (if bid_id \<noteq> None then Some (bid_tick, bid_size) else mb_last_bid b2),
                 mb_last_ask := (if ask_id \<noteq> None then Some (ask_tick, ask_size) else mb_last_ask b2)\<rparr>
         else b2, old', sent'))"

fun retire_rest :: "Bot \<times> BotOrderId list \<times> BotRequest list \<Rightarrow> Bot \<times> BotRequest list" where
  "retire_rest (b, [], sent) = (b, sent)"
| "retire_rest (b, i # rest, sent) = retire_rest (b\<lparr>mb_nonce := mb_nonce b + 1\<rparr>, rest, sent @ [Cancelled i (mb_nonce b + 1)])"

definition requote :: "(int \<Rightarrow> int \<Rightarrow> int) \<Rightarrow> int \<Rightarrow> u64 \<Rightarrow> Cycle \<Rightarrow> Bot \<Rightarrow> Bot \<times> BotRequest list" where
  "requote sub skew_bps_per_unit ladder_levels C b =
     (case cy_mid C of None \<Rightarrow> (b, [])
      | Some mid \<Rightarrow>
          if mid = 0 then (b, [])
          else
            let old = mb_resting_ids b;
                b1 = update_inventory sub (cy_collateral C) (b\<lparr>mb_resting_ids := []\<rparr>);
                skew = wrap_i64 (mb_inventory_estimate b1 * skew_bps_per_unit) in
            retire_rest (foldl (level_step C mid skew) (b1, old, []) [0..<unat (max ladder_levels 1)]))"

section \<open>Replacing the ladder\<close>

fun cancelled_ids :: "BotRequest list \<Rightarrow> BotOrderId list" where
  "cancelled_ids [] = []"
| "cancelled_ids (Cancelled i n # rs) = i # cancelled_ids rs"
| "cancelled_ids (Offered s t q n # rs) = cancelled_ids rs"

fun placed_ids :: "Cycle \<Rightarrow> BotRequest list \<Rightarrow> BotOrderId list" where
  "placed_ids C [] = []"
| "placed_ids C (Cancelled i n # rs) = placed_ids C rs"
| "placed_ids C (Offered s t q n # rs) = (case cy_place C s t q n of Some i \<Rightarrow> [i] | None \<Rightarrow> []) @ placed_ids C rs"

fun request_nonce :: "BotRequest \<Rightarrow> u64" where
  "request_nonce (Cancelled i n) = n"
| "request_nonce (Offered s t q n) = n"

lemma cancelled_ids_append [simp]: "cancelled_ids (xs @ ys) = cancelled_ids xs @ cancelled_ids ys"
  by (induction xs rule: cancelled_ids.induct) simp_all

lemma placed_ids_append [simp]: "placed_ids C (xs @ ys) = placed_ids C xs @ placed_ids C ys"
  by (induction C xs rule: placed_ids.induct) simp_all

text \<open>Between two requests: what is retired and what is still to retire, what rests, the nonces used.\<close>

definition mid_cycle :: "Cycle \<Rightarrow> BotOrderId list \<Rightarrow> u64 \<Rightarrow> Bot \<times> BotOrderId list \<times> BotRequest list \<Rightarrow> bool" where
  "mid_cycle C ids n x \<longleftrightarrow> (case x of (b, old, sent) \<Rightarrow>
     cancelled_ids sent @ old = ids \<and> mb_resting_ids b = placed_ids C sent \<and> mb_nonce b = n + of_nat (length sent) \<and>
     map request_nonce sent = map (\<lambda>i. n + of_nat (Suc i)) [0..<length sent])"

lemma mid_cycle_retire: "mid_cycle C ids n x \<Longrightarrow> mid_cycle C ids n (retire_one x)"
  by (auto simp: mid_cycle_def retire_one_def split: list.splits prod.splits)

lemma mid_cycle_offers:
  assumes "mid_cycle C ids n (b, old, sent)"
  shows "mid_cycle C ids n (b\<lparr>mb_nonce := mb_nonce b + 1 + 1, mb_resting_ids := mb_resting_ids b @
      (case cy_place C BuySide t q (mb_nonce b + 1) of Some i \<Rightarrow> [i] | None \<Rightarrow> []) @
      (case cy_place C SellSide t' q' (mb_nonce b + 1 + 1) of Some i \<Rightarrow> [i] | None \<Rightarrow> [])\<rparr>, old,
    sent @ [Offered BuySide t q (mb_nonce b + 1), Offered SellSide t' q' (mb_nonce b + 1 + 1)])"
  using assms by (simp add: mid_cycle_def)

lemma mid_cycle_level: "mid_cycle C ids n x \<Longrightarrow> mid_cycle C ids n (level_step C mid skew x level)"
proof -
  assume x: "mid_cycle C ids n x"
  obtain b old sent where split: "x = (b, old, sent)" by (metis prod.exhaust)
  define bt at where "bt = quote_tick mid (quote_bps (cy_offset_bps C level BuySide) skew BuySide) BuySide"
    and "at = quote_tick mid (quote_bps (cy_offset_bps C level SellSide) skew SellSide) SellSide"
  note offers = mid_cycle_offers [OF x [unfolded split], of bt "cy_size C level BuySide" at "cy_size C level SellSide"]
  define y where "y = (b\<lparr>mb_nonce := mb_nonce b + 1 + 1, mb_resting_ids := mb_resting_ids b @
      (case cy_place C BuySide bt (cy_size C level BuySide) (mb_nonce b + 1) of Some i \<Rightarrow> [i] | None \<Rightarrow> []) @
      (case cy_place C SellSide at (cy_size C level SellSide) (mb_nonce b + 1 + 1) of Some i \<Rightarrow> [i] | None \<Rightarrow> [])\<rparr>, old,
    sent @ [Offered BuySide bt (cy_size C level BuySide) (mb_nonce b + 1), Offered SellSide at (cy_size C level SellSide) (mb_nonce b + 1 + 1)])"
  obtain b2 old' sent' where r: "retire_one (retire_one y) = (b2, old', sent')" by (metis prod.exhaust)
  have "mid_cycle C ids n (b2, old', sent')"
    using mid_cycle_retire [OF mid_cycle_retire [OF offers [folded y_def]]] by (simp add: r)
  then show "mid_cycle C ids n (level_step C mid skew x level)"
    unfolding split level_step_def prod.case Let_def bt_def [symmetric] at_def [symmetric] y_def [symmetric] r
    by (cases "level = 0") (simp_all add: mid_cycle_def)
qed

lemma mid_cycle_levels: "mid_cycle C ids n x \<Longrightarrow> mid_cycle C ids n (foldl (level_step C mid skew) x ls)"
  by (induction ls arbitrary: x) (simp_all add: mid_cycle_level)

lemma mid_cycle_rest: "mid_cycle C ids n x \<Longrightarrow> retire_rest x = (b', sent) \<Longrightarrow> mid_cycle C ids n (b', [], sent)"
proof (induction x rule: retire_rest.induct)
  case (2 b i rest sent)
  from mid_cycle_retire [OF "2.prems"(1)] 2 show ?case by (simp add: retire_one_def)
qed simp

lemma update_inventory_frame [simp]:
  "mb_resting_ids (update_inventory sub c b) = mb_resting_ids b" "mb_nonce (update_inventory sub c b) = mb_nonce b"
  by (auto simp: update_inventory_def Let_def split: option.splits OrderSide.splits)

text \<open>
  C27: A cycle that quotes retires exactly the orders of the cycle before, each once and in order, whatever
  the matcher answers to its offers; afterwards it remembers exactly the orders the matcher rested in this
  cycle, and its requests carry consecutive nonces from the last one used.  A cycle without a price sends
  nothing and keeps the orders it knows.
\<close>

theorem requote_replaces_ladder:
  "case requote sub skew_bps_per_unit ladder_levels C b of (b', sent) \<Rightarrow>
     if cy_mid C = None \<or> cy_mid C = Some 0 then b' = b \<and> sent = []
     else cancelled_ids sent = mb_resting_ids b \<and> mb_resting_ids b' = placed_ids C sent \<and>
       map request_nonce sent = map (\<lambda>i. mb_nonce b + of_nat (Suc i)) [0..<length sent]"
proof (cases "cy_mid C = None \<or> cy_mid C = Some 0")
  case True
  then show ?thesis by (auto simp: requote_def)
next
  case False
  then obtain mid where mid: "cy_mid C = Some mid" "mid \<noteq> 0" by auto
  let ?b1 = "update_inventory sub (cy_collateral C) (b\<lparr>mb_resting_ids := []\<rparr>)"
  obtain b' sent where run: "requote sub skew_bps_per_unit ladder_levels C b = (b', sent)" by (metis surj_pair)
  have "mid_cycle C (mb_resting_ids b) (mb_nonce b) (?b1, mb_resting_ids b, [])" by (simp add: mid_cycle_def)
  from mid_cycle_rest [OF mid_cycle_levels [OF this]] have "mid_cycle C (mb_resting_ids b) (mb_nonce b) (b', [], sent)"
    using run mid by (simp add: requote_def Let_def)
  with run False show ?thesis by (auto simp: mid_cycle_def)
qed

section \<open>The unit of the inventory\<close>

lemma wrap_i64_id: "- (2 ^ 63) \<le> x \<Longrightarrow> x < 2 ^ 63 \<Longrightarrow> wrap_i64 x = x"
  by (simp add: wrap_i64_def)

lemma unat_of_int_u64: "0 \<le> x \<Longrightarrow> x < 2 ^ 64 \<Longrightarrow> int (unat (of_int x :: u64)) = x"
  by (simp add: uint_word_of_int)

lemma quote_saturates:
  assumes "0 \<le> offset" and "offset \<le> 5000" and "10000 \<le> skew" and "skew < 2 ^ 62"
  shows "quote_bps offset skew BuySide = 5000" and "quote_bps offset skew SellSide = 1"
proof -
  have w: "wrap_i64 (offset + skew) = offset + skew" "wrap_i64 (offset - skew) = offset - skew" using assms by (simp_all add: wrap_i64_id)
  define x :: u64 where "x = of_int (offset + skew)"
  have "int (unat x) = offset + skew" using assms unfolding x_def by (intro unat_of_int_u64) auto
  then have "5000 \<le> unat x" using assms by linarith
  then have "(5000 :: u64) \<le> of_int (offset + skew)" unfolding x_def [symmetric] by (simp add: word_le_nat_alt)
  then have "min (of_int (offset + skew)) (5000 :: u64) = 5000" by (simp add: min_def)
  then show "quote_bps offset skew BuySide = 5000" using assms by (simp add: quote_bps_def w max_def)
  show "quote_bps offset skew SellSide = 1" using assms by (simp add: quote_bps_def w max_def min_def)
qed

lemma margin_of_quote:
  assumes "unat t * unat q < 2 ^ 60"
  shows "required_margin t q 20 = unat t * unat q div 20"
    and "wrap_u128 (int (unat t * unat q * IMR_BPS)) div API_BPS_DENOMINATOR = unat t * unat q div 20"
proof -
  define N where "N = unat t * unat q"
  have "N < 2 ^ 60" using assms by (simp only: N_def)
  then have "wrap_u128 (int (N * 500)) = N * 500" by (intro wrap_u128_id) (simp add: in_u128_def)
  moreover have "N * 500 div 10000 = N div 20" using div_mult_mult2 [of 500 N 20] by simp
  ultimately have w: "wrap_u128 (int (N * 500)) div 10000 = N div 20" by simp
  then show "required_margin t q 20 = unat t * unat q div 20"
    by (simp add: required_margin_def API_BPS_DENOMINATOR_def clamp_u64_def MAX_LEVERAGE_def N_def)
  show "wrap_u128 (int (unat t * unat q * IMR_BPS)) div API_BPS_DENOMINATOR = unat t * unat q div 20"
    using w by (simp add: IMR_BPS_def API_BPS_DENOMINATOR_def N_def)
qed

lemma filled_qty_notional:
  assumes "n < 2 ^ 60"
  shows "filled_qty (int n) = n * 20"
proof -
  have "wrap_u128 (int (n * 10000)) = n * 10000" using assms by (intro wrap_u128_id) (simp add: in_u128_def)
  then show ?thesis using assms by (simp add: filled_qty_def API_BPS_DENOMINATOR_def IMR_BPS_def)
qed

text \<open>
  C28: A filled quote enters the inventory with its notional, price times quantity up to rounding, instead of
  its quantity: after one attributed fill of a bid worth ten thousand, however few units it bought, the
  default skew of two basis points per unit puts every later bid at the cap of half the mid price and every
  ask one basis point above it.
\<close>

theorem bot_counts_notional_as_inventory:
  assumes "mb_last_bid b = Some (t, q)" and "mb_last_collateral b = Some prev" and "mb_inventory_estimate b = 0"
    and "10000 \<le> unat t * unat q" and "unat t * unat q < 2 ^ 60"
    and "sub now prev = int (required_margin t q 20)" and "\<not> matches_quote (sub now prev) (mb_last_ask b)"
    and "0 \<le> offset" and "offset \<le> 5000"
  shows "\<exists>n. mb_inventory_estimate (update_inventory sub (Some now) b) = int n \<and> n \<le> unat t * unat q \<and> unat t * unat q < n + 20 \<and>
    quote_bps offset (wrap_i64 (int n * 2)) BuySide = 5000 \<and> quote_bps offset (wrap_i64 (int n * 2)) SellSide = 1"
proof -
  define N d where "N = unat t * unat q" and "d = N div 20"
  note N = assms(4,5) [folded N_def]
  have delta: "sub now prev = int d" using assms(5,6) margin_of_quote(1) by (simp add: d_def N_def)
  have d: "500 \<le> d" "d < 2 ^ 60" "d * 20 \<le> N" "N < d * 20 + 20" "9981 \<le> d * 20" using N by (simp_all add: d_def)
  have e: "wrap_u128 (int (unat t * unat q * IMR_BPS)) div API_BPS_DENOMINATOR = d"
    using margin_of_quote(2) [OF assms(5)] by (simp only: d_def N_def)
  have "matches_quote (int d) (Some (t, q))"
    unfolding matches_quote_def option.case prod.case Let_def e using d(1,2) by simp
  then have side: "infer_fill_side (int d) (mb_last_bid b) (mb_last_ask b) = Some BuySide"
    using assms(7) unfolding delta by (simp add: infer_fill_side_def assms(1))
  have "wrap_i64 (int (filled_qty (int d))) = int (d * 20)"
    unfolding filled_qty_notional [OF d(2)] using d N by (intro wrap_i64_id) auto
  then have "mb_inventory_estimate (update_inventory sub (Some now) b) = int (d * 20)"
    using d N by (simp add: update_inventory_def assms(2,3) delta side Let_def wrap_i64_id [of "int d * 20"])
  moreover have "wrap_i64 (int (d * 20) * 2) = int (d * 20) * 2" using d N by (intro wrap_i64_id) auto
  moreover note quote_saturates [OF assms(8,9), of "int (d * 20) * 2"]
  ultimately show ?thesis using d N by (intro exI [of _ "d * 20"]) (simp add: N_def)
qed

text \<open>The quotes of the program's own test of the inference: ten units at 63868 and 64122.\<close>

definition example_bot :: Bot where
  "example_bot = \<lparr>mb_last_bid = Some (63868, 10), mb_last_ask = Some (64122, 10), mb_last_collateral = Some 1000,
     mb_inventory_estimate = 0, mb_nonce = 1, mb_resting_ids = []\<rparr>"

theorem bot_counts_notional_as_inventory_witness:
  "\<exists>n. mb_inventory_estimate (update_inventory (-) (Some 32934) example_bot) = int n \<and> 638660 < n \<and>
     quote_bps 20 (wrap_i64 (int n * 2)) BuySide = 5000"
proof -
  have m: "32934 - 1000 = int (required_margin 63868 10 20)" using margin_of_quote(1) [of 63868 10] by simp
  have "\<not> matches_quote (32934 - 1000) (mb_last_ask example_bot)"
    using margin_of_quote(2) [of 64122 10] by (simp add: matches_quote_def example_bot_def Let_def ROUNDING_TOLERANCE_UNITS_def)
  from bot_counts_notional_as_inventory [of example_bot 63868 10 1000 "(-)", OF _ _ _ _ _ m this, of 20]
  obtain n where "mb_inventory_estimate (update_inventory (-) (Some 32934) example_bot) = int n" "638680 < n + 20"
    "quote_bps 20 (wrap_i64 (int n * 2)) BuySide = 5000" by (auto simp: example_bot_def)
  then show ?thesis by (intro exI [of _ n]) simp
qed

end
