(* ===== verification/Oracle.thy ===== *)
theory Oracle
  imports Startup "HOL-Library.AList"
begin

text \<open>
  The price feed client (\<open>cerdic-tee-matcher/src/oracle.rs\<close>): the retried fetch with its fallback, the
  response of Hermes and what is read from it.  The two transports, JSON and hex decoding are parameters.
\<close>

definition HERMES_BASE_URL :: string where "HERMES_BASE_URL = ''https://hermes.pyth.network''"

text \<open>\<open>BadResponse\<close> stands for all its messages.\<close>

datatype OracleError = Timeout | Request | BadResponse | MissingFeed string

record PythPrice =
  py_price :: int
  py_confidence :: u64
  py_expo :: int
  py_publish_time :: int
  py_ema_price :: int

text \<open>The JSON of a response, its two numeric strings not yet parsed.\<close>

record HermesPrice =
  hp_price :: string
  hp_conf :: string
  hp_expo :: int
  hp_publish_time :: int

record HermesParsedFeed =
  hf_id :: string
  hf_price :: HermesPrice
  hf_ema_price :: HermesPrice

record HermesResponse =
  hr_parsed :: "HermesParsedFeed list"
  hr_binary :: "string list option"

text \<open>Rust's parser of an \<open>i64\<close>.\<close>

definition parse_i64 :: "string \<Rightarrow> int option" where
  "parse_i64 s =
     (let negative = (take 1 s = ''-'');
          digits = (if negative \<or> take 1 s = ''+'' then drop 1 s else s) in
      if digits = [] then None
      else (case read_digits 0 digits of
          Some n \<Rightarrow> let x = (if negative then - int n else int n) in if - (2 ^ 63) \<le> x \<and> x < 2 ^ 63 then Some x else None
        | None \<Rightarrow> None))"

section \<open>Fetching\<close>

definition MAX_ATTEMPTS :: nat where "MAX_ATTEMPTS = 3"

text \<open>
  What the transports do on each attempt: the client cannot be built, fails, answers with a failure status,
  or answers with a body that may fail to arrive; curl cannot be started, fails, or prints a body.
\<close>

datatype Reply = BuildFailed | SendFailed | BadStatus | BodyFailed | Body string
datatype Curl = SpawnFailed | ExitFailure | Printed string

record Transport =
  tp_reqwest :: "nat \<Rightarrow> Reply"
  tp_curl :: "nat \<Rightarrow> Curl"

fun fetch_attempts :: "Transport \<Rightarrow> nat \<Rightarrow> nat \<Rightarrow> OracleError + string" where
  "fetch_attempts T attempt 0 = Inl BadResponse"
| "fetch_attempts T attempt (Suc left) =
     (case tp_reqwest T attempt of
        BuildFailed \<Rightarrow> Inl Request
      | BodyFailed \<Rightarrow> Inl Request
      | Body text \<Rightarrow> Inr text
      | _ \<Rightarrow> (case tp_curl T attempt of
            SpawnFailed \<Rightarrow> Inl BadResponse
          | Printed text \<Rightarrow> Inr text
          | ExitFailure \<Rightarrow> fetch_attempts T (attempt + 1) left))"

definition fetch_hermes_body :: "Transport \<Rightarrow> OracleError + string" where
  "fetch_hermes_body T = fetch_attempts T 1 MAX_ATTEMPTS"

section \<open>Reading a response\<close>

text \<open>A feed whose numbers do not parse makes the whole response malformed, as the derived decoder does.\<close>

definition deserialize_price :: "HermesPrice \<Rightarrow> (int \<times> u64) option" where
  "deserialize_price p = do { price \<leftarrow> parse_i64 (hp_price p); conf \<leftarrow> parse_u64 (hp_conf p); Some (price, conf) }"

fun parse_feeds :: "HermesParsedFeed list \<Rightarrow> (string \<times> PythPrice) list option" where
  "parse_feeds [] = Some []"
| "parse_feeds (f # fs) = do {
     (price, conf) \<leftarrow> deserialize_price (hf_price f);
     (ema_price, _) \<leftarrow> deserialize_price (hf_ema_price f);
     rest \<leftarrow> parse_feeds fs;
     Some ((hf_id f, \<lparr>py_price = price, py_confidence = conf, py_expo = hp_expo (hf_price f),
       py_publish_time = hp_publish_time (hf_price f), py_ema_price = ema_price\<rparr>) # rest)
   }"

definition parse_hermes_response :: "(string \<Rightarrow> HermesResponse option) \<Rightarrow> string \<Rightarrow> OracleError + (string \<rightharpoonup> PythPrice)" where
  "parse_hermes_response from_json body =
     (case Option.bind (from_json body) (\<lambda>r. parse_feeds (hr_parsed r)) of
        None \<Rightarrow> Inl BadResponse | Some feeds \<Rightarrow> Inr (map_of (rev feeds)))"

definition hermes_url :: "string list \<Rightarrow> string" where
  "hermes_url feed_ids = HERMES_BASE_URL @ ''/v2/updates/price/latest?'' @ concat (map (\<lambda>i. ''ids[]='' @ i @ ''&'') feed_ids)"

definition fetch_latest_prices :: "(string \<Rightarrow> Transport) \<Rightarrow> (string \<Rightarrow> HermesResponse option) \<Rightarrow> string list \<Rightarrow> OracleError + (string \<rightharpoonup> PythPrice)" where
  "fetch_latest_prices net from_json feed_ids =
     try_step (fetch_hermes_body (net (hermes_url feed_ids))) (parse_hermes_response from_json)"

definition fetch_price :: "(string \<Rightarrow> Transport) \<Rightarrow> (string \<Rightarrow> HermesResponse option) \<Rightarrow> string \<Rightarrow> OracleError + PythPrice" where
  "fetch_price net from_json feed_id =
     try_step (fetch_latest_prices net from_json [feed_id]) (\<lambda>prices.
       case prices feed_id of Some p \<Rightarrow> Inr p | None \<Rightarrow> Inl (MissingFeed feed_id))"

fun decode_all :: "(string \<Rightarrow> bytes option) \<Rightarrow> string list \<Rightarrow> OracleError + bytes list" where
  "decode_all hex_decode [] = Inr []"
| "decode_all hex_decode (s # ss) = (case hex_decode s of None \<Rightarrow> Inl BadResponse
     | Some bs \<Rightarrow> try_step (decode_all hex_decode ss) (\<lambda>rest. Inr (bs # rest)))"

definition fetch_update_data :: "(string \<Rightarrow> Transport) \<Rightarrow> (string \<Rightarrow> HermesResponse option) \<Rightarrow> (string \<Rightarrow> bytes option) \<Rightarrow>
    string list \<Rightarrow> OracleError + bytes list" where
  "fetch_update_data net from_json hex_decode feed_ids =
     try_step (fetch_hermes_body (net (hermes_url feed_ids))) (\<lambda>body.
       case from_json body of None \<Rightarrow> Inl BadResponse
       | Some r \<Rightarrow> (case parse_feeds (hr_parsed r) of None \<Rightarrow> Inl BadResponse
           | Some _ \<Rightarrow> (case hr_binary r of None \<Rightarrow> Inl BadResponse | Some data \<Rightarrow> decode_all hex_decode data)))"

section \<open>When a fetch succeeds\<close>

text \<open>An attempt passes to the next one only when both transports ran and failed.\<close>

definition retries :: "Transport \<Rightarrow> nat \<Rightarrow> bool" where
  "retries T a \<longleftrightarrow> tp_reqwest T a \<in> {SendFailed, BadStatus} \<and> tp_curl T a = ExitFailure"

definition attempt_body :: "Transport \<Rightarrow> nat \<Rightarrow> string option" where
  "attempt_body T a = (case tp_reqwest T a of Body text \<Rightarrow> Some text
     | BuildFailed \<Rightarrow> None | BodyFailed \<Rightarrow> None
     | _ \<Rightarrow> (case tp_curl T a of Printed text \<Rightarrow> Some text | _ \<Rightarrow> None))"

lemma fetch_attempts_body:
  "fetch_attempts T a n = Inr body \<longleftrightarrow> (\<exists>k < n. (\<forall>j < k. retries T (a + j)) \<and> attempt_body T (a + k) = Some body)"
proof (induction n arbitrary: a)
  case (Suc n)
  have step: "fetch_attempts T a (Suc n) = Inr body \<longleftrightarrow> attempt_body T a = Some body \<or> retries T a \<and> fetch_attempts T (a + 1) n = Inr body"
    by (cases "tp_reqwest T a"; cases "tp_curl T a") (simp_all add: attempt_body_def retries_def)
  show ?case unfolding step Suc.IH Ex_less_Suc2 by (auto simp: All_less_Suc2)
qed simp

text \<open>
  A fetch returns the first body either transport delivers in at most three attempts; an attempt is followed
  by another only when the client got no usable answer and curl ran and failed, so a body lost in transit or
  a curl that cannot be started ends the fetch at once.
\<close>

lemma fetch_hermes_body_iff:
  "fetch_hermes_body T = Inr body \<longleftrightarrow>
     (\<exists>k < 3. (\<forall>j < k. retries T (1 + j)) \<and> attempt_body T (1 + k) = Some body)"
  unfolding fetch_hermes_body_def MAX_ATTEMPTS_def by (rule fetch_attempts_body)

end
