(* ===== verification/Attestation.thy ===== *)
theory Attestation
  imports Startup
begin

text \<open>
  The answer of the attestation launcher (\<open>cerdic-tee-matcher/src/attestation.rs\<close>): the status, the body
  and its chunked framing.  The header parser is a third-party crate and a parameter; trimming is that of
  ASCII text.  The request over the launcher's socket is I/O.
\<close>

datatype AttestationError = NoLauncherSocket | AttestationTimeout | Io | BadHttp | HttpError nat

section \<open>Text\<close>

definition string_of_bytes :: "bytes \<Rightarrow> string" where
  "string_of_bytes bs = map (\<lambda>b. char_of (unat b)) bs"

definition continuation :: "8 word \<Rightarrow> bool" where
  "continuation b \<longleftrightarrow> 128 \<le> b \<and> b < 192"

text \<open>Well-formed UTF-8.\<close>

fun utf8_ok :: "bytes \<Rightarrow> bool" where
  "utf8_ok [] \<longleftrightarrow> True"
| "utf8_ok (a # bs) \<longleftrightarrow>
     (if a < 128 then utf8_ok bs
      else (case bs of
          [] \<Rightarrow> False
        | b # cs \<Rightarrow>
            if 194 \<le> a \<and> a < 224 then continuation b \<and> utf8_ok cs
            else (case cs of
                [] \<Rightarrow> False
              | c # ds \<Rightarrow>
                  if 224 \<le> a \<and> a < 240
                  then continuation b \<and> (a = 224 \<longrightarrow> 160 \<le> b) \<and> (a = 237 \<longrightarrow> b < 160) \<and> continuation c \<and> utf8_ok ds
                  else (case ds of
                      [] \<Rightarrow> False
                    | d # es \<Rightarrow> 240 \<le> a \<and> a \<le> 244 \<and> continuation b \<and> (a = 240 \<longrightarrow> 144 \<le> b) \<and> (a = 244 \<longrightarrow> b < 144) \<and>
                        continuation c \<and> continuation d \<and> utf8_ok es))))"

definition hex_value :: "char \<Rightarrow> nat option" where
  "hex_value c = (let n = of_char c in
     if 48 \<le> n \<and> n \<le> 57 then Some (n - 48)
     else if 97 \<le> n \<and> n \<le> 102 then Some (n - 87)
     else if 65 \<le> n \<and> n \<le> 70 then Some (n - 55) else None)"

fun read_hex :: "nat \<Rightarrow> string \<Rightarrow> nat option" where
  "read_hex n [] = Some n"
| "read_hex n (c # cs) = (case hex_value c of Some d \<Rightarrow> read_hex (16 * n + d) cs | None \<Rightarrow> None)"

text \<open>\<open>usize::from_str_radix\<close> with radix 16.\<close>

definition parse_usize_hex :: "string \<Rightarrow> nat option" where
  "parse_usize_hex s =
     (let digits = (if take 1 s = ''+'' then drop 1 s else s) in
      if digits = [] then None
      else (case read_hex 0 digits of Some n \<Rightarrow> if n < 2 ^ 64 then Some n else None | None \<Rightarrow> None))"

section \<open>Chunks\<close>

fun find_crlf :: "bytes \<Rightarrow> nat option" where
  "find_crlf (a # b # bs) = (if a = 13 \<and> b = 10 then Some 0 else map_option Suc (find_crlf (b # bs)))"
| "find_crlf bs = None"

lemma find_crlf_length: "find_crlf bs = Some i \<Longrightarrow> i + 2 \<le> length bs"
  by (induction bs arbitrary: i rule: find_crlf.induct) (auto split: if_splits)

text \<open>\<open>None\<close> is the panic of a slice beyond its end, which the wrapping check of the length lets through.\<close>

function decode_chunked :: "bytes \<Rightarrow> bytes \<Rightarrow> (AttestationError + bytes) option" where
  "decode_chunked body out =
     (case find_crlf body of
        None \<Rightarrow> Some (Inl BadHttp)
      | Some line_end \<Rightarrow>
          if \<not> utf8_ok (take line_end body) then Some (Inl BadHttp)
          else (case parse_usize_hex (trim (takeWhile (\<lambda>c. c \<noteq> CHR '';'') (string_of_bytes (take line_end body)))) of
              None \<Rightarrow> Some (Inl BadHttp)
            | Some sz \<Rightarrow>
                let body1 = drop (line_end + 2) body in
                if sz = 0 then Some (Inr out)
                else if length body1 < (sz + 2) mod 2 ^ 64 then Some (Inl BadHttp)
                else if length body1 < sz + 2 then None
                else decode_chunked (drop (sz + 2) body1) (out @ take sz body1)))"
  by pat_completeness auto
termination
  by (relation "measure (\<lambda>(body, _). length body)") (auto dest!: find_crlf_length)

declare decode_chunked.simps [simp del]

definition to_lower :: "8 word \<Rightarrow> 8 word" where
  "to_lower b = (if 65 \<le> b \<and> b \<le> 90 then b + 32 else b)"

fun contains_ci :: "bytes \<Rightarrow> bytes \<Rightarrow> bool" where
  "contains_ci [] needle \<longleftrightarrow> needle = []"
| "contains_ci (b # bs) needle \<longleftrightarrow> map to_lower (take (length needle) (b # bs)) = map to_lower needle \<or> contains_ci bs needle"

section \<open>The answer\<close>

text \<open>What the header parser finds: the length of the head, the code and the headers, or an incomplete head.\<close>

record Head =
  hd_length :: nat
  hd_code :: "nat option"
  hd_headers :: "(bytes \<times> bytes) list"

datatype Parsed = Malformed | Incomplete | Complete Head

definition parse_http_response :: "(bytes \<Rightarrow> Parsed) \<Rightarrow> bytes \<Rightarrow> (AttestationError + string) option" where
  "parse_http_response httparse raw =
     (case httparse raw of
        Malformed \<Rightarrow> Some (Inl BadHttp)
      | Incomplete \<Rightarrow> Some (Inl BadHttp)
      | Complete h \<Rightarrow> (case hd_code h of
            None \<Rightarrow> Some (Inl BadHttp)
          | Some code \<Rightarrow>
              if code \<noteq> 200 then Some (Inl (HttpError code))
              else
                let is_chunked = (\<exists>(name, val) \<in> set (hd_headers h).
                      map to_lower name = string_bytes ''transfer-encoding'' \<and> contains_ci val (string_bytes ''chunked''));
                    body = drop (hd_length h) raw in do {
                decoded \<leftarrow> (if is_chunked then decode_chunked body [] else Some (Inr body));
                Some (case decoded of Inl e \<Rightarrow> Inl e
                  | Inr bs \<Rightarrow> if utf8_ok bs then Inr (trim (string_of_bytes bs)) else Inl BadHttp)
              }))"

section \<open>Round trip\<close>

fun hex_digit :: "nat \<Rightarrow> char" where
  "hex_digit d = (if d < 10 then char_of (48 + d) else char_of (87 + d))"

fun to_hex :: "nat \<Rightarrow> string" where
  "to_hex n = (if n < 16 then [hex_digit n] else to_hex (n div 16) @ [hex_digit (n mod 16)])"

declare to_hex.simps [simp del] hex_digit.simps [simp del]

text \<open>A server's framing of a body, with an optional extension on each size line.\<close>

definition frame_chunk :: "string \<Rightarrow> bytes \<Rightarrow> bytes" where
  "frame_chunk ext c = string_bytes (to_hex (length c) @ ext) @ [13, 10] @ c @ [13, 10]"

definition frame_chunks :: "(string \<times> bytes) list \<Rightarrow> bytes" where
  "frame_chunks cs = concat (map (\<lambda>(ext, c). frame_chunk ext c) cs)"

lemma hex_digit_value: "d < 16 \<Longrightarrow> hex_value (hex_digit d) = Some d"
  by (auto simp: hex_digit.simps hex_value_def Let_def)

lemma read_hex_append: "read_hex k (xs @ ys) = Option.bind (read_hex k xs) (\<lambda>m. read_hex m ys)"
  by (induction k xs rule: read_hex.induct) (auto split: option.splits)

lemma read_to_hex: "read_hex 0 (to_hex n) = Some n"
proof (induction n rule: to_hex.induct)
  case (1 n)
  show ?case
  proof (cases "n < 16")
    case True
    then show ?thesis by (subst to_hex.simps) (simp add: hex_digit_value)
  next
    case False
    with 1 show ?thesis by (subst to_hex.simps) (simp add: read_hex_append hex_digit_value)
  qed
qed

text \<open>A size line is made of hex digits, which are ASCII and neither whitespace, a separator nor a line end.\<close>

definition hex_chars :: "string \<Rightarrow> bool" where
  "hex_chars s \<longleftrightarrow> s \<noteq> [] \<and> (\<forall>c \<in> set s. hex_value c \<noteq> None)"

lemma read_hex_chars: "read_hex k s = Some n \<Longrightarrow> \<forall>c \<in> set s. hex_value c \<noteq> None"
  by (induction k s rule: read_hex.induct) (auto split: option.splits)

lemma to_hex_chars: "hex_chars (to_hex n)"
proof -
  have "to_hex n \<noteq> []" by (subst to_hex.simps) simp
  then show ?thesis using read_hex_chars [OF read_to_hex] by (simp add: hex_chars_def)
qed

lemma hex_char_facts:
  assumes "hex_value c \<noteq> None"
  shows "\<not> is_whitespace c" and "c \<noteq> CHR '';''" and "c \<noteq> CHR ''+''" and "(of_char c :: nat) < 128" and "(of_char c :: nat) \<noteq> 13"
proof -
  have n: "48 \<le> (of_char c :: nat) \<and> (of_char c :: nat) \<le> 102"
    using assms by (auto simp: hex_value_def Let_def split: if_splits)
  show "\<not> is_whitespace c" using n by (auto simp: is_whitespace_def)
  show "c \<noteq> CHR ''+''" using n by auto
  show "(of_char c :: nat) < 128" "(of_char c :: nat) \<noteq> 13" using n by auto
  show "c \<noteq> CHR '';''" using assms by (auto simp: hex_value_def Let_def)
qed

lemma find_crlf_line: "13 \<notin> set line \<Longrightarrow> find_crlf (line @ 13 # 10 # rest) = Some (length line)"
proof (induction line)
  case (Cons a line)
  then show ?case by (cases line) auto
qed simp

lemma utf8_ascii: "\<forall>b \<in> set bs. b < 128 \<Longrightarrow> utf8_ok bs"
  by (induction bs) auto

lemma string_bytes_inverse [simp]: "string_of_bytes (string_bytes s) = s"
proof -
  have "unat (of_nat (of_char c) :: 8 word) = of_char c" for c :: char
    by (simp add: unat_of_nat of_char_mod_256)
  then show ?thesis by (simp add: string_of_bytes_def string_bytes_def comp_def)
qed

definition extension_ok :: "string \<Rightarrow> bool" where
  "extension_ok ext \<longleftrightarrow> (ext = [] \<or> hd ext = CHR '';'') \<and> (\<forall>c \<in> set ext. (of_char c :: nat) < 128 \<and> (of_char c :: nat) \<noteq> 13)"

lemma byte_of_char:
  assumes "(of_char c :: nat) < 128" and "(of_char c :: nat) \<noteq> 13"
  shows "(of_nat (of_char c) :: 8 word) < 128" and "(of_nat (of_char c) :: 8 word) \<noteq> 13"
proof -
  have u: "unat (of_nat (of_char c) :: 8 word) = of_char c" using assms(1) by (simp add: unat_of_nat)
  show "(of_nat (of_char c) :: 8 word) < 128" using assms(1) by (simp add: word_less_nat_alt u)
  show "(of_nat (of_char c) :: 8 word) \<noteq> 13"
  proof
    assume "(of_nat (of_char c) :: 8 word) = 13"
    then have "unat (of_nat (of_char c) :: 8 word) = 13" by simp
    with u assms(2) show False by simp
  qed
qed

lemma size_line:
  assumes "extension_ok ext"
  shows "13 \<notin> set (string_bytes (to_hex n @ ext))" and "utf8_ok (string_bytes (to_hex n @ ext))"
    and "trim (takeWhile (\<lambda>c. c \<noteq> CHR '';'') (to_hex n @ ext)) = to_hex n"
proof -
  have h: "hex_chars (to_hex n)" by (rule to_hex_chars)
  have "\<forall>c \<in> set (to_hex n @ ext). (of_char c :: nat) < 128 \<and> (of_char c :: nat) \<noteq> 13"
    using h hex_char_facts(4,5) assms by (auto simp: hex_chars_def extension_ok_def)
  then show "13 \<notin> set (string_bytes (to_hex n @ ext))" "utf8_ok (string_bytes (to_hex n @ ext))"
    using byte_of_char by (auto simp: string_bytes_def intro!: utf8_ascii)
  have "takeWhile (\<lambda>c. c \<noteq> CHR '';'') ext = []" using assms by (cases ext) (auto simp: extension_ok_def)
  then have "takeWhile (\<lambda>c. c \<noteq> CHR '';'') (to_hex n @ ext) = to_hex n"
    using h hex_char_facts(2) by (subst takeWhile_append2) (auto simp: hex_chars_def)
  moreover have "trim (to_hex n) = to_hex n" using h hex_char_facts(1) by (intro trim_clean) (auto simp: hex_chars_def)
  ultimately show "trim (takeWhile (\<lambda>c. c \<noteq> CHR '';'') (to_hex n @ ext)) = to_hex n" by simp
qed

lemma parse_to_hex: "n < 2 ^ 64 \<Longrightarrow> parse_usize_hex (to_hex n) = Some n"
proof -
  assume n: "n < 2 ^ 64"
  have h: "hex_chars (to_hex n)" by (rule to_hex_chars)
  then obtain c s where cs: "to_hex n = c # s" "hex_value c \<noteq> None" by (cases "to_hex n") (auto simp: hex_chars_def)
  then have "take 1 (to_hex n) \<noteq> ''+''" using hex_char_facts(3) by auto
  then show ?thesis using n cs(1) read_to_hex [of n] by (simp add: parse_usize_hex_def)
qed

lemma decode_size:
  assumes "extension_ok ext" and "n < 2 ^ 64"
  shows "decode_chunked (string_bytes (to_hex n @ ext) @ [13, 10] @ body1) out =
    (if n = 0 then Some (Inr out)
     else if length body1 < (n + 2) mod 2 ^ 64 then Some (Inl BadHttp)
     else if length body1 < n + 2 then None
     else decode_chunked (drop (n + 2) body1) (out @ take n body1))"
proof -
  define line where "line = string_bytes (to_hex n @ ext)"
  have crlf: "find_crlf (line @ [13, 10] @ body1) = Some (length line)"
    unfolding append_Cons append_Nil by (intro find_crlf_line) (simp only: line_def size_line(1) [OF assms(1)] not_False_eq_True)
  have parts: "take (length line) (line @ [13, 10] @ body1) = line" "drop (length line + 2) (line @ [13, 10] @ body1) = body1"
    by simp_all
  have content: "utf8_ok line" "parse_usize_hex (trim (takeWhile (\<lambda>c. c \<noteq> CHR '';'') (string_of_bytes line))) = Some n"
    using size_line(2,3) [OF assms(1), of n] parse_to_hex [OF assms(2)] by (simp_all only: line_def string_bytes_inverse)
  show ?thesis unfolding line_def [symmetric]
    by (subst decode_chunked.simps) (simp only: crlf option.case parts content Let_def not_True_eq_False if_False)
qed

lemma decode_frames:
  assumes "\<forall>(ext, c) \<in> set cs. extension_ok ext \<and> c \<noteq> [] \<and> length c < 2 ^ 63"
  shows "decode_chunked (frame_chunks cs @ string_bytes ''0'' @ [13, 10] @ trailer) out = Some (Inr (out @ concat (map snd cs)))"
  using assms
proof (induction cs arbitrary: out)
  case Nil
  have "char_of (48 :: nat) = CHR ''0''" using char_of_char [of "CHR ''0''", where 'a = nat] by simp
  then have "to_hex 0 = ''0''" by (subst to_hex.simps) (simp add: hex_digit.simps)
  with decode_size [of "[]" 0 trailer out] show ?case by (simp add: frame_chunks_def extension_ok_def)
next
  case (Cons x cs)
  obtain ext c where x: "x = (ext, c)" by (cases x)
  define rest where "rest = frame_chunks cs @ string_bytes ''0'' @ [13, 10] @ trailer"
  have c: "extension_ok ext" "c \<noteq> []" "length c < 2 ^ 63" using Cons.prems x by auto
  then have small: "length c < 2 ^ 64" "(length c + 2) mod 2 ^ 64 = length c + 2" by simp_all
  have "frame_chunks (x # cs) @ string_bytes ''0'' @ [13, 10] @ trailer = string_bytes (to_hex (length c) @ ext) @ [13, 10] @ (c @ [13, 10] @ rest)"
    by (simp add: frame_chunks_def frame_chunk_def x rest_def)
  moreover have "decode_chunked (string_bytes (to_hex (length c) @ ext) @ [13, 10] @ (c @ [13, 10] @ rest)) out = decode_chunked rest (out @ c)"
    unfolding decode_size [OF c(1) small(1)] small(2) using c(2) by simp
  moreover have "decode_chunked rest (out @ c) = Some (Inr ((out @ c) @ concat (map snd cs)))"
    unfolding rest_def using Cons.prems by (intro Cons.IH) simp
  ultimately show ?case by (simp add: x)
qed

text \<open>
  C37: Decoding undoes chunked framing: whatever sizes the server cut the body into and whatever extensions it
  wrote on the size lines, the token is the body, and what follows the last chunk is ignored.  A size line
  within two of \<open>2 ^ 64\<close> is no error but a panic, because the check of the remaining length wraps.
\<close>

theorem chunked_framing_round_trip:
  assumes "\<forall>(ext, c) \<in> set cs. extension_ok ext \<and> c \<noteq> [] \<and> length c < 2 ^ 63"
  shows "decode_chunked (frame_chunks cs @ string_bytes ''0'' @ [13, 10] @ trailer) [] = Some (Inr (concat (map snd cs))) \<and>
    (\<forall>k \<in> {1, 2}. 2 \<le> length trailer \<longrightarrow> length trailer < 2 ^ 63 \<longrightarrow>
       decode_chunked (string_bytes (to_hex (2 ^ 64 - k)) @ [13, 10] @ trailer) [] = None)"
proof -
  have "decode_chunked (string_bytes (to_hex (2 ^ 64 - k)) @ [13, 10] @ trailer) [] = None"
    if k: "k \<in> {1, 2}" and len: "2 \<le> length trailer" "length trailer < 2 ^ 63" for k
  proof -
    have "extension_ok []" "2 ^ 64 - k < (2 :: nat) ^ 64" using k by (auto simp: extension_ok_def)
    from decode_size [OF this, of trailer "[]"] k len show ?thesis by auto
  qed
  then show ?thesis using decode_frames [OF assms, of trailer "[]"] by simp
qed

theorem chunked_framing_round_trip_witness:
  "decode_chunked (frame_chunks [('';q=1'', [101, 121]), ([], [74])] @ string_bytes ''0'' @ [13, 10] @ [13, 10]) [] = Some (Inr [101, 121, 74])"
  using chunked_framing_round_trip [of "[('';q=1'', [101, 121]), ([], [74])]" "[13, 10]"] by (simp add: extension_ok_def)

end
