(* ===== verification/Tiny.thy ===== *)
theory Tiny
  imports Startup Mimc
begin

text \<open>
  The shielded prototype (\<open>tiny/\<close>): its MiMC permutation, the note and position circuits
  (\<open>arkworks-prover/src\<close>), the zkVM guest, and the open and close handlers of its enclave
  (\<open>tee/src\<close>).  The field, hashes, ciphers, JSON, hex, base64 and the vault contract are parameters.
\<close>

section \<open>The permutation\<close>

definition TINY_ROUNDS :: nat where "TINY_ROUNDS = 10"

definition tiny_round_constants :: "'f Field \<Rightarrow> 'f list" where
  "tiny_round_constants F = map (\<lambda>i. fd_of_u64 F (of_nat i + 1)) [0..<TINY_ROUNDS]"

fun fd_pow :: "'f Field \<Rightarrow> 'f \<Rightarrow> nat \<Rightarrow> 'f" where
  "fd_pow F x 0 = fd_of_u64 F 1"
| "fd_pow F x (Suc n) = fd_mul F x (fd_pow F x n)"

definition mimc :: "'f Field \<Rightarrow> 'f \<Rightarrow> 'f" where
  "mimc F input = foldl (\<lambda>state c. fd_pow F (fd_add F state c) 5) input (tiny_round_constants F)"

definition mimc_gadget :: "'f Field \<Rightarrow> 'f \<Rightarrow> 'f" where
  "mimc_gadget F input = foldl (\<lambda>state c. let x = fd_add F state c; x2 = fd_mul F x x; x4 = fd_mul F x2 x2 in fd_mul F x4 x)
     input (tiny_round_constants F)"

section \<open>Circuits on assigned values\<close>

definition DENOMINATION :: u64 where "DENOMINATION = 500000000"
definition NULLIFIER_DOMAIN :: u64 where "NULLIFIER_DOMAIN = 0x4e554c4c"

record 'f NoteCircuit =
  nc_secret :: "'f option"
  nc_commitment :: "'f option"
  nc_nullifier :: "'f option"

definition note_empty :: "'f NoteCircuit" where
  "note_empty = \<lparr>nc_secret = None, nc_commitment = None, nc_nullifier = None\<rparr>"

definition note_derive :: "'f Field \<Rightarrow> 'f \<Rightarrow> 'f \<times> 'f" where
  "note_derive F secret = (fd_add F (mimc F secret) (fd_of_u64 F DENOMINATION), mimc F (fd_add F secret (fd_of_u64 F NULLIFIER_DOMAIN)))"

text \<open>\<open>None\<close> is a missing assignment, otherwise whether every constraint is satisfied.\<close>

definition note_constraints :: "'f Field \<Rightarrow> 'f NoteCircuit \<Rightarrow> bool option" where
  "note_constraints F c = do {
     secret \<leftarrow> nc_secret c;
     commitment \<leftarrow> nc_commitment c;
     nullifier \<leftarrow> nc_nullifier c;
     Some (fd_add F (mimc_gadget F secret) (fd_of_u64 F DENOMINATION) = commitment \<and>
       mimc_gadget F (fd_add F secret (fd_of_u64 F NULLIFIER_DOMAIN)) = nullifier)
   }"

definition ROUND_CONSTANTS :: "u64 list" where "ROUND_CONSTANTS = [7, 13, 29]"

record 'f PositionCommitmentCircuit =
  pc_side :: "'f option"
  pc_size :: "'f option"
  pc_entry_price :: "'f option"
  pc_salt :: "'f option"
  pc_commitment :: "'f option"

definition position_empty :: "'f PositionCommitmentCircuit" where
  "position_empty = \<lparr>pc_side = None, pc_size = None, pc_entry_price = None, pc_salt = None, pc_commitment = None\<rparr>"

definition compute_commitment :: "'f Field \<Rightarrow> 'f \<Rightarrow> 'f \<Rightarrow> 'f \<Rightarrow> 'f \<Rightarrow> 'f" where
  "compute_commitment F side sz entry_price salt =
     (let r = map (fd_of_u64 F) ROUND_CONSTANTS;
          h1 = fd_add F (fd_mul F side (r ! 0)) sz;
          h2 = fd_add F (fd_mul F h1 (r ! 1)) entry_price in
      fd_add F (fd_mul F h2 (r ! 2)) salt)"

definition position_constraints :: "'f Field \<Rightarrow> 'f PositionCommitmentCircuit \<Rightarrow> bool option" where
  "position_constraints F c = do {
     side \<leftarrow> pc_side c;
     sz \<leftarrow> pc_size c;
     entry_price \<leftarrow> pc_entry_price c;
     salt \<leftarrow> pc_salt c;
     commitment \<leftarrow> pc_commitment c;
     Some ((side = fd_of_u64 F 0 \<or> side = fd_of_u64 F 1) \<and> sz \<noteq> fd_of_u64 F 0 \<and>
       (let r0 = fd_of_u64 F (ROUND_CONSTANTS ! 0); r1 = fd_of_u64 F (ROUND_CONSTANTS ! 1); r2 = fd_of_u64 F (ROUND_CONSTANTS ! 2);
            h1 = fd_add F (fd_mul F side r0) sz; h2 = fd_add F (fd_mul F h1 r1) entry_price;
            h3 = fd_add F (fd_mul F h2 r2) salt in h3 = commitment))
   }"

text \<open>The guest of the zkVM: \<open>None\<close> is a failed assertion, which leaves no proof.\<close>

record PositionInput =
  pi_side :: "8 word"
  pi_size :: u64
  pi_entry_price :: u64
  pi_salt :: u64

definition guest_main :: "(bytes \<Rightarrow> bytes) \<Rightarrow> PositionInput \<Rightarrow> bytes option" where
  "guest_main sha256 i =
     (if \<not> (pi_side i = 0 \<or> pi_side i = 1) then None
      else if \<not> 0 < pi_size i then None
      else Some (sha256 ([pi_side i] @ be_bytes 8 (pi_size i) @ be_bytes 8 (pi_entry_price i) @ be_bytes 8 (pi_salt i))))"

section \<open>The enclave\<close>

record TinyPayload =
  yp_secret :: string
  yp_side :: string
  yp_size :: string

text \<open>The sealed JSON object; a field is \<open>None\<close> when it is absent or not a string.\<close>

record TinyParams =
  ys_side :: "string option"
  ys_size :: "string option"
  ys_entry_price :: "string option"

datatype PositionStatus = NoPosition | OpenPosition | ClosedPosition

text \<open>
  The libraries and the vault: \<open>ty_open_box\<close> and \<open>ty_cipher_open\<close> fail on a wrong key or a tampered
  text, a submitted call fails or has a transaction hash.
\<close>

record 'f TinyTee =
  ty_field :: "'f Field"
  ty_to_bytes_be :: "'f \<Rightarrow> bytes"
  ty_base64 :: "string \<Rightarrow> bytes option"
  ty_open_box :: "bytes \<Rightarrow> bytes \<Rightarrow> bytes \<Rightarrow> bytes option"
  ty_parse_payload :: "bytes \<Rightarrow> TinyPayload option"
  ty_print_params :: "TinyParams \<Rightarrow> bytes"
  ty_parse_params :: "bytes \<Rightarrow> TinyParams option"
  ty_cipher_seal :: "bytes \<Rightarrow> bytes \<Rightarrow> bytes"
  ty_cipher_open :: "bytes \<Rightarrow> bytes \<Rightarrow> bytes option"
  ty_keccak :: "bytes \<Rightarrow> bytes"
  ty_hex :: "string \<Rightarrow> bytes option"
  ty_address :: "string \<Rightarrow> Address option"
  ty_mock_mark_price :: u64
  ty_open_position :: "bytes \<Rightarrow> bytes \<Rightarrow> bytes \<Rightarrow> bytes \<Rightarrow> Hash option"
  ty_close_position :: "bytes \<Rightarrow> Address \<Rightarrow> int \<Rightarrow> Hash option"
  ty_get_position :: "bytes \<Rightarrow> (bytes \<times> nat \<times> PositionStatus \<times> bytes) option"

datatype TinyError = BadKey | BadNonce | BadCiphertext | Undecryptable | BadPayload | BadSecret | BadHex | WrongCommitment |
  VaultFailed | BadPayout | NotOpen | Unsealable | BadParams

definition box_public_from_b64 :: "'f TinyTee \<Rightarrow> string \<Rightarrow> bytes option" where
  "box_public_from_b64 T s = (case ty_base64 T s of Some bs \<Rightarrow> if length bs = 32 then Some bs else None | None \<Rightarrow> None)"

text \<open>The outer \<open>None\<close> is a panic: a nonce of another length than 24 bytes.\<close>

definition decrypt_order :: "'f TinyTee \<Rightarrow> string \<Rightarrow> string \<Rightarrow> string \<Rightarrow> (TinyError + bytes) option" where
  "decrypt_order T sender_public_b64 nonce_b64 ciphertext_b64 =
     (case box_public_from_b64 T sender_public_b64 of None \<Rightarrow> Some (Inl BadKey)
      | Some sender_public \<Rightarrow> (case ty_base64 T nonce_b64 of None \<Rightarrow> Some (Inl BadNonce)
        | Some nonce \<Rightarrow> (case ty_base64 T ciphertext_b64 of None \<Rightarrow> Some (Inl BadCiphertext)
          | Some ciphertext \<Rightarrow>
              if length nonce \<noteq> 24 then None
              else Some (case ty_open_box T sender_public nonce ciphertext of Some pt \<Rightarrow> Inr pt | None \<Rightarrow> Inl Undecryptable))))"

definition tiny_seal_params :: "'f TinyTee \<Rightarrow> bytes \<Rightarrow> bytes \<Rightarrow> bytes" where
  "tiny_seal_params T nonce plaintext = nonce @ ty_cipher_seal T nonce plaintext"

definition tiny_unseal_params :: "'f TinyTee \<Rightarrow> bytes \<Rightarrow> bytes option" where
  "tiny_unseal_params T sealed = (if length sealed > 24 then ty_cipher_open T (take 24 sealed) (drop 24 sealed) else None)"

fun trim_start_0x :: "string \<Rightarrow> string" where
  "trim_start_0x (a # b # s) = (if a = CHR ''0'' \<and> b = CHR ''x'' then trim_start_0x s else a # b # s)"
| "trim_start_0x s = s"

definition hex_to_bytes32 :: "'f TinyTee \<Rightarrow> string \<Rightarrow> bytes option" where
  "hex_to_bytes32 T s = (case ty_hex T (trim_start_0x s) of Some bs \<Rightarrow> if length bs = 32 then Some bs else None | None \<Rightarrow> None)"

text \<open>A representation of more than 32 bytes would panic; the field's has 32.\<close>

definition fr_to_bytes32 :: "'f TinyTee \<Rightarrow> 'f \<Rightarrow> bytes option" where
  "fr_to_bytes32 T f = (let be = ty_to_bytes_be T f in if 32 < length be then None else Some (replicate (32 - length be) 0 @ be))"

record OpenRequest =
  yo_commitment :: string
  yo_sender_public_key :: string
  yo_nonce :: string
  yo_ciphertext :: string

definition handle_open :: "'f TinyTee \<Rightarrow> bytes \<Rightarrow> bytes \<Rightarrow> OpenRequest \<Rightarrow> (TinyError + bytes \<times> Hash) option" where
  "handle_open T seal_nonce rng_bytes req = do {
     decrypted \<leftarrow> decrypt_order T (yo_sender_public_key req) (yo_nonce req) (yo_ciphertext req);
     case decrypted of Inl e \<Rightarrow> Some (Inl e) | Inr plaintext \<Rightarrow>
     (case ty_parse_payload T plaintext of None \<Rightarrow> Some (Inl BadPayload) | Some payload \<Rightarrow>
     (case parse_u64 (yp_secret payload) of None \<Rightarrow> Some (Inl BadSecret) | Some secret \<Rightarrow>
       let (commitment_fr, nullifier_fr) = note_derive (ty_field T) (fd_of_u64 (ty_field T) secret) in do {
       commitment_computed \<leftarrow> fr_to_bytes32 T commitment_fr;
       nullifier \<leftarrow> fr_to_bytes32 T nullifier_fr;
       case hex_to_bytes32 T (yo_commitment req) of None \<Rightarrow> Some (Inl BadHex) | Some commitment_claimed \<Rightarrow>
       if commitment_computed \<noteq> commitment_claimed then Some (Inl WrongCommitment)
       else
         let entry_price = ty_mock_mark_price T;
             sealed_plaintext = ty_print_params T \<lparr>ys_side = Some (yp_side payload), ys_size = Some (yp_size payload),
                 ys_entry_price = Some (decimal (unat entry_price))\<rparr>;
             sealed_params = tiny_seal_params T seal_nonce sealed_plaintext;
             position_id = ty_keccak T (commitment_computed @ nullifier @ rng_bytes) in
         Some (case ty_open_position T position_id commitment_computed nullifier sealed_params of
             None \<Rightarrow> Inl VaultFailed | Some tx_hash \<Rightarrow> Inr (position_id, tx_hash))
     }))
   }"

definition parse_u128 :: "string \<Rightarrow> nat option" where
  "parse_u128 s =
     (let digits = (if take 1 s = ''+'' then drop 1 s else s) in
      if digits = [] then None
      else (case read_digits 0 digits of Some n \<Rightarrow> if n < 2 ^ 128 then Some n else None | None \<Rightarrow> None))"

text \<open>The result of a position; \<open>None\<close> is the panic of a division by zero or of its overflow.\<close>

definition settlement_delta :: "u64 \<Rightarrow> string \<Rightarrow> nat \<Rightarrow> nat \<Rightarrow> int option" where
  "settlement_delta mark side sz entry_price =
     (let entry = wrap_i128 (int entry_price);
          price_delta = wrap_i128 (int (unat mark) - entry);
          signed_delta = (if side = ''long'' then price_delta else wrap_i128 (- price_delta));
          product = wrap_i128 (signed_delta * wrap_i128 (int sz)) in
      if entry = 0 \<or> product = - (2 ^ 127) \<and> entry = - 1 then None else Some (trunc_div product entry))"

text \<open>The answer carries the hash and the result; the call that was submitted is part of the value.\<close>

definition handle_close :: "'f TinyTee \<Rightarrow> string \<Rightarrow> string \<Rightarrow> (TinyError + (bytes \<times> Address \<times> int) \<times> Hash option) option" where
  "handle_close T position_id payout_address =
     (case hex_to_bytes32 T position_id of None \<Rightarrow> Some (Inl BadHex) | Some pid \<Rightarrow>
     (case ty_address T payout_address of None \<Rightarrow> Some (Inl BadPayout) | Some payout \<Rightarrow>
     (case ty_get_position T pid of None \<Rightarrow> Some (Inl VaultFailed) | Some (_, collateral, status, sealed_params) \<Rightarrow>
       if status \<noteq> OpenPosition then Some (Inl NotOpen)
       else (case tiny_unseal_params T sealed_params of None \<Rightarrow> Some (Inl Unsealable) | Some plaintext \<Rightarrow>
       (case ty_parse_params T plaintext of None \<Rightarrow> Some (Inl BadParams) | Some params \<Rightarrow>
       (case (ys_side params, Option.bind (ys_size params) parse_u128, Option.bind (ys_entry_price params) parse_u128) of
          (Some side, Some sz, Some entry_price) \<Rightarrow> do {
            delta \<leftarrow> settlement_delta (ty_mock_mark_price T) side sz entry_price;
            Some (Inr ((pid, payout, delta), ty_close_position T pid payout delta))
          }
        | _ \<Rightarrow> Some (Inl BadParams)))))))"

section \<open>The circuits\<close>

lemma mimc_gadget_computes:
  assumes F: "field_ok F v"
  shows "mimc_gadget F x = mimc F x"
proof -
  have comm: "fd_mul F a b = fd_mul F b a" and one: "fd_mul F a (fd_of_u64 F 1) = a" for a b
    using field_okD(2) [OF F, of a] by (simp_all add: field_okD(1) [OF F, symmetric] field_okD(3,5) [OF F] mult.commute)
  have "fd_pow F y 5 = fd_mul F (fd_mul F (fd_mul F (fd_mul F y y) y) y) y" for y
    by (simp add: eval_nat_numeral one) (metis comm)
  then have "fd_mul F (fd_mul F (fd_mul F y y) (fd_mul F y y)) y = fd_pow F y 5" for y
    by (simp only: fifth_power [OF F])
  then show ?thesis by (simp add: mimc_gadget_def mimc_def Let_def)
qed

lemma note_circuit_exact:
  assumes "field_ok F v"
  shows "note_constraints F \<lparr>nc_secret = Some x, nc_commitment = Some c, nc_nullifier = Some n\<rparr> = Some ((c, n) = note_derive F x)"
  by (auto simp: note_constraints_def note_derive_def mimc_gadget_computes [OF assms])

lemma position_circuit_exact:
  "position_constraints F \<lparr>pc_side = Some side, pc_size = Some sz, pc_entry_price = Some e, pc_salt = Some s, pc_commitment = Some c\<rparr> =
     Some (side \<in> {fd_of_u64 F 0, fd_of_u64 F 1} \<and> sz \<noteq> fd_of_u64 F 0 \<and> c = compute_commitment F side sz e s)"
  by (auto simp: position_constraints_def compute_commitment_def ROUND_CONSTANTS_def Let_def)

section \<open>Closing\<close>

lemma read_digits_append: "read_digits k (xs @ ys) = Option.bind (read_digits k xs) (\<lambda>m. read_digits m ys)"
  by (induction k xs rule: read_digits.induct) (auto split: option.splits)

lemma digit_value_char: "n < 10 \<Longrightarrow> digit_value (char_of (48 + n)) = Some n"
  by (simp add: digit_value_def)

lemma read_decimal: "read_digits 0 (decimal n) = Some n"
proof (induction n rule: decimal.induct)
  case (1 n)
  show ?case
  proof (cases "n < 10")
    case True
    then show ?thesis by (subst decimal.simps) (simp add: digit_value_char)
  next
    case False
    with 1 show ?thesis by (subst decimal.simps) (simp add: read_digits_append digit_value_char)
  qed
qed

lemma parse_decimal: "n < 2 ^ 128 \<Longrightarrow> parse_u128 (decimal n) = Some n"
proof -
  assume n: "n < 2 ^ 128"
  have "decimal n \<noteq> []" by (subst decimal.simps) simp
  moreover have "take 1 (decimal n) \<noteq> ''+''"
  proof
    assume "take 1 (decimal n) = ''+''"
    then obtain s where "decimal n = CHR ''+'' # s" by (cases "decimal n") auto
    then show False using read_decimal [of n] by (simp add: digit_value_def)
  qed
  ultimately show ?thesis using n read_decimal [of n] by (simp add: parse_u128_def)
qed

lemma wrap_i128_mult: "wrap_i128 (d * wrap_i128 x) = wrap_i128 (d * x)"
proof -
  define y k where "y = wrap_i128 x" and "k = (x + 2 ^ 127) div 2 ^ 128"
  have "x + 2 ^ 127 = 2 ^ 128 * k + (x + 2 ^ 127) mod 2 ^ 128" by (simp only: k_def mult_div_mod_eq)
  then have x: "x = y + 2 ^ 128 * k" unfolding y_def wrap_i128_def by linarith
  have "d * x + 2 ^ 127 = d * y + 2 ^ 127 + 2 ^ 128 * (d * k)" unfolding x by (simp only: distrib_left ac_simps)
  then have "wrap_i128 (d * x) = wrap_i128 (d * y)" by (simp only: wrap_i128_def mod_mult_self2)
  then show ?thesis by (simp only: y_def)
qed

lemma settlement_wraps:
  fixes entry :: u64
  assumes "0 < unat entry"
  shows "settlement_delta mark side sz (unat entry) = Some (trunc_div (wrap_i128
    ((if side = ''long'' then int (unat mark) - int (unat entry) else int (unat entry) - int (unat mark)) * int sz)) (int (unat entry)))"
proof -
  define m e where "m = unat mark" and "e = unat entry"
  have b: "m < 2 ^ 64" "e < 2 ^ 64" "0 < e" using assms(1) unfolding m_def e_def by (simp_all only: unat_u64_less)
  have w: "wrap_i128 (int e) = int e" "wrap_i128 (int m - int e) = int m - int e"
    "wrap_i128 (- (int m - int e)) = int e - int m"
    using b by (auto simp: in_i128_def intro!: trans [OF wrap_i128_id])
  show ?thesis unfolding settlement_delta_def Let_def m_def [symmetric] e_def [symmetric] w wrap_i128_mult
    using b(3) by auto
qed

text \<open>What the libraries promise of a sealed position: decryption and parsing invert sealing and printing.\<close>

definition sealed_as :: "'f TinyTee \<Rightarrow> bytes \<Rightarrow> string \<Rightarrow> string \<Rightarrow> u64 \<Rightarrow> bool" where
  "sealed_as T sealed side sz entry \<longleftrightarrow>
     (let params = \<lparr>ys_side = Some side, ys_size = Some sz, ys_entry_price = Some (decimal (unat entry))\<rparr>;
          pt = ty_print_params T params in
      ty_parse_params T pt = Some params \<and>
      (\<exists>nonce. length nonce = 24 \<and> sealed = tiny_seal_params T nonce pt \<and>
         ty_cipher_seal T nonce pt \<noteq> [] \<and> ty_cipher_open T nonce (ty_cipher_seal T nonce pt) = Some pt))"

lemma unsealed:
  assumes "sealed_as T sealed side sz entry"
  shows "\<exists>pt. tiny_unseal_params T sealed = Some pt \<and>
    ty_parse_params T pt = Some \<lparr>ys_side = Some side, ys_size = Some sz, ys_entry_price = Some (decimal (unat entry))\<rparr>"
  using assms by (auto simp: sealed_as_def Let_def tiny_unseal_params_def tiny_seal_params_def)

text \<open>
  C29: Closing a position of the prototype needs nothing but its public identifier: for an open position the
  enclave sealed, a request of anyone with any payout address is submitted to the vault with that address.
  The amount is the quotient by the entry price of the product of price difference and size, wrapped to 128
  bits: it is the exact result of the position at the mark price when the product is in range, and an amount
  without relation to it, which can have the other sign, for a larger size.  A size that is not a decimal
  number below \<open>2 ^ 128\<close>, which opening accepts too, makes the position impossible to close for everyone.
\<close>

theorem tiny_close_pays_whoever_asks:
  assumes "hex_to_bytes32 T position_id = Some pid" and "ty_address T payout_address = Some payout"
    and "ty_get_position T pid = Some (nullifier, collateral, OpenPosition, sealed)"
    and "sealed_as T sealed side sz entry" and "0 < unat entry"
  shows "case parse_u128 sz of
      None \<Rightarrow> handle_close T position_id payout_address = Some (Inl BadParams)
    | Some n \<Rightarrow>
        (let result = (if side = ''long'' then int (unat (ty_mock_mark_price T)) - int (unat entry)
               else int (unat entry) - int (unat (ty_mock_mark_price T))) * int n;
             delta = trunc_div (wrap_i128 result) (int (unat entry)) in
         handle_close T position_id payout_address = Some (Inr ((pid, payout, delta), ty_close_position T pid payout delta)) \<and>
         (in_i128 result \<longrightarrow> delta = trunc_div result (int (unat entry))))"
proof -
  obtain pt where pt: "tiny_unseal_params T sealed = Some pt"
    "ty_parse_params T pt = Some \<lparr>ys_side = Some side, ys_size = Some sz, ys_entry_price = Some (decimal (unat entry))\<rparr>"
    using unsealed [OF assms(4)] by blast
  have "unat entry < 2 ^ 64" by (rule unat_u64_less)
  then have e: "parse_u128 (decimal (unat entry)) = Some (unat entry)" by (intro parse_decimal) simp
  show ?thesis
  proof (cases "parse_u128 sz")
    case None
    then show ?thesis by (simp add: handle_close_def assms(1-3) pt e)
  next
    case (Some n)
    then show ?thesis using settlement_wraps [OF assms(5), of "ty_mock_mark_price T" side n]
      by (simp add: handle_close_def assms(1-3) pt e Let_def wrap_i128_id)
  qed
qed

definition example_params :: "string \<Rightarrow> TinyParams" where
  "example_params sz = \<lparr>ys_side = Some ''long'', ys_size = Some sz, ys_entry_price = Some (decimal 65000)\<rparr>"

definition example_tee :: "string \<Rightarrow> fr TinyTee" where
  "example_tee sz = \<lparr>ty_field = bn254, ty_to_bytes_be = (\<lambda>_. replicate 32 0), ty_base64 = (\<lambda>_. None), ty_open_box = (\<lambda>_ _ _. None),
     ty_parse_payload = (\<lambda>_. None), ty_print_params = (\<lambda>_. [1]), ty_parse_params = (\<lambda>_. Some (example_params sz)),
     ty_cipher_seal = (\<lambda>_ pt. pt), ty_cipher_open = (\<lambda>_ ct. Some ct), ty_keccak = id, ty_hex = (\<lambda>_. Some (replicate 32 7)),
     ty_address = (\<lambda>s. if s = ''mallory'' then Some 66 else None), ty_mock_mark_price = 65650,
     ty_open_position = (\<lambda>_ _ _ _. None), ty_close_position = (\<lambda>_ _ _. Some 1),
     ty_get_position = (\<lambda>_. Some ([], 500, OpenPosition, replicate 24 0 @ [1]))\<rparr>"

lemma example_close:
  assumes "parse_u128 sz = Some n"
  shows "hex_to_bytes32 (example_tee sz) ''77'' = Some (replicate 32 7)" and "ty_address (example_tee sz) ''mallory'' = Some 66"
    and "ty_get_position (example_tee sz) (replicate 32 7) = Some ([], 500, OpenPosition, replicate 24 0 @ [1])"
    and "sealed_as (example_tee sz) (replicate 24 0 @ [1]) ''long'' sz 65000" and "0 < unat (65000 :: u64)"
  by (simp_all add: hex_to_bytes32_def example_tee_def sealed_as_def Let_def example_params_def tiny_seal_params_def
      exI [of _ "replicate 24 0"])

text \<open>A gain of one percent on a size of 300, and on one large enough to be settled as a loss.\<close>

theorem tiny_close_pays_whoever_asks_witness:
  "handle_close (example_tee ''300'') ''77'' ''mallory'' = Some (Inr ((replicate 32 7, 66, 3), Some 1)) \<and>
   handle_close (example_tee ''261755666862260356510288159562898625'') ''77'' ''mallory'' =
     Some (Inr ((replicate 32 7, 66, -2617556668622603565102881595628986), Some 1))"
proof
  have sz: "parse_u128 ''300'' = Some 300" by (simp add: parse_u128_def digit_value_def)
  have "trunc_div (wrap_i128 195000) 65000 = 3" by (simp add: wrap_i128_def trunc_div_def)
  with tiny_close_pays_whoever_asks [OF example_close [OF sz]] sz
  show "handle_close (example_tee ''300'') ''77'' ''mallory'' = Some (Inr ((replicate 32 7, 66, 3), Some 1))"
    by (simp add: example_tee_def Let_def)
next
  have sz: "parse_u128 ''261755666862260356510288159562898625'' = Some 261755666862260356510288159562898625"
    by (simp add: parse_u128_def digit_value_def)
  have "trunc_div (wrap_i128 170141183460469231731687303715884106250) 65000 = -2617556668622603565102881595628986"
    by (simp add: wrap_i128_def trunc_div_def)
  with tiny_close_pays_whoever_asks [OF example_close [OF sz]] sz
  show "handle_close (example_tee ''261755666862260356510288159562898625'') ''77'' ''mallory'' =
     Some (Inr ((replicate 32 7, 66, -2617556668622603565102881595628986), Some 1))"
    by (simp add: example_tee_def Let_def)
qed

end
