(* ===== verification/Spec2Isabelle.thy ===== *)
theory Spec2Isabelle
  imports Book_Properties Clob_Properties Risk_Properties Backstop_Maker_Properties Backstop_Properties Fees
    Market_Hours Market_Data Position_Properties Wire Engine_Properties Recovery
    Settlement_Consistency Liquidation_Safety Margin_Circuit Proof_Properties Query_Properties
    Liquidation_Rounds Startup Keeper Maker_Bot Oracle Attestation Tiny
begin

text \<open>
  A verification of the Cerdic derivatives venue: the order books, the matching enclave around them, its
  risk and liquidation arithmetic, the settlement client, the correctness circuits, and the processes that
  run beside it.  The Rust sources are under \<open>src/\<close>; below, \<open>tee/\<close> stands for
  \<open>crates/cerdic-tee-matcher/src/\<close>.

  \<^bold>\<open>The program.\<close>  Traders send signed, encrypted requests to the enclave
  (\<open>tee/api.rs\<close>).  It authenticates them, admits them (nonce, tick, collateral gate), matches
  them on the book of their market (\<open>tee/book.rs\<close>), offers what stays unserved to a backstop
  maker (\<open>tee/backstop.rs\<close>), folds the fills into the sealed positions of both sides, and
  submits one settlement call to the market's contract (\<open>tee/settle.rs\<close>).  Anyone may ask it to
  check or liquidate a portfolio (\<open>crates/risk\<close>).  Large fills are proved in batches
  (\<open>tee/proof.rs\<close>, \<open>crates/zk-circuits\<close>).  State that must survive is saved
  (\<open>tee/persistence.rs\<close>) and the secrets are recovered from a key service
  (\<open>tee/kms.rs\<close>).  A keeper and a market maker are separate processes (\<open>tee/bin\<close>).
  \<open>crates/clob\<close> is a second, public order book, and \<open>tiny/\<close> is an earlier shielded
  prototype.

  \<^bold>\<open>Theories and sources.\<close>
  \<^item> \<open>Prelude\<close>, \<open>Results\<close>: machine integers, vectors that can panic,
    results; conventions for the whole development.  \<open>Common_Types\<close>:
    \<open>crates/common/src/types.rs\<close>.
  \<^item> \<open>Occupancy\<close>, \<open>Ladder\<close>, \<open>Book\<close>: \<open>tee/book.rs\<close>,
    bitmap, price ladder and arena book as written.  \<open>Book_Spec\<close> is the contract, one list per
    side in price-time priority; \<open>Book_Refinement\<close>, \<open>Book_Simulation\<close>,
    \<open>Book_Match\<close> and \<open>Book_Correct\<close> prove the simulation (locale
    \<open>list_book_implementation\<close>, interpreted on the arena book), \<open>Book_View\<close> reads
    a book as the map from its ids to the orders they rest for, \<open>Book_Properties\<close> is what
    follows for users, \<open>Book_Use\<close> what the engine needs.
  \<^item> \<open>Btree\<close>, \<open>Clob\<close>: \<open>crates/clob/src/lib.rs\<close>;
    \<open>Clob_Correct\<close>, \<open>Clob_Lifecycle\<close>, \<open>Clob_Properties\<close> prove its
    refinement of a priority queue, its index and its exceptions.
  \<^item> \<open>Risk\<close>, \<open>Risk_Properties\<close>: \<open>crates/risk/src/lib.rs\<close>, exact
    and margin arithmetic; \<open>Backstop_Maker\<close>, \<open>Backstop_Maker_Properties\<close>:
    \<open>crates/risk/src/backstop_maker.rs\<close>.
  \<^item> \<open>Backstop\<close>, \<open>Fees\<close>, \<open>Market_Hours\<close>,
    \<open>Market_Data\<close>: the files of the same names under \<open>tee/\<close>, with
    \<open>Backstop_Properties\<close>.
  \<^item> \<open>Position\<close>, \<open>Position_Properties\<close>: margin formulas and the folding of
    fills of \<open>tee/api.rs\<close>. \<open>Wire\<close>: signed payloads, identifiers and authentication
    (\<open>tee/api.rs\<close>, \<open>tee/decrypt.rs\<close>).
  \<^item> \<open>Engine_State\<close> (the record \<open>AppState\<close>), \<open>Position_Store\<close>
    (the cache before the chain, locale \<open>position_cache\<close>), \<open>Collateral_Gate\<close>,
    \<open>Order_Entry\<close> (\<open>post_order\<close>, \<open>post_offer\<close>,
    \<open>post_cancel\<close>, portfolio keys): the handlers of \<open>tee/api.rs\<close>, one function
    each. \<open>Replay_Protection\<close>, \<open>Engine_Safety\<close>, \<open>Engine_Properties\<close>
    and \<open>Rescue\<close> hold their invariants: nonces, absence of panics, ownership, quantity.
  \<^item> \<open>Settlement\<close>, \<open>Settlement_Properties\<close>,
    \<open>Settlement_Consistency\<close>: \<open>tee/settle.rs\<close> and what the engine does with its
    outcomes.  \<open>Liquidation\<close>, \<open>Liquidation_Properties\<close>,
    \<open>Liquidation_Safety\<close>, \<open>Liquidation_Rounds\<close>: margin checks, attestation, the
    settlement task of an order with the attestations it ends in (\<open>settle_in_background\<close>),
    sizing and the liquidation handler of \<open>tee/api.rs\<close>; \<open>liquidation_rounds\<close>
    iterates that sizing for a theorem and is no function of the program.
  \<^item> \<open>Recovery\<close>: \<open>tee/kms.rs\<close> and \<open>tee/persistence.rs\<close>.
    \<open>Startup\<close>: \<open>tee/main.rs\<close>. \<open>Queries\<close>,
    \<open>Query_Properties\<close>: the reads of \<open>tee/api.rs\<close> and the debug seeding.
    \<open>Oracle\<close>: \<open>tee/oracle.rs\<close>.  \<open>Attestation\<close>: the answers read by
    \<open>tee/attestation.rs\<close>.
  \<^item> \<open>Mimc\<close>, \<open>Circuits\<close>, \<open>Circuit_Properties\<close>,
    \<open>Margin_Circuit\<close>: \<open>crates/zk-circuits/src\<close>; \<open>Proofs\<close>,
    \<open>Proof_Properties\<close>: \<open>tee/proof.rs\<close> and the proof tasks of
    \<open>post_order\<close>.
  \<^item> \<open>Keeper\<close>: \<open>tee/bin/keeper_liquidator.rs\<close>.  \<open>Maker_Bot\<close>:
    \<open>tee/bin/market_maker.rs\<close>. \<open>Tiny\<close>: \<open>tiny/tee\<close>,
    \<open>tiny/arkworks-prover\<close> and the zkVM guest.

  \<^bold>\<open>State and steps.\<close>  A Rust struct is a record with prefixed fields, an enum a
  datatype, a method that changes state a function that returns the new state.  A map that is only read and
  written by key is a partial map; one that is iterated, or whose order is visible, is an association list.
  Each handler is one uninterrupted step: it takes the state before and returns the answer, the calls sent
  and the state after, and the theorems on sequences of requests speak of handlers that run one after the
  other.  The program holds a lock per access only.  \<open>post_offer\<close> and
  \<open>post_cancel\<close> touch the books in one critical section; an order touches them in two, the
  submission and the cancel of a rescued remainder, and folds its fills in sections of one position each, so
  concurrent orders can interleave there in ways the step does not show.
  \<open>rescue_does_not_look_at_book\<close> in \<open>Rescue\<close> says what the first of these gaps
  permits.  The settlement task runs after the answer; \<open>Settlement_Consistency\<close> takes it on the
  state its order left.  A panic is the value \<open>None\<close>.

  \<^bold>\<open>What the theorems show.\<close>  Books: the arena book refines the list book over all
  histories, never crosses, conserves quantity and fills in priority; fill-or-kill and post-only keep their
  promises, with what they leave in the book stated in full; the order book response shows the book; the
  bitmap searches equal linear scans.  Engine: no sequence of sized requests panics from any well-formed
  state, every boot yields such a state, accepted nonces increase over requests and over restarts up to the
  last save, an order's quantity is accounted for over book and backstop, and after its settlement task the
  engine reads the positions that were sealed or the chain.  Liquidation: nothing is sent for a healthy
  portfolio, what is closed is enough at the prices read and the collateral before, which a position that
  loses enough undoes at once, and repeated sizing ends with no position.  Proofs: the circuits accept
  exactly the intended openings within stated bounds.  Processes: configuration is read back as written, the
  secrets of all boots are those of the first that succeeded, a restart resumes exactly what was saved, the
  keeper's index is exact and catches up on a node that answers ten blocks at a time, and the market maker
  replaces its ladder.  Several theorems state defects: requests that panic, limits and collateral that are
  not looked at, arithmetic that wraps, closes that anyone can ask for.

  \<^bold>\<open>Bounds and recursion.\<close>  \<open>NIL\<close>, \<open>2 ^ 32 - 1\<close>, bounds the
  slots of a book's arena and hence the requests of a run; ticks are below \<open>MAX_SANE_TICK\<close>.
  The margin theorems take sizes below \<open>2 ^ 64\<close>, prices below \<open>2 ^ 40\<close> and
  collateral below \<open>2 ^ 100\<close>, the range of the wire, in which no product leaves 256 bits.  The
  walks along the links of a book are partial functions, which the refinement proves to return on every
  reachable book; all other recursion is total: the matching loop decreases the live slots of the book, the
  walk of a seeded history its time, padding the free slots, fetching the attempts left.  There is no fuel.
  \<open>MAX_ROUNDS\<close>, 648, is seven rounds for each of 56 halvings of a size below \<open>2 ^
  64\<close> down to 256 and one for each unit from there.

  \<^bold>\<open>Parameters.\<close>  Code outside the repository is an argument: \<open>Host\<close>
  (keccak, sealing, 256-bit arithmetic, reads of the chain, prices), \<open>Chain\<close> (encoding and
  sending calls), \<open>Field\<close> and \<open>Groth16\<close> (arkworks), \<open>Boot\<close> (key
  service and bucket), \<open>Json\<close>, \<open>Environment\<close>, \<open>Node\<close>,
  \<open>Matcher\<close>, \<open>Cycle\<close>, \<open>TinyTee\<close>.  What a theorem assumes of them is a
  named hypothesis (\<open>u256_ok\<close>, \<open>i256_ok\<close>, \<open>field_ok\<close>,
  \<open>groth16_ok\<close>, \<open>services_ok\<close>, \<open>node_up\<close>, \<open>sealed_as\<close>)
  stating their documented behaviour: a bucket keeps what was put last and any call may fail, a node rejects
  a query for the logs of more than ten blocks, and every such theorem has a witness on concrete functions.

  \<^bold>\<open>Not modelled.\<close>  Floating point: the accrual of funding,
  \<open>pyth_price_to_tick\<close>, the volatility and jitter of the market maker; their results enter as
  integers.  Timers, tasks and locks: the loops of \<open>tee/main.rs\<close> appear as their steps.  HTTP,
  JSON rendering, websockets, logging, the socket of the launcher, the envelope key pair, RPC and signing.
  Allocation failure and the poisoning of mutexes.  The setup mode of the circuits.  The development scripts
  and sample clients, the price pusher, the command-line tools of the prototype.  The Solidity contracts,
  which are another language; what the Rust code relies on of them is stated at the parameters.
\<close>

end
